(* ===== verification/Prelude.thy ===== *)
theory Prelude
  imports Main "HOL-Library.List_Lexorder" "HOL-Library.Char_ord" "HOL-Library.Multiset"
begin

text \<open>
  Vocabulary shared by every component: Go strings and the functions of package
  \<open>strings\<close> the sources call, the two recurring loop shapes of the code base (collecting
  elements under a \<open>seen\<close> map, sorting with a comparison closure), and the generic
  lemmas about them. Go strings are byte strings, compared byte by byte; here they are lists of
  \<open>char\<close> under the lexicographic order of \<open>List_Lexorder\<close>, which is the same order.
\<close>

named_theorems go_simps "unfolding equations of modelled library functions"

section \<open>Strings\<close>

text \<open>\<open>strings.Join\<close>.\<close>

fun join :: "string \<Rightarrow> string list \<Rightarrow> string" where
  "join sep [] = []"
| "join sep [x] = x"
| "join sep (x # y # ys) = x @ sep @ join sep (y # ys)"

text \<open>\<open>strings.HasPrefix\<close>, \<open>TrimPrefix\<close>, \<open>HasSuffix\<close> and \<open>CutSuffix\<close>.\<close>

definition hasPrefix :: "string \<Rightarrow> string \<Rightarrow> bool" where
  "hasPrefix s p \<longleftrightarrow> take (length p) s = p"

definition trimPrefix :: "string \<Rightarrow> string \<Rightarrow> string" where
  "trimPrefix s p = (if hasPrefix s p then drop (length p) s else s)"

definition hasSuffix :: "string \<Rightarrow> string \<Rightarrow> bool" where
  "hasSuffix s p \<longleftrightarrow> length p \<le> length s \<and> drop (length s - length p) s = p"

definition cutSuffix :: "string \<Rightarrow> string \<Rightarrow> string \<times> bool" where
  "cutSuffix s p = (if hasSuffix s p then (take (length s - length p) s, True) else (s, False))"

text \<open>
  \<open>strings.ToLower\<close>, \<open>TrimSpace\<close> and \<open>EqualFold\<close> on ASCII text, the only text
  device configurations of the supported vendors use for the keywords compared this way.
\<close>

definition lowerChar :: "char \<Rightarrow> char" where
  "lowerChar c = (let n = of_char c :: nat in if 65 \<le> n \<and> n \<le> 90 then char_of (n + 32) else c)"

definition toLower :: "string \<Rightarrow> string" where
  "toLower s = map lowerChar s"

definition isSpace :: "char \<Rightarrow> bool" where
  "isSpace c \<longleftrightarrow> (let n = of_char c :: nat in n = 32 \<or> (9 \<le> n \<and> n \<le> 13))"

definition trimSpace :: "string \<Rightarrow> string" where
  "trimSpace s = rev (dropWhile isSpace (rev (dropWhile isSpace s)))"

definition equalFold :: "string \<Rightarrow> string \<Rightarrow> bool" where
  "equalFold a b \<longleftrightarrow> toLower a = toLower b"

text \<open>\<open>strings.Contains\<close>.\<close>

fun containsStr :: "string \<Rightarrow> string \<Rightarrow> bool" where
  "containsStr [] p = (p = [])"
| "containsStr (c # cs) p = (hasPrefix (c # cs) p \<or> containsStr cs p)"

text \<open>\<open>strconv.Itoa\<close> and the \<open>%d\<close> verb of \<open>fmt\<close>.\<close>

definition digitChar :: "nat \<Rightarrow> char" where
  "digitChar d = char_of (48 + d)"

fun natStr :: "nat \<Rightarrow> string" where
  "natStr n = (if n < 10 then [digitChar n] else natStr (n div 10) @ [digitChar (n mod 10)])"

declare natStr.simps [simp del]

definition itoa :: "int \<Rightarrow> string" where
  "itoa i = (if i < 0 then CHR ''-'' # natStr (nat (- i)) else natStr (nat i))"

lemma natStr_nonempty [simp]: "natStr n \<noteq> []"
  by (subst natStr.simps) simp

lemma join_Cons: "join sep (x # xs) = x @ (if xs = [] then [] else sep @ join sep xs)"
  by (cases xs) auto

lemma append_stop_unique:
  assumes "xs @ r = ys @ s"
    and "\<forall>x \<in> set xs. \<not> P x" "\<forall>y \<in> set ys. \<not> P y"
    and "r = [] \<or> P (hd r)" "s = [] \<or> P (hd s)"
  shows "xs = ys \<and> r = s"
  using assms
proof (induction xs arbitrary: ys)
  case Nil
  then show ?case by (cases ys; cases r; cases s) auto
next
  case (Cons x xs)
  show ?case
  proof (cases ys)
    case Nil
    with Cons.prems show ?thesis by (cases s) auto
  next
    case (Cons y ys')
    with Cons.IH [of ys'] Cons.prems show ?thesis by auto
  qed
qed

section \<open>Collecting under a seen map\<close>

text \<open>
  The loop \<open>for x in xs { if seen[key(x)] { continue }; seen[key(x)] = true; out = append(out, x) }\<close>:
  the elements it appends, given the keys seen so far.
\<close>

fun collectUnseen :: "('a \<Rightarrow> 'k) \<Rightarrow> 'k list \<Rightarrow> 'a list \<Rightarrow> 'a list" where
  "collectUnseen key seen [] = []"
| "collectUnseen key seen (x # xs) =
     (if key x \<in> set seen then collectUnseen key seen xs
      else x # collectUnseen key (key x # seen) xs)"

lemma set_collectUnseen_subset: "set (collectUnseen key seen xs) \<subseteq> set xs"
  by (induction xs arbitrary: seen) auto

lemma keys_collectUnseen:
  "key ` set (collectUnseen key seen xs) = key ` set xs - set seen"
  by (induction xs arbitrary: seen) auto

lemma distinct_keys_collectUnseen:
  "distinct (map key (collectUnseen key seen xs))"
proof (induction xs arbitrary: seen)
  case (Cons x xs)
  have "key x \<notin> key ` set (collectUnseen key (key x # seen) xs)"
    by (simp add: keys_collectUnseen)
  with Cons show ?case by auto
qed simp

lemma collectUnseen_cong_set:
  "set seen = set seen' \<Longrightarrow> collectUnseen key seen xs = collectUnseen key seen' xs"
proof (induction xs arbitrary: seen seen')
  case (Cons x xs)
  have "collectUnseen key (key x # seen) xs = collectUnseen key (key x # seen') xs"
    by (rule Cons.IH) (simp add: Cons.prems)
  moreover have "collectUnseen key seen xs = collectUnseen key seen' xs"
    by (rule Cons.IH) (rule Cons.prems)
  ultimately show ?case by (simp add: Cons.prems)
qed simp

lemma collectUnseen_append:
  "collectUnseen key seen (xs @ ys) =
     collectUnseen key seen xs @ collectUnseen key (map key xs @ seen) ys"
proof (induction xs arbitrary: seen)
  case (Cons x xs)
  have "collectUnseen key (map key xs @ key x # seen) ys = collectUnseen key (key x # map key xs @ seen) ys"
    by (rule collectUnseen_cong_set) auto
  moreover have "key x \<in> set seen \<Longrightarrow>
      collectUnseen key (map key xs @ seen) ys = collectUnseen key (key x # map key xs @ seen) ys"
    by (rule collectUnseen_cong_set) auto
  ultimately show ?case using Cons by simp
qed simp

lemma collectUnseen_distinct_id:
  "distinct (map key xs) \<Longrightarrow> key ` set xs \<inter> set seen = {} \<Longrightarrow> collectUnseen key seen xs = xs"
  by (induction xs arbitrary: seen) auto

text \<open>Where equal keys mean equal elements, nothing but duplicates is dropped.\<close>

lemma set_collectUnseen_inj:
  assumes "inj_on key (set xs)"
  shows "set (collectUnseen key [] xs) = set xs"
proof
  show "set (collectUnseen key [] xs) \<subseteq> set xs" by (rule set_collectUnseen_subset)
  show "set xs \<subseteq> set (collectUnseen key [] xs)"
  proof
    fix x assume x: "x \<in> set xs"
    then have "key x \<in> key ` set (collectUnseen key [] xs)" by (simp add: keys_collectUnseen)
    then obtain y where y: "y \<in> set (collectUnseen key [] xs)" "key x = key y" by auto
    then have "y \<in> set xs" using set_collectUnseen_subset by fastforce
    with assms x y show "x \<in> set (collectUnseen key [] xs)" by (auto dest: inj_onD)
  qed
qed

section \<open>Sorting with a comparison closure\<close>

text \<open>
  \<open>sort.Slice\<close> and \<open>sort.SliceStable\<close>: insertion from the right, moving an element left
  past its predecessor while the closure says it is less. This is what the library executes on
  short slices (up to 12 elements for \<open>Slice\<close>, 20 for \<open>SliceStable\<close>); on longer ones
  the result of \<open>SliceStable\<close> is the same whenever the closure is a strict weak order, and
  that of \<open>Slice\<close> whenever it moreover relates every two distinct elements.
  \<open>insertLeft lt x ys\<close> inserts \<open>x\<close> behind the reversed prefix \<open>ys\<close>.
\<close>

fun insertLeft :: "('a \<Rightarrow> 'a \<Rightarrow> bool) \<Rightarrow> 'a \<Rightarrow> 'a list \<Rightarrow> 'a list" where
  "insertLeft lt x [] = [x]"
| "insertLeft lt x (y # ys) = (if lt x y then y # insertLeft lt x ys else x # y # ys)"

definition sortSlice :: "('a \<Rightarrow> 'a \<Rightarrow> bool) \<Rightarrow> 'a list \<Rightarrow> 'a list" where
  "sortSlice lt xs = rev (fold (insertLeft lt) xs [])"

lemma mset_insertLeft [simp]: "mset (insertLeft lt x ys) = {#x#} + mset ys"
  by (induction ys) auto

lemma mset_fold_insertLeft: "mset (fold (insertLeft lt) xs ys) = mset xs + mset ys"
  by (induction xs arbitrary: ys) auto

lemma mset_sortSlice [simp]: "mset (sortSlice lt xs) = mset xs"
  by (simp add: sortSlice_def mset_fold_insertLeft)

lemma set_sortSlice [simp]: "set (sortSlice lt xs) = set xs"
  by (metis mset_sortSlice set_mset_mset)

lemma length_sortSlice [simp]: "length (sortSlice lt xs) = length xs"
  by (metis mset_sortSlice size_mset)

lemma find_split:
  "List.find P xs = Some x \<Longrightarrow> \<exists>pre post. xs = pre @ x # post \<and> P x \<and> (\<forall>y \<in> set pre. \<not> P y)"
proof (induction xs)
  case (Cons y ys)
  show ?case
  proof (cases "P y")
    case True
    then show ?thesis using Cons.prems by (intro exI [of _ "[]"] exI [of _ ys]) simp
  next
    case False
    then obtain pre post where "ys = pre @ x # post" "P x" "\<forall>y \<in> set pre. \<not> P y"
      using Cons by auto
    then show ?thesis using False by (intro exI [of _ "y # pre"] exI [of _ post]) simp
  qed
qed simp

lemma find_first: "\<forall>y \<in> set pre. \<not> P y \<Longrightarrow> P x \<Longrightarrow> List.find P (pre @ x # post) = Some x"
  by (induction pre) auto

lemma find_filter: "List.find P (filter Q xs) = List.find (\<lambda>x. Q x \<and> P x) xs"
  by (induction xs) auto

text \<open>
  The contract a comparison closure has to meet for the library to sort with it: a strict weak
  order. Every closure of the code base that meets it is an interpretation of this locale.
\<close>

locale less_closure =
  fixes lt :: "'a \<Rightarrow> 'a \<Rightarrow> bool"
  assumes less_irrefl: "\<not> lt x x"
    and less_trans: "lt x y \<Longrightarrow> lt y z \<Longrightarrow> lt x z"
    and incomparable_trans:
      "\<not> lt x y \<Longrightarrow> \<not> lt y x \<Longrightarrow> \<not> lt y z \<Longrightarrow> \<not> lt z y \<Longrightarrow> \<not> lt x z \<and> \<not> lt z x"
begin

lemma not_less_trans: "\<not> lt y x \<Longrightarrow> \<not> lt z y \<Longrightarrow> \<not> lt z x"
  using incomparable_trans less_trans by blast

lemma less_asym: "lt x y \<Longrightarrow> \<not> lt y x"
  using less_trans less_irrefl by blast

lemma sorted_insertLeft:
  "sorted_wrt (\<lambda>a b. \<not> lt a b) ys \<Longrightarrow> sorted_wrt (\<lambda>a b. \<not> lt a b) (insertLeft lt x ys)"
proof (induction ys)
  case (Cons y ys)
  have set_ins: "set (insertLeft lt x ys) = insert x (set ys)"
    by (metis mset_insertLeft set_mset_add_mset_insert set_mset_mset add_mset_add_single union_commute)
  show ?case
  proof (cases "lt x y")
    case True
    with Cons set_ins show ?thesis by (auto dest: less_asym)
  next
    case False
    have "\<not> lt x z" if "z \<in> set ys" for z
      using not_less_trans [of y z x] Cons.prems False that by auto
    with Cons.prems False show ?thesis by auto
  qed
qed simp

lemma sorted_fold_insertLeft:
  "sorted_wrt (\<lambda>a b. \<not> lt a b) ys \<Longrightarrow> sorted_wrt (\<lambda>a b. \<not> lt a b) (fold (insertLeft lt) xs ys)"
  by (induction xs arbitrary: ys) (auto intro: sorted_insertLeft)

text \<open>The result is ascending: no element is less than one before it.\<close>

lemma sorted_sortSlice: "sorted_wrt (\<lambda>a b. \<not> lt b a) (sortSlice lt xs)"
  using sorted_fold_insertLeft [of "[]" xs] by (simp add: sortSlice_def sorted_wrt_rev)

text \<open>Elements of one incomparability class keep their order (stability).\<close>

definition tied :: "'a \<Rightarrow> 'a \<Rightarrow> bool" where
  "tied x y \<longleftrightarrow> \<not> lt x y \<and> \<not> lt y x"

lemma tied_sym: "tied x y \<Longrightarrow> tied y x"
  by (auto simp: tied_def)

lemma filter_insertLeft:
  "filter (tied k) (insertLeft lt x ys) = (if tied k x then x # filter (tied k) ys else filter (tied k) ys)"
proof (induction ys)
  case (Cons y ys)
  show ?case
  proof (cases "lt x y \<and> tied k x")
    case True
    then have "\<not> tied k y" using incomparable_trans [of x k y] by (auto simp: tied_def)
    with Cons True show ?thesis by auto
  next
    case False
    with Cons show ?thesis by auto
  qed
qed simp

lemma filter_fold_insertLeft:
  "filter (tied k) (fold (insertLeft lt) xs ys) = rev (filter (tied k) xs) @ filter (tied k) ys"
  by (induction xs arbitrary: ys) (auto simp: filter_insertLeft)

lemma filter_sortSlice: "filter (tied k) (sortSlice lt xs) = filter (tied k) xs"
  by (simp add: sortSlice_def rev_filter [symmetric] filter_fold_insertLeft)


lemma tied_trans: "tied x y \<Longrightarrow> tied y z \<Longrightarrow> tied x z"
  using incomparable_trans unfolding tied_def by blast

text \<open>
  Searching the sorted slice: the first hit comes before every other hit in the order, or is tied
  with it and stood first in the slice as it was given.
\<close>

lemma find_sortSlice:
  assumes "List.find P (sortSlice lt xs) = Some x"
  shows "\<exists>pre post. xs = pre @ x # post \<and> P x
    \<and> (\<forall>y \<in> set pre. P y \<longrightarrow> lt x y) \<and> (\<forall>y \<in> set post. P y \<longrightarrow> \<not> lt y x)"
proof -
  obtain us vs where split: "sortSlice lt xs = us @ x # vs" "P x" "\<forall>y \<in> set us. \<not> P y"
    using find_split [OF assms] by blast
  have min: "\<not> lt y x" if "y \<in> set xs" "P y" for y
  proof -
    have "y \<in> set (us @ x # vs)" using that(1) set_sortSlice [of lt xs] split(1) by simp
    then have "y = x \<or> y \<in> set vs" using split(3) that(2) by auto
    then show ?thesis using sorted_sortSlice [of xs] split(1) less_irrefl by (auto simp: sorted_wrt_append)
  qed
  have "List.find P (filter (tied x) (sortSlice lt xs)) = Some x"
  proof -
    have "tied x x" using less_irrefl by (simp add: tied_def)
    then have "filter (tied x) (sortSlice lt xs) = filter (tied x) us @ x # filter (tied x) vs"
      using split(1) by simp
    moreover have "\<forall>y \<in> set (filter (tied x) us). \<not> P y" using split(3) by simp
    ultimately show ?thesis using split(2) by (simp only: find_first)
  qed
  then have "List.find (\<lambda>y. tied x y \<and> P y) xs = Some x"
    by (simp add: filter_sortSlice find_filter)
  from find_split [OF this]
  obtain pre post where xs: "xs = pre @ x # post" "\<forall>y \<in> set pre. \<not> (tied x y \<and> P y)"
    by blast
  have "lt x y" if "y \<in> set pre" "P y" for y
    using xs min [of y] that by (auto simp: tied_def)
  then show ?thesis using xs(1) split(2) min by (intro exI [of _ pre] exI [of _ post]) auto
qed

end

text \<open>A closure that compares keys of a linear order meets the contract, and sorting with it is \<open>sort_key\<close>.\<close>

lemma less_closure_key: "less_closure (\<lambda>a b. (key a :: 'k :: linorder) < key b)"
  by unfold_locales auto

lemma sortSlice_key:
  fixes key :: "'a \<Rightarrow> 'k :: linorder"
  shows "sortSlice (\<lambda>a b. key a < key b) xs = sort_key key xs"
proof (rule properties_for_sort_key [symmetric])
  show "mset (sortSlice (\<lambda>a b. key a < key b) xs) = mset xs" by simp
next
  fix k
  have *: "less_closure.tied (\<lambda>a b. key a < key b) k = (\<lambda>x. key k = key x)"
    by (auto simp: less_closure.tied_def [OF less_closure_key] fun_eq_iff)
  show "filter (\<lambda>x. key k = key x) (sortSlice (\<lambda>a b. key a < key b) xs) = filter (\<lambda>x. key k = key x) xs"
    using less_closure.filter_sortSlice [OF less_closure_key, of key k xs] by (simp add: *)
next
  show "sorted (map key (sortSlice (\<lambda>a b. key a < key b) xs))"
    using less_closure.sorted_sortSlice [OF less_closure_key, of key xs]
    by (simp add: sorted_map not_less)
qed

interpretation string_order: less_closure "\<lambda>a b :: string. a < b"
  by unfold_locales auto

section \<open>Lists as ordered first-match tables\<close>

lemma find_SomeD: "List.find P xs = Some x \<Longrightarrow> x \<in> set xs \<and> P x"
  by (auto simp: find_Some_iff in_set_conv_nth)

lemma sort_key_sorted: "sorted (map f xs) \<Longrightarrow> sort_key f xs = xs"
  by (rule properties_for_sort_key) auto


text \<open>
  Closures built the way the code builds them: \<open>if x.k != y.k { return x.k < y.k }\<close> and then the
  next criterion, possibly with the larger key first.
\<close>

definition thenLess :: "('a \<Rightarrow> 'a \<Rightarrow> bool) \<Rightarrow> ('a \<Rightarrow> 'a \<Rightarrow> bool) \<Rightarrow> 'a \<Rightarrow> 'a \<Rightarrow> bool" where
  "thenLess lt1 lt2 x y \<longleftrightarrow> lt1 x y \<or> (\<not> lt1 y x \<and> lt2 x y)"

lemma less_closure_then:
  assumes "less_closure lt1" "less_closure lt2"
  shows "less_closure (thenLess lt1 lt2)"
proof -
  note l1 = less_closure.less_irrefl [OF assms(1)] less_closure.less_trans [OF assms(1)]
      less_closure.incomparable_trans [OF assms(1)]
    and l2 = less_closure.less_irrefl [OF assms(2)] less_closure.less_trans [OF assms(2)]
      less_closure.incomparable_trans [OF assms(2)]
  show ?thesis
    by unfold_locales (unfold thenLess_def, (metis l1 l2)+)
qed

lemma less_closure_key_desc: "less_closure (\<lambda>a b. (key b :: 'k :: linorder) < key a)"
  by unfold_locales auto

text \<open>Sorting depends on the closure only through its values on the elements of the slice.\<close>

lemma insertLeft_cong:
  "(\<And>y. y \<in> set ys \<Longrightarrow> lt x y = lt' x y) \<Longrightarrow> insertLeft lt x ys = insertLeft lt' x ys"
  by (induction ys) auto

lemma set_fold_insertLeft: "set (fold (insertLeft lt) xs ys) = set xs \<union> set ys"
  by (metis mset_fold_insertLeft set_mset_mset set_mset_union)

lemma fold_insertLeft_cong:
  "(\<And>x y. x \<in> set xs \<Longrightarrow> y \<in> set xs \<union> set ys \<Longrightarrow> lt x y = lt' x y) \<Longrightarrow>
     fold (insertLeft lt) xs ys = fold (insertLeft lt') xs ys"
proof (induction xs arbitrary: ys)
  case (Cons x xs)
  have "insertLeft lt x ys = insertLeft lt' x ys"
    by (rule insertLeft_cong) (simp add: Cons.prems)
  moreover have "fold (insertLeft lt) xs (insertLeft lt' x ys) = fold (insertLeft lt') xs (insertLeft lt' x ys)"
  proof (rule Cons.IH)
    fix a b assume "a \<in> set xs" "b \<in> set xs \<union> set (insertLeft lt' x ys)"
    moreover have "set (insertLeft lt' x ys) = insert x (set ys)"
      using set_fold_insertLeft [of lt' "[x]" ys] by simp
    ultimately show "lt a b = lt' a b" by (auto intro!: Cons.prems)
  qed
  ultimately show ?case by simp
qed simp

lemma sortSlice_cong:
  "(\<And>x y. x \<in> set xs \<Longrightarrow> y \<in> set xs \<Longrightarrow> lt x y = lt' x y) \<Longrightarrow> sortSlice lt xs = sortSlice lt' xs"
  using fold_insertLeft_cong [of xs "[]" lt lt'] by (simp add: sortSlice_def)

lemma fold_insertLeft_cong_distinct:
  "distinct xs \<Longrightarrow> set xs \<inter> set ys = {} \<Longrightarrow>
     (\<And>x y. x \<in> set xs \<Longrightarrow> y \<in> set xs \<union> set ys \<Longrightarrow> x \<noteq> y \<Longrightarrow> lt x y = lt' x y) \<Longrightarrow>
     fold (insertLeft lt) xs ys = fold (insertLeft lt') xs ys"
proof (induction xs arbitrary: ys)
  case (Cons x xs)
  have "insertLeft lt x ys = insertLeft lt' x ys"
    using Cons.prems(2) by (intro insertLeft_cong Cons.prems(3)) auto
  moreover have "fold (insertLeft lt) xs (insertLeft lt' x ys) = fold (insertLeft lt') xs (insertLeft lt' x ys)"
  proof (rule Cons.IH)
    have ins: "set (insertLeft lt' x ys) = insert x (set ys)"
      using set_fold_insertLeft [of lt' "[x]" ys] by simp
    show "distinct xs" "set xs \<inter> set (insertLeft lt' x ys) = {}"
      using Cons.prems(1,2) ins by auto
    fix a b assume "a \<in> set xs" "b \<in> set xs \<union> set (insertLeft lt' x ys)" "a \<noteq> b"
    then show "lt a b = lt' a b" using ins by (intro Cons.prems(3)) auto
  qed
  ultimately show ?case by simp
qed simp

text \<open>On a slice without repetitions no element is compared with itself.\<close>

lemma sortSlice_cong_distinct:
  "distinct xs \<Longrightarrow> (\<And>x y. x \<in> set xs \<Longrightarrow> y \<in> set xs \<Longrightarrow> x \<noteq> y \<Longrightarrow> lt x y = lt' x y) \<Longrightarrow>
     sortSlice lt xs = sortSlice lt' xs"
  using fold_insertLeft_cong_distinct [of xs "[]" lt lt'] by (simp add: sortSlice_def)

lemma thenLess_key:
  fixes key :: "'a \<Rightarrow> 'k :: linorder"
  shows "thenLess (\<lambda>x y. key x < key y) lt x y = (if key x \<noteq> key y then key x < key y else lt x y)"
    and "thenLess (\<lambda>x y. key y < key x) lt x y = (if key x \<noteq> key y then key y < key x else lt x y)"
  by (auto simp: thenLess_def)

text \<open>A sorted slice stays as it is.\<close>

lemma sortSlice_sorted: "sorted_wrt (\<lambda>a b. \<not> lt b a) xs \<Longrightarrow> sortSlice lt xs = xs"
proof (induction xs rule: rev_induct)
  case (snoc x xs)
  have "insertLeft lt x (rev xs) = x # rev xs"
    using snoc.prems by (cases xs rule: rev_cases) (auto simp: sorted_wrt_append)
  then show ?case using snoc by (simp add: sortSlice_def sorted_wrt_append rev_swap)
qed (simp add: sortSlice_def)

section \<open>Machine integers\<close>

text \<open>Go's \<open>int\<close> has 64 bits; sums of \<open>int\<close> values wrap around.\<close>

definition goInt :: "int \<Rightarrow> int" where
  "goInt x = (x + 2 ^ 63) mod 2 ^ 64 - 2 ^ 63"

lemma goInt_id: "- (2 ^ 63) \<le> x \<Longrightarrow> x < 2 ^ 63 \<Longrightarrow> goInt x = x"
  by (simp add: goInt_def)

lemma goInt_range: "- (2 ^ 63) \<le> goInt x \<and> goInt x < 2 ^ 63"
  using pos_mod_bound [of "2 ^ 64" "x + 2 ^ 63"] pos_mod_sign [of "2 ^ 64" "x + 2 ^ 63"] by (simp add: goInt_def)

lemma goInt_add [simp]: "goInt (goInt x + y) = goInt (x + y)"
proof -
  have "((x + 2 ^ 63) mod 2 ^ 64 + y) mod 2 ^ 64 = (x + 2 ^ 63 + y) mod 2 ^ 64" by (rule mod_add_left_eq)
  then show ?thesis by (simp add: goInt_def algebra_simps)
qed

lemma goInt_zero [simp]: "goInt 0 = 0"
  by (simp add: goInt_def)

section \<open>Loops with an early error return\<close>

text \<open>\<open>fmt.Errorf\<close>: the format and its arguments, printed.\<close>

datatype go_error = Errorf string "string list"

text \<open>
  \<open>for x in xs { ...; if bad { return err } ... }\<close>: the state is threaded through the elements until
  one of them ends the function with an error.
\<close>

fun foldE :: "('s \<Rightarrow> 'a \<Rightarrow> 'e + 's) \<Rightarrow> 's \<Rightarrow> 'a list \<Rightarrow> 'e + 's" where
  "foldE f s [] = Inr s"
| "foldE f s (x # xs) = (case f s x of Inl e \<Rightarrow> Inl e | Inr s' \<Rightarrow> foldE f s' xs)"

lemma foldE_append:
  "foldE f s (xs @ ys) = (case foldE f s xs of Inl e \<Rightarrow> Inl e | Inr t \<Rightarrow> foldE f t ys)"
  by (induction xs arbitrary: s) (auto split: sum.splits)

text \<open>An invariant of the elements done so far, and what every error implies.\<close>

lemma foldE_rule:
  assumes "I [] s"
    and "\<And>ys x zs t. xs = ys @ x # zs \<Longrightarrow> I ys t \<Longrightarrow> case f t x of Inl e \<Rightarrow> E e | Inr t' \<Rightarrow> I (ys @ [x]) t'"
  shows "case foldE f s xs of Inl e \<Rightarrow> E e | Inr t \<Rightarrow> I xs t"
  using assms
proof (induction xs rule: rev_induct)
  case (snoc x xs)
  have IH: "case foldE f s xs of Inl e \<Rightarrow> E e | Inr t \<Rightarrow> I xs t"
    using snoc.prems(1)
  proof (rule snoc.IH)
    show "case f t y of Inl e \<Rightarrow> E e | Inr t' \<Rightarrow> I (ys @ [y]) t'" if "xs = ys @ y # zs" "I ys t" for ys y zs t
      using snoc.prems(2) [of ys y "zs @ [x]" t] that by simp
  qed
  show ?case
  proof (cases "foldE f s xs")
    case (Inl e)
    then show ?thesis using IH by (simp add: foldE_append)
  next
    case (Inr t)
    then have "I xs t" using IH by simp
    then show ?thesis using snoc.prems(2) [of xs x "[]" t]
      by (cases "f t x") (simp_all add: foldE_append Inr)
  qed
qed simp

text \<open>A loop that rewrites the elements of a slice in place.\<close>

fun mapE :: "('a \<Rightarrow> 'e + 'b) \<Rightarrow> 'a list \<Rightarrow> 'e + 'b list" where
  "mapE f [] = Inr []"
| "mapE f (x # xs) =
     (case f x of Inl err \<Rightarrow> Inl err
      | Inr y \<Rightarrow> (case mapE f xs of Inl err \<Rightarrow> Inl err | Inr ys \<Rightarrow> Inr (y # ys)))"

lemma mapE_returns:
  "(\<And>x. x \<in> set xs \<Longrightarrow> \<exists>y. f x = Inr y \<and> P y) \<Longrightarrow> \<exists>ys. mapE f xs = Inr ys \<and> (\<forall>y \<in> set ys. P y)"
proof (induction xs)
  case (Cons x xs)
  obtain y where "f x = Inr y" "P y" using Cons.prems [of x] by auto
  moreover obtain ys where "mapE f xs = Inr ys" "\<forall>y \<in> set ys. P y" using Cons by auto
  ultimately show ?case by simp
qed simp

end
