(* ===== verification/Netip.thy ===== *)
theory Netip
  imports Prelude "HOL-Library.Word"
begin

text \<open>
  The part of Go's package \<open>net/netip\<close> the sources use: addresses, prefixes, masking,
  containment, parsing and printing. An IPv4 address is a 32-bit word, an IPv6 address a 128-bit
  word with its zone; \<open>NoAddr\<close> is the zero \<open>netip.Addr\<close>. A prefix whose length is
  \<open>-1\<close> is invalid, as the zero \<open>netip.Prefix\<close> is.
\<close>

unbundle bit_operations_syntax

section \<open>Addresses and prefixes\<close>

datatype ipaddr = NoAddr | IPv4 "32 word" | IPv6 "128 word" string

fun addrBitLen :: "ipaddr \<Rightarrow> int" where
  "addrBitLen NoAddr = 0"
| "addrBitLen (IPv4 _) = 32"
| "addrBitLen (IPv6 _ _) = 128"

fun addrIsValid :: "ipaddr \<Rightarrow> bool" where
  "addrIsValid NoAddr = False"
| "addrIsValid _ = True"

fun addrIs4 :: "ipaddr \<Rightarrow> bool" where
  "addrIs4 (IPv4 _) = True"
| "addrIs4 _ = False"

fun withoutZone :: "ipaddr \<Rightarrow> ipaddr" where
  "withoutZone (IPv6 w z) = IPv6 w []"
| "withoutZone a = a"

datatype ipprefix = IPPrefix (pfxAddr: ipaddr) (pfxBits: int)

definition zeroPrefix :: ipprefix where
  "zeroPrefix = IPPrefix NoAddr (-1)"

definition prefixFrom :: "ipaddr \<Rightarrow> int \<Rightarrow> ipprefix" where
  "prefixFrom ip bits =
     IPPrefix (withoutZone ip)
       (if addrIsValid ip \<and> 0 \<le> bits \<and> bits \<le> addrBitLen ip then bits else -1)"

definition pfxIsValid :: "ipprefix \<Rightarrow> bool" where
  "pfxIsValid p \<longleftrightarrow> 0 \<le> pfxBits p"

definition maskWord :: "nat \<Rightarrow> 'a :: len word \<Rightarrow> 'a word" where
  "maskWord n w = w AND NOT (mask (LENGTH('a) - n))"

fun pfxMasked :: "ipprefix \<Rightarrow> ipprefix" where
  "pfxMasked (IPPrefix a b) =
     (if b < 0 then zeroPrefix
      else (case a of
              NoAddr \<Rightarrow> zeroPrefix
            | IPv4 w \<Rightarrow> if 32 < b then zeroPrefix else IPPrefix (IPv4 (maskWord (nat b) w)) b
            | IPv6 w z \<Rightarrow> if 128 < b then zeroPrefix else IPPrefix (IPv6 (maskWord (nat b) w) []) b))"

fun pfxContains :: "ipprefix \<Rightarrow> ipaddr \<Rightarrow> bool" where
  "pfxContains (IPPrefix (IPv4 p) b) (IPv4 w) =
     (0 \<le> b \<and> b \<le> 32 \<and> drop_bit (32 - nat b) (w XOR p) = 0)"
| "pfxContains (IPPrefix (IPv6 p pz) b) (IPv6 w z) =
     (0 \<le> b \<and> b \<le> 128 \<and> z = [] \<and> drop_bit (128 - nat b) (w XOR p) = 0)"
| "pfxContains _ _ = False"

section \<open>Containment as intervals\<close>

lemma word_xor_eq_0:
  fixes v w :: "'a :: len word"
  shows "v XOR w = 0 \<longleftrightarrow> v = w"
proof
  assume "v XOR w = 0"
  then have "\<forall>n. bit (v XOR w) n = bit (0 :: 'a word) n" by simp
  then show "v = w" by (auto intro: bit_word_eqI simp: bit_simps)
qed simp

lemma drop_bit_xor_eq_0:
  fixes v w :: "'a :: len word"
  shows "drop_bit n (v XOR w) = 0 \<longleftrightarrow> drop_bit n v = drop_bit n w"
  by (simp add: drop_bit_xor word_xor_eq_0)

lemma unat_drop_bit_div: "unat (drop_bit n (w :: 'a :: len word)) = unat w div 2 ^ n"
  by (simp only: unat_drop_bit_eq drop_bit_eq_div [where ?'a = nat])

lemma drop_bit_eq_iff_div:
  fixes v w :: "'a :: len word"
  shows "drop_bit n v = drop_bit n w \<longleftrightarrow> unat v div 2 ^ n = unat w div 2 ^ n"
  by (simp only: word_unat_eq_iff unat_drop_bit_div)

lemma pfxContains_v4:
  assumes "0 \<le> b" "b \<le> 32"
  shows "pfxContains (IPPrefix (IPv4 p) b) (IPv4 w) \<longleftrightarrow>
         unat w div 2 ^ (32 - nat b) = unat p div 2 ^ (32 - nat b)"
  using assms by (simp add: drop_bit_xor_eq_0 drop_bit_eq_iff_div del: drop_bit_xor)

lemma pfxContains_v6:
  assumes "0 \<le> b" "b \<le> 128"
  shows "pfxContains (IPPrefix (IPv6 p pz) b) (IPv6 w []) \<longleftrightarrow>
         unat w div 2 ^ (128 - nat b) = unat p div 2 ^ (128 - nat b)"
  using assms by (simp add: drop_bit_xor_eq_0 drop_bit_eq_iff_div del: drop_bit_xor)

lemma unat_maskWord:
  fixes w :: "'a :: len word"
  assumes "n \<le> LENGTH('a)"
  shows "unat (maskWord n w) = unat w div 2 ^ (LENGTH('a) - n) * 2 ^ (LENGTH('a) - n)"
proof -
  let ?m = "LENGTH('a) - n"
  have "maskWord n w = push_bit ?m (drop_bit ?m w)"
    unfolding maskWord_def
    by (rule bit_word_eqI) (auto simp: bit_simps)
  then have "unat (maskWord n w) = unat (push_bit ?m (drop_bit ?m w))"
    by simp
  also have "\<dots> = take_bit LENGTH('a) (push_bit ?m (unat (drop_bit ?m w)))"
    by (simp only: unsigned_push_bit_eq)
  also have "\<dots> = unat (drop_bit ?m w) * 2 ^ ?m"
  proof (simp only: push_bit_eq_mult, rule take_bit_nat_eq_self)
    have "unat (drop_bit ?m w) * 2 ^ ?m \<le> unat w"
      by (simp add: unat_drop_bit_div)
    also have "unat w < 2 ^ LENGTH('a)" by (rule unsigned_less)
    finally show "unat (drop_bit ?m w) * 2 ^ ?m < 2 ^ LENGTH('a)" .
  qed
  finally show ?thesis by (simp only: unat_drop_bit_div)
qed

section \<open>Printing\<close>

fun hexStr :: "nat \<Rightarrow> string" where
  "hexStr n = (if n < 16 then [if n < 10 then digitChar n else char_of (87 + n)]
     else hexStr (n div 16) @ hexStr (n mod 16))"

declare hexStr.simps [simp del]

definition octets4 :: "32 word \<Rightarrow> nat list" where
  "octets4 w = [unat w div 16777216, unat w div 65536 mod 256, unat w div 256 mod 256, unat w mod 256]"

definition groups6 :: "128 word \<Rightarrow> nat list" where
  "groups6 w = map (\<lambda>i. unat w div 2 ^ (16 * (7 - i)) mod 65536) [0..<8]"

text \<open>The first longest run of at least two zero groups, printed as a double colon.\<close>

definition zeroRun6 :: "nat list \<Rightarrow> nat \<times> nat" where
  "zeroRun6 gs = fold (\<lambda>i (s, e).
      (let l = length (takeWhile (\<lambda>g. g = 0) (drop i gs))
       in if 2 \<le> l \<and> e - s < l then (i, i + l) else (s, e))) [0..<8] (255, 255)"

definition string4 :: "32 word \<Rightarrow> string" where
  "string4 w = join ''.'' (map natStr (octets4 w))"

definition string6 :: "128 word \<Rightarrow> string" where
  "string6 w =
     (let gs = groups6 w; (s, e) = zeroRun6 gs
      in if s = 255 then join '':'' (map hexStr gs)
         else join '':'' (map hexStr (take s gs)) @ ''::'' @ join '':'' (map hexStr (drop e gs)))"

definition zoneStr :: "string \<Rightarrow> string" where
  "zoneStr z = (if z = [] then [] else CHR ''%'' # z)"

fun addrStr :: "ipaddr \<Rightarrow> string" where
  "addrStr NoAddr = ''invalid IP''"
| "addrStr (IPv4 w) = string4 w"
| "addrStr (IPv6 w z) =
     (if drop_bit 32 w = 65535 then ''::ffff:'' @ string4 (ucast w) @ zoneStr z else string6 w @ zoneStr z)"

definition pfxStr :: "ipprefix \<Rightarrow> string" where
  "pfxStr p = (if pfxIsValid p then addrStr (pfxAddr p) @ ''/'' @ itoa (pfxBits p) else ''invalid Prefix'')"

section \<open>Parsing\<close>

fun splitOn :: "char \<Rightarrow> string \<Rightarrow> string list" where
  "splitOn c [] = [[]]"
| "splitOn c (x # xs) =
     (if x = c then [] # splitOn c xs
      else (case splitOn c xs of [] \<Rightarrow> [[x]] | y # ys \<Rightarrow> (x # y) # ys))"

definition isDigit :: "char \<Rightarrow> bool" where
  "isDigit c \<longleftrightarrow> (let n = of_char c :: nat in 48 \<le> n \<and> n \<le> 57)"

definition digitVal :: "char \<Rightarrow> nat" where
  "digitVal c = (of_char c :: nat) - 48"

definition decVal :: "string \<Rightarrow> nat" where
  "decVal s = foldl (\<lambda>v c. 10 * v + digitVal c) 0 s"

text \<open>A decimal number without sign and without leading zero.\<close>

definition plainNumber :: "string \<Rightarrow> bool" where
  "plainNumber s \<longleftrightarrow> s \<noteq> [] \<and> list_all isDigit s \<and> (1 < length s \<longrightarrow> hd s \<noteq> CHR ''0'')"

definition parseOctet :: "string \<Rightarrow> nat option" where
  "parseOctet s = (if plainNumber s \<and> decVal s \<le> 255 then Some (decVal s) else None)"

definition word4 :: "nat list \<Rightarrow> 32 word" where
  "word4 os = of_nat (foldl (\<lambda>v b. 256 * v + b) 0 os)"

definition parse4 :: "string \<Rightarrow> (32 word) option" where
  "parse4 s =
     (let os = map parseOctet (splitOn CHR ''.'' s)
      in if length os = 4 \<and> None \<notin> set os then Some (word4 (map the os)) else None)"

definition hexVal :: "char \<Rightarrow> nat option" where
  "hexVal c = (let n = of_char c :: nat in
     if 48 \<le> n \<and> n \<le> 57 then Some (n - 48)
     else if 97 \<le> n \<and> n \<le> 102 then Some (n - 87)
     else if 65 \<le> n \<and> n \<le> 70 then Some (n - 55) else None)"

text \<open>
  The loop of \<open>parseIPv6\<close>: the groups read so far, the position of the double colon in
  them, the text left; at most \<open>8\<close> rounds, the fuel.
\<close>

fun parse6Loop :: "nat \<Rightarrow> nat list \<Rightarrow> nat option \<Rightarrow> string \<Rightarrow> (nat list \<times> nat option) option" where
  "parse6Loop 0 gs ell s = (if s = [] then Some (gs, ell) else None)"
| "parse6Loop (Suc fuel) gs ell s =
     (let hs = takeWhile (\<lambda>c. hexVal c \<noteq> None) s; rest = dropWhile (\<lambda>c. hexVal c \<noteq> None) s;
          v = foldl (\<lambda>v c. 16 * v + the (hexVal c)) 0 hs
      in if hs = [] \<or> 4 < length hs then None
         else if rest \<noteq> [] \<and> hd rest = CHR ''.'' then
           (if (ell = None \<and> length gs \<noteq> 6) \<or> 6 < length gs then None
            else (case parse4 s of None \<Rightarrow> None
                  | Some w \<Rightarrow> Some (gs @ [unat w div 65536, unat w mod 65536], ell)))
         else if rest = [] then Some (gs @ [v], ell)
         else if hd rest \<noteq> CHR '':'' \<or> length rest = 1 then None
         else (let s' = tl rest; gs' = gs @ [v]
               in if hd s' = CHR '':'' then
                    (if ell \<noteq> None then None
                     else if tl s' = [] then Some (gs', Some (length gs'))
                     else parse6Loop fuel gs' (Some (length gs')) (tl s'))
                  else parse6Loop fuel gs' ell s'))"

definition word6 :: "nat list \<Rightarrow> 128 word" where
  "word6 gs = of_nat (foldl (\<lambda>v g. 65536 * v + g) 0 gs)"

definition parse6 :: "string \<Rightarrow> ipaddr option" where
  "parse6 input =
     (let s = takeWhile (\<lambda>c. c \<noteq> CHR ''%'') input; zrest = dropWhile (\<lambda>c. c \<noteq> CHR ''%'') input;
          zone = tl zrest
      in if zrest \<noteq> [] \<and> zone = [] then None
         else if s = ''::'' then Some (IPv6 0 zone)
         else (let r = (if hasPrefix s ''::'' then parse6Loop 8 [] (Some 0) (drop 2 s) else parse6Loop 8 [] None s)
               in case r of
                    None \<Rightarrow> None
                  | Some (gs, ell) \<Rightarrow>
                      if length gs < 8 then
                        (case ell of None \<Rightarrow> None
                         | Some e \<Rightarrow> Some (IPv6 (word6 (take e gs @ replicate (8 - length gs) 0 @ drop e gs)) zone))
                      else if ell \<noteq> None then None else Some (IPv6 (word6 gs) zone)))"

definition parseAddr :: "string \<Rightarrow> ipaddr option" where
  "parseAddr s =
     (case List.find (\<lambda>c. c \<in> set ''.:%'') s of
        Some c \<Rightarrow> if c = CHR ''.'' then map_option IPv4 (parse4 s)
                  else if c = CHR '':'' then parse6 s else None
      | None \<Rightarrow> None)"

definition parsePrefix :: "string \<Rightarrow> ipprefix option" where
  "parsePrefix s =
     (let bits = rev (takeWhile (\<lambda>c. c \<noteq> CHR ''/'') (rev s));
          host = dropWhile (\<lambda>c. c \<noteq> CHR ''/'') (rev s)
      in if host = [] then None
         else (case parseAddr (rev (tl host)) of
                 None \<Rightarrow> None
               | Some ip \<Rightarrow>
                   if ip \<noteq> withoutZone ip then None
                   else if plainNumber bits \<and> int (decVal bits) \<le> addrBitLen ip
                   then Some (prefixFrom ip (int (decVal bits))) else None))"

section \<open>Parsing what was printed\<close>

lemma of_char_digitChar: "d < 10 \<Longrightarrow> (of_char (digitChar d) :: nat) = 48 + d"
  by (simp add: digitChar_def)

lemma isDigit_digitChar [simp]: "d < 10 \<Longrightarrow> isDigit (digitChar d)"
  by (simp add: isDigit_def of_char_digitChar)

lemma digitVal_digitChar [simp]: "d < 10 \<Longrightarrow> digitVal (digitChar d) = d"
  by (simp add: digitVal_def of_char_digitChar)

lemma digitChar_eq_iff: "d < 10 \<Longrightarrow> e < 10 \<Longrightarrow> digitChar d = digitChar e \<longleftrightarrow> d = e"
  by (metis digitVal_digitChar)

lemma digitChar_0: "digitChar 0 = CHR ''0''"
  by code_simp

lemma decVal_append: "decVal (s @ [c]) = 10 * decVal s + digitVal c"
  by (simp add: decVal_def)

lemma decVal_natStr [simp]: "decVal (natStr n) = n"
proof (induction n rule: natStr.induct)
  case (1 n)
  show ?case
  proof (cases "n < 10")
    case True
    then show ?thesis by (subst natStr.simps) (simp add: decVal_def)
  next
    case False
    with 1 show ?thesis by (subst natStr.simps) (simp add: decVal_append)
  qed
qed

lemma digits_natStr [simp]: "list_all isDigit (natStr n)"
proof (induction n rule: natStr.induct)
  case (1 n)
  then show ?case by (subst natStr.simps) (auto simp: not_less)
qed

lemma hd_natStr: "0 < n \<Longrightarrow> hd (natStr n) \<noteq> CHR ''0''"
proof (induction n rule: natStr.induct)
  case (1 n)
  show ?case
  proof (cases "n < 10")
    case True
    with 1 show ?thesis
      by (subst natStr.simps) (simp add: digitChar_0 [symmetric] digitChar_eq_iff del: digitChar_0)
  next
    case False
    with 1 show ?thesis by (subst natStr.simps) (simp add: not_less div_greater_zero_iff)
  qed
qed

lemma plainNumber_natStr [simp]: "plainNumber (natStr n)"
proof (cases "n < 10")
  case True
  then show ?thesis by (simp add: plainNumber_def natStr.simps [of n])
next
  case False
  then show ?thesis using hd_natStr [of n] by (simp add: plainNumber_def)
qed

lemma natStr_inject [simp]: "natStr m = natStr n \<longleftrightarrow> m = n"
  by (metis decVal_natStr)

lemma parseOctet_natStr: "n < 256 \<Longrightarrow> parseOctet (natStr n) = Some n"
  by (simp add: parseOctet_def)

lemma digit_not_punct:
  "isDigit c \<Longrightarrow> c \<noteq> CHR ''.'' \<and> c \<noteq> CHR '':'' \<and> c \<noteq> CHR ''%'' \<and> c \<noteq> CHR ''/'' \<and> c \<noteq> CHR '','' \<and> c \<noteq> CHR ''-''
    \<and> c \<noteq> CHR '' ''"
  by (auto simp: isDigit_def of_char_def)

lemma natStr_not_punct [simp]:
  "CHR ''.'' \<notin> set (natStr n)" "CHR ''/'' \<notin> set (natStr n)" "CHR '':'' \<notin> set (natStr n)"
  "CHR ''%'' \<notin> set (natStr n)" "CHR '','' \<notin> set (natStr n)" "CHR ''-'' \<notin> set (natStr n)"
  "CHR '' '' \<notin> set (natStr n)"
  using digits_natStr [of n] by (auto simp: list_all_iff dest: digit_not_punct)

lemma splitOn_no_sep: "c \<notin> set x \<Longrightarrow> splitOn c x = [x]"
  by (induction x) auto

lemma splitOn_append: "c \<notin> set x \<Longrightarrow> splitOn c (x @ c # ys) = x # splitOn c ys"
  by (induction x) auto

lemma splitOn_join:
  "xs \<noteq> [] \<Longrightarrow> \<forall>x \<in> set xs. c \<notin> set x \<Longrightarrow> splitOn c (join [c] xs) = xs"
proof (induction "[c]" xs rule: join.induct)
  case (3 x y ys)
  then show ?case by (simp add: splitOn_append)
qed (auto simp: splitOn_no_sep)

lemma length_octets4 [simp]: "length (octets4 w) = 4"
  by (simp add: octets4_def)

lemma octets4_value: "foldl (\<lambda>v b. 256 * v + b) 0 (octets4 w) = unat w"
proof -
  let ?n = "unat w"
  have "?n div 65536 = ?n div 256 div 256" "?n div 16777216 = ?n div 256 div 256 div 256"
    by (simp_all flip: div_mult2_eq)
  then show ?thesis by (simp add: octets4_def)
qed

lemma word4_octets4 [simp]: "word4 (octets4 w) = w"
  by (simp add: word4_def octets4_value)

lemma octets4_bound: "b \<in> set (octets4 w) \<Longrightarrow> b < 256"
proof -
  have "unat w < 4294967296" using unsigned_less [of w] by simp
  then show "b \<in> set (octets4 w) \<Longrightarrow> b < 256" by (auto simp: octets4_def less_mult_imp_div_less)
qed

lemma parse4_string4 [simp]: "parse4 (string4 w) = Some w"
proof -
  have split: "splitOn CHR ''.'' (string4 w) = map natStr (octets4 w)"
    unfolding string4_def by (rule splitOn_join) (auto simp: octets4_def)
  have "map parseOctet (map natStr (octets4 w)) = map Some (octets4 w)"
    by (auto simp: parseOctet_natStr octets4_bound)
  then have "map parseOctet (splitOn CHR ''.'' (string4 w)) = map Some (octets4 w)"
    by (simp only: split)
  then show ?thesis by (simp add: parse4_def comp_def)
qed

lemma string4_punct: "x \<in> set (string4 w) \<Longrightarrow> isDigit x \<or> x = CHR ''.''"
  using digits_natStr by (auto simp: string4_def octets4_def list_all_iff)

lemma string4_inject [simp]: "string4 v = string4 w \<longleftrightarrow> v = w"
  by (metis parse4_string4 option.inject)

text \<open>IPv4 prefixes in the shape \<open>prefixFrom\<close> gives them, and their round trip.\<close>

fun isV4Prefix :: "ipprefix \<Rightarrow> bool" where
  "isV4Prefix (IPPrefix (IPv4 w) b) = (0 \<le> b \<and> b \<le> 32)"
| "isV4Prefix _ = False"

lemma isV4PrefixE:
  assumes "isV4Prefix p"
  obtains w n where "p = IPPrefix (IPv4 w) (int n)" "n \<le> 32"
proof -
  from assms obtain w b where p: "p = IPPrefix (IPv4 w) b" and b: "0 \<le> b" "b \<le> 32"
    by (cases p rule: isV4Prefix.cases) auto
  then have "p = IPPrefix (IPv4 w) (int (nat b))" "nat b \<le> 32" by auto
  then show thesis by (rule that)
qed

lemma pfxStr_v4: "n \<le> 32 \<Longrightarrow> pfxStr (IPPrefix (IPv4 w) (int n)) = string4 w @ CHR ''/'' # natStr n"
  by (simp add: pfxStr_def pfxIsValid_def itoa_def)

lemma string4_not_slash [simp]: "CHR ''/'' \<notin> set (string4 w)"
  using string4_punct [of "CHR ''/''" w] by (auto dest: digit_not_punct)

lemma find_skip: "\<forall>x \<in> set xs. \<not> P x \<Longrightarrow> List.find P (xs @ y # ys) = (if P y then Some y else List.find P ys)"
  by (induction xs) auto

lemma find_punct_string4: "List.find (\<lambda>c. c \<in> set ''.:%'') (string4 w) = Some CHR ''.''"
proof -
  obtain a b where ab: "string4 w = natStr a @ CHR ''.'' # b"
    by (auto simp: string4_def octets4_def)
  have "\<forall>c \<in> set (natStr a). c \<notin> set ''.:%''" by auto
  from find_skip [OF this] show ?thesis unfolding ab by simp
qed

lemma parseAddr_string4 [simp]: "parseAddr (string4 w) = Some (IPv4 w)"
  by (simp add: parseAddr_def find_punct_string4 del: list.set)

lemma parsePrefix_pfxStr:
  assumes "isV4Prefix p"
  shows "parsePrefix (pfxStr p) = Some p"
proof -
  obtain w n where p: "p = IPPrefix (IPv4 w) (int n)" and n: "n \<le> 32"
    using assms by (rule isV4PrefixE)
  let ?s = "string4 w @ CHR ''/'' # natStr n"
  have rev: "rev ?s = rev (natStr n) @ CHR ''/'' # rev (string4 w)" by simp
  have "takeWhile (\<lambda>c. c \<noteq> CHR ''/'') (rev ?s) = rev (natStr n)"
    unfolding rev by (subst takeWhile_append2) auto
  moreover have "dropWhile (\<lambda>c. c \<noteq> CHR ''/'') (rev ?s) = CHR ''/'' # rev (string4 w)"
    unfolding rev by (subst dropWhile_append2) auto
  ultimately show ?thesis using n
    by (simp add: p pfxStr_v4 parsePrefix_def prefixFrom_def del: rev_append)
qed

lemma pfxStr_inject_v4:
  "isV4Prefix p \<Longrightarrow> isV4Prefix q \<Longrightarrow> pfxStr p = pfxStr q \<longleftrightarrow> p = q"
  by (metis parsePrefix_pfxStr option.inject)

end
