(* ===== verification/Prefix_Set.thy ===== *)
theory Prefix_Set
  imports Netip
begin

text \<open>
  \<open>internal/domain/model/prefix.go\<close> and \<open>prefix_set.go\<close>: route prefixes and the sets
  of prefixes and addresses that ACLs, prefix lists and prefix classes are made of. The Go interface
  \<open>PrefixSet\<close> has four implementations, the constructors of \<open>prefix_set\<close>; a value that
  may be \<open>nil\<close> is a \<open>prefix_set option\<close>. Unions are built by \<open>prefixSetForInterval\<close>
  only, from exact sets, so their members are never \<open>nil\<close>.
\<close>

section \<open>Prefixes\<close>

text \<open>The struct \<open>Prefix\<close> wraps one \<open>netip.Prefix\<close>, masked by every constructor.\<close>

type_synonym prefix = ipprefix

definition ParsePrefix :: "string \<Rightarrow> prefix option" where
  "ParsePrefix raw = map_option pfxMasked (parsePrefix raw)"

definition PrefixFromNetIP :: "ipprefix \<Rightarrow> prefix" where
  "PrefixFromNetIP pfx = pfxMasked pfx"

definition prefixIsZero :: "prefix \<Rightarrow> bool" where
  "prefixIsZero p \<longleftrightarrow> \<not> pfxIsValid p"

definition prefixOverlaps :: "prefix \<Rightarrow> prefix \<Rightarrow> bool" where
  "prefixOverlaps p other \<longleftrightarrow> pfxContains p (pfxAddr other) \<or> pfxContains other (pfxAddr p)"

definition prefixString :: "prefix \<Rightarrow> string" where
  "prefixString p = (if prefixIsZero p then [] else pfxStr p)"

abbreviation prefixBitLen :: "prefix \<Rightarrow> int" where
  "prefixBitLen p \<equiv> addrBitLen (pfxAddr p)"

section \<open>Prefix sets\<close>

datatype prefix_set =
    AnyPrefixSet
  | ExactPrefixSet prefix
  | PrefixRangeSet prefix int int \<comment> \<open>\<open>Base\<close>, \<open>MinLen\<close>, \<open>MaxLen\<close>\<close>
  | UnionPrefixSet "prefix_set list"

definition AnyContainsPrefix :: "prefix \<Rightarrow> bool" where
  "AnyContainsPrefix p \<longleftrightarrow> \<not> prefixIsZero p"

definition AnyContainsAddr :: "ipaddr \<Rightarrow> bool" where
  "AnyContainsAddr addr \<longleftrightarrow> addrIsValid addr"

definition ExactContainsPrefix :: "prefix \<Rightarrow> prefix \<Rightarrow> bool" where
  "ExactContainsPrefix s p \<longleftrightarrow> s = p"

definition ExactContainsAddr :: "prefix \<Rightarrow> ipaddr \<Rightarrow> bool" where
  "ExactContainsAddr s addr \<longleftrightarrow> pfxContains s addr"

definition RangeContainsPrefix :: "prefix \<Rightarrow> int \<Rightarrow> int \<Rightarrow> prefix \<Rightarrow> bool" where
  "RangeContainsPrefix base minLen maxLen p =
     (if prefixIsZero p \<or> prefixIsZero base \<or> prefixBitLen p \<noteq> prefixBitLen base then False
      else pfxContains base (pfxAddr p) \<and> minLen \<le> pfxBits p \<and> pfxBits p \<le> maxLen)"

definition RangeContainsAddr :: "prefix \<Rightarrow> ipaddr \<Rightarrow> bool" where
  "RangeContainsAddr base addr =
     (if \<not> addrIsValid addr \<or> prefixIsZero base \<or> addrBitLen addr \<noteq> prefixBitLen base then False
      else pfxContains base addr)"

definition RangeString :: "prefix \<Rightarrow> int \<Rightarrow> int \<Rightarrow> string" where
  "RangeString base minLen maxLen =
     prefixString base
     @ (if minLen \<noteq> pfxBits base then '' ge '' @ itoa minLen else [])
     @ (if maxLen \<noteq> prefixBitLen base then '' le '' @ itoa maxLen else [])"

text \<open>
  \<open>prefixSetContainsPrefixSpace\<close> and \<open>UnionPrefixSet.ContainsPrefix\<close> call each other; the
  union's loop is \<open>list_ex\<close>.
\<close>

fun prefixSetContainsPrefixSpace :: "prefix_set \<Rightarrow> prefix \<Rightarrow> bool" where
  "prefixSetContainsPrefixSpace AnyPrefixSet p = (\<not> prefixIsZero p)"
| "prefixSetContainsPrefixSpace (ExactPrefixSet s) p =
     (\<not> prefixIsZero p \<and> \<not> prefixIsZero s \<and> pfxContains s (pfxAddr p) \<and> pfxBits s \<le> pfxBits p)"
| "prefixSetContainsPrefixSpace (PrefixRangeSet base minLen maxLen) p =
     (\<not> prefixIsZero p \<and> RangeContainsPrefix base minLen maxLen p)"
| "prefixSetContainsPrefixSpace (UnionPrefixSet sets) p =
     (\<not> prefixIsZero p \<and> list_ex (\<lambda>s. prefixSetContainsPrefixSpace s p) sets)"

definition UnionContainsPrefix :: "prefix_set list \<Rightarrow> prefix \<Rightarrow> bool" where
  "UnionContainsPrefix sets p = list_ex (\<lambda>s. prefixSetContainsPrefixSpace s p) sets"

fun ContainsPrefix :: "prefix_set \<Rightarrow> prefix \<Rightarrow> bool" where
  "ContainsPrefix AnyPrefixSet p = AnyContainsPrefix p"
| "ContainsPrefix (ExactPrefixSet s) p = ExactContainsPrefix s p"
| "ContainsPrefix (PrefixRangeSet base minLen maxLen) p = RangeContainsPrefix base minLen maxLen p"
| "ContainsPrefix (UnionPrefixSet sets) p = UnionContainsPrefix sets p"

fun ContainsAddr :: "prefix_set \<Rightarrow> ipaddr \<Rightarrow> bool" where
  "ContainsAddr AnyPrefixSet addr = AnyContainsAddr addr"
| "ContainsAddr (ExactPrefixSet s) addr = ExactContainsAddr s addr"
| "ContainsAddr (PrefixRangeSet base minLen maxLen) addr = RangeContainsAddr base addr"
| "ContainsAddr (UnionPrefixSet sets) addr = list_ex (\<lambda>s. ContainsAddr s addr) sets"

fun prefixSetString :: "prefix_set \<Rightarrow> string" where
  "prefixSetString AnyPrefixSet = ''any''"
| "prefixSetString (ExactPrefixSet s) = prefixString s"
| "prefixSetString (PrefixRangeSet base minLen maxLen) = RangeString base minLen maxLen"
| "prefixSetString (UnionPrefixSet sets) = join '','' (map prefixSetString sets)"

datatype prefix_set_error = AnyWithBounds | BadPrefix string | InvalidRange string int int

definition NewPrefixSet :: "string \<Rightarrow> int \<Rightarrow> int \<Rightarrow> prefix_set_error + prefix_set" where
  "NewPrefixSet raw ge le =
     (if raw = ''any'' then (if ge \<noteq> 0 \<or> le \<noteq> 0 then Inl AnyWithBounds else Inr AnyPrefixSet)
      else (case ParsePrefix raw of
              None \<Rightarrow> Inl (BadPrefix raw)
            | Some base \<Rightarrow>
                if ge = 0 \<and> le = 0 then Inr (ExactPrefixSet base)
                else (let minLen = (if ge \<noteq> 0 then ge else pfxBits base);
                          maxLen = (if le \<noteq> 0 then le else prefixBitLen base)
                      in if minLen < pfxBits base \<or> prefixBitLen base < maxLen \<or> maxLen < minLen
                         then Inl (InvalidRange raw ge le)
                         else Inr (PrefixRangeSet base minLen maxLen))))"

definition AddressSpaceContains :: "prefix_set option \<Rightarrow> ipaddr \<Rightarrow> bool" where
  "AddressSpaceContains ps addr = (case ps of None \<Rightarrow> False | Some s \<Rightarrow> ContainsAddr s addr)"

definition MatchesNLRI :: "prefix_set option \<Rightarrow> prefix \<Rightarrow> bool" where
  "MatchesNLRI ps p = (case ps of None \<Rightarrow> False | Some s \<Rightarrow> ContainsPrefix s p)"

section \<open>Overlap\<close>

fun prefixAddressSpaceOverlaps :: "prefix_set \<Rightarrow> prefix \<Rightarrow> bool" where
  "prefixAddressSpaceOverlaps AnyPrefixSet p = (\<not> prefixIsZero p)"
| "prefixAddressSpaceOverlaps (ExactPrefixSet s) p = (\<not> prefixIsZero p \<and> prefixOverlaps s p)"
| "prefixAddressSpaceOverlaps (PrefixRangeSet base minLen maxLen) p =
     (\<not> prefixIsZero p \<and> prefixOverlaps base p)"
| "prefixAddressSpaceOverlaps (UnionPrefixSet sets) p =
     (\<not> prefixIsZero p \<and> list_ex (\<lambda>s. prefixAddressSpaceOverlaps s p) sets)"

fun AddressSpaceOverlaps :: "prefix_set \<Rightarrow> prefix_set \<Rightarrow> bool" where
  "AddressSpaceOverlaps AnyPrefixSet b = True"
| "AddressSpaceOverlaps (ExactPrefixSet s) b = prefixAddressSpaceOverlaps b s"
| "AddressSpaceOverlaps (PrefixRangeSet base minLen maxLen) b = prefixAddressSpaceOverlaps b base"
| "AddressSpaceOverlaps (UnionPrefixSet sets) b = list_ex (\<lambda>s. AddressSpaceOverlaps s b) sets"

text \<open>The entry with the \<open>nil\<close> checks of the Go function.\<close>

definition AddressSpaceOverlapsNil :: "prefix_set option \<Rightarrow> prefix_set option \<Rightarrow> bool" where
  "AddressSpaceOverlapsNil a b =
     (case (a, b) of (Some s, Some t) \<Rightarrow> AddressSpaceOverlaps s t | _ \<Rightarrow> False)"

definition prefixRangeSetsOverlap :: "prefix \<Rightarrow> int \<Rightarrow> int \<Rightarrow> prefix \<Rightarrow> int \<Rightarrow> int \<Rightarrow> bool" where
  "prefixRangeSetsOverlap aBase aMin aMax bBase bMin bMax =
     (if prefixIsZero aBase \<or> prefixIsZero bBase \<or> prefixBitLen aBase \<noteq> prefixBitLen bBase then False
      else if \<not> prefixOverlaps aBase bBase then False
      else (let intersectionBits = (if pfxBits aBase < pfxBits bBase then pfxBits bBase else pfxBits aBase);
                minLen = max (max aMin bMin) intersectionBits;
                maxLen = min aMax bMax
            in minLen \<le> maxLen))"

text \<open>
  A range against a union is the call with its arguments swapped, so termination needs the second
  component of the measure.
\<close>

fun rangeFirst :: "prefix_set \<Rightarrow> nat" where
  "rangeFirst (PrefixRangeSet _ _ _) = 1"
| "rangeFirst _ = 0"

function (sequential) NLRIPredicateOverlaps :: "prefix_set \<Rightarrow> prefix_set \<Rightarrow> bool" where
  "NLRIPredicateOverlaps AnyPrefixSet b = True"
| "NLRIPredicateOverlaps (ExactPrefixSet p) b = ContainsPrefix b p"
| "NLRIPredicateOverlaps (PrefixRangeSet base minLen maxLen) AnyPrefixSet = True"
| "NLRIPredicateOverlaps (PrefixRangeSet base minLen maxLen) (ExactPrefixSet p) =
     RangeContainsPrefix base minLen maxLen p"
| "NLRIPredicateOverlaps (PrefixRangeSet base minLen maxLen) (PrefixRangeSet b bMin bMax) =
     prefixRangeSetsOverlap base minLen maxLen b bMin bMax"
| "NLRIPredicateOverlaps (PrefixRangeSet base minLen maxLen) (UnionPrefixSet sets) =
     NLRIPredicateOverlaps (UnionPrefixSet sets) (PrefixRangeSet base minLen maxLen)"
| "NLRIPredicateOverlaps (UnionPrefixSet sets) b = list_ex (\<lambda>s. NLRIPredicateOverlaps s b) sets"
  by pat_completeness auto

termination
proof (relation "measure (\<lambda>(a, b). 2 * (size a + size b) + rangeFirst a)", goal_cases)
  case (3 sets b s)
  then have "size s < size (UnionPrefixSet sets)"
    by (simp add: size_list_estimation' less_Suc_eq_le)
  moreover have "rangeFirst s \<le> 1" by (cases s) auto
  ultimately show ?case by simp
qed auto

section \<open>Well-formed prefixes and sets\<close>

text \<open>
  What the constructors establish: a prefix is valid and masked, a range's bounds enclose its base's
  length, a union has a member.
\<close>

fun prefixOK :: "prefix \<Rightarrow> bool" where
  "prefixOK (IPPrefix (IPv4 w) b) = (0 \<le> b \<and> b \<le> 32 \<and> maskWord (nat b) w = w)"
| "prefixOK (IPPrefix (IPv6 w z) b) = (0 \<le> b \<and> b \<le> 128 \<and> z = [] \<and> maskWord (nat b) w = w)"
| "prefixOK (IPPrefix NoAddr b) = False"

fun prefixSetOK :: "prefix_set \<Rightarrow> bool" where
  "prefixSetOK AnyPrefixSet = True"
| "prefixSetOK (ExactPrefixSet p) = prefixOK p"
| "prefixSetOK (PrefixRangeSet base minLen maxLen) =
     (prefixOK base \<and> pfxBits base \<le> minLen \<and> minLen \<le> maxLen \<and> maxLen \<le> prefixBitLen base)"
| "prefixSetOK (UnionPrefixSet sets) = (sets \<noteq> [] \<and> list_all prefixSetOK sets)"

section \<open>Containment is laminar\<close>

lemma drop_bit_coarser:
  fixes v w :: "'a :: len word"
  assumes "drop_bit m v = drop_bit m w" "m \<le> n"
  shows "drop_bit n v = drop_bit n w"
proof -
  have "drop_bit (n - m) (drop_bit m v) = drop_bit (n - m) (drop_bit m w)"
    using assms(1) by simp
  then show ?thesis using assms(2) by (simp add: drop_bit_drop_bit)
qed

lemma drop_bit_maskWord: "drop_bit (LENGTH('a) - n) (maskWord n w) = drop_bit (LENGTH('a) - n) (w :: 'a :: len word)"
  unfolding maskWord_def by (rule bit_word_eqI) (auto simp: bit_simps dest: bit_imp_le_length)

lemma maskWord_idem [simp]: "maskWord n (maskWord n w) = maskWord n w"
  unfolding maskWord_def by (simp add: and.assoc)

lemma maskWord_finer:
  fixes w :: "'a :: len word"
  assumes "maskWord m w = w" "m \<le> n"
  shows "maskWord n w = w"
proof (rule bit_word_eqI)
  fix i assume "i < LENGTH('a)"
  have "bit (maskWord m w) i = bit w i" using assms(1) by simp
  then show "bit (maskWord n w) i = bit w i"
    using assms(2) \<open>i < LENGTH('a)\<close> by (auto simp: maskWord_def bit_simps)
qed

lemma prefixOK_cases [consumes 1, case_names V4 V6]:
  assumes "prefixOK p"
  obtains w b where "p = IPPrefix (IPv4 w) b" "0 \<le> b" "b \<le> 32" "maskWord (nat b) w = w"
        | w b where "p = IPPrefix (IPv6 w []) b" "0 \<le> b" "b \<le> 128" "maskWord (nat b) w = w"
  using assms by (cases p rule: prefixOK.cases) auto

lemma pfxContains_self: "prefixOK p \<Longrightarrow> pfxContains p (pfxAddr p)"
  by (erule prefixOK_cases) auto

lemma prefixOK_valid: "prefixOK p \<Longrightarrow> pfxIsValid p"
  by (erule prefixOK_cases) (auto simp: pfxIsValid_def)

lemma prefixOK_not_zero [simp]: "prefixOK p \<Longrightarrow> \<not> prefixIsZero p"
  by (simp add: prefixIsZero_def prefixOK_valid)

lemma prefixOK_masked [simp]: "prefixOK p \<Longrightarrow> pfxMasked p = p"
  by (erule prefixOK_cases) auto

lemma prefixOK_pfxMasked: "pfxIsValid (pfxMasked p) \<Longrightarrow> prefixOK (pfxMasked p)"
  by (cases p rule: prefixOK.cases) (auto simp: pfxIsValid_def zeroPrefix_def split: if_splits)

lemma pfxContains_bitLen: "pfxContains p a \<Longrightarrow> addrBitLen a = prefixBitLen p"
  by (induction p a rule: pfxContains.induct) auto

lemma pfxContains_valid: "pfxContains p a \<Longrightarrow> addrIsValid a \<and> pfxIsValid p"
  by (induction p a rule: pfxContains.induct) (auto simp: pfxIsValid_def)

lemma drop_bit_coarser_int:
  fixes v w :: "'a :: len word"
  assumes "drop_bit (n - nat c) v = drop_bit (n - nat c) w" "b \<le> c"
  shows "drop_bit (n - nat b) v = drop_bit (n - nat b) w"
  using assms by (auto intro: drop_bit_coarser)

lemma pfxContains_trans:
  assumes "pfxContains p (pfxAddr q)" "pfxContains q a" "pfxBits p \<le> pfxBits q"
  shows "pfxContains p a"
  using assms
proof (cases "(q, a)" rule: pfxContains.cases)
  case (1 qw b w)
  then show ?thesis
    using assms drop_bit_coarser_int [of 32 b w qw "pfxBits p"]
    by (cases "(p, pfxAddr q)" rule: pfxContains.cases) (auto simp: drop_bit_xor_eq_0 simp del: drop_bit_xor)
next
  case (2 qw qz b w z)
  then show ?thesis
    using assms drop_bit_coarser_int [of 128 b w qw "pfxBits p"]
    by (cases "(p, pfxAddr q)" rule: pfxContains.cases) (auto simp: drop_bit_xor_eq_0 simp del: drop_bit_xor)
qed auto

lemma pfxContains_laminar:
  assumes "pfxContains p a" "pfxContains q a" "prefixOK q" "pfxBits p \<le> pfxBits q"
  shows "pfxContains p (pfxAddr q)"
proof (cases "(q, a)" rule: pfxContains.cases)
  case (1 qw b w)
  then show ?thesis
    using assms drop_bit_coarser_int [of 32 b w qw "pfxBits p"]
    by (cases "(p, a)" rule: pfxContains.cases) (auto simp: drop_bit_xor_eq_0 simp del: drop_bit_xor)
next
  case (2 qw qz b w z)
  then show ?thesis
    using assms drop_bit_coarser_int [of 128 b w qw "pfxBits p"]
    by (cases "(p, a)" rule: pfxContains.cases) (auto simp: drop_bit_xor_eq_0 simp del: drop_bit_xor)
qed (use assms in auto)

lemma prefixOverlaps_iff:
  assumes "prefixOK p" "prefixOK q"
  shows "prefixOverlaps p q \<longleftrightarrow> (\<exists>a. pfxContains p a \<and> pfxContains q a)"
  using assms pfxContains_self pfxContains_laminar unfolding prefixOverlaps_def
  by (metis linear)

lemma prefixOverlaps_bitLen: "prefixOverlaps p q \<Longrightarrow> prefixBitLen p = prefixBitLen q"
  unfolding prefixOverlaps_def using pfxContains_bitLen by metis

section \<open>What the set operations decide\<close>

lemma ContainsAddr_valid: "ContainsAddr s x \<Longrightarrow> addrIsValid x"
  by (induction s)
     (auto simp: AnyContainsAddr_def ExactContainsAddr_def RangeContainsAddr_def list_ex_iff
       dest: pfxContains_valid split: if_splits)

lemma RangeContainsAddr_iff: "prefixOK base \<Longrightarrow> RangeContainsAddr base x \<longleftrightarrow> pfxContains base x"
  unfolding RangeContainsAddr_def using pfxContains_valid pfxContains_bitLen by auto

lemma ContainsAddr_nonempty: "prefixSetOK s \<Longrightarrow> \<exists>x. ContainsAddr s x"
proof (induction s)
  case AnyPrefixSet
  have "ContainsAddr AnyPrefixSet (IPv4 0)" by (simp add: AnyContainsAddr_def)
  then show ?case ..
next
  case (ExactPrefixSet p)
  then show ?case using pfxContains_self by (auto simp: ExactContainsAddr_def)
next
  case (PrefixRangeSet base minLen maxLen)
  then show ?case using pfxContains_self RangeContainsAddr_iff by auto
next
  case (UnionPrefixSet sets)
  then show ?case by (cases sets) auto
qed

lemma prefixAddressSpaceOverlaps_iff:
  assumes "prefixSetOK s" "prefixOK p"
  shows "prefixAddressSpaceOverlaps s p \<longleftrightarrow> (\<exists>x. ContainsAddr s x \<and> pfxContains p x)"
  using assms
proof (induction s)
  case AnyPrefixSet
  then show ?case using pfxContains_self [of p] pfxContains_valid [of p] by (auto simp: AnyContainsAddr_def)
next
  case (ExactPrefixSet q)
  then show ?case by (simp add: ExactContainsAddr_def prefixOverlaps_iff)
next
  case (PrefixRangeSet base minLen maxLen)
  then show ?case by (simp add: RangeContainsAddr_iff prefixOverlaps_iff)
next
  case (UnionPrefixSet sets)
  then show ?case by (auto simp: list_ex_iff list_all_iff)
qed

lemma AddressSpaceOverlaps_decides:
  assumes "prefixSetOK a" "prefixSetOK b"
  shows "AddressSpaceOverlaps a b \<longleftrightarrow> (\<exists>x. ContainsAddr a x \<and> ContainsAddr b x)"
  using assms
proof (induction a)
  case AnyPrefixSet
  then show ?case using ContainsAddr_nonempty [of b] ContainsAddr_valid [of b]
    by (auto simp: AnyContainsAddr_def)
next
  case (ExactPrefixSet q)
  then show ?case by (auto simp: ExactContainsAddr_def prefixAddressSpaceOverlaps_iff)
next
  case (PrefixRangeSet base minLen maxLen)
  then show ?case by (auto simp: RangeContainsAddr_iff prefixAddressSpaceOverlaps_iff)
next
  case (UnionPrefixSet sets)
  then show ?case by (auto simp: list_ex_iff list_all_iff)
qed

section \<open>Overlap of route predicates\<close>

fun prefixAt :: "prefix \<Rightarrow> int \<Rightarrow> prefix" where
  "prefixAt p n = IPPrefix (pfxAddr p) n"

lemma prefixAt_OK:
  "prefixOK p \<Longrightarrow> pfxBits p \<le> n \<Longrightarrow> n \<le> prefixBitLen p \<Longrightarrow> prefixOK (prefixAt p n)"
  by (erule prefixOK_cases) (auto intro: maskWord_finer)

lemma RangeContainsPrefix_iff:
  assumes "prefixOK base" "prefixOK p"
  shows "RangeContainsPrefix base minLen maxLen p \<longleftrightarrow>
         pfxContains base (pfxAddr p) \<and> minLen \<le> pfxBits p \<and> pfxBits p \<le> maxLen"
  using assms pfxContains_bitLen unfolding RangeContainsPrefix_def by auto

lemma prefixRangeSetsOverlap_iff:
  assumes "prefixSetOK (PrefixRangeSet a aMin aMax)" "prefixSetOK (PrefixRangeSet b bMin bMax)"
  shows "prefixRangeSetsOverlap a aMin aMax b bMin bMax \<longleftrightarrow>
         (\<exists>p. prefixOK p \<and> RangeContainsPrefix a aMin aMax p \<and> RangeContainsPrefix b bMin bMax p)"
    (is "?l \<longleftrightarrow> ?r")
proof
  assume ?l
  then have ov: "prefixOverlaps a b" and le: "max (max aMin bMin) (max (pfxBits a) (pfxBits b)) \<le> min aMax bMax"
    using assms by (auto simp: prefixRangeSetsOverlap_def Let_def max_def split: if_splits)
  let ?n = "max aMin bMin"
  have bl: "prefixBitLen a = prefixBitLen b" using ov by (rule prefixOverlaps_bitLen)
  obtain c where c: "c = a \<or> c = b" "pfxContains a (pfxAddr c)" "pfxContains b (pfxAddr c)"
    using ov assms pfxContains_self unfolding prefixOverlaps_def by auto
  have "prefixOK (prefixAt c ?n)"
    using c(1) assms le bl by (intro prefixAt_OK) auto
  moreover have "RangeContainsPrefix a aMin aMax (prefixAt c ?n)" "RangeContainsPrefix b bMin bMax (prefixAt c ?n)"
    using calculation c assms le by (auto simp: RangeContainsPrefix_iff simp del: prefixOK.simps)
  ultimately show ?r by blast
next
  assume ?r
  then obtain p where p: "prefixOK p" "pfxContains a (pfxAddr p)" "pfxContains b (pfxAddr p)"
      "max aMin bMin \<le> pfxBits p" "pfxBits p \<le> min aMax bMax"
    using assms by (auto simp: RangeContainsPrefix_iff)
  then have "prefixOverlaps a b" using assms by (auto simp: prefixOverlaps_iff)
  then show ?l using p assms prefixOverlaps_bitLen by (auto simp: prefixRangeSetsOverlap_def)
qed

fun notUnion :: "prefix_set \<Rightarrow> bool" where
  "notUnion (UnionPrefixSet _) = False"
| "notUnion _ = True"

lemma ContainsPrefix_nonempty:
  "prefixSetOK s \<Longrightarrow> notUnion s \<Longrightarrow> \<exists>p. prefixOK p \<and> ContainsPrefix s p"
proof (cases s)
  case AnyPrefixSet
  have "prefixOK (IPPrefix (IPv4 0) 0)" by (simp add: maskWord_def)
  then show ?thesis using AnyPrefixSet by (intro exI [of _ "IPPrefix (IPv4 0) 0"]) (simp add: AnyContainsPrefix_def)
next
  case (PrefixRangeSet base minLen maxLen)
  moreover assume "prefixSetOK s"
  ultimately show ?thesis
    using prefixAt_OK [of base minLen] pfxContains_self [of base]
    by (intro exI [of _ "prefixAt base minLen"]) (auto simp: RangeContainsPrefix_iff)
qed (auto simp: ExactContainsPrefix_def)

lemma NLRIPredicateOverlaps_decides:
  assumes "prefixSetOK a" "prefixSetOK b" "notUnion a" "notUnion b"
  shows "NLRIPredicateOverlaps a b \<longleftrightarrow> (\<exists>p. prefixOK p \<and> ContainsPrefix a p \<and> ContainsPrefix b p)"
proof (cases a)
  case AnyPrefixSet
  then show ?thesis using ContainsPrefix_nonempty [of b] assms prefixOK_not_zero
    by (auto simp: AnyContainsPrefix_def)
next
  case (ExactPrefixSet q)
  then show ?thesis using assms by (auto simp: ExactContainsPrefix_def)
next
  case (PrefixRangeSet base minLen maxLen)
  note a = this
  show ?thesis
  proof (cases b)
    case AnyPrefixSet
    then show ?thesis using a assms ContainsPrefix_nonempty [of a] prefixOK_not_zero
      by (auto simp: AnyContainsPrefix_def)
  next
    case (ExactPrefixSet q)
    then show ?thesis using a assms by (auto simp: ExactContainsPrefix_def)
  next
    case (PrefixRangeSet b' bMin bMax)
    then show ?thesis using a assms prefixRangeSetsOverlap_iff by simp
  qed (use assms in auto)
qed (use assms in auto)

section \<open>Constructors establish well-formedness\<close>

lemma parseAddr_valid: "parseAddr raw = Some ip \<Longrightarrow> addrIsValid ip"
  by (auto simp: parseAddr_def parse6_def Let_def split: option.splits if_splits)

lemma parsePrefix_valid: "parsePrefix raw = Some p \<Longrightarrow> prefixOK (pfxMasked p)"
proof -
  assume "parsePrefix raw = Some p"
  then obtain ip s n where p: "parseAddr s = Some ip" "p = prefixFrom ip (int n)" "int n \<le> addrBitLen ip"
    unfolding parsePrefix_def by (auto simp: Let_def split: if_splits option.splits)
  then show ?thesis using parseAddr_valid [OF p(1)] by (cases ip) (auto simp: prefixFrom_def)
qed

lemma ParsePrefix_OK: "ParsePrefix raw = Some base \<Longrightarrow> prefixOK base"
  by (auto simp: ParsePrefix_def intro: parsePrefix_valid)

lemma prefixSetOK_NewPrefixSet: "NewPrefixSet raw ge le = Inr s \<Longrightarrow> prefixSetOK s"
  using ParsePrefix_OK by (auto simp: NewPrefixSet_def Let_def split: if_splits option.splits)

lemma isV4Prefix_OK: "prefixOK p \<Longrightarrow> addrIs4 (pfxAddr p) \<Longrightarrow> isV4Prefix p"
  by (erule prefixOK_cases) auto

lemmas prefix_eval = maskWord_def mask_eq_exp_minus_1 prefixIsZero_def pfxIsValid_def

section \<open>Properties\<close>

text \<open>
  C32 (overlap of address spaces). For sets as the constructors build them, the syntactic case
  analysis of \<open>AddressSpaceOverlaps\<close> answers exactly whether the two sets have a common
  address: nested prefixes, ranges and unions included.
\<close>

theorem AddressSpaceOverlaps_common_address:
  assumes "prefixSetOK a" "prefixSetOK b"
  shows "AddressSpaceOverlaps a b \<longleftrightarrow> (\<exists>x. ContainsAddr a x \<and> ContainsAddr b x)"
  using assms by (rule AddressSpaceOverlaps_decides)

theorem AddressSpaceOverlaps_common_address_witness:
  "\<exists>x. ContainsAddr (UnionPrefixSet [ExactPrefixSet (IPPrefix (IPv4 0x0A000000) 8)]) x
     \<and> ContainsAddr (PrefixRangeSet (IPPrefix (IPv4 0x0A010000) 16) 20 24) x"
  by (rule AddressSpaceOverlaps_common_address [THEN iffD1])
     (simp_all add: prefixOverlaps_def prefix_eval)

text \<open>
  Overlap of route predicates. For predicates that are not unions, \<open>NLRIPredicateOverlaps\<close>
  holds exactly when some masked prefix matches both of them, the \<open>ge\<close>/\<open>le\<close> bounds of both
  ranges included.
\<close>

lemma NLRIPredicateOverlaps_common_prefix:
  assumes "prefixSetOK a" "prefixSetOK b" "notUnion a" "notUnion b"
  shows "NLRIPredicateOverlaps a b \<longleftrightarrow> (\<exists>p. prefixOK p \<and> ContainsPrefix a p \<and> ContainsPrefix b p)"
  using assms by (rule NLRIPredicateOverlaps_decides)

text \<open>
  What a prefix-list rule matches. \<open>NewPrefixSet\<close> on a parsable prefix either rejects bounds
  that no prefix length satisfies or that leave the base's range, or returns a well-formed set whose
  members are: the base itself when no bound is given, and otherwise the prefixes inside the base
  whose length is at least \<open>ge\<close> (when given) and at most \<open>le\<close> (when given).
\<close>

lemma NewPrefixSet_members:
  assumes "ParsePrefix raw = Some base" "raw \<noteq> ''any''"
  shows "case NewPrefixSet raw ge le of
      Inl e \<Rightarrow> e = InvalidRange raw ge le \<and> (ge \<noteq> 0 \<or> le \<noteq> 0) \<and>
        (ge \<noteq> 0 \<and> ge < pfxBits base \<or> prefixBitLen base < le
          \<or> \<not> (\<exists>n. (ge \<noteq> 0 \<longrightarrow> ge \<le> n) \<and> (le \<noteq> 0 \<longrightarrow> n \<le> le) \<and> pfxBits base \<le> n \<and> n \<le> prefixBitLen base))
    | Inr s \<Rightarrow> prefixSetOK s \<and> (\<forall>p. prefixOK p \<longrightarrow>
        (ContainsPrefix s p \<longleftrightarrow>
           (if ge = 0 \<and> le = 0 then p = base
            else pfxContains base (pfxAddr p) \<and> pfxBits base \<le> pfxBits p
               \<and> (ge \<noteq> 0 \<longrightarrow> ge \<le> pfxBits p) \<and> (le \<noteq> 0 \<longrightarrow> pfxBits p \<le> le))))"
proof -
  have base: "prefixOK base" using assms(1) by (rule ParsePrefix_OK)
  have le: "pfxBits p \<le> prefixBitLen p" if "prefixOK p" for p
    using that by (rule prefixOK_cases) auto
  have bits: "pfxBits p \<le> prefixBitLen base" if "prefixOK p" "pfxContains base (pfxAddr p)" for p
    using le [OF that(1)] pfxContains_bitLen [OF that(2)] by simp
  show ?thesis
    using base assms bits le [OF base]
    by (auto simp: NewPrefixSet_def Let_def ExactContainsPrefix_def RangeContainsPrefix_iff
        split: if_splits)
qed

text \<open>
  Printing and parsing a prefix. Parsing the printed form of a well-formed IPv4 prefix gives the
  prefix back, so the string keys built from prefixes identify them.
\<close>

lemma ParsePrefix_prefixString:
  assumes "prefixOK p" "addrIs4 (pfxAddr p)"
  shows "ParsePrefix (prefixString p) = Some p"
  using assms by (simp add: ParsePrefix_def prefixString_def parsePrefix_pfxStr isV4Prefix_OK)

end
