(* ===== verification/Packet.thy ===== *)
theory Packet
  imports Prefix_Set
begin

text \<open>
  \<open>packet.go\<close>: port sets and packet specifications. A \<open>PortSet\<close> that may be \<open>nil\<close> is
  a \<open>port_set option\<close>.
\<close>

datatype port_set =
    AnyPortSet
  | ExactPortSet int
  | PortRangeSet int int

fun portContains :: "port_set \<Rightarrow> int \<Rightarrow> bool" where
  "portContains AnyPortSet port = (0 < port \<and> port \<le> 65535)"
| "portContains (ExactPortSet p) port = (p = port)"
| "portContains (PortRangeSet lo hi) port = (lo \<le> port \<and> port \<le> hi)"

text \<open>The loop of \<open>PortRangeSet.Overlaps\<close>: \<open>upto\<close> lists the ports it visits in order.\<close>

fun portOverlaps :: "port_set \<Rightarrow> port_set option \<Rightarrow> bool" where
  "portOverlaps AnyPortSet other = (other \<noteq> None)"
| "portOverlaps (ExactPortSet p) other = (case other of None \<Rightarrow> False | Some q \<Rightarrow> portContains q p)"
| "portOverlaps (PortRangeSet lo hi) other =
     (case other of None \<Rightarrow> False | Some q \<Rightarrow> list_ex (portContains q) [lo..hi])"

fun portString :: "port_set \<Rightarrow> string" where
  "portString AnyPortSet = ''any''"
| "portString (ExactPortSet p) = (if p \<le> 0 then [] else itoa p)"
| "portString (PortRangeSet lo hi) = itoa lo @ ''-'' @ itoa hi"

definition NormalizePortSet :: "port_set option \<Rightarrow> port_set" where
  "NormalizePortSet ps = (case ps of None \<Rightarrow> AnyPortSet | Some p \<Rightarrow> p)"

definition ExactPort :: "int \<Rightarrow> port_set option" where
  "ExactPort port = (if port \<le> 0 then None else Some (ExactPortSet port))"

record packet_spec =
  SrcSet :: "prefix_set option"
  DstSet :: "prefix_set option"
  Protocol :: string
  SrcPort :: "port_set option"
  DstPort :: "port_set option"
  IngressInterface :: string
  EgressInterface :: string

definition WithNormalizedPorts :: "packet_spec \<Rightarrow> packet_spec" where
  "WithNormalizedPorts s =
     s\<lparr>SrcPort := Some (NormalizePortSet (SrcPort s)), DstPort := Some (NormalizePortSet (DstPort s))\<rparr>"

section \<open>Overlap of port sets\<close>

text \<open>A port set is well formed when it only holds real ports.\<close>

fun portSetOK :: "port_set \<Rightarrow> bool" where
  "portSetOK AnyPortSet = True"
| "portSetOK (ExactPortSet p) = (0 < p \<and> p \<le> 65535)"
| "portSetOK (PortRangeSet lo hi) = (0 < lo \<and> lo \<le> hi \<and> hi \<le> 65535)"

lemma portSetOK_range: "portSetOK s \<Longrightarrow> portContains s port \<Longrightarrow> 0 < port \<and> port \<le> 65535"
  by (cases s) auto

lemma portSetOK_nonempty: "portSetOK s \<Longrightarrow> \<exists>port. portContains s port"
  by (cases s) (auto intro: exI [of _ 1])

text \<open>
  Overlap of port sets is what it is called, also through the loop of the range case, which visits
  every port of the range.
\<close>

lemma portOverlaps_iff:
  assumes "portSetOK s" "portSetOK t"
  shows "portOverlaps s (Some t) \<longleftrightarrow> (\<exists>port. portContains s port \<and> portContains t port)"
  using assms portSetOK_range [OF assms(2)] portSetOK_nonempty [OF assms(2)]
  by (cases s) (auto simp: list_ex_iff)

end
