(* ===== verification/Topology.thy ===== *)
theory Topology
  imports Packet
begin

text \<open>
  The configuration data of \<open>internal/domain/model\<close>: \<open>topology.go\<close>, \<open>bgp.go\<close>,
  \<open>ospf.go\<close>, \<open>routing.go\<close>, \<open>acl.go\<close>, \<open>ids.go\<close>, \<open>query.go\<close> and the
  constants around them. A Go struct is a record with the fields of the struct in their order; a
  named string type is a string. \<open>ConfigSource\<close> (file, line) is kept where a route carries it.
\<close>

type_synonym node_id = string
type_synonym link_id = string
type_synonym device_kind = string
type_synonym network_instance = string
type_synonym afi = string
type_synonym asn = "32 word"

section \<open>Identifiers and constants\<close>

abbreviation (input) KindFRR :: device_kind where "KindFRR \<equiv> ''frr''"
abbreviation (input) KindCEOS :: device_kind where "KindCEOS \<equiv> ''ceos''"
abbreviation (input) KindSRLinux :: device_kind where "KindSRLinux \<equiv> ''srlinux''"
abbreviation (input) NetworkInstanceDefault :: network_instance where "NetworkInstanceDefault \<equiv> ''default''"
abbreviation (input) AFIIPv4 :: afi where "AFIIPv4 \<equiv> ''ipv4''"
abbreviation (input) AFIIPv6 :: afi where "AFIIPv6 \<equiv> ''ipv6''"

abbreviation (input) AdminDistanceConnected :: int where "AdminDistanceConnected \<equiv> 0"
abbreviation (input) AdminDistanceStatic :: int where "AdminDistanceStatic \<equiv> 1"
abbreviation (input) AdminDistanceOSPF :: int where "AdminDistanceOSPF \<equiv> 110"
abbreviation (input) AdminDistanceBGP :: int where "AdminDistanceBGP \<equiv> 200"
abbreviation (input) AdminDistanceAggregate :: int where "AdminDistanceAggregate \<equiv> 200"
abbreviation (input) AdminDistanceBlackhole :: int where "AdminDistanceBlackhole \<equiv> 1"
abbreviation (input) AdminDistanceSRLinuxStatic :: int where "AdminDistanceSRLinuxStatic \<equiv> 5"
abbreviation (input) DefaultLocalPreference :: int where "DefaultLocalPreference \<equiv> 100"

abbreviation (input) RouteSourceConnected :: string where "RouteSourceConnected \<equiv> ''connected''"
abbreviation (input) RouteSourceStatic :: string where "RouteSourceStatic \<equiv> ''static''"
abbreviation (input) RouteSourceBGP :: string where "RouteSourceBGP \<equiv> ''bgp''"
abbreviation (input) RouteSourceOSPF :: string where "RouteSourceOSPF \<equiv> ''ospf''"
abbreviation (input) RouteSourceAggregate :: string where "RouteSourceAggregate \<equiv> ''aggregate''"
abbreviation (input) RouteSourceBlackhole :: string where "RouteSourceBlackhole \<equiv> ''blackhole''"
abbreviation (input) RouteSourceUnknown :: string where "RouteSourceUnknown \<equiv> ''unknown''"

abbreviation (input) ACLPermit :: string where "ACLPermit \<equiv> ''permit''"
abbreviation (input) ACLDeny :: string where "ACLDeny \<equiv> ''deny''"
abbreviation (input) ACLDefaultPermit :: string where "ACLDefaultPermit \<equiv> ''permit''"
abbreviation (input) ACLDefaultDeny :: string where "ACLDefaultDeny \<equiv> ''deny''"

abbreviation (input) BGPOriginIGP :: string where "BGPOriginIGP \<equiv> ''igp''"
abbreviation (input) BGPOriginEGP :: string where "BGPOriginEGP \<equiv> ''egp''"
abbreviation (input) BGPOriginIncomplete :: string where "BGPOriginIncomplete \<equiv> ''incomplete''"

definition NormalizeNetworkInstance :: "string \<Rightarrow> network_instance" where
  "NormalizeNetworkInstance vrf = (if vrf = [] then NetworkInstanceDefault else vrf)"

definition NormalizeAFI :: "afi \<Rightarrow> afi" where
  "NormalizeAFI afi =
     (let s = toLower (trimSpace afi)
      in if s = [] \<or> s = AFIIPv4 then AFIIPv4 else if s = AFIIPv6 then AFIIPv6 else s)"

definition AFIFromPrefix :: "string \<Rightarrow> afi" where
  "AFIFromPrefix prefix = (if containsStr prefix '':'' then AFIIPv6 else AFIIPv4)"

definition NormalizeBGPOriginCode :: "string \<Rightarrow> string" where
  "NormalizeBGPOriginCode origin =
     (let s = toLower (trimSpace origin)
      in if s = [] \<or> s = ''i'' \<or> s = BGPOriginIGP then BGPOriginIGP
         else if s = ''e'' \<or> s = BGPOriginEGP then BGPOriginEGP
         else if s = ''?'' \<or> s = BGPOriginIncomplete then BGPOriginIncomplete
         else s)"

definition NormalizeRouteSourceKind :: "string \<Rightarrow> string" where
  "NormalizeRouteSourceKind kind =
     (let s = toLower (trimSpace kind)
      in if containsStr s ''ospf'' then RouteSourceOSPF
         else if s \<in> set [''ebgp'', ''ibgp'', RouteSourceBGP] then RouteSourceBGP
         else if s \<in> set [RouteSourceOSPF, ''188''] then RouteSourceOSPF
         else if s \<in> set [''kernel'', RouteSourceConnected, ''direct'', ''local'', ''host''] then RouteSourceConnected
         else if s \<in> set [RouteSourceStatic, ''196''] then RouteSourceStatic
         else if s \<in> set [RouteSourceBlackhole, ''discard'', ''drop'', ''null0'', ''null''] then RouteSourceBlackhole
         else if s = RouteSourceAggregate then RouteSourceAggregate
         else if s = [] \<or> s = RouteSourceUnknown then RouteSourceUnknown
         else s)"

definition FormatASPath :: "asn list \<Rightarrow> string" where
  "FormatASPath path =
     (if path = [] then [] else join '' '' (map (\<lambda>asn. natStr (unat asn)) path))"

definition DefaultLocalPref :: "int \<Rightarrow> int" where
  "DefaultLocalPref v = (if v = 0 then DefaultLocalPreference else v)"

section \<open>Records\<close>

record config_source =
  csVendor :: string
  csFile :: string
  csLine :: int
  csRaw :: string

record bgp_neighbor =
  nbNetworkInstance :: network_instance
  nbAddress :: string
  nbRemoteAS :: asn
  nbActivated :: bool
  nbNextHopSelf :: bool
  nbPeerNode :: string
  nbImportPolicy :: string
  nbExportPolicy :: string

record prefix_list_rule =
  plSeq :: int
  plAction :: string
  plPrefix :: string
  plGe :: int
  plLe :: int
  plMatch :: "prefix_set option"

record prefix_list =
  plName :: string
  plRules :: "prefix_list_rule list"

record string_list_rule =
  slSeq :: int
  slAction :: string
  slPattern :: string

record string_list =
  slName :: string
  slRules :: "string_list_rule list"

record route_policy_rule =
  rpSeq :: int
  rpAction :: string
  MatchPrefixList :: string
  MatchNextHopPrefixList :: string
  MatchASPathList :: string
  MatchCommunityList :: string
  MatchCommunityExact :: bool
  SetLocalPref :: "int option"
  SetLocalPrefDelta :: "int option"
  SetMED :: "int option"
  SetMEDDelta :: "int option"
  SetASPathPrepend :: "asn list"
  SetCommunities :: "string list"
  SetCommunityAdditive :: bool
  SetOriginCode :: string
  SetNextHop :: string
  SetNextHopSelf :: bool

record route_policy =
  rpName :: string
  rpRules :: "route_policy_rule list"

record configured_route =
  crNode :: string
  crNetworkInstance :: network_instance
  crAFI :: afi
  crPrefix :: prefix
  crNextHop :: string
  crInterface :: string
  crKind :: string
  crConnectedClass :: string
  crAdminDistance :: int
  crMetric :: int
  crMetricType :: int
  crOSPFRouteType :: string
  crSummaryOnly :: bool
  crSource :: config_source

record bgp_redistribution =
  rdNetworkInstance :: network_instance
  rdKind :: string
  rdRouteMap :: string
  rdSource :: config_source

record ospf_network =
  onPrefix :: prefix
  onArea :: string
  onSource :: config_source

record ospf_interface =
  oiName :: string
  oiArea :: string
  oiCost :: int
  oiPassive :: bool
  oiNetworkType :: string
  oiSource :: config_source

record ospf_area =
  oaID :: string
  oaKind :: string
  oaNoSummary :: bool
  oaDefaultInformationOriginate :: bool
  oaSource :: config_source

record ospf_redistribution =
  orKind :: string
  orRouteMap :: string
  orMetric :: int
  orMetricType :: int
  orSource :: config_source

record ospf_process =
  ospfEnabled :: bool
  ospfNetworkInstance :: network_instance
  ospfRouterID :: string
  ospfNetworks :: "ospf_network list"
  ospfPassiveInterfaces :: "string list"
  ospfInterfaces :: "(string \<times> ospf_interface) list"
  ospfAreas :: "(string \<times> ospf_area) list"
  ospfRedistribute :: "ospf_redistribution list"

record iface =
  ifName :: string
  ifAddress :: string
  ifVRF :: network_instance

record node =
  nodeName :: string
  nodeKind :: device_kind
  nodeRole :: string
  nodeRouterID :: string
  nodeASN :: asn
  nodeLoopback :: string
  nodePrefixes :: "prefix list"
  nodeRoutes :: "configured_route list"
  nodeInterfaces :: "iface list"
  nodeNeighbors :: "bgp_neighbor list"
  nodeRedistribute :: "bgp_redistribution list"
  nodeOSPF :: ospf_process
  nodeOSPFProcesses :: "ospf_process list"
  nodePrefixLists :: "prefix_list list"
  nodeASPathLists :: "string_list list"
  nodeCommunityLists :: "string_list list"
  nodeRoutePolicies :: "route_policy list"

record link =
  linkName :: string
  linkA :: string
  linkB :: string
  linkRole :: string
  linkCost :: int
  linkSubnet :: string
  linkAIntf :: string
  linkBIntf :: string
  linkBandwidth :: "64 word"

record acl_rule =
  ruleSeq :: int
  ruleAction :: string
  ruleMatch :: packet_spec
  ruleSource :: config_source

record acl =
  aclName :: string
  aclNode :: string
  aclVendor :: device_kind
  aclRules :: "acl_rule list"
  aclDefaultAction :: string
  aclSource :: config_source

record acl_binding =
  bindNode :: string
  bindInterface :: string
  bindDirection :: string
  bindACLName :: string
  bindSource :: config_source

record topology =
  topoName :: string
  topoManagementSubnet :: string
  topoNodes :: "node list"
  topoLinks :: "link list"
  topoACLs :: "acl list"
  topoACLBindings :: "acl_binding list"

record failure_domain =
  IncludeNodeRoles :: "string list"
  ExcludeNodeRoles :: "string list"
  IncludeLinkRoles :: "string list"
  ExcludeLinkRoles :: "string list"
  IncludeNodes :: "string list"
  ExcludeNodes :: "string list"
  IncludeLinks :: "string list"
  ExcludeLinks :: "string list"

definition failureDomainIsZero :: "failure_domain \<Rightarrow> bool" where
  "failureDomainIsZero d \<longleftrightarrow>
     length (IncludeNodeRoles d) = 0 \<and> length (ExcludeNodeRoles d) = 0 \<and>
     length (IncludeLinkRoles d) = 0 \<and> length (ExcludeLinkRoles d) = 0 \<and>
     length (IncludeNodes d) = 0 \<and> length (ExcludeNodes d) = 0 \<and>
     length (IncludeLinks d) = 0 \<and> length (ExcludeLinks d) = 0"

text \<open>The zero values Go returns beside a \<open>false\<close>.\<close>

definition zeroFailureDomain :: failure_domain where
  "zeroFailureDomain =
     \<lparr>IncludeNodeRoles = [], ExcludeNodeRoles = [], IncludeLinkRoles = [], ExcludeLinkRoles = [],
      IncludeNodes = [], ExcludeNodes = [], IncludeLinks = [], ExcludeLinks = []\<rparr>"

definition zeroSource :: config_source where
  "zeroSource = \<lparr>csVendor = [], csFile = [], csLine = 0, csRaw = []\<rparr>"

definition zeroOSPF :: ospf_process where
  "zeroOSPF = \<lparr>ospfEnabled = False, ospfNetworkInstance = [], ospfRouterID = [], ospfNetworks = [],
     ospfPassiveInterfaces = [], ospfInterfaces = [], ospfAreas = [],
     ospfRedistribute = []\<rparr>"

definition zeroNode :: node where
  "zeroNode = \<lparr>nodeName = [], nodeKind = [], nodeRole = [], nodeRouterID = [], nodeASN = 0,
     nodeLoopback = [], nodePrefixes = [], nodeRoutes = [], nodeInterfaces = [], nodeNeighbors = [],
     nodeRedistribute = [], nodeOSPF = zeroOSPF, nodeOSPFProcesses = [], nodePrefixLists = [],
     nodeASPathLists = [], nodeCommunityLists = [], nodeRoutePolicies = []\<rparr>"

definition zeroLink :: link where
  "zeroLink = \<lparr>linkName = [], linkA = [], linkB = [], linkRole = [], linkCost = 0, linkSubnet = [],
     linkAIntf = [], linkBIntf = [], linkBandwidth = 0\<rparr>"

section \<open>Network instances of a node\<close>

text \<open>
  The keys of a Go map are visited in no fixed order and then sorted: the result is the sorted list
  of the distinct keys.
\<close>

definition networkInstanceIDsForNode :: "node \<Rightarrow> network_instance list" where
  "networkInstanceIDsForNode n =
     sorted_list_of_set (set ([NetworkInstanceDefault]
       @ map (\<lambda>i. NormalizeNetworkInstance (ifVRF i)) (nodeInterfaces n)
       @ map (\<lambda>r. NormalizeNetworkInstance (crNetworkInstance r)) (nodeRoutes n)))"

end
