(* ===== verification/Prefix_Universe.thy ===== *)
theory Prefix_Universe
  imports Topology "HOL-Library.AList"
begin

text \<open>
  \<open>internal/domain/model/prefix_universe.go\<close>: splitting the IPv4 addresses into the classes no
  predicate of the configuration tells apart. The loop counters are \<open>uint64\<close> values of at most
  \<open>2 ^ 32\<close>, so they cannot wrap and are natural numbers; the one operation on bits, \<open>current & -current\<close>,
  is taken on words. The wall-clock duration of the statistics is left out.
\<close>

unbundle bit_operations_syntax

section \<open>Predicates and classes\<close>

abbreviation (input) PredicateAddressSpace :: string where "PredicateAddressSpace \<equiv> ''address_space''"
abbreviation (input) PredicateNLRI :: string where "PredicateNLRI \<equiv> ''nlri''"

record prefix_predicate =
  ppID :: int
  ppSource :: string
  ppSet :: "prefix_set option"
  ppKind :: string

record prefix_class =
  pclID :: int
  pclSpace :: prefix_set
  pclMatching :: "int list"

record universe_stats =
  PredicateCount :: int
  UniquePredicateCount :: int
  ClassCount :: int
  PredicateSources :: "(string \<times> int) list"
  MaxClassCIDRs :: int

record prefix_universe =
  puClasses :: "prefix_class list"
  puPredicates :: "prefix_predicate list"
  puStats :: universe_stats

record prefix_interval =
  ivLo :: "32 word"
  ivHi :: "32 word"

definition normalizedPrefixPredicateKind :: "string \<Rightarrow> string" where
  "normalizedPrefixPredicateKind kind = (if kind = PredicateNLRI then PredicateNLRI else PredicateAddressSpace)"

definition prefixSetKey :: "prefix_predicate \<Rightarrow> prefix_set \<Rightarrow> string" where
  "prefixSetKey p s = normalizedPrefixPredicateKind (ppKind p) @ '':'' @ trimSpace (prefixSetString s)"

section \<open>Collecting predicates\<close>

text \<open>The closure \<open>add\<close>.\<close>

definition addPredicate :: "string \<Rightarrow> string \<Rightarrow> prefix_set option \<Rightarrow> prefix_predicate list \<Rightarrow> prefix_predicate list" where
  "addPredicate source kind s out =
     (if s = None then out
      else out @ [\<lparr>ppID = int (length out), ppSource = source, ppSet = s, ppKind = normalizedPrefixPredicateKind kind\<rparr>])"

definition collectPrefixListRule :: "string \<Rightarrow> string \<Rightarrow> prefix_list_rule \<Rightarrow> prefix_predicate list \<Rightarrow> prefix_predicate list" where
  "collectPrefixListRule n listName rule out =
     (let source = ''prefix-list:'' @ n @ '':'' @ listName @ '':'' @ itoa (plSeq rule)
      in if plMatch rule \<noteq> None then addPredicate source PredicateNLRI (plMatch rule) out
         else (case NewPrefixSet (plPrefix rule) (plGe rule) (plLe rule) of
                 Inl _ \<Rightarrow> out
               | Inr s \<Rightarrow> addPredicate source PredicateNLRI (Some s) out))"

definition collectNodePredicates :: "node \<Rightarrow> prefix_predicate list \<Rightarrow> prefix_predicate list" where
  "collectNodePredicates n out =
     (let out1 = fold (\<lambda>p. if prefixIsZero p then id
                       else addPredicate (''route:'' @ nodeName n) PredicateNLRI (Some (ExactPrefixSet p))) (nodePrefixes n) out;
          out2 = fold (\<lambda>r. if prefixIsZero (crPrefix r) then id
                       else addPredicate (''route-source:'' @ nodeName n @ '':'' @ crKind r) PredicateNLRI
                              (Some (ExactPrefixSet (crPrefix r)))) (nodeRoutes n) out1
      in fold (\<lambda>l. fold (collectPrefixListRule (nodeName n) (plName l)) (plRules l)) (nodePrefixLists n) out2)"

definition collectACLRule :: "string \<Rightarrow> acl_rule \<Rightarrow> prefix_predicate list \<Rightarrow> prefix_predicate list" where
  "collectACLRule name rule out =
     addPredicate (''acl:'' @ name @ '':src'') PredicateAddressSpace (SrcSet (ruleMatch rule))
       (addPredicate (''acl:'' @ name) PredicateAddressSpace (DstSet (ruleMatch rule)) out)"

definition CollectPrefixPredicateMetadata :: "topology \<Rightarrow> prefix_predicate list" where
  "CollectPrefixPredicateMetadata topo =
     fold (\<lambda>a. fold (collectACLRule (aclName a)) (aclRules a)) (topoACLs topo)
       (fold collectNodePredicates (topoNodes topo) [])"

definition CollectPrefixPredicates :: "topology \<Rightarrow> prefix_set option list" where
  "CollectPrefixPredicates topo = map ppSet (CollectPrefixPredicateMetadata topo)"

section \<open>Intervals of addresses\<close>

fun ipv4ToUint32 :: "ipaddr \<Rightarrow> 32 word" where
  "ipv4ToUint32 (IPv4 w) = w"
| "ipv4ToUint32 _ = 0"

definition uint32ToIPv4 :: "32 word \<Rightarrow> ipaddr" where
  "uint32ToIPv4 value = IPv4 value"

definition prefixIPv4Interval :: "prefix \<Rightarrow> go_error + prefix_interval list" where
  "prefixIPv4Interval p =
     (if prefixIsZero p then Inr []
      else if \<not> addrIs4 (pfxAddr p) then Inl (Errorf ''prefix universe supports IPv4 only: %s'' [prefixString p])
      else (let lo = ipv4ToUint32 (pfxAddr p); sz = 2 ^ nat (32 - pfxBits p) :: nat
            in Inr [\<lparr>ivLo = lo, ivHi = lo + of_nat (sz - 1)\<rparr>]))"

fun appendResults :: "('e + 'a list) list \<Rightarrow> 'e + 'a list" where
  "appendResults [] = Inr []"
| "appendResults (x # xs) =
     (case x of
        Inl e \<Rightarrow> Inl e
      | Inr a \<Rightarrow> (case appendResults xs of Inl e \<Rightarrow> Inl e | Inr b \<Rightarrow> Inr (a @ b)))"

fun prefixSetIPv4Intervals :: "prefix_set \<Rightarrow> go_error + prefix_interval list" where
  "prefixSetIPv4Intervals AnyPrefixSet = Inr [\<lparr>ivLo = 0, ivHi = NOT 0\<rparr>]"
| "prefixSetIPv4Intervals (ExactPrefixSet p) = prefixIPv4Interval p"
| "prefixSetIPv4Intervals (PrefixRangeSet base minLen maxLen) = prefixIPv4Interval base"
| "prefixSetIPv4Intervals (UnionPrefixSet sets) = appendResults (map prefixSetIPv4Intervals sets)"

section \<open>Covering an interval with prefixes\<close>

definition lowBit :: "nat \<Rightarrow> nat" where
  "lowBit n = unat ((of_nat n :: 64 word) AND - of_nat n)"

fun shrinkTo :: "nat \<Rightarrow> nat \<Rightarrow> nat" where
  "shrinkTo remaining sz = (if remaining < sz then shrinkTo remaining (sz div 2) else sz)"

declare shrinkTo.simps [simp del]

text \<open>\<open>bits.TrailingZeros64\<close>.\<close>

fun trailingZeros64 :: "nat \<Rightarrow> nat" where
  "trailingZeros64 n = (if n = 0 then 64 else if odd n then 0 else Suc (trailingZeros64 (n div 2)))"

declare trailingZeros64.simps [simp del]

definition blockSize :: "nat \<Rightarrow> nat \<Rightarrow> nat" where
  "blockSize current remaining = shrinkTo remaining (if current = 0 then 2 ^ 32 else lowBit current)"

definition blockPrefix :: "nat \<Rightarrow> nat \<Rightarrow> prefix" where
  "blockPrefix current sz =
     PrefixFromNetIP (prefixFrom (uint32ToIPv4 (of_nat current)) (32 - int (trailingZeros64 sz)))"

text \<open>
  The counter grows in every round, since a block is never empty; written with \<open>max 1\<close>, which
  changes nothing, this is visible to the termination prover.
\<close>

function rangeLoop :: "nat \<Rightarrow> nat \<Rightarrow> prefix list" where
  "rangeLoop current hi =
     (if hi < current then []
      else (let sz = blockSize current (hi - current + 1)
            in blockPrefix current sz # rangeLoop (current + max 1 sz) hi))"
  by pat_completeness auto
termination
  by (relation "measure (\<lambda>(current, hi). Suc hi - current)") auto

declare rangeLoop.simps [simp del]

definition prefixesForIPv4Range :: "32 word \<Rightarrow> 32 word \<Rightarrow> prefix list" where
  "prefixesForIPv4Range lo hi = rangeLoop (unat lo) (unat hi)"

definition prefixSetForInterval :: "prefix_interval \<Rightarrow> prefix_set" where
  "prefixSetForInterval iv =
     (let sets = map ExactPrefixSet (prefixesForIPv4Range (ivLo iv) (ivHi iv))
      in if length sets = 1 then sets ! 0 else UnionPrefixSet sets)"

section \<open>Which predicates a class matches\<close>

fun prefixMatchesNLRIPredicateSpace :: "prefix \<Rightarrow> prefix_set \<Rightarrow> bool" where
  "prefixMatchesNLRIPredicateSpace space AnyPrefixSet = (\<not> prefixIsZero space)"
| "prefixMatchesNLRIPredicateSpace space (ExactPrefixSet p) = (\<not> prefixIsZero space \<and> prefixOverlaps p space)"
| "prefixMatchesNLRIPredicateSpace space (PrefixRangeSet base minLen maxLen) =
     (if prefixIsZero space then False
      else if prefixIsZero base \<or> prefixBitLen base \<noteq> prefixBitLen space \<or> \<not> prefixOverlaps base space then False
      else max (max minLen (pfxBits base)) (pfxBits space) \<le> maxLen)"
| "prefixMatchesNLRIPredicateSpace space (UnionPrefixSet sets) =
     (\<not> prefixIsZero space \<and> list_ex (prefixMatchesNLRIPredicateSpace space) sets)"

fun prefixSpaceMatchesNLRIPredicate :: "prefix_set \<Rightarrow> prefix_set \<Rightarrow> bool" where
  "prefixSpaceMatchesNLRIPredicate AnyPrefixSet p = NLRIPredicateOverlaps AnyPrefixSet p"
| "prefixSpaceMatchesNLRIPredicate (ExactPrefixSet s) p = prefixMatchesNLRIPredicateSpace s p"
| "prefixSpaceMatchesNLRIPredicate (PrefixRangeSet base minLen maxLen) p = prefixMatchesNLRIPredicateSpace base p"
| "prefixSpaceMatchesNLRIPredicate (UnionPrefixSet sets) p = list_ex (\<lambda>s. prefixSpaceMatchesNLRIPredicate s p) sets"

definition prefixClassMatchesPredicate :: "prefix_set \<Rightarrow> prefix_predicate \<Rightarrow> bool" where
  "prefixClassMatchesPredicate spaceSet p =
     (case ppSet p of
        None \<Rightarrow> False
      | Some s \<Rightarrow>
          if normalizedPrefixPredicateKind (ppKind p) = PredicateNLRI then prefixSpaceMatchesNLRIPredicate spaceSet s
          else AddressSpaceOverlaps spaceSet s)"

definition matchingPredicateIDs :: "prefix_interval \<Rightarrow> prefix_predicate list \<Rightarrow> int list" where
  "matchingPredicateIDs space predicates =
     map ppID (filter (prefixClassMatchesPredicate (prefixSetForInterval space)) predicates)"

section \<open>Building the universe\<close>

definition PrefixPredicateSourceCategory :: "string \<Rightarrow> string" where
  "PrefixPredicateSourceCategory raw =
     (let source = trimSpace raw
      in if source = [] then ''unknown''
         else (let category = takeWhile (\<lambda>c. c \<noteq> CHR '':'') source
               in if CHR '':'' \<notin> set source \<or> category = [] then source else category))"

definition predicateSourceCounts :: "prefix_predicate list \<Rightarrow> (string \<times> int) list" where
  "predicateSourceCounts predicates =
     fold (\<lambda>p counts. let k = PrefixPredicateSourceCategory (ppSource p)
            in AList.update k (case map_of counts k of None \<Rightarrow> 1 | Some n \<Rightarrow> n + 1) counts) predicates []"

fun prefixSetCIDRCount :: "prefix_set \<Rightarrow> int" where
  "prefixSetCIDRCount (UnionPrefixSet sets) = sum_list (map prefixSetCIDRCount sets)"
| "prefixSetCIDRCount _ = 1"

definition maxClassCIDRs :: "prefix_class list \<Rightarrow> int" where
  "maxClassCIDRs classes = fold (\<lambda>c m. if m < prefixSetCIDRCount (pclSpace c) then prefixSetCIDRCount (pclSpace c) else m) classes 0"

text \<open>The first loop: the numbered predicates, the keys seen and the boundaries.\<close>

type_synonym boundary_state = "prefix_predicate list \<times> string list \<times> nat list"

definition boundaryStep :: "boundary_state \<Rightarrow> prefix_predicate \<Rightarrow> go_error + boundary_state" where
  "boundaryStep st raw =
     (let (preds, seen, boundaries) = st
      in case ppSet raw of
           None \<Rightarrow> Inr st
         | Some s \<Rightarrow>
             (let p = raw\<lparr>ppID := int (length preds), ppKind := normalizedPrefixPredicateKind (ppKind raw)\<rparr>;
                  key = prefixSetKey p s
              in if key \<in> set seen then Inr (preds @ [p], seen, boundaries)
                 else (case prefixSetIPv4Intervals s of
                         Inl e \<Rightarrow> Inl e
                       | Inr ivs \<Rightarrow> Inr (preds @ [p], key # seen,
                           boundaries @ concat (map (\<lambda>iv. [unat (ivLo iv), unat (ivHi iv) + 1]) ivs)))))"

definition compactUint64s :: "nat list \<Rightarrow> nat list" where
  "compactUint64s = remdups_adj"

text \<open>The second loop: one class for every stretch between boundaries that some predicate matches.\<close>

definition classStep :: "prefix_predicate list \<Rightarrow> nat \<Rightarrow> nat \<Rightarrow> prefix_class list \<Rightarrow> prefix_class list" where
  "classStep predicates lo next_boundary classes =
     (let hi = next_boundary - 1
      in if hi < lo \<or> 2 ^ 32 - 1 < hi then classes
         else (let space = \<lparr>ivLo = of_nat lo, ivHi = of_nat hi\<rparr>; matches = matchingPredicateIDs space predicates
               in if length matches = 0 then classes
                  else classes @ [\<lparr>pclID = int (length classes), pclSpace = prefixSetForInterval space, pclMatching = matches\<rparr>]))"

fun universeLoop :: "prefix_predicate list \<Rightarrow> nat list \<Rightarrow> prefix_class list \<Rightarrow> prefix_class list" where
  "universeLoop predicates (lo # hi # bs) classes = universeLoop predicates (hi # bs) (classStep predicates lo hi classes)"
| "universeLoop predicates _ classes = classes"

definition zeroStats :: universe_stats where
  "zeroStats = \<lparr>PredicateCount = 0, UniquePredicateCount = 0, ClassCount = 0, PredicateSources = [], MaxClassCIDRs = 0\<rparr>"

definition BuildPrefixUniverseFromPredicates :: "prefix_predicate list \<Rightarrow> go_error + prefix_universe" where
  "BuildPrefixUniverseFromPredicates predicates =
     (case foldE boundaryStep ([], [], []) predicates of
        Inl e \<Rightarrow> Inl e
      | Inr (preds, seen, boundaries) \<Rightarrow>
          (let stats = zeroStats\<lparr>PredicateCount := int (length preds), UniquePredicateCount := int (length seen),
                                 PredicateSources := predicateSourceCounts preds\<rparr>
           in if length boundaries = 0 then Inr \<lparr>puClasses = [], puPredicates = preds, puStats = stats\<rparr>
              else (let classes = universeLoop preds (compactUint64s (sort boundaries)) []
                    in Inr \<lparr>puClasses = classes, puPredicates = preds,
                         puStats = stats\<lparr>ClassCount := int (length classes), MaxClassCIDRs := maxClassCIDRs classes\<rparr>\<rparr>)))"

definition BuildPrefixUniverse :: "prefix_set option list \<Rightarrow> go_error + prefix_universe" where
  "BuildPrefixUniverse predicates =
     BuildPrefixUniverseFromPredicates
       (fold (addPredicate ''predicate'' PredicateAddressSpace) predicates [])"

definition NewPrefixUniverse :: "topology \<Rightarrow> go_error + prefix_universe" where
  "NewPrefixUniverse topo = BuildPrefixUniverseFromPredicates (CollectPrefixPredicateMetadata topo)"

section \<open>Queries\<close>

definition ClassForPrefix :: "prefix_universe \<Rightarrow> prefix \<Rightarrow> int option" where
  "ClassForPrefix u p = map_option pclID (List.find (\<lambda>c. prefixSetContainsPrefixSpace (pclSpace c) p) (puClasses u))"

definition ClassesMatching :: "prefix_universe \<Rightarrow> prefix_set option \<Rightarrow> int list" where
  "ClassesMatching u s =
     (case s of None \<Rightarrow> [] | Some s \<Rightarrow> map pclID (filter (\<lambda>c. AddressSpaceOverlaps (pclSpace c) s) (puClasses u)))"

definition PredicatesForClass :: "prefix_universe \<Rightarrow> int \<Rightarrow> int list" where
  "PredicatesForClass u cid =
     (case List.find (\<lambda>c. pclID c = cid) (puClasses u) of None \<Rightarrow> [] | Some c \<Rightarrow> pclMatching c)"

section \<open>Blocks\<close>

text \<open>\<open>current & -current\<close> is the largest power of two that divides \<open>current\<close>.\<close>

lemma bit_low:
  fixes m :: nat
  shows "bit (2 ^ k * (2 * m + 1)) n \<and> \<not> bit (2 ^ k * (2 * m + 1) - 1) n \<longleftrightarrow> n = k"
proof -
  have a: "2 ^ k * (2 * m + 1) = push_bit k (2 * m + 1)" by (simp add: push_bit_eq_mult)
  have "2 ^ k * (2 * m + 1) - 1 = push_bit (Suc k) m + mask k"
    by (simp add: push_bit_eq_mult mask_eq_exp_minus_1 algebra_simps)
  also have "\<dots> = push_bit (Suc k) m OR mask k"
    by (rule disjunctive_add) (auto simp: bit_simps)
  finally have b: "2 ^ k * (2 * m + 1) - 1 = push_bit (Suc k) m OR mask k" .
  show ?thesis unfolding b unfolding a
    by (cases "n - k") (auto simp: bit_simps bit_Suc bit_0 Suc_le_eq)
qed

lemma lowBit_eq:
  assumes c: "c = 2 ^ k * (2 * m + 1)" and "c < (2::nat) ^ 64"
  shows "lowBit c = 2 ^ k"
proof -
  have "2 ^ k \<le> c" "1 \<le> c" by (simp_all add: c Suc_le_eq)
  then have k: "k < 64" using assms(2) by (metis le_less_trans nat_power_less_imp_less zero_less_numeral)
  have "(of_nat c :: 64 word) - 1 = of_nat (c - 1)" using \<open>1 \<le> c\<close> by (subst of_nat_diff) (simp_all only: of_nat_1)
  then have "(of_nat c :: 64 word) AND - of_nat c = of_nat c AND NOT (of_nat (c - 1))"
    by (simp add: minus_eq_not_minus_1)
  also have "\<dots> = push_bit k 1"
  proof (rule bit_word_eqI)
    fix n assume n: "n < LENGTH(64)"
    have "bit (of_nat c AND NOT (of_nat (c - 1)) :: 64 word) n \<longleftrightarrow> bit c n \<and> \<not> bit (c - 1) n"
      using n by (auto simp: bit_simps)
    then show "bit (of_nat c AND NOT (of_nat (c - 1)) :: 64 word) n = bit (push_bit k 1 :: 64 word) n"
      using bit_low [of k m n] n by (auto simp: bit_simps c)
  qed
  finally have "lowBit c = unat (push_bit k 1 :: 64 word)" unfolding lowBit_def by (rule arg_cong)
  also have "\<dots> = take_bit LENGTH(64) (push_bit k 1)" by (simp only: unsigned_push_bit_eq unsigned_1)
  also have "\<dots> = 2 ^ k"
  proof (subst take_bit_nat_eq_self)
    show "push_bit k 1 < (2 :: nat) ^ LENGTH(64)"
      using k power_strict_increasing [of k 64 "2 :: nat"] by (simp add: push_bit_eq_mult)
  qed (simp add: push_bit_eq_mult)
  finally show ?thesis .
qed

lemma odd_part:
  fixes c :: nat
  assumes "0 < c"
  obtains k m where "c = 2 ^ k * (2 * m + 1)"
  using assms
proof (induction c arbitrary: thesis rule: less_induct)
  case (less c)
  show ?case
  proof (cases "even c")
    case True
    then obtain d where d: "c = 2 * d" by blast
    then have "d < c" "0 < d" using less.prems(2) by auto
    then obtain k m where "d = 2 ^ k * (2 * m + 1)" using less.IH by blast
    then show ?thesis using d less.prems(1) [of "Suc k" m] by simp
  next
    case False
    then obtain m where "c = 2 * m + 1" by (elim oddE)
    then show ?thesis using less.prems(1) [of 0 m] by simp
  qed
qed

lemma shrinkTo_power:
  assumes "0 < remaining"
  shows "\<exists>k' \<le> k. shrinkTo remaining (2 ^ k) = 2 ^ k' \<and> 2 ^ k' \<le> remaining"
proof (induction k)
  case 0
  then show ?case using assms by (subst shrinkTo.simps) simp
next
  case (Suc k)
  show ?case
  proof (cases "remaining < 2 ^ Suc k")
    case True
    then have "shrinkTo remaining (2 ^ Suc k) = shrinkTo remaining (2 ^ k)" by (subst shrinkTo.simps) simp
    then show ?thesis using Suc by (metis le_Suc_eq)
  next
    case False
    then show ?thesis by (subst shrinkTo.simps) (auto intro!: exI [of _ "Suc k"])
  qed
qed

text \<open>A block is an aligned power of two that fits.\<close>

lemma blockSize_power:
  assumes "0 < remaining" "current < 2 ^ 32"
  obtains k where "blockSize current remaining = 2 ^ k" "k \<le> 32" "2 ^ k dvd current" "2 ^ k \<le> remaining"
proof (cases "current = 0")
  case True
  then show ?thesis
    using shrinkTo_power [OF assms(1), of 32] that by (auto simp: blockSize_def)
next
  case False
  then obtain k m where c: "current = 2 ^ k * (2 * m + 1)" using odd_part by blast
  have low: "lowBit current = 2 ^ k" using assms(2) by (intro lowBit_eq [OF c]) simp
  have "2 ^ k \<le> current" using c by (simp add: c)
  then have "2 ^ k < (2 :: nat) ^ 32" using assms(2) by (rule le_less_trans)
  then have "k < 32" by (rule power_less_imp_less_exp [rotated]) simp
  then have "k \<le> 32" by simp
  obtain k' where k': "k' \<le> k" "shrinkTo remaining (2 ^ k) = 2 ^ k'" "2 ^ k' \<le> remaining"
    using shrinkTo_power [OF assms(1), of k] by blast
  have "(2 :: nat) ^ k' dvd current" using k'(1) by (simp add: c le_imp_power_dvd dvd_mult2)
  then show ?thesis using that [of k'] k' \<open>k \<le> 32\<close> False by (simp add: blockSize_def low)
qed

lemma trailingZeros64_power: "trailingZeros64 (2 ^ k) = k"
  by (induction k) (simp_all add: trailingZeros64.simps [of "Suc 0"] trailingZeros64.simps [of "2 * _"])

lemma blockPrefix_contains:
  assumes "k \<le> 32" "2 ^ k dvd current" "current < 2 ^ 32"
  shows "prefixOK (blockPrefix current (2 ^ k))" "addrIs4 (pfxAddr (blockPrefix current (2 ^ k)))"
    "pfxContains (blockPrefix current (2 ^ k)) (IPv4 w) \<longleftrightarrow> current \<le> unat w \<and> unat w < current + 2 ^ k"
proof -
  let ?w = "of_nat current :: 32 word" and ?b = "32 - int k"
  obtain d where d: "current = 2 ^ k * d" using assms(2) by (elim dvdE)
  have unat: "unat ?w = current" using assms(3) by (simp add: unsigned_of_nat take_bit_nat_eq_self)
  have bits: "nat ?b \<le> LENGTH(32)" "LENGTH(32) - nat ?b = k" using assms(1) by auto
  have "unat (maskWord (nat ?b) ?w) = unat ?w" unfolding unat_maskWord [OF bits(1)] bits(2) unat by (simp add: d)
  then have masked: "maskWord (nat ?b) ?w = ?w" by (simp only: word_unat_eq_iff)
  have p: "blockPrefix current (2 ^ k) = IPPrefix (IPv4 ?w) ?b"
    using assms(1) masked
    by (simp add: blockPrefix_def trailingZeros64_power uint32ToIPv4_def prefixFrom_def PrefixFromNetIP_def)
  show "prefixOK (blockPrefix current (2 ^ k))" "addrIs4 (pfxAddr (blockPrefix current (2 ^ k)))"
    unfolding p using assms(1) masked by simp_all
  have k: "32 - nat ?b = k" using bits(2) by simp
  have "pfxContains (IPPrefix (IPv4 ?w) ?b) (IPv4 w) \<longleftrightarrow> unat w div 2 ^ (32 - nat ?b) = unat ?w div 2 ^ (32 - nat ?b)"
    using assms(1) by (intro pfxContains_v4) simp_all
  also have "\<dots> \<longleftrightarrow> unat w div 2 ^ k = d" unfolding k unat by (simp add: d)
  also have "\<dots> \<longleftrightarrow> current \<le> unat w \<and> unat w < current + 2 ^ k"
    by (auto simp: d div_nat_eqI dividend_less_times_div mult.commute algebra_simps)
  finally show "pfxContains (blockPrefix current (2 ^ k)) (IPv4 w) \<longleftrightarrow> current \<le> unat w \<and> unat w < current + 2 ^ k"
    unfolding p .
qed

section \<open>Covers\<close>

text \<open>A list of IPv4 prefixes covers an interval of addresses when together they contain just these.\<close>

definition coversV4 :: "prefix list \<Rightarrow> nat \<Rightarrow> nat \<Rightarrow> bool" where
  "coversV4 ps lo hi \<longleftrightarrow> list_all (\<lambda>p. prefixOK p \<and> addrIs4 (pfxAddr p)) ps
     \<and> (\<forall>w. list_ex (\<lambda>p. pfxContains p (IPv4 w)) ps \<longleftrightarrow> lo \<le> unat w \<and> unat w \<le> hi)"

lemma rangeLoop_covers: "hi < 2 ^ 32 \<Longrightarrow> coversV4 (rangeLoop current hi) current hi"
proof (induction current hi rule: rangeLoop.induct)
  case (1 current hi)
  show ?case
  proof (cases "hi < current")
    case True
    then show ?thesis by (subst rangeLoop.simps) (auto simp: coversV4_def)
  next
    case False
    then have cur: "0 < hi - current + 1" "current < 2 ^ 32" using "1.prems" by auto
    obtain k where k: "blockSize current (hi - current + 1) = 2 ^ k" "k \<le> 32" "2 ^ k dvd current" "2 ^ k \<le> hi - current + 1"
      using blockSize_power [OF cur] .
    note block = blockPrefix_contains [OF k(2,3) cur(2)]
    have max: "max 1 (2 ^ k) = (2 :: nat) ^ k" by (simp add: max_def Suc_le_eq)
    have IH: "coversV4 (rangeLoop (current + 2 ^ k) hi) (current + 2 ^ k) hi"
      using "1.IH" [OF False refl] "1.prems" by (simp only: k(1) max)
    have step: "rangeLoop current hi = blockPrefix current (2 ^ k) # rangeLoop (current + 2 ^ k) hi"
      using False by (subst rangeLoop.simps) (simp only: Let_def k(1) max if_False)
    have "current \<le> x \<and> x \<le> hi \<longleftrightarrow> (current \<le> x \<and> x < current + 2 ^ k) \<or> (current + 2 ^ k \<le> x \<and> x \<le> hi)" for x
      using k(4) False by linarith
    then show ?thesis
      using IH block(1,2) by (simp add: step coversV4_def block(3))
  qed
qed

definition covers :: "prefix_set \<Rightarrow> nat \<Rightarrow> nat \<Rightarrow> bool" where
  "covers s lo hi \<longleftrightarrow> prefixSetOK s \<and> (\<forall>x. ContainsAddr s x \<longrightarrow> addrIs4 x)
     \<and> (\<forall>w. ContainsAddr s (IPv4 w) \<longleftrightarrow> lo \<le> unat w \<and> unat w \<le> hi)"

lemma pfxContains_v4_only: "addrIs4 (pfxAddr p) \<Longrightarrow> pfxContains p x \<Longrightarrow> addrIs4 x"
  by (induction p x rule: pfxContains.induct) auto

lemma prefixSetForInterval_covers:
  assumes "unat (ivLo iv) \<le> unat (ivHi iv)"
  shows "covers (prefixSetForInterval iv) (unat (ivLo iv)) (unat (ivHi iv))"
proof -
  let ?ps = "prefixesForIPv4Range (ivLo iv) (ivHi iv)"
  have cover: "coversV4 ?ps (unat (ivLo iv)) (unat (ivHi iv))"
    unfolding prefixesForIPv4Range_def using unsigned_less [of "ivHi iv"] by (intro rangeLoop_covers) simp
  then have "list_ex (\<lambda>p. pfxContains p (IPv4 (ivLo iv))) ?ps" using assms by (simp add: coversV4_def)
  then have nonempty: "?ps \<noteq> []" by auto
  have v4: "addrIs4 x" if "p \<in> set ?ps" "pfxContains p x" for p x
    using that cover pfxContains_v4_only by (auto simp: coversV4_def list_all_iff)
  show ?thesis
  proof (cases "length ?ps = 1")
    case True
    then obtain p where p: "?ps = [p]" by (cases ?ps) auto
    then show ?thesis
      using cover v4 by (auto simp: prefixSetForInterval_def covers_def coversV4_def ExactContainsAddr_def)
  next
    case False
    then have "prefixSetForInterval iv = UnionPrefixSet (map ExactPrefixSet ?ps)"
      by (simp add: prefixSetForInterval_def)
    then show ?thesis
      using cover v4 nonempty
      by (auto simp: covers_def coversV4_def ExactContainsAddr_def list_all_iff list_ex_iff)
  qed
qed

section \<open>The intervals of a predicate\<close>

definition inInterval :: "32 word \<Rightarrow> prefix_interval \<Rightarrow> bool" where
  "inInterval w iv \<longleftrightarrow> unat (ivLo iv) \<le> unat w \<and> unat w \<le> unat (ivHi iv)"

lemma prefixIPv4Interval_exact:
  assumes "prefixOK p" "prefixIPv4Interval p = Inr ivs"
  shows "pfxContains p (IPv4 w) \<longleftrightarrow> list_ex (inInterval w) ivs"
  using assms(1)
proof (cases p rule: prefixOK_cases)
  case (V4 lo b)
  let ?k = "32 - nat b"
  have k: "nat (32 - b) = ?k" using V4 by simp
  have "prefixIPv4Interval p = Inr [\<lparr>ivLo = lo, ivHi = lo + of_nat (2 ^ ?k - 1)\<rparr>]"
    using V4 assms(1) by (simp add: prefixIPv4Interval_def k)
  then have ivs: "ivs = [\<lparr>ivLo = lo, ivHi = lo + of_nat (2 ^ ?k - 1)\<rparr>]" using assms(2) by simp
  have "unat (maskWord (nat b) lo) = unat lo div 2 ^ ?k * 2 ^ ?k"
    using V4 unat_maskWord [where n = "nat b" and w = lo] by simp
  then obtain d where d: "unat lo = d * 2 ^ ?k" using V4 by metis
  have "(2 :: nat) ^ ?k * 2 ^ nat b = 2 ^ 32" using V4 by (simp flip: power_add)
  have "unat lo < 2 ^ 32" using unsigned_less [of lo] by simp
  then have "d < 2 ^ nat b" using d \<open>2 ^ ?k * 2 ^ nat b = 2 ^ 32\<close>
    by (metis mult.commute nat_mult_less_cancel_disj)
  then have "Suc d * 2 ^ ?k \<le> 2 ^ nat b * 2 ^ ?k" by (intro mult_right_mono) simp_all
  then have fits: "unat lo + 2 ^ ?k \<le> 2 ^ 32" using d \<open>2 ^ ?k * 2 ^ nat b = 2 ^ 32\<close> by (simp add: mult.commute)
  have hi: "unat (lo + of_nat (2 ^ ?k - 1)) = unat lo + (2 ^ ?k - 1)"
  proof -
    have "lo + of_nat n = of_nat (unat lo + n)" for n by simp
    then have "lo + of_nat (2 ^ ?k - 1) = of_nat (unat lo + (2 ^ ?k - 1))" .
    also have "unat (\<dots> :: 32 word) = unat lo + (2 ^ ?k - 1)"
      using fits by (subst unsigned_of_nat, subst take_bit_nat_eq_self) (simp_all add: le_diff_conv2 less_eq_Suc_le)
    finally show ?thesis .
  qed
  have "pfxContains p (IPv4 w) \<longleftrightarrow> unat w div 2 ^ ?k = d"
    using V4 by (simp only: pfxContains_v4) (simp add: d)
  also have "\<dots> \<longleftrightarrow> unat lo \<le> unat w \<and> unat w < unat lo + 2 ^ ?k"
    by (auto simp: d div_nat_eqI dividend_less_times_div mult.commute algebra_simps)
  also have "\<dots> \<longleftrightarrow> unat lo \<le> unat w \<and> unat w \<le> unat lo + (2 ^ ?k - 1)"
  proof -
    have "x < a + n \<longleftrightarrow> x \<le> a + (n - 1)" if "0 < n" for x a n :: nat using that by linarith
    from this [of "2 ^ ?k"] show ?thesis by simp
  qed
  finally have in_iv: "pfxContains p (IPv4 w) \<longleftrightarrow> inInterval w \<lparr>ivLo = lo, ivHi = lo + of_nat (2 ^ ?k - 1)\<rparr>"
    unfolding inInterval_def prefix_interval.simps hi .
  have "list_ex P [iv] = P iv" for P and iv :: prefix_interval by simp
  then show ?thesis using in_iv unfolding ivs by blast
next
  case (V6 lo b)
  then show ?thesis using assms by (simp add: prefixIPv4Interval_def)
qed

lemma appendResults_Inr:
  "appendResults xs = Inr ys \<Longrightarrow> \<exists>zs. xs = map Inr zs \<and> ys = concat zs"
proof (induction xs arbitrary: ys)
  case (Cons x xs)
  then obtain a b where "x = Inr a" "appendResults xs = Inr b" "ys = a @ b" by (auto split: sum.splits)
  then show ?case using Cons.IH [of b] by (auto intro: exI [of _ "a # _"])
qed simp

lemma list_ex_concat: "list_ex P (concat xss) = list_ex (list_ex P) xss"
  by (induction xss) auto

lemma prefixSetIPv4Intervals_exact:
  "prefixSetOK s \<Longrightarrow> prefixSetIPv4Intervals s = Inr ivs \<Longrightarrow> ContainsAddr s (IPv4 w) \<longleftrightarrow> list_ex (inInterval w) ivs"
proof (induction s arbitrary: ivs)
  case AnyPrefixSet
  have "unat w < 2 ^ LENGTH(32)" by (rule unsigned_less)
  then have "unat w \<le> unat (- 1 :: 32 word)" by (simp add: unsigned_minus_1_eq_mask mask_eq_exp_minus_1)
  then show ?case using AnyPrefixSet by (auto simp: AnyContainsAddr_def inInterval_def)
next
  case (UnionPrefixSet sets)
  obtain zs where zs: "map prefixSetIPv4Intervals sets = map Inr zs" "ivs = concat zs"
    using UnionPrefixSet.prems(2) by (auto dest: appendResults_Inr)
  have len: "length sets = length zs" using zs(1) by (rule map_eq_imp_length_eq)
  have "ContainsAddr (sets ! i) (IPv4 w) \<longleftrightarrow> list_ex (inInterval w) (zs ! i)" if "i < length sets" for i
  proof (rule UnionPrefixSet.IH)
    show "sets ! i \<in> set sets" "prefixSetOK (sets ! i)" using that UnionPrefixSet.prems(1) by (auto simp: list_all_length)
    show "prefixSetIPv4Intervals (sets ! i) = Inr (zs ! i)" using that zs(1) len by (metis nth_map)
  qed
  then have "list_ex (\<lambda>s. ContainsAddr s (IPv4 w)) sets \<longleftrightarrow> list_ex (list_ex (inInterval w)) zs"
    unfolding list_ex_length len by blast
  then show ?case by (simp add: zs(2) list_ex_concat)
qed (simp_all add: prefixIPv4Interval_exact ExactContainsAddr_def RangeContainsAddr_iff)

section \<open>Atoms between boundaries\<close>

text \<open>Between two neighbouring boundaries every interval that starts and ends at boundaries is constant.\<close>

definition bounded :: "nat list \<Rightarrow> prefix_interval \<Rightarrow> bool" where
  "bounded bs iv \<longleftrightarrow> unat (ivLo iv) \<in> set bs \<and> unat (ivHi iv) + 1 \<in> set bs"

lemma adjacent_constant:
  assumes "sorted_wrt (<) (pre @ a # b # post)" "bounded (pre @ a # b # post) iv"
    and "a \<le> unat v" "unat v < b" "a \<le> unat w" "unat w < b"
  shows "inInterval v iv \<longleftrightarrow> inInterval w iv"
proof -
  have gap: "x \<le> a \<or> b \<le> x" if "x \<in> set (pre @ a # b # post)" for x
    using assms(1) that by (fastforce simp: sorted_wrt_append)
  have "unat (ivLo iv) \<le> a \<or> b \<le> unat (ivLo iv)" "unat (ivHi iv) + 1 \<le> a \<or> b \<le> unat (ivHi iv) + 1"
    using gap assms(2) unfolding bounded_def by blast+
  then show ?thesis using assms(3-) unfolding inInterval_def by linarith
qed

text \<open>The first loop: every predicate is kept, numbered by its position, and its intervals are bounded.\<close>

definition listed :: "prefix_predicate list \<Rightarrow> prefix_predicate list" where
  "listed raws = filter (\<lambda>p. ppSet p \<noteq> None) raws"

definition predicateBounded :: "nat list \<Rightarrow> prefix_set \<Rightarrow> bool" where
  "predicateBounded bs s \<longleftrightarrow> (\<exists>ivs. prefixSetIPv4Intervals s = Inr ivs \<and> list_all (bounded bs) ivs)"

lemma predicateBounded_mono: "predicateBounded bs s \<Longrightarrow> set bs \<subseteq> set bs' \<Longrightarrow> predicateBounded bs' s"
  unfolding predicateBounded_def bounded_def list_all_iff by blast

lemma bounded_boundaries: "iv \<in> set ivs \<Longrightarrow> bounded (bs @ concat (map (\<lambda>iv. [unat (ivLo iv), unat (ivHi iv) + 1]) ivs)) iv"
  by (auto simp: bounded_def)

text \<open>
  The configuration's sets: any, a prefix or a range of IPv4 prefixes. The printed form of such a set
  determines its intervals, so skipping a key seen before skips no boundary.
\<close>

fun v4Set :: "prefix_set \<Rightarrow> bool" where
  "v4Set AnyPrefixSet = True"
| "v4Set (ExactPrefixSet p) = (prefixOK p \<and> addrIs4 (pfxAddr p))"
| "v4Set (PrefixRangeSet base minLen maxLen) =
     (prefixSetOK (PrefixRangeSet base minLen maxLen) \<and> addrIs4 (pfxAddr base))"
| "v4Set (UnionPrefixSet _) = False"

lemma v4Set_OK: "v4Set s \<Longrightarrow> prefixSetOK s"
  by (cases s) auto

lemma prefixSetIPv4Intervals_v4: "v4Set s \<Longrightarrow> \<exists>ivs. prefixSetIPv4Intervals s = Inr ivs"
  by (cases s) (auto simp: prefixIPv4Interval_def Let_def)

definition setHead :: "prefix_set \<Rightarrow> string" where
  "setHead s = (case s of ExactPrefixSet p \<Rightarrow> prefixString p | PrefixRangeSet base _ _ \<Rightarrow> prefixString base | _ \<Rightarrow> ''any'')"

lemma prefixString_v4:
  assumes "prefixOK p" "addrIs4 (pfxAddr p)"
  shows "prefixString p = pfxStr p" "isV4Prefix p" "CHR ''/'' \<in> set (prefixString p)"
    "prefixString p \<noteq> []" "\<forall>c \<in> set (prefixString p). \<not> isSpace c"
proof -
  show str: "prefixString p = pfxStr p" and v4: "isV4Prefix p" using assms by (simp_all add: prefixString_def isV4Prefix_OK)
  obtain w n where p: "p = IPPrefix (IPv4 w) (int n)" "n \<le> 32" using v4 by (rule isV4PrefixE)
  have eq: "prefixString p = string4 w @ CHR ''/'' # natStr n" unfolding str unfolding p(1) by (rule pfxStr_v4 [OF p(2)])
  then show "CHR ''/'' \<in> set (prefixString p)" "prefixString p \<noteq> []" by simp_all
  have "\<not> isSpace c" if "isDigit c \<or> c = CHR ''.'' \<or> c = CHR ''/''" for c
    using that by (auto simp: isDigit_def isSpace_def Let_def)
  then show "\<forall>c \<in> set (prefixString p). \<not> isSpace c"
    using string4_punct [of _ w] digits_natStr [of n] unfolding eq by (auto simp: list_all_iff)
qed

lemma trimSpace_head:
  assumes "x \<noteq> []" "\<forall>c \<in> set x. \<not> isSpace c" "r = [] \<or> isSpace (hd r)"
  shows "\<exists>r'. trimSpace (x @ r) = x @ r' \<and> (r' = [] \<or> isSpace (hd r'))"
proof -
  let ?r' = "rev (dropWhile isSpace (rev r))"
  have front: "dropWhile isSpace (x @ r) = x @ r" using assms(1,2) by (cases x) auto
  have "dropWhile isSpace (rev x) = rev x" using assms(1,2) by (cases x rule: rev_cases) auto
  then have "dropWhile isSpace (rev r @ rev x) = dropWhile isSpace (rev r) @ rev x"
    by (cases "\<forall>c \<in> set r. isSpace c") (auto simp: dropWhile_append dropWhile_append3)
  then have "trimSpace (x @ r) = x @ ?r'" by (simp add: trimSpace_def front)
  moreover have "r = ?r' @ rev (takeWhile isSpace (rev r))" by (metis rev_append rev_rev_ident takeWhile_dropWhile_id)
  then have "?r' = [] \<or> isSpace (hd ?r')" using assms(3) by (metis append_is_Nil_conv hd_append2)
  ultimately show ?thesis by blast
qed

lemma prefixSetKey_head:
  assumes "v4Set s"
  shows "\<exists>r. trimSpace (prefixSetString s) = setHead s @ r \<and> (r = [] \<or> isSpace (hd r))"
    "setHead s \<noteq> []" "\<forall>c \<in> set (setHead s). \<not> isSpace c"
proof -
  have any: "\<forall>c \<in> set ''any''. \<not> isSpace c" by (simp add: isSpace_def)
  show *: "setHead s \<noteq> []" "\<forall>c \<in> set (setHead s). \<not> isSpace c"
    using assms any prefixString_v4 by (cases s; auto simp: setHead_def)+
  have sp: "isSpace CHR '' ''" by (simp add: isSpace_def)
  have "\<exists>r. prefixSetString s = setHead s @ r \<and> (r = [] \<or> isSpace (hd r))"
    using assms sp by (cases s) (auto simp: setHead_def RangeString_def)
  then show "\<exists>r. trimSpace (prefixSetString s) = setHead s @ r \<and> (r = [] \<or> isSpace (hd r))"
    using trimSpace_head [OF *] by metis
qed

lemma keys_identify:
  assumes "v4Set s" "v4Set t" "prefixSetKey p s = prefixSetKey q t"
  shows "prefixSetIPv4Intervals s = prefixSetIPv4Intervals t"
proof -
  have kind: "\<forall>c \<in> set (normalizedPrefixPredicateKind k). c \<noteq> CHR '':''" for k
    by (simp add: normalizedPrefixPredicateKind_def)
  have trim: "'':'' @ trimSpace (prefixSetString s) = '':'' @ trimSpace (prefixSetString t)"
    using assms(3) append_stop_unique [of "normalizedPrefixPredicateKind (ppKind p)" "'':'' @ trimSpace (prefixSetString s)"
        "normalizedPrefixPredicateKind (ppKind q)" "'':'' @ trimSpace (prefixSetString t)" "\<lambda>c. c = CHR '':''"] kind
    by (simp add: prefixSetKey_def)
  obtain r where r: "trimSpace (prefixSetString s) = setHead s @ r" "r = [] \<or> isSpace (hd r)"
    using prefixSetKey_head(1) [OF assms(1)] by blast
  obtain r' where r': "trimSpace (prefixSetString t) = setHead t @ r'" "r' = [] \<or> isSpace (hd r')"
    using prefixSetKey_head(1) [OF assms(2)] by blast
  have "setHead s @ r = setHead t @ r'" using trim r(1) r'(1) by simp
  then have head: "setHead s = setHead t"
    using append_stop_unique [of "setHead s" r "setHead t" r' isSpace] prefixSetKey_head(3) assms(1,2) r(2) r'(2) by blast
  have any: "CHR ''/'' \<notin> set ''any''" by simp
  have "prefixString x = ''any'' \<Longrightarrow> prefixOK x \<Longrightarrow> addrIs4 (pfxAddr x) \<Longrightarrow> False" for x
    using prefixString_v4(3) [of x] any by metis
  moreover have "prefixString x = prefixString y \<Longrightarrow> prefixOK x \<Longrightarrow> addrIs4 (pfxAddr x) \<Longrightarrow> prefixOK y
      \<Longrightarrow> addrIs4 (pfxAddr y) \<Longrightarrow> x = y" for x y
    using prefixString_v4(1,2) pfxStr_inject_v4 by metis
  ultimately show ?thesis using head assms(1,2) by (cases s; cases t) (auto simp: setHead_def dest: sym)
qed

definition numbered :: "prefix_predicate list \<Rightarrow> prefix_predicate list \<Rightarrow> bool" where
  "numbered raws preds \<longleftrightarrow> map ppID preds = map int [0..<length preds] \<and> map ppSet preds = map ppSet (listed raws)
     \<and> map (normalizedPrefixPredicateKind \<circ> ppKind) preds = map (normalizedPrefixPredicateKind \<circ> ppKind) (listed raws)"

definition allV4 :: "prefix_predicate list \<Rightarrow> bool" where
  "allV4 raws \<longleftrightarrow> (\<forall>p \<in> set raws. \<forall>s. ppSet p = Some s \<longrightarrow> v4Set s)"

definition boundariesOK :: "prefix_predicate list \<Rightarrow> boundary_state \<Rightarrow> bool" where
  "boundariesOK raws st \<longleftrightarrow> (case st of (preds, seen, bs) \<Rightarrow>
     numbered raws preds \<and> (\<forall>p \<in> set raws. \<forall>s. ppSet p = Some s \<longrightarrow> predicateBounded bs s \<and> prefixSetKey p s \<in> set seen)
     \<and> (\<forall>k \<in> set seen. \<exists>p \<in> set raws. \<exists>s. ppSet p = Some s \<and> prefixSetKey p s = k \<and> predicateBounded bs s))"

lemma normalizedKind_idem [simp]:
  "normalizedPrefixPredicateKind (normalizedPrefixPredicateKind k) = normalizedPrefixPredicateKind k"
  by (simp add: normalizedPrefixPredicateKind_def)

lemma numbered_snoc:
  assumes "numbered raws preds" "ppSet p = Some s"
  shows "numbered (raws @ [p]) (preds @ [p\<lparr>ppID := int (length preds), ppKind := normalizedPrefixPredicateKind (ppKind p)\<rparr>])"
  using assms by (simp add: numbered_def listed_def)

lemma boundariesOK_step:
  assumes "boundariesOK raws st" "allV4 (raws @ [p])" "boundaryStep st p = Inr st'"
  shows "boundariesOK (raws @ [p]) st'"
proof -
  obtain preds seen bs where st: "st = (preds, seen, bs)" using prod_cases3 by blast
  show ?thesis
  proof (cases "ppSet p")
    case None
    then have "listed (raws @ [p]) = listed raws" "st' = st" using assms(3) by (simp_all add: listed_def boundaryStep_def st)
    then show ?thesis using assms(1) None by (auto simp: boundariesOK_def st numbered_def)
  next
    case (Some s)
    let ?p = "p\<lparr>ppID := int (length preds), ppKind := normalizedPrefixPredicateKind (ppKind p)\<rparr>"
    have key: "prefixSetKey ?p s = prefixSetKey p s" by (simp add: prefixSetKey_def)
    have old: "numbered raws preds" "\<forall>q \<in> set raws. \<forall>t. ppSet q = Some t \<longrightarrow> predicateBounded bs t \<and> prefixSetKey q t \<in> set seen"
        "\<forall>k \<in> set seen. \<exists>q \<in> set raws. \<exists>t. ppSet q = Some t \<and> prefixSetKey q t = k \<and> predicateBounded bs t"
      using assms(1) by (simp_all add: boundariesOK_def st)
    note num = numbered_snoc [OF old(1) Some]
    show ?thesis
    proof (cases "prefixSetKey p s \<in> set seen")
      case True
      then obtain q t where q: "q \<in> set raws" "ppSet q = Some t" "prefixSetKey q t = prefixSetKey p s" "predicateBounded bs t"
        using old(3) by blast
      then have "v4Set s" "v4Set t" using assms(2) Some unfolding allV4_def by simp_all
      then have "prefixSetIPv4Intervals t = prefixSetIPv4Intervals s" using keys_identify q(3) by blast
      then have "predicateBounded bs s" using q(4) by (simp add: predicateBounded_def)
      moreover have "st' = (preds @ [?p], seen, bs)" using assms(3) True by (simp add: boundaryStep_def st Some key Let_def)
      ultimately show ?thesis using num old(2,3) True Some by (auto simp: boundariesOK_def)
    next
      case False
      then obtain ivs where ivs: "prefixSetIPv4Intervals s = Inr ivs"
        using assms(3) by (auto simp: boundaryStep_def st Some key Let_def split: sum.splits)
      let ?bs = "bs @ concat (map (\<lambda>iv. [unat (ivLo iv), unat (ivHi iv) + 1]) ivs)"
      have st': "st' = (preds @ [?p], prefixSetKey p s # seen, ?bs)"
        using assms(3) False ivs by (simp add: boundaryStep_def st Some key Let_def)
      have new: "predicateBounded ?bs s" using ivs bounded_boundaries unfolding predicateBounded_def list_all_iff by blast
      have mono: "predicateBounded bs t \<Longrightarrow> predicateBounded ?bs t" for t by (erule predicateBounded_mono) auto
      have "predicateBounded ?bs t \<and> prefixSetKey q t \<in> set (prefixSetKey p s # seen)"
        if "q \<in> set (raws @ [p])" "ppSet q = Some t" for q t
        using that old(2) new mono Some by auto
      moreover have "\<exists>q \<in> set (raws @ [p]). \<exists>t. ppSet q = Some t \<and> prefixSetKey q t = k \<and> predicateBounded ?bs t"
        if k: "k \<in> set (prefixSetKey p s # seen)" for k
      proof (cases "k = prefixSetKey p s")
        case True
        then show ?thesis using Some new by auto
      next
        case False
        then show ?thesis using k old(3) mono by fastforce
      qed
      ultimately show ?thesis using num unfolding st' boundariesOK_def prod.case by blast
    qed
  qed
qed

lemma boundaries_exact:
  assumes "allV4 raws"
  shows "\<exists>preds seen bs. foldE boundaryStep ([], [], []) raws = Inr (preds, seen, bs) \<and> boundariesOK raws (preds, seen, bs)"
  using assms
proof (induction raws rule: rev_induct)
  case Nil
  show ?case by (simp add: boundariesOK_def numbered_def listed_def)
next
  case (snoc p raws)
  then obtain st where st: "foldE boundaryStep ([], [], []) raws = Inr st" "boundariesOK raws st"
    by (auto simp: allV4_def)
  have "\<exists>st'. boundaryStep st p = Inr st'"
  proof (cases "ppSet p")
    case (Some s)
    then have "v4Set s" using snoc.prems by (simp add: allV4_def)
    then obtain ivs where "prefixSetIPv4Intervals s = Inr ivs" using prefixSetIPv4Intervals_v4 by blast
    then show ?thesis by (cases st) (simp add: boundaryStep_def Some Let_def)
  qed (cases st, simp add: boundaryStep_def)
  then obtain st' where st': "boundaryStep st p = Inr st'" ..
  then have "boundariesOK (raws @ [p]) st'" by (rule boundariesOK_step [OF st(2) snoc.prems])
  then show ?case by (cases st') (simp add: foldE_append st(1) st')
qed

section \<open>The classes of the second loop\<close>

definition atomSpace :: "nat \<times> nat \<Rightarrow> prefix_interval" where
  "atomSpace ab = \<lparr>ivLo = of_nat (fst ab), ivHi = of_nat (snd ab - 1)\<rparr>"

definition atoms :: "prefix_predicate list \<Rightarrow> nat list \<Rightarrow> (nat \<times> nat) list" where
  "atoms preds cs = filter (\<lambda>ab. fst ab < snd ab \<and> snd ab \<le> 2 ^ 32 \<and> matchingPredicateIDs (atomSpace ab) preds \<noteq> [])
     (zip cs (tl cs))"

lemma classStep_atoms:
  assumes "a < b"
  shows "classStep preds a b classes = classes @
     (if b \<le> 2 ^ 32 \<and> matchingPredicateIDs (atomSpace (a, b)) preds \<noteq> []
      then [\<lparr>pclID = int (length classes), pclSpace = prefixSetForInterval (atomSpace (a, b)),
             pclMatching = matchingPredicateIDs (atomSpace (a, b)) preds\<rparr>] else [])"
  using assms by (auto simp: classStep_def Let_def atomSpace_def)

lemma universeLoop_atoms:
  assumes "sorted_wrt (<) cs"
  shows "map (\<lambda>c. (pclSpace c, pclMatching c)) (universeLoop preds cs classes)
    = map (\<lambda>c. (pclSpace c, pclMatching c)) classes
      @ map (\<lambda>ab. (prefixSetForInterval (atomSpace ab), matchingPredicateIDs (atomSpace ab) preds)) (atoms preds cs)"
  using assms
proof (induction preds cs classes rule: universeLoop.induct)
  case (1 preds lo hi bs classes)
  then have lt: "lo < hi" by simp
  have "map (\<lambda>c. (pclSpace c, pclMatching c)) (classStep preds lo hi classes)
    = map (\<lambda>c. (pclSpace c, pclMatching c)) classes
      @ (if hi \<le> 2 ^ 32 \<and> matchingPredicateIDs (atomSpace (lo, hi)) preds \<noteq> []
         then [(prefixSetForInterval (atomSpace (lo, hi)), matchingPredicateIDs (atomSpace (lo, hi)) preds)] else [])"
    unfolding classStep_atoms [OF lt] by simp
  then show ?case using 1 lt by (simp add: atoms_def)
qed (simp_all add: atoms_def)

lemma sorted_pairs: "sorted_wrt (<) (cs :: nat list) \<Longrightarrow> sorted_wrt (\<lambda>x y. snd x \<le> fst y) (zip cs (tl cs))"
proof (induction cs rule: induct_list012)
  case (3 a b cs)
  have "b \<le> fst xy" if "xy \<in> set (zip (b # cs) cs)" for xy
  proof -
    obtain c d where cd: "xy = (c, d)" by force
    then have "c \<in> set (b # cs)" using that set_zip_leftD by metis
    then show ?thesis using "3.prems" cd by auto
  qed
  then show ?case using 3 by auto
qed simp_all

lemma pair_split: "(a, b) \<in> set (zip cs (tl cs)) \<longleftrightarrow> (\<exists>pre post. cs = pre @ a # b # post)"
proof (induction cs rule: induct_list012)
  case (3 x y cs)
  have "(\<exists>pre post. x # y # cs = pre @ a # b # post) \<longleftrightarrow> a = x \<and> b = y \<or> (\<exists>pre post. y # cs = pre @ a # b # post)"
    by (metis (no_types, lifting) append_Cons append_Nil list.inject neq_Nil_conv)
  then show ?case using "3.IH"(2) by auto
qed simp_all

lemma enclosing_pair:
  assumes "sorted_wrt (<) cs" "lo \<in> set cs" "up \<in> set cs" "lo \<le> x" "x < (up :: nat)"
  shows "\<exists>a b. (a, b) \<in> set (zip cs (tl cs)) \<and> a \<le> x \<and> x < b \<and> b \<le> up"
proof -
  let ?l = "takeWhile (\<lambda>y. y \<le> x) cs" and ?r = "dropWhile (\<lambda>y. y \<le> x) cs"
  have cs: "cs = ?l @ ?r" by simp
  have sorted: "sorted_wrt (<) (?l @ ?r)" using assms(1) by simp
  have r: "?r \<noteq> []" using assms(3,5) by (auto simp: dropWhile_eq_Nil_conv intro!: bexI [of _ up])
  then have hd: "x < hd ?r" using hd_dropWhile [of "\<lambda>y. y \<le> x" cs] by simp
  then have above: "\<forall>y \<in> set ?r. x < y"
    using r sorted by (cases ?r) (auto simp: sorted_wrt_append)
  then have l: "?l \<noteq> []" using assms(2,4) cs by (metis append_Nil leD)
  have "up \<in> set ?r" using assms(3,5) cs by (metis Un_iff leD set_append set_takeWhileD)
  then have up: "hd ?r \<le> up" using r sorted by (cases ?r) (auto simp: sorted_wrt_append)
  have "last ?l \<le> x" using l by (metis last_in_set set_takeWhileD)
  have "cs = butlast ?l @ last ?l # hd ?r # tl ?r"
    using cs l r by (metis append_butlast_last_id append_Cons append_Nil append_assoc list.collapse)
  then have "(last ?l, hd ?r) \<in> set (zip cs (tl cs))" unfolding pair_split by blast
  then show ?thesis using \<open>last ?l \<le> x\<close> hd up by blast
qed

section \<open>The partition\<close>

definition inClass :: "32 word \<Rightarrow> prefix_class \<Rightarrow> bool" where
  "inClass w c \<longleftrightarrow> ContainsAddr (pclSpace c) (IPv4 w)"

definition inside :: "prefix_class \<Rightarrow> prefix_set \<Rightarrow> bool" where
  "inside c s \<longleftrightarrow> (\<forall>w. inClass w c \<longrightarrow> ContainsAddr s (IPv4 w))"

definition outside :: "prefix_class \<Rightarrow> prefix_set \<Rightarrow> bool" where
  "outside c s \<longleftrightarrow> (\<forall>w. inClass w c \<longrightarrow> \<not> ContainsAddr s (IPv4 w))"

lemma atomSpace_covers:
  assumes "a < b" "b \<le> 2 ^ 32"
  shows "covers (prefixSetForInterval (atomSpace (a, b))) a (b - 1)"
proof -
  have "unat (of_nat n :: 32 word) = n" if "n < b" for n
    using assms that by (simp add: unsigned_of_nat take_bit_nat_eq_self)
  from this [of a] this [of "b - 1"] show ?thesis
    using prefixSetForInterval_covers [of "atomSpace (a, b)"] assms by (simp add: atomSpace_def)
qed

lemma atom_constant:
  assumes "sorted_wrt (<) cs" "(a, b) \<in> set (zip cs (tl cs))" "predicateBounded cs s" "prefixSetOK s"
    and "a \<le> unat v" "unat v < b" "a \<le> unat w" "unat w < b"
  shows "ContainsAddr s (IPv4 v) \<longleftrightarrow> ContainsAddr s (IPv4 w)"
proof -
  obtain pre post where cs: "cs = pre @ a # b # post" using assms(2) unfolding pair_split by blast
  obtain ivs where ivs: "prefixSetIPv4Intervals s = Inr ivs" "list_all (bounded cs) ivs"
    using assms(3) by (auto simp: predicateBounded_def)
  have "inInterval v iv \<longleftrightarrow> inInterval w iv" if "iv \<in> set ivs" for iv
  proof -
    have "bounded cs iv" using that ivs(2) by (simp only: list_all_iff)
    then have "bounded (pre @ a # b # post) iv" by (simp only: cs)
    then show ?thesis by (rule adjacent_constant [OF assms(1) [unfolded cs] _ assms(5-8)])
  qed
  then show ?thesis using prefixSetIPv4Intervals_exact [OF assms(4) ivs(1)] by (simp add: list_ex_iff)
qed

lemma sorted_remdups_adj: "sorted xs \<Longrightarrow> sorted_wrt (<) (remdups_adj xs)"
  by (induction xs rule: remdups_adj.induct) auto

lemma sorted_compact: "sorted_wrt (<) (compactUint64s (sort bs))" "set (compactUint64s (sort bs)) = set bs"
  unfolding compactUint64s_def by (simp_all add: sorted_remdups_adj)

text \<open>What the universe built from IPv4 sets looks like.\<close>

lemma universe_shape:
  assumes "allV4 raws"
  obtains u cs where "BuildPrefixUniverseFromPredicates raws = Inr u" "numbered raws (puPredicates u)"
    "sorted_wrt (<) cs" "\<forall>p \<in> set raws. \<forall>s. ppSet p = Some s \<longrightarrow> predicateBounded cs s"
    "map (\<lambda>c. (pclSpace c, pclMatching c)) (puClasses u)
       = map (\<lambda>ab. (prefixSetForInterval (atomSpace ab), matchingPredicateIDs (atomSpace ab) (puPredicates u)))
           (atoms (puPredicates u) cs)"
proof -
  obtain preds seen bs where loop: "foldE boundaryStep ([], [], []) raws = Inr (preds, seen, bs)"
      and OK: "boundariesOK raws (preds, seen, bs)"
    using boundaries_exact [OF assms] by blast
  define cs where "cs = compactUint64s (sort bs)"
  have sorted: "sorted_wrt (<) cs" "set cs = set bs" unfolding cs_def by (rule sorted_compact)+
  obtain u where u: "BuildPrefixUniverseFromPredicates raws = Inr u" "puPredicates u = preds"
      "puClasses u = universeLoop preds cs []"
  proof (cases "length bs = 0")
    case True
    then have "universeLoop preds cs [] = []" by (simp add: cs_def compactUint64s_def)
    then show ?thesis
      using that [of "\<lparr>puClasses = [], puPredicates = preds, puStats = zeroStats\<lparr>PredicateCount := int (length preds),
          UniquePredicateCount := int (length seen), PredicateSources := predicateSourceCounts preds\<rparr>\<rparr>"] True loop
      by (simp add: BuildPrefixUniverseFromPredicates_def Let_def)
  next
    case False
    show ?thesis
      by (rule that, unfold BuildPrefixUniverseFromPredicates_def loop Let_def sum.case prod.case if_not_P [OF False], rule refl)
        (simp_all add: cs_def)
  qed
  have "predicateBounded cs s" if "p \<in> set raws" "ppSet p = Some s" for p s
    using OK that sorted(2) predicateBounded_mono [of bs s cs] by (simp add: boundariesOK_def)
  moreover have "numbered raws preds" using OK by (simp add: boundariesOK_def)
  ultimately have "numbered raws preds" "\<forall>p \<in> set raws. \<forall>s. ppSet p = Some s \<longrightarrow> predicateBounded cs s" by blast+
  then show ?thesis using that [OF u(1) _ sorted(1)] universeLoop_atoms [OF sorted(1), of preds "[]"] u(2,3) by simp
qed

lemma numbered_sets:
  assumes "numbered raws preds" "p \<in> set preds"
  shows "\<exists>q \<in> set raws. ppSet q = ppSet p \<and> ppSet q \<noteq> None"
proof -
  have "ppSet p \<in> set (map ppSet (listed raws))" using assms by (metis image_eqI list.set_map numbered_def)
  then show ?thesis by (auto simp: listed_def)
qed

lemma numbered_inj: "numbered raws preds \<Longrightarrow> inj_on ppID (set preds)"
proof -
  assume "numbered raws preds"
  then have "distinct (map ppID preds)" by (simp add: numbered_def distinct_map)
  then show ?thesis by (simp add: distinct_map)
qed

lemma matching_iff:
  assumes "numbered raws preds" "p \<in> set preds"
  shows "ppID p \<in> set (matchingPredicateIDs space preds) \<longleftrightarrow> prefixClassMatchesPredicate (prefixSetForInterval space) p"
  using assms inj_onD [OF numbered_inj [OF assms(1)]] unfolding matchingPredicateIDs_def by (auto simp: image_iff)

lemma covers_overlap:
  assumes "covers c lo hi" "v4Set s" "lo \<le> hi" "hi < 2 ^ 32"
  shows "AddressSpaceOverlaps c s \<longleftrightarrow> (\<exists>w. lo \<le> unat w \<and> unat w \<le> hi \<and> ContainsAddr s (IPv4 w))"
proof -
  have "AddressSpaceOverlaps c s \<longleftrightarrow> (\<exists>x. ContainsAddr c x \<and> ContainsAddr s x)"
    using assms(1) v4Set_OK [OF assms(2)] by (intro AddressSpaceOverlaps_decides) (simp_all add: covers_def)
  also have "\<dots> \<longleftrightarrow> (\<exists>w. ContainsAddr c (IPv4 w) \<and> ContainsAddr s (IPv4 w))"
  proof -
    have "\<exists>w. x = IPv4 w" if "ContainsAddr c x" for x using that assms(1) by (cases x) (auto simp: covers_def)
    then show ?thesis by metis
  qed
  finally show ?thesis using assms(1) by (auto simp: covers_def)
qed

lemma classes_disjoint:
  assumes "sorted_wrt (<) cs"
  shows "sorted_wrt (\<lambda>x y. snd x \<le> fst y) (atoms preds cs)"
  unfolding atoms_def by (rule sorted_wrt_filter [OF sorted_pairs [OF assms]])

text \<open>No address is in two classes.\<close>

definition disjointClasses :: "prefix_class list \<Rightarrow> bool" where
  "disjointClasses classes \<longleftrightarrow> sorted_wrt (\<lambda>c d. \<forall>w. \<not> (inClass w c \<and> inClass w d)) classes"

text \<open>A predicate does not tell two addresses of a class apart, and the list of the class says on
  which side of the predicate they are.\<close>

definition resolved :: "prefix_predicate \<Rightarrow> prefix_class \<Rightarrow> bool" where
  "resolved p c \<longleftrightarrow> (\<forall>s. ppSet p = Some s \<longrightarrow> (inside c s \<or> outside c s) \<and>
     (ppKind p = PredicateAddressSpace \<longrightarrow> (ppID p \<in> set (pclMatching c) \<longleftrightarrow> inside c s)))"

text \<open>Every address of a predicate on addresses is in a class.\<close>

definition covered :: "prefix_class list \<Rightarrow> prefix_predicate \<Rightarrow> bool" where
  "covered classes p \<longleftrightarrow> (\<forall>s w. ppSet p = Some s \<and> ppKind p = PredicateAddressSpace \<and> ContainsAddr s (IPv4 w)
     \<longrightarrow> (\<exists>c \<in> set classes. inClass w c))"

lemma resolved_atom:
  assumes num: "numbered raws preds" and v4: "allV4 raws" and p: "p \<in> set preds" and cs: "sorted_wrt (<) cs"
    and bd: "\<forall>p \<in> set raws. \<forall>s. ppSet p = Some s \<longrightarrow> predicateBounded cs s"
    and ab: "(a, b) \<in> set (zip cs (tl cs))" "a < b" "b \<le> 2 ^ 32"
    and c: "pclSpace c = prefixSetForInterval (atomSpace (a, b))" "pclMatching c = matchingPredicateIDs (atomSpace (a, b)) preds"
  shows "resolved p c"
  unfolding resolved_def
proof (intro allI impI)
  fix s assume s: "ppSet p = Some s"
  obtain q where "q \<in> set raws" "ppSet q = Some s" using numbered_sets [OF num p] s by auto
  then have set: "v4Set s" "predicateBounded cs s" using v4 bd by (auto simp: allV4_def)
  have cov: "covers (pclSpace c) a (b - 1)" unfolding c(1) by (rule atomSpace_covers [OF ab(2,3)])
  then have cls: "inClass w c \<longleftrightarrow> a \<le> unat w \<and> unat w < b" for w using ab(2) by (auto simp: inClass_def covers_def)
  have const: "ContainsAddr s (IPv4 v) \<longleftrightarrow> ContainsAddr s (IPv4 w)" if "inClass v c" "inClass w c" for v w
    using atom_constant [OF cs ab(1) set(2) v4Set_OK [OF set(1)]] that cls by simp
  have "unat (of_nat a :: 32 word) = a" using ab(2,3) by (simp add: unsigned_of_nat take_bit_nat_eq_self)
  then have some: "inClass (of_nat a) c" using cls [of "of_nat a"] ab(2) by simp
  have sides: "inside c s \<or> outside c s" using const unfolding inside_def outside_def by blast
  have "ppID p \<in> set (pclMatching c) \<longleftrightarrow> inside c s" if k: "ppKind p = PredicateAddressSpace"
  proof -
    have "ppID p \<in> set (pclMatching c) \<longleftrightarrow> AddressSpaceOverlaps (pclSpace c) s"
      unfolding c matching_iff [OF num p] by (simp add: prefixClassMatchesPredicate_def s k normalizedPrefixPredicateKind_def)
    also have "\<dots> \<longleftrightarrow> (\<exists>w. a \<le> unat w \<and> unat w \<le> b - 1 \<and> ContainsAddr s (IPv4 w))"
      using ab(2,3) by (intro covers_overlap [OF cov set(1)]) auto
    also have "\<dots> \<longleftrightarrow> (\<exists>w. inClass w c \<and> ContainsAddr s (IPv4 w))" using cls ab(2) by (metis (no_types) Suc_pred' less_Suc_eq_le less_nat_zero_code not_gr_zero)
    also have "\<dots> \<longleftrightarrow> inside c s" using const some unfolding inside_def by blast
    finally show ?thesis .
  qed
  then show "(inside c s \<or> outside c s) \<and> (ppKind p = PredicateAddressSpace \<longrightarrow> (ppID p \<in> set (pclMatching c) \<longleftrightarrow> inside c s))"
    using sides by blast
qed

lemma covered_atoms:
  assumes num: "numbered raws preds" and v4: "allV4 raws" and p: "p \<in> set preds" and cs: "sorted_wrt (<) cs"
    and bd: "\<forall>p \<in> set raws. \<forall>s. ppSet p = Some s \<longrightarrow> predicateBounded cs s"
    and k: "ppSet p = Some s" "ppKind p = PredicateAddressSpace" "ContainsAddr s (IPv4 w)"
  shows "\<exists>a b. (a, b) \<in> set (atoms preds cs) \<and> a \<le> unat w \<and> unat w < b"
proof -
  obtain q where "q \<in> set raws" "ppSet q = Some s" using numbered_sets [OF num p] k(1) by auto
  then have set: "v4Set s" "predicateBounded cs s" using v4 bd by (auto simp: allV4_def)
  then obtain ivs where ivs: "prefixSetIPv4Intervals s = Inr ivs" "list_all (bounded cs) ivs" by (auto simp: predicateBounded_def)
  then obtain iv where iv: "iv \<in> set ivs" "inInterval w iv"
    using prefixSetIPv4Intervals_exact [OF v4Set_OK [OF set(1)] ivs(1)] k(3) by (auto simp: list_ex_iff)
  then have "bounded cs iv" using ivs(2) by (simp add: list_all_iff)
  then obtain a b where ab: "(a, b) \<in> set (zip cs (tl cs))" "a \<le> unat w" "unat w < b" "b \<le> unat (ivHi iv) + 1"
    using enclosing_pair [OF cs, of "unat (ivLo iv)" "unat (ivHi iv) + 1" "unat w"] iv(2)
    by (auto simp: bounded_def inInterval_def)
  have "unat (ivHi iv) < 2 ^ LENGTH(32)" by (rule unsigned_less)
  then have b: "b \<le> 2 ^ 32" using ab(4) by simp
  let ?sp = "prefixSetForInterval (atomSpace (a, b))"
  have "a < b" using ab by linarith
  then have "AddressSpaceOverlaps ?sp s"
    using covers_overlap [OF atomSpace_covers set(1), of a b] ab b k(3) by fastforce
  then have "ppID p \<in> set (matchingPredicateIDs (atomSpace (a, b)) preds)"
    unfolding matching_iff [OF num p] by (simp add: prefixClassMatchesPredicate_def k normalizedPrefixPredicateKind_def)
  then have "(a, b) \<in> set (atoms preds cs)" using ab(1) \<open>a < b\<close> b by (auto simp: atoms_def)
  then show ?thesis using ab by blast
qed

lemma classes_separate:
  assumes "map (\<lambda>c. (pclSpace c, pclMatching c)) classes
      = map (\<lambda>ab. (prefixSetForInterval (atomSpace ab), f ab)) (atoms preds cs)" "sorted_wrt (<) cs"
  shows "disjointClasses classes"
proof -
  let ?R = "\<lambda>x y :: prefix_set. \<forall>w. \<not> (ContainsAddr x (IPv4 w) \<and> ContainsAddr y (IPv4 w))"
  have "map pclSpace classes = map (prefixSetForInterval \<circ> atomSpace) (atoms preds cs)"
    using arg_cong [OF assms(1), of "map fst"] by (simp add: comp_def)
  moreover have "?R (prefixSetForInterval (atomSpace x)) (prefixSetForInterval (atomSpace y))"
    if "x \<in> set (atoms preds cs)" "y \<in> set (atoms preds cs)" "snd x \<le> fst y" for x y
  proof -
    have "covers (prefixSetForInterval (atomSpace x)) (fst x) (snd x - 1)" "covers (prefixSetForInterval (atomSpace y)) (fst y) (snd y - 1)"
      using that atomSpace_covers [of "fst x" "snd x"] atomSpace_covers [of "fst y" "snd y"] by (auto simp: atoms_def)
    then show ?thesis using that by (auto simp: covers_def atoms_def)
  qed
  ultimately have "sorted_wrt ?R (map pclSpace classes)"
    using sorted_wrt_mono_rel [OF _ classes_disjoint [OF assms(2), of preds]] by (auto simp: sorted_wrt_map)
  then show ?thesis by (simp add: disjointClasses_def sorted_wrt_map inClass_def)
qed

text \<open>
  C22 (the classes partition the addresses). For predicates over IPv4 prefixes the universe is built
  without an error and lists the predicates in order, numbered from 0. No address is in two classes.
  Every class lies wholly inside or wholly outside the set of every predicate, and for a predicate
  on addresses the list of the class says which. Every address that such a predicate contains is in
  some class.
\<close>

theorem BuildPrefixUniverse_partition:
  assumes "allV4 raws"
  shows "\<exists>u. BuildPrefixUniverseFromPredicates raws = Inr u \<and> numbered raws (puPredicates u)
    \<and> disjointClasses (puClasses u)
    \<and> list_all (\<lambda>c. list_all (\<lambda>p. resolved p c) (puPredicates u)) (puClasses u)
    \<and> list_all (covered (puClasses u)) (puPredicates u)"
proof -
  obtain u cs where u: "BuildPrefixUniverseFromPredicates raws = Inr u" and num: "numbered raws (puPredicates u)"
    and cs: "sorted_wrt (<) cs" and bd: "\<forall>p \<in> set raws. \<forall>s. ppSet p = Some s \<longrightarrow> predicateBounded cs s"
    and classes: "map (\<lambda>c. (pclSpace c, pclMatching c)) (puClasses u)
       = map (\<lambda>ab. (prefixSetForInterval (atomSpace ab), matchingPredicateIDs (atomSpace ab) (puPredicates u)))
           (atoms (puPredicates u) cs)"
    using universe_shape [OF assms] by blast
  have "resolved p c" if "c \<in> set (puClasses u)" "p \<in> set (puPredicates u)" for c p
  proof -
    have "(pclSpace c, pclMatching c) \<in> set (map (\<lambda>c. (pclSpace c, pclMatching c)) (puClasses u))" using that(1) by simp
    then obtain a b where "(a, b) \<in> set (atoms (puPredicates u) cs)" "pclSpace c = prefixSetForInterval (atomSpace (a, b))"
        "pclMatching c = matchingPredicateIDs (atomSpace (a, b)) (puPredicates u)" unfolding classes by auto
    then show ?thesis using resolved_atom [OF num assms that(2) cs bd, of a b c] by (simp add: atoms_def)
  qed
  moreover have "covered (puClasses u) p" if p: "p \<in> set (puPredicates u)" for p
    unfolding covered_def
  proof (intro allI impI)
    fix s w assume "ppSet p = Some s \<and> ppKind p = PredicateAddressSpace \<and> ContainsAddr s (IPv4 w)"
    then obtain a b where ab: "(a, b) \<in> set (atoms (puPredicates u) cs)" "a \<le> unat w" "unat w < b"
      using covered_atoms [OF num assms p cs bd] by blast
    then have "covers (prefixSetForInterval (atomSpace (a, b))) a (b - 1)" using atomSpace_covers [of a b] by (auto simp: atoms_def)
    then have "ContainsAddr (prefixSetForInterval (atomSpace (a, b))) (IPv4 w)" using ab by (simp add: covers_def)
    moreover have "prefixSetForInterval (atomSpace (a, b)) \<in> set (map fst (map (\<lambda>c. (pclSpace c, pclMatching c)) (puClasses u)))"
      unfolding classes using ab(1) by (force simp: image_iff)
    ultimately show "\<exists>c \<in> set (puClasses u). inClass w c" by (auto simp: inClass_def)
  qed
  ultimately show ?thesis using u num classes_separate [OF classes cs] unfolding list_all_iff by blast
qed

text \<open>Two nested ranges.\<close>

definition examplePredicates :: "prefix_predicate list" where
  "examplePredicates =
     [\<lparr>ppID = 7, ppSource = ''acl:a'', ppSet = Some (ExactPrefixSet (IPPrefix (IPv4 0x0A000000) 8)), ppKind = PredicateAddressSpace\<rparr>,
      \<lparr>ppID = 7, ppSource = ''acl:b'', ppSet = Some (ExactPrefixSet (IPPrefix (IPv4 0x0A010000) 16)), ppKind = PredicateAddressSpace\<rparr>,
      \<lparr>ppID = 7, ppSource = ''acl:c'', ppSet = None, ppKind = PredicateNLRI\<rparr>]"

theorem BuildPrefixUniverse_partition_witness:
  "allV4 examplePredicates \<and> length (listed examplePredicates) = 2 \<and>
   (\<exists>u. BuildPrefixUniverseFromPredicates examplePredicates = Inr u \<and> numbered examplePredicates (puPredicates u)
    \<and> disjointClasses (puClasses u)
    \<and> list_all (\<lambda>c. list_all (\<lambda>p. resolved p c) (puPredicates u)) (puClasses u)
    \<and> list_all (covered (puClasses u)) (puPredicates u))"
proof -
  have v4: "allV4 examplePredicates" by (simp add: allV4_def examplePredicates_def prefix_eval)
  show ?thesis using BuildPrefixUniverse_partition [OF v4] v4 by (simp add: listed_def examplePredicates_def)
qed

end
