(* ===== verification/Header_Space.thy ===== *)
theory Header_Space
  imports Prefix_Universe
begin

text \<open>
  \<open>internal/domain/model/header_space.go\<close>: the packet classes of a configuration, one for every
  combination of a prefix class with a protocol, ports and interfaces that the access-list rules
  applying to that prefix class mention.
\<close>

section \<open>Predicates and classes\<close>

record header_predicate =
  hpID :: int
  hpSource :: string
  hpProtocol :: string
  hpSrcSet :: "prefix_set option"
  hpDstSet :: "prefix_set option"
  hpSrcPort :: "port_set option"
  hpDstPort :: "port_set option"
  hpIngress :: string
  hpEgress :: string

record packet_class =
  pkID :: int
  pkPrefixClass :: int
  pkDstSet :: "prefix_set option"
  pkProtocol :: string
  pkSrcPort :: "port_set option"
  pkDstPort :: "port_set option"
  pkIngress :: string
  pkEgress :: string
  pkMatching :: "int list"

record header_space =
  hsClasses :: "packet_class list"
  hsPredicates :: "header_predicate list"

definition packetClassSpec :: "packet_class \<Rightarrow> packet_spec" where
  "packetClassSpec c =
     \<lparr>SrcSet = None, DstSet = pkDstSet c, Protocol = pkProtocol c, SrcPort = pkSrcPort c, DstPort = pkDstPort c,
      IngressInterface = pkIngress c, EgressInterface = pkEgress c\<rparr>"

section \<open>Collecting predicates\<close>

definition addHeaderPredicate :: "header_predicate \<Rightarrow> header_predicate list \<Rightarrow> header_predicate list" where
  "addHeaderPredicate p out =
     (if hpProtocol p = [] \<and> hpSrcSet p = None \<and> hpDstSet p = None \<and> hpSrcPort p = None \<and> hpDstPort p = None
         \<and> hpIngress p = [] \<and> hpEgress p = [] then out
      else out @ [p\<lparr>hpID := int (length out), hpProtocol := toLower (trimSpace (hpProtocol p))\<rparr>])"

definition rulePredicate :: "acl \<Rightarrow> acl_rule \<Rightarrow> header_predicate" where
  "rulePredicate a rule =
     \<lparr>hpID = 0, hpSource = ''acl:'' @ aclName a, hpProtocol = Protocol (ruleMatch rule), hpSrcSet = SrcSet (ruleMatch rule),
      hpDstSet = DstSet (ruleMatch rule), hpSrcPort = SrcPort (ruleMatch rule), hpDstPort = DstPort (ruleMatch rule),
      hpIngress = [], hpEgress = []\<rparr>"

definition bindDirectionTo :: "acl_binding \<Rightarrow> header_predicate \<Rightarrow> header_predicate" where
  "bindDirectionTo b p =
     (if bindDirection b = ''ingress'' then p\<lparr>hpIngress := bindInterface b\<rparr>
      else if bindDirection b = ''egress'' then p\<lparr>hpEgress := bindInterface b\<rparr> else p)"

definition headerACLByName :: "acl list \<Rightarrow> string \<Rightarrow> string \<Rightarrow> acl option" where
  "headerACLByName acls n name = List.find (\<lambda>a. aclNode a = n \<and> aclName a = name) acls"

definition aclHasBinding :: "acl_binding list \<Rightarrow> string \<Rightarrow> string \<Rightarrow> bool" where
  "aclHasBinding bindings n name = list_ex (\<lambda>b. bindNode b = n \<and> bindACLName b = name) bindings"

definition CollectHeaderPredicates :: "topology \<Rightarrow> header_predicate list" where
  "CollectHeaderPredicates topo =
     (let bound = fold (\<lambda>b out. case headerACLByName (topoACLs topo) (bindNode b) (bindACLName b) of
                          None \<Rightarrow> out
                        | Some a \<Rightarrow> fold (\<lambda>rule. addHeaderPredicate (bindDirectionTo b (rulePredicate a rule))) (aclRules a) out)
                    (topoACLBindings topo) []
      in fold (\<lambda>a out. if aclHasBinding (topoACLBindings topo) (aclNode a) (aclName a) then out
                 else fold (\<lambda>rule. addHeaderPredicate (rulePredicate a rule)) (aclRules a) out)
           (topoACLs topo) bound)"

section \<open>Which predicates a class meets\<close>

definition portSetsOverlap :: "port_set option \<Rightarrow> port_set option \<Rightarrow> bool" where
  "portSetsOverlap a b = (case a of None \<Rightarrow> True | Some x \<Rightarrow> if b = None then True else portOverlaps x b)"

definition portSetString :: "port_set option \<Rightarrow> string" where
  "portSetString s = (case s of None \<Rightarrow> ''any'' | Some x \<Rightarrow> portString x)"

definition packetClassKey :: "packet_class \<Rightarrow> string" where
  "packetClassKey c = itoa (pkPrefixClass c) @ ''|'' @ pkProtocol c @ ''|'' @ portSetString (pkSrcPort c) @ ''|''
     @ portSetString (pkDstPort c) @ ''|'' @ pkIngress c @ ''|'' @ pkEgress c"

definition meetsDst :: "prefix_set option \<Rightarrow> prefix_set option \<Rightarrow> bool" where
  "meetsDst p c = (case p of None \<Rightarrow> True | Some s \<Rightarrow> (case c of None \<Rightarrow> False | Some d \<Rightarrow> AddressSpaceOverlaps s d))"

definition meetsName :: "string \<Rightarrow> string \<Rightarrow> bool" where
  "meetsName p c \<longleftrightarrow> \<not> (p \<noteq> [] \<and> c \<noteq> [] \<and> p \<noteq> c)"

definition meetsPort :: "port_set option \<Rightarrow> port_set option \<Rightarrow> bool" where
  "meetsPort p c \<longleftrightarrow> \<not> (p \<noteq> None \<and> \<not> portSetsOverlap p c)"

definition headerPredicateMatchesClass :: "header_predicate \<Rightarrow> packet_class \<Rightarrow> bool" where
  "headerPredicateMatchesClass p c \<longleftrightarrow>
     meetsName (hpProtocol p) (pkProtocol c) \<and> meetsDst (hpDstSet p) (pkDstSet c)
     \<and> meetsPort (hpSrcPort p) (pkSrcPort c) \<and> meetsPort (hpDstPort p) (pkDstPort c)
     \<and> meetsName (hpIngress p) (pkIngress c) \<and> meetsName (hpEgress p) (pkEgress c)"

definition matchingHeaderPredicateIDs :: "packet_class \<Rightarrow> header_predicate list \<Rightarrow> int list" where
  "matchingHeaderPredicateIDs c predicates = map hpID (filter (\<lambda>p. headerPredicateMatchesClass p c) predicates)"

definition headerPredicatesForPrefix :: "header_predicate list \<Rightarrow> prefix_set option \<Rightarrow> header_predicate list" where
  "headerPredicatesForPrefix predicates dst = filter (\<lambda>p. meetsDst (hpDstSet p) dst) predicates"

definition headerPredicatesForProtocol :: "header_predicate list \<Rightarrow> string \<Rightarrow> header_predicate list" where
  "headerPredicatesForProtocol predicates protocol = filter (\<lambda>p. meetsName (hpProtocol p) protocol) predicates"

definition headerPredicatesForPort ::
    "header_predicate list \<Rightarrow> port_set option \<Rightarrow> (header_predicate \<Rightarrow> port_set option) \<Rightarrow> header_predicate list" where
  "headerPredicatesForPort predicates classSet get_port = filter (\<lambda>p. meetsPort (get_port p) classSet) predicates"

definition headerPredicatesForInterface ::
    "header_predicate list \<Rightarrow> string \<Rightarrow> (header_predicate \<Rightarrow> string) \<Rightarrow> header_predicate list" where
  "headerPredicatesForInterface predicates iface get_iface = filter (\<lambda>p. meetsName (get_iface p) iface) predicates"

section \<open>The values a class ranges over\<close>

text \<open>The protocols and the interfaces: the distinct names, sorted, or the empty name alone.\<close>

definition nameClasses :: "string list \<Rightarrow> string list" where
  "nameClasses names =
     (let out = collectUnseen (\<lambda>x. x) [] (filter (\<lambda>x. x \<noteq> []) names) in if length out = 0 then [[]] else sort out)"

definition headerProtocolClasses :: "header_predicate list \<Rightarrow> string list" where
  "headerProtocolClasses predicates = nameClasses (map hpProtocol predicates)"

definition headerInterfaceClasses :: "header_predicate list \<Rightarrow> (header_predicate \<Rightarrow> string) \<Rightarrow> string list" where
  "headerInterfaceClasses predicates get_iface = nameClasses (map get_iface predicates)"

definition headerPortClasses ::
    "header_predicate list \<Rightarrow> (header_predicate \<Rightarrow> port_set option) \<Rightarrow> port_set option list" where
  "headerPortClasses predicates get_port =
     (let out = collectUnseen portString [] (filter (\<lambda>s. portString s \<noteq> []) (List.map_filter get_port predicates))
      in if length out = 0 then [None] else map Some (sortSlice (\<lambda>a b. portString a < portString b) out))"

section \<open>Building the space\<close>

text \<open>The nested loops, from the outside in. The lists a loop ranges over do not depend on the classes
  found so far, so the combinations are listed in the order of the loops and then added one by one.\<close>

definition interfaceCombinations :: "header_predicate list \<Rightarrow> (string \<times> string) list" where
  "interfaceCombinations ps =
     concat (map (\<lambda>ingress. map (\<lambda>egress. (ingress, egress))
         (headerInterfaceClasses (headerPredicatesForInterface ps ingress hpIngress) hpEgress))
       (headerInterfaceClasses ps hpIngress))"

definition portCombinations :: "header_predicate list \<Rightarrow> (port_set option \<times> port_set option \<times> string \<times> string) list" where
  "portCombinations ps =
     concat (map (\<lambda>src.
         (let srcPredicates = headerPredicatesForPort ps src hpSrcPort
          in concat (map (\<lambda>dst.
                 map (\<lambda>(ingress, egress). (src, dst, ingress, egress))
                   (interfaceCombinations (headerPredicatesForPort srcPredicates dst hpDstPort)))
               (headerPortClasses srcPredicates hpDstPort))))
       (headerPortClasses ps hpSrcPort))"

definition prefixCombinations :: "header_predicate list \<Rightarrow> prefix_class \<Rightarrow> packet_class list" where
  "prefixCombinations predicates pc =
     (let prefixPredicates = headerPredicatesForPrefix predicates (Some (pclSpace pc))
      in concat (map (\<lambda>protocol.
             map (\<lambda>(src, dst, ingress, egress).
                 \<lparr>pkID = 0, pkPrefixClass = pclID pc, pkDstSet = Some (pclSpace pc), pkProtocol = protocol,
                  pkSrcPort = src, pkDstPort = dst, pkIngress = ingress, pkEgress = egress, pkMatching = []\<rparr>)
               (portCombinations (headerPredicatesForProtocol prefixPredicates protocol)))
           (headerProtocolClasses prefixPredicates)))"

definition addClass ::
    "header_predicate list \<Rightarrow> packet_class \<Rightarrow> string list \<times> packet_class list \<Rightarrow> string list \<times> packet_class list" where
  "addClass predicates c st =
     (let (seen, classes) = st; matches = matchingHeaderPredicateIDs c predicates; key = packetClassKey c
      in if length matches = 0 then st
         else if key \<in> set seen then st
         else (key # seen, classes @ [c\<lparr>pkMatching := matches, pkID := int (length classes)\<rparr>]))"

definition numberHeaderPredicates :: "header_predicate list \<Rightarrow> header_predicate list" where
  "numberHeaderPredicates predicates =
     fold (\<lambda>p out. out @ [p\<lparr>hpID := int (length out), hpProtocol := toLower (trimSpace (hpProtocol p))\<rparr>]) predicates []"

definition BuildHeaderSpaceFromPredicates :: "prefix_universe \<Rightarrow> header_predicate list \<Rightarrow> header_space" where
  "BuildHeaderSpaceFromPredicates universe raw =
     (let predicates = numberHeaderPredicates raw
      in if length (puClasses universe) = 0 \<or> length predicates = 0 then \<lparr>hsClasses = [], hsPredicates = predicates\<rparr>
         else \<lparr>hsClasses = snd (fold (addClass predicates) (concat (map (prefixCombinations predicates) (puClasses universe))) ([], [])),
               hsPredicates = predicates\<rparr>)"

definition NewHeaderSpace :: "topology \<Rightarrow> prefix_universe \<Rightarrow> header_space" where
  "NewHeaderSpace topo universe = BuildHeaderSpaceFromPredicates universe (CollectHeaderPredicates topo)"

section \<open>Every rule is met by a class\<close>

text \<open>
  The classes of a prefix class meet every predicate that applies to it: a loop ranges over a value
  that the predicate accepts, and the class built from these values is kept, or an earlier class with
  the same key is.
\<close>

definition barFree :: "string \<Rightarrow> bool" where
  "barFree s \<longleftrightarrow> CHR ''|'' \<notin> set s"

definition plainPort :: "port_set option \<Rightarrow> bool" where
  "plainPort s \<longleftrightarrow> (case s of None \<Rightarrow> True | Some x \<Rightarrow> portSetOK x)"

definition plainPredicate :: "header_predicate \<Rightarrow> bool" where
  "plainPredicate p \<longleftrightarrow> barFree (hpProtocol p) \<and> plainPort (hpSrcPort p) \<and> plainPort (hpDstPort p)
     \<and> barFree (hpIngress p) \<and> barFree (hpEgress p)"

definition plainClass :: "packet_class \<Rightarrow> bool" where
  "plainClass c \<longleftrightarrow> barFree (pkProtocol c) \<and> plainPort (pkSrcPort c) \<and> plainPort (pkDstPort c)
     \<and> barFree (pkIngress c) \<and> barFree (pkEgress c)"

lemma meetsName_self [simp]: "meetsName x x" "meetsName [] x" "meetsName x []"
  by (simp_all add: meetsName_def)

lemma nameClasses_meets: "x \<in> set names \<Longrightarrow> \<exists>y \<in> set (nameClasses names). meetsName x y"
proof -
  assume x: "x \<in> set names"
  let ?out = "collectUnseen (\<lambda>x. x) [] (filter (\<lambda>x. x \<noteq> []) names)"
  have "set ?out = set (filter (\<lambda>x. x \<noteq> []) names)"
    using keys_collectUnseen [of "\<lambda>x. x" "[]" "filter (\<lambda>x. x \<noteq> []) names"] by simp
  then have set: "set ?out = {y \<in> set names. y \<noteq> []}" by auto
  show ?thesis
  proof (cases "x = []")
    case True
    have "set (nameClasses names) \<noteq> {}" by (cases "?out = []") (simp_all add: nameClasses_def del: set_empty set_empty2, simp)
    then show ?thesis using True by (simp add: ex_in_conv)
  next
    case False
    then have "x \<in> set ?out" using x set by blast
    then have "x \<in> set (nameClasses names)" by (auto simp: nameClasses_def Let_def)
    then show ?thesis using meetsName_self(1) by blast
  qed
qed

lemma nameClasses_barFree: "\<forall>x \<in> set names. barFree x \<Longrightarrow> y \<in> set (nameClasses names) \<Longrightarrow> barFree y"
  using set_collectUnseen_subset [of "\<lambda>x. x" "[]" "filter (\<lambda>x. x \<noteq> []) names"]
  by (auto simp: nameClasses_def Let_def barFree_def split: if_splits)

lemma portString_shape:
  assumes "portSetOK s"
  shows "portString s = (case s of AnyPortSet \<Rightarrow> ''any'' | ExactPortSet p \<Rightarrow> natStr (nat p)
    | PortRangeSet lo hi \<Rightarrow> natStr (nat lo) @ ''-'' @ natStr (nat hi))"
  using assms by (cases s) (auto simp: itoa_def)

lemma natStr_chars: "c \<in> set (natStr n) \<Longrightarrow> isDigit c"
  using digits_natStr [of n] by (simp add: list_all_iff)

lemma natStr_not_any: "CHR ''a'' \<notin> set (natStr n)" "CHR ''-'' \<notin> set (natStr n)" "CHR ''|'' \<notin> set (natStr n)"
  using natStr_chars by (fastforce simp: isDigit_def)+

lemma portString_inject:
  assumes "portSetOK s" "portSetOK t" "portString s = portString t"
  shows "s = t"
proof -
  have nd: "\<forall>x \<in> set (natStr n). x \<noteq> CHR ''-''" for n using natStr_not_any(2) by metis
  have dash: "natStr a @ ''-'' @ natStr b = natStr c @ ''-'' @ natStr d \<longleftrightarrow> a = c \<and> b = d" for a b c d
    using append_stop_unique [of "natStr a" "''-'' @ natStr b" "natStr c" "''-'' @ natStr d" "\<lambda>x. x = CHR ''-''"]
      nd by auto
  have no: "natStr a \<noteq> natStr b @ CHR ''-'' # r" "natStr b @ CHR ''-'' # r \<noteq> natStr a" for a b r
    using natStr_not_any(2) [of a] by (metis in_set_conv_decomp)+
  have any: "''any'' \<noteq> natStr a" "natStr a \<noteq> ''any''" "''any'' \<noteq> natStr b @ CHR ''-'' # r" "natStr b @ CHR ''-'' # r \<noteq> ''any''" for a b r
  proof -
    show "''any'' \<noteq> natStr a" "natStr a \<noteq> ''any''" using natStr_not_any(1) [of a] by (metis list.set_intros(1))+
    have "CHR ''-'' \<notin> set ''any''" by simp
    then show "''any'' \<noteq> natStr b @ CHR ''-'' # r" "natStr b @ CHR ''-'' # r \<noteq> ''any''" by (metis in_set_conv_decomp)+
  qed
  show ?thesis
    using assms(3) assms(1,2) dash unfolding portString_shape [OF assms(1)] portString_shape [OF assms(2)]
    by (cases s; cases t) (simp_all add: no any eq_nat_nat_iff)
qed

lemma portString_barFree: "portSetOK s \<Longrightarrow> barFree (portString s)"
  using natStr_not_any(3) portString_shape [of s] by (cases s) (auto simp: barFree_def simp del: portString.simps)

lemma portSetString_barFree: "plainPort s \<Longrightarrow> barFree (portSetString s)"
  by (cases s) (simp_all add: plainPort_def portSetString_def portString_barFree, simp add: barFree_def)

lemma portString_nonempty: "portSetOK s \<Longrightarrow> portString s \<noteq> []"
  using portString_shape [of s] by (cases s) (simp_all del: portString.simps)

lemma meetsPort_self: "plainPort s \<Longrightarrow> meetsPort s s"
  using portOverlaps_iff portSetOK_nonempty
  by (cases s) (auto simp: plainPort_def meetsPort_def portSetsOverlap_def)

lemma meetsPort_any: "plainPort s \<Longrightarrow> meetsPort s None \<and> meetsPort s (Some AnyPortSet)"
proof -
  assume s: "plainPort s"
  have "portOverlaps x (Some AnyPortSet)" if x: "portSetOK x" for x
  proof -
    obtain port where port: "portContains x port" using portSetOK_nonempty [OF x] ..
    then have "portContains AnyPortSet port" using portSetOK_range [OF x port] by simp
    then show ?thesis using portOverlaps_iff [OF x, of AnyPortSet] port by fastforce
  qed
  then show ?thesis using s by (cases s) (simp_all add: plainPort_def meetsPort_def portSetsOverlap_def)
qed

lemma meetsPort_string:
  assumes "plainPort p" "plainPort s" "plainPort t" "portSetString s = portSetString t"
  shows "meetsPort p s = meetsPort p t"
proof -
  have any: "x = AnyPortSet" if "portSetOK x" "portString x = ''any''" for x
    using portString_inject [of x AnyPortSet] that by simp
  consider "s = None" "t = None" | x where "s = None" "t = Some x" | x where "s = Some x" "t = None"
    | x y where "s = Some x" "t = Some y" by (cases s; cases t) auto
  then show ?thesis
  proof cases
    case (2 x)
    then have "x = AnyPortSet" using any [of x] assms(3,4) by (simp add: plainPort_def portSetString_def)
    then show ?thesis using 2 meetsPort_any [OF assms(1)] by simp
  next
    case (3 x)
    then have "x = AnyPortSet" using any [of x] assms(2,4) by (simp add: plainPort_def portSetString_def)
    then show ?thesis using 3 meetsPort_any [OF assms(1)] by simp
  next
    case (4 x y)
    then have "x = y" using portString_inject [of x y] assms(2-4) by (simp add: plainPort_def portSetString_def)
    then show ?thesis using 4 by simp
  qed simp
qed

lemma portClasses_meets:
  assumes "p \<in> set ps" "\<forall>q \<in> set ps. plainPort (get_port q)"
  shows "\<exists>s \<in> set (headerPortClasses ps get_port). meetsPort (get_port p) s"
proof -
  let ?all = "filter (\<lambda>s. portString s \<noteq> []) (List.map_filter get_port ps)"
  let ?out = "collectUnseen portString [] ?all"
  have OK: "\<forall>s \<in> set ?all. portSetOK s" using assms(2) by (fastforce simp: List.map_filter_def plainPort_def)
  then have "inj_on portString (set ?all)" using portString_inject by (auto intro: inj_onI)
  then have set: "set ?out = set ?all" by (rule set_collectUnseen_inj)
  show ?thesis
  proof (cases "get_port p")
    case None
    have "headerPortClasses ps get_port \<noteq> []"
      by (auto simp: headerPortClasses_def Let_def dest: arg_cong [of _ _ length])
    then show ?thesis using None by (cases "headerPortClasses ps get_port") (auto simp: meetsPort_def)
  next
    case (Some s)
    then have "s \<in> set ?all"
      using assms portString_nonempty [of s] by (force simp: List.map_filter_def plainPort_def)
    then have "get_port p \<in> set (headerPortClasses ps get_port)"
      using set Some by (auto simp: headerPortClasses_def Let_def simp del: collectUnseen.simps)
    then show ?thesis using meetsPort_self assms by blast
  qed
qed

lemma portClasses_plain:
  assumes "\<forall>q \<in> set ps. plainPort (get_port q)" "s \<in> set (headerPortClasses ps get_port)"
  shows "plainPort s"
proof -
  have "set (collectUnseen portString [] (filter (\<lambda>s. portString s \<noteq> []) (List.map_filter get_port ps)))
      \<subseteq> {x. \<exists>q \<in> set ps. get_port q = Some x}"
    using set_collectUnseen_subset [of portString "[]"] by (fastforce simp: List.map_filter_def)
  then show ?thesis
    using assms by (fastforce simp: headerPortClasses_def Let_def plainPort_def split: if_splits option.splits)
qed

lemma interfaceCombinations_meets:
  assumes "p \<in> set ps"
  shows "\<exists>(i, e) \<in> set (interfaceCombinations ps). meetsName (hpIngress p) i \<and> meetsName (hpEgress p) e"
proof -
  obtain i where i: "i \<in> set (headerInterfaceClasses ps hpIngress)" "meetsName (hpIngress p) i"
    using nameClasses_meets [of "hpIngress p" "map hpIngress ps"] assms by (auto simp: headerInterfaceClasses_def)
  let ?ps = "headerPredicatesForInterface ps i hpIngress"
  have "p \<in> set ?ps" using assms i(2) by (simp add: headerPredicatesForInterface_def)
  then obtain e where "e \<in> set (headerInterfaceClasses ?ps hpEgress)" "meetsName (hpEgress p) e"
    using nameClasses_meets [of "hpEgress p" "map hpEgress ?ps"] by (auto simp: headerInterfaceClasses_def)
  then have "(i, e) \<in> set (interfaceCombinations ps)" "meetsName (hpIngress p) i \<and> meetsName (hpEgress p) e"
    using i by (auto simp: interfaceCombinations_def)
  then show ?thesis by blast
qed

definition meetsRest :: "header_predicate \<Rightarrow> port_set option \<times> port_set option \<times> string \<times> string \<Rightarrow> bool" where
  "meetsRest p c = (case c of (src, dst, ingress, egress) \<Rightarrow>
     meetsPort (hpSrcPort p) src \<and> meetsPort (hpDstPort p) dst \<and> meetsName (hpIngress p) ingress \<and> meetsName (hpEgress p) egress)"

lemma portCombinations_meets:
  assumes "p \<in> set ps" "\<forall>q \<in> set ps. plainPredicate q"
  shows "\<exists>c \<in> set (portCombinations ps). meetsRest p c"
proof -
  obtain src where src: "src \<in> set (headerPortClasses ps hpSrcPort)" "meetsPort (hpSrcPort p) src"
    using portClasses_meets [of p ps hpSrcPort] assms by (auto simp: plainPredicate_def)
  let ?ps = "headerPredicatesForPort ps src hpSrcPort"
  have p: "p \<in> set ?ps" "\<forall>q \<in> set ?ps. plainPredicate q"
    using assms src(2) by (simp_all add: headerPredicatesForPort_def)
  then obtain dst where dst: "dst \<in> set (headerPortClasses ?ps hpDstPort)" "meetsPort (hpDstPort p) dst"
    using portClasses_meets [of p ?ps hpDstPort] by (auto simp: plainPredicate_def)
  have "p \<in> set (headerPredicatesForPort ?ps dst hpDstPort)" using p(1) dst(2) by (simp add: headerPredicatesForPort_def)
  then obtain i e where ie: "(i, e) \<in> set (interfaceCombinations (headerPredicatesForPort ?ps dst hpDstPort))"
      "meetsName (hpIngress p) i" "meetsName (hpEgress p) e"
    using interfaceCombinations_meets by blast
  have "(src, dst, i, e) \<in> set (portCombinations ps)"
    unfolding portCombinations_def Let_def using src(1) dst(1) ie(1) by force
  moreover have "meetsRest p (src, dst, i, e)" using src(2) dst(2) ie by (simp add: meetsRest_def)
  ultimately show ?thesis by blast
qed

lemma prefixCombinations_meets:
  assumes "p \<in> set ps" "\<forall>q \<in> set ps. plainPredicate q" "meetsDst (hpDstSet p) (Some (pclSpace pc))"
  shows "\<exists>c \<in> set (prefixCombinations ps pc). headerPredicateMatchesClass p c"
proof -
  let ?ps = "headerPredicatesForPrefix ps (Some (pclSpace pc))"
  have p: "p \<in> set ?ps" "\<forall>q \<in> set ?ps. plainPredicate q" using assms by (simp_all add: headerPredicatesForPrefix_def)
  then obtain protocol where pr: "protocol \<in> set (headerProtocolClasses ?ps)" "meetsName (hpProtocol p) protocol"
    using nameClasses_meets [of "hpProtocol p" "map hpProtocol ?ps"] by (auto simp: headerProtocolClasses_def)
  let ?qs = "headerPredicatesForProtocol ?ps protocol"
  have "p \<in> set ?qs" "\<forall>q \<in> set ?qs. plainPredicate q" using p pr(2) by (simp_all add: headerPredicatesForProtocol_def)
  then obtain src dst i e where c: "(src, dst, i, e) \<in> set (portCombinations ?qs)" "meetsRest p (src, dst, i, e)"
    using portCombinations_meets [of p ?qs] by auto
  let ?c = "\<lparr>pkID = 0, pkPrefixClass = pclID pc, pkDstSet = Some (pclSpace pc), pkProtocol = protocol,
     pkSrcPort = src, pkDstPort = dst, pkIngress = i, pkEgress = e, pkMatching = []\<rparr>"
  have "?c \<in> set (prefixCombinations ps pc)"
    unfolding prefixCombinations_def Let_def using pr(1) c(1) by force
  moreover have "headerPredicateMatchesClass p ?c"
    using assms(3) pr(2) c(2) by (simp add: headerPredicateMatchesClass_def meetsRest_def)
  ultimately show ?thesis by blast
qed

lemma interfaceCombinations_plain:
  assumes "\<forall>q \<in> set ps. plainPredicate q" "(i, e) \<in> set (interfaceCombinations ps)"
  shows "barFree i \<and> barFree e"
proof -
  have "i \<in> set (nameClasses (map hpIngress ps))"
    "e \<in> set (nameClasses (map hpEgress (headerPredicatesForInterface ps i hpIngress)))"
    using assms(2) by (auto simp: interfaceCombinations_def headerInterfaceClasses_def)
  moreover have "\<forall>x \<in> set (map hpIngress ps). barFree x"
    "\<forall>x \<in> set (map hpEgress (headerPredicatesForInterface ps i hpIngress)). barFree x"
    using assms(1) by (auto simp: plainPredicate_def headerPredicatesForInterface_def)
  ultimately show ?thesis using nameClasses_barFree by blast
qed

lemma portCombinations_plain:
  assumes "\<forall>q \<in> set ps. plainPredicate q" "(src, dst, i, e) \<in> set (portCombinations ps)"
  shows "plainPort src \<and> plainPort dst \<and> barFree i \<and> barFree e"
proof -
  let ?ps = "headerPredicatesForPort ps src hpSrcPort"
  have c: "src \<in> set (headerPortClasses ps hpSrcPort)" "dst \<in> set (headerPortClasses ?ps hpDstPort)"
    "(i, e) \<in> set (interfaceCombinations (headerPredicatesForPort ?ps dst hpDstPort))"
    using assms(2) by (auto simp: portCombinations_def Let_def)
  have sub: "\<forall>q \<in> set (headerPredicatesForPort qs s g). plainPredicate q" if "\<forall>q \<in> set qs. plainPredicate q" for qs s g
    using that by (simp add: headerPredicatesForPort_def)
  have ports: "(\<forall>q \<in> set qs. plainPort (hpSrcPort q)) \<and> (\<forall>q \<in> set qs. plainPort (hpDstPort q))"
    if "\<forall>q \<in> set qs. plainPredicate q" for qs using that by (simp add: plainPredicate_def)
  have "plainPort src" "plainPort dst"
    using portClasses_plain [OF _ c(1)] portClasses_plain [OF _ c(2)] ports [OF assms(1)] ports [OF sub [OF assms(1)]] by blast+
  moreover have "barFree i \<and> barFree e" by (rule interfaceCombinations_plain [OF sub [OF sub [OF assms(1)]] c(3)])
  ultimately show ?thesis by blast
qed

lemma prefixCombinations_plain:
  assumes "\<forall>q \<in> set ps. plainPredicate q" "c \<in> set (prefixCombinations ps pc)"
  shows "plainClass c \<and> pkPrefixClass c = pclID pc \<and> pkDstSet c = Some (pclSpace pc)"
proof -
  let ?ps = "headerPredicatesForPrefix ps (Some (pclSpace pc))"
  obtain src dst i e where c: "pkProtocol c \<in> set (headerProtocolClasses ?ps)"
    "(src, dst, i, e) \<in> set (portCombinations (headerPredicatesForProtocol ?ps (pkProtocol c)))"
    "pkSrcPort c = src" "pkDstPort c = dst" "pkIngress c = i" "pkEgress c = e" "pkPrefixClass c = pclID pc"
    "pkDstSet c = Some (pclSpace pc)"
    using assms(2) by (auto simp: prefixCombinations_def Let_def)
  have "\<forall>q \<in> set (headerPredicatesForProtocol ?ps (pkProtocol c)). plainPredicate q" "\<forall>x \<in> set (map hpProtocol ?ps). barFree x"
    using assms(1) by (auto simp: headerPredicatesForProtocol_def headerPredicatesForPrefix_def plainPredicate_def)
  then have "barFree (pkProtocol c)" "plainPort src \<and> plainPort dst \<and> barFree i \<and> barFree e"
    using nameClasses_barFree c(1) portCombinations_plain [OF _ c(2)] unfolding headerProtocolClasses_def by blast+
  then show ?thesis using c by (simp add: plainClass_def)
qed

lemma packetClassKey_cong:
  assumes "plainClass c" "plainClass d" "packetClassKey c = packetClassKey d"
  shows "pkPrefixClass c = pkPrefixClass d \<and> pkProtocol c = pkProtocol d
    \<and> portSetString (pkSrcPort c) = portSetString (pkSrcPort d) \<and> portSetString (pkDstPort c) = portSetString (pkDstPort d)
    \<and> pkIngress c = pkIngress d \<and> pkEgress c = pkEgress d"
proof -
  have bar: "x @ ''|'' @ r = y @ ''|'' @ s \<longleftrightarrow> x = y \<and> r = s" if "barFree x" "barFree y" for x y r s
    using append_stop_unique [of x "''|'' @ r" y "''|'' @ s" "\<lambda>c. c = CHR ''|''"] that by (auto simp: barFree_def)
  have itoa: "barFree (itoa k)" for k using natStr_not_any(3) by (simp add: itoa_def barFree_def)
  have "itoa k = itoa l \<longleftrightarrow> k = l" for k l
  proof -
    have "natStr a \<noteq> CHR ''-'' # natStr b" "CHR ''-'' # natStr b \<noteq> natStr a" for a b
      using natStr_not_any(2) [of a] by (metis list.set_intros(1))+
    then show ?thesis by (auto simp: itoa_def)
  qed
  then show ?thesis
    using assms portSetString_barFree unfolding packetClassKey_def plainClass_def by (simp only: bar itoa)
qed

lemma packetClassKey_matches:
  assumes "plainClass c" "plainClass d" "packetClassKey c = packetClassKey d" "pkDstSet c = pkDstSet d" "plainPredicate p"
  shows "headerPredicateMatchesClass p c = headerPredicateMatchesClass p d"
proof -
  have "meetsPort (hpSrcPort p) (pkSrcPort c) = meetsPort (hpSrcPort p) (pkSrcPort d)"
    "meetsPort (hpDstPort p) (pkDstPort c) = meetsPort (hpDstPort p) (pkDstPort d)"
    using packetClassKey_cong [OF assms(1-3)] assms(1,2,5) meetsPort_string [of "hpSrcPort p" "pkSrcPort c" "pkSrcPort d"]
      meetsPort_string [of "hpDstPort p" "pkDstPort c" "pkDstPort d"]
    by (simp_all add: plainPredicate_def plainClass_def)
  then show ?thesis using packetClassKey_cong [OF assms(1-3)] assms(4) by (simp add: headerPredicateMatchesClass_def)
qed

text \<open>What the loop that adds the classes has done.\<close>

definition addedOK :: "header_predicate list \<Rightarrow> packet_class list \<Rightarrow> string list \<times> packet_class list \<Rightarrow> bool" where
  "addedOK ps cs st \<longleftrightarrow> (case st of (seen, classes) \<Rightarrow>
     set seen = packetClassKey ` set classes
     \<and> (\<forall>d \<in> set classes. pkMatching d = matchingHeaderPredicateIDs d ps \<and> (\<exists>c \<in> set cs. \<exists>i m. d = c\<lparr>pkMatching := m, pkID := i\<rparr>))
     \<and> map pkID classes = map int [0..<length classes]
     \<and> (\<forall>c \<in> set cs. matchingHeaderPredicateIDs c ps \<noteq> [] \<longrightarrow> packetClassKey c \<in> set seen))"

lemma updated_class [simp]:
  "packetClassKey (c\<lparr>pkMatching := m, pkID := i\<rparr>) = packetClassKey c"
  "matchingHeaderPredicateIDs (c\<lparr>pkMatching := m, pkID := i\<rparr>) ps = matchingHeaderPredicateIDs c ps"
  "headerPredicateMatchesClass p (c\<lparr>pkMatching := m, pkID := i\<rparr>) = headerPredicateMatchesClass p c"
  by (simp_all add: packetClassKey_def matchingHeaderPredicateIDs_def headerPredicateMatchesClass_def)

lemma addedOK_fold: "addedOK ps cs (fold (addClass ps) cs ([], []))"
proof (induction cs rule: rev_induct)
  case Nil
  show ?case by (simp add: addedOK_def)
next
  case (snoc c cs)
  obtain seen classes where st: "fold (addClass ps) cs ([], []) = (seen, classes)" by force
  have IH: "addedOK ps cs (seen, classes)" using snoc st by simp
  show ?case
  proof (cases "matchingHeaderPredicateIDs c ps = [] \<or> packetClassKey c \<in> set seen")
    case True
    then have "fold (addClass ps) (cs @ [c]) ([], []) = (seen, classes)" by (auto simp: st addClass_def Let_def)
    then show ?thesis using IH True by (auto simp: addedOK_def)
  next
    case False
    let ?d = "c\<lparr>pkMatching := matchingHeaderPredicateIDs c ps, pkID := int (length classes)\<rparr>"
    have eq: "fold (addClass ps) (cs @ [c]) ([], []) = (packetClassKey c # seen, classes @ [?d])"
      using False by (simp add: st addClass_def Let_def)
    have "\<forall>d \<in> set (classes @ [?d]). pkMatching d = matchingHeaderPredicateIDs d ps
        \<and> (\<exists>c' \<in> set (cs @ [c]). \<exists>i m. d = c'\<lparr>pkMatching := m, pkID := i\<rparr>)"
      using IH by (auto simp: addedOK_def)
    then show ?thesis using IH unfolding eq addedOK_def by auto
  qed
qed

text \<open>
  C25 (every rule is exercised). Whenever a predicate collected from an access-list rule applies to a
  class of destination prefixes, the header space has a packet class for these prefixes that the rule
  matches, and the rule is in the list of the class. Names must not contain the separator of the keys,
  ports must be ports, and the prefix classes must be numbered apart.
\<close>

theorem BuildHeaderSpace_exercises_rules:
  assumes hs: "hs = BuildHeaderSpaceFromPredicates u raw"
    and plain: "list_all plainPredicate (hsPredicates hs)" and ids: "distinct (map pclID (puClasses u))"
    and pc: "pc \<in> set (puClasses u)" and p: "p \<in> set (hsPredicates hs)" "meetsDst (hpDstSet p) (Some (pclSpace pc))"
  shows "\<exists>c \<in> set (hsClasses hs). pkPrefixClass c = pclID pc \<and> pkDstSet c = Some (pclSpace pc)
    \<and> headerPredicateMatchesClass p c \<and> hpID p \<in> set (pkMatching c)"
proof -
  let ?ps = "hsPredicates hs" and ?cs = "concat (map (prefixCombinations (hsPredicates hs)) (puClasses u))"
  obtain seen classes where st: "fold (addClass ?ps) ?cs ([], []) = (seen, classes)" by force
  have "hsPredicates hs = numberHeaderPredicates raw" by (simp add: hs BuildHeaderSpaceFromPredicates_def Let_def)
  moreover have "puClasses u \<noteq> []" "?ps \<noteq> []" using pc p(1) by auto
  ultimately have classes: "hsClasses hs = classes"
    using st by (simp add: hs BuildHeaderSpaceFromPredicates_def Let_def)
  have OK: "addedOK ?ps ?cs (seen, classes)" using addedOK_fold [of ?ps ?cs] st by simp
  have plain': "\<forall>q \<in> set ?ps. plainPredicate q" using plain by (simp add: list_all_iff)
  obtain c where c: "c \<in> set (prefixCombinations ?ps pc)" "headerPredicateMatchesClass p c"
    using prefixCombinations_meets [OF p(1) plain' p(2)] by blast
  then have "c \<in> set ?cs" "matchingHeaderPredicateIDs c ?ps \<noteq> []"
    using pc p(1) by (auto simp: matchingHeaderPredicateIDs_def filter_empty_conv)
  then have "packetClassKey c \<in> packetClassKey ` set classes" using OK by (auto simp: addedOK_def)
  then obtain d where d: "d \<in> set classes" "packetClassKey c = packetClassKey d" by blast
  then obtain e i m where e: "e \<in> set ?cs" "d = e\<lparr>pkMatching := m, pkID := i\<rparr>" and match: "pkMatching d = matchingHeaderPredicateIDs d ?ps"
    using OK by (fastforce simp: addedOK_def)
  then obtain pc' where pc': "pc' \<in> set (puClasses u)" "e \<in> set (prefixCombinations ?ps pc')" by auto
  have ce: "plainClass c \<and> pkPrefixClass c = pclID pc \<and> pkDstSet c = Some (pclSpace pc)"
    "plainClass e \<and> pkPrefixClass e = pclID pc' \<and> pkDstSet e = Some (pclSpace pc')"
    using prefixCombinations_plain [OF plain'] c(1) pc'(2) by blast+
  have key: "packetClassKey c = packetClassKey e" using d(2) e(2) by simp
  then have "pclID pc = pclID pc'" using packetClassKey_cong [of c e] ce by simp
  then have "pc' = pc" using ids pc pc'(1) by (simp add: distinct_map inj_on_def)
  then have "headerPredicateMatchesClass p e"
    using packetClassKey_matches [OF _ _ key _ plain' [rule_format, OF p(1)]] ce c(2) by simp
  then have "headerPredicateMatchesClass p d" "pkPrefixClass d = pclID pc" "pkDstSet d = Some (pclSpace pc)"
    using e(2) ce \<open>pc' = pc\<close> by simp_all
  moreover have "hpID p \<in> set (pkMatching d)"
    using calculation(1) p(1) unfolding match by (auto simp: matchingHeaderPredicateIDs_def)
  ultimately show ?thesis using d(1) unfolding classes by blast
qed

definition exampleUniverse :: prefix_universe where
  "exampleUniverse = \<lparr>puClasses = [\<lparr>pclID = 0, pclSpace = AnyPrefixSet, pclMatching = [0]\<rparr>], puPredicates = [], puStats = zeroStats\<rparr>"

definition exampleRule :: header_predicate where
  "exampleRule = \<lparr>hpID = 0, hpSource = ''acl:a'', hpProtocol = ''tcp'', hpSrcSet = None, hpDstSet = None, hpSrcPort = None,
     hpDstPort = Some (PortRangeSet 80 90), hpIngress = ''eth1'', hpEgress = []\<rparr>"

definition exampleSpace :: header_space where
  "exampleSpace = BuildHeaderSpaceFromPredicates exampleUniverse [exampleRule\<lparr>hpProtocol := ''TCP ''\<rparr>]"

theorem BuildHeaderSpace_exercises_rules_witness:
  "\<exists>c \<in> set (hsClasses exampleSpace). pkPrefixClass c = 0 \<and> pkDstSet c = Some AnyPrefixSet
     \<and> headerPredicateMatchesClass exampleRule c \<and> hpID exampleRule \<in> set (pkMatching c)"
proof -
  let ?pc = "\<lparr>pclID = 0, pclSpace = AnyPrefixSet, pclMatching = [0]\<rparr>"
  have "toLower (trimSpace ''TCP '') = ''tcp''" by code_simp
  then have "hsPredicates exampleSpace = [exampleRule]"
    by (simp add: exampleSpace_def BuildHeaderSpaceFromPredicates_def numberHeaderPredicates_def exampleRule_def Let_def)
  moreover have "plainPredicate exampleRule" by (simp add: plainPredicate_def exampleRule_def barFree_def plainPort_def)
  moreover have "meetsDst (hpDstSet exampleRule) (Some (pclSpace ?pc))" by (simp add: meetsDst_def exampleRule_def)
  ultimately show ?thesis
    using BuildHeaderSpace_exercises_rules [OF exampleSpace_def, of ?pc exampleRule] by (simp add: exampleUniverse_def)
qed

end
