(* ===== verification/Float64.thy ===== *)
theory Float64
  imports Prelude Complex_Main "HOL-Library.Word"
begin

text \<open>
  The part of Go's \<open>float64\<close> that traffic shares use: rational values rounded to the nearest number
  with a significand of 53 bits, ties to even. Neither overflow nor subnormal numbers occur between
  the byte counts and shares of the sources, so the exponent is not bounded here.
\<close>

definition pow2 :: "int \<Rightarrow> rat" where
  "pow2 e = (if 0 \<le> e then 2 ^ nat e else 1 / 2 ^ nat (- e))"

definition roundEven :: "rat \<Rightarrow> int" where
  "roundEven x =
     (let n = \<lfloor>x\<rfloor>; d = x - of_int n
      in if d < 1 / 2 then n else if 1 / 2 < d then n + 1 else if even n then n else n + 1)"

fun bitsOf :: "nat \<Rightarrow> nat" where
  "bitsOf n = (if n = 0 then 0 else Suc (bitsOf (n div 2)))"

declare bitsOf.simps [simp del]

text \<open>The exponent \<open>e\<close> with \<open>2 ^ e \<le> x < 2 ^ (e + 1)\<close>.\<close>

definition binaryExponent :: "rat \<Rightarrow> int" where
  "binaryExponent x =
     (let (p, q) = quotient_of x; e = int (bitsOf (nat p)) - int (bitsOf (nat q))
      in if pow2 e \<le> x then e else e - 1)"

definition roundPositive :: "rat \<Rightarrow> rat" where
  "roundPositive x = (let u = pow2 (binaryExponent x - 52) in of_int (roundEven (x / u)) * u)"

definition f64 :: "rat \<Rightarrow> rat" where
  "f64 x = (if x = 0 then 0 else if 0 < x then roundPositive x else - roundPositive (- x))"

text \<open>\<open>uint64(float64(b) * w)\<close> for a product in the range of \<open>uint64\<close>.\<close>

definition scaleBytes :: "64 word \<Rightarrow> rat \<Rightarrow> 64 word" where
  "scaleBytes b w = word_of_int \<lfloor>f64 (f64 (of_int (uint b)) * w)\<rfloor>"

text \<open>\<open>math.Round\<close>: halves go away from zero.\<close>

definition mathRound :: "rat \<Rightarrow> rat" where
  "mathRound x = (if 0 \<le> x then of_int \<lfloor>x + 1 / 2\<rfloor> else - of_int \<lfloor>- x + 1 / 2\<rfloor>)"

text \<open>\<open>math.Round(x*100) / 100\<close>\<close>

definition twoDecimals :: "rat \<Rightarrow> rat" where
  "twoDecimals x = f64 (mathRound (f64 (x * 100)) / 100)"

section \<open>Numbers that are represented exactly\<close>

lemma pow2_pos [simp]: "0 < pow2 e"
  by (simp add: pow2_def)

lemma pow2_eq: "pow2 e = 2 powi e"
  by (auto simp: pow2_def power_int_def power_one_over inverse_eq_divide)

lemma pow2_add: "pow2 (a + b) = pow2 a * pow2 b"
  by (simp add: pow2_eq power_int_add)

lemma pow2_less_iff: "pow2 a < pow2 b \<longleftrightarrow> a < b"
proof -
  have mono: "pow2 c < pow2 d" if "c < d" for c d
    using power_int_strict_increasing [OF that, of "2 :: rat"] by (simp add: pow2_eq)
  show ?thesis using mono [of a b] mono [of b a] by (cases a b rule: linorder_cases) auto
qed

lemma bitsOf_bounds: "0 < n \<Longrightarrow> 2 ^ (bitsOf n - 1) \<le> n \<and> n < 2 ^ bitsOf n \<and> 0 < bitsOf n"
proof (induction n rule: bitsOf.induct)
  case (1 n)
  have step: "bitsOf n = Suc (bitsOf (n div 2))" using "1.prems" by (subst bitsOf.simps) simp
  show ?case
  proof (cases "n div 2 = 0")
    case True
    then have "n = 1" using "1.prems" by simp
    then show ?thesis using step True by (simp add: bitsOf.simps [of 0])
  next
    case False
    then have IH: "2 ^ (bitsOf (n div 2) - 1) \<le> n div 2" "n div 2 < 2 ^ bitsOf (n div 2)" "0 < bitsOf (n div 2)"
      using 1 by auto
    obtain k where k: "bitsOf (n div 2) = Suc k" using IH(3) by (cases "bitsOf (n div 2)") auto
    then show ?thesis using IH step by auto
  qed
qed

lemma binaryExponent_lower:
  assumes "0 < x"
  shows "pow2 (binaryExponent x) \<le> x"
proof -
  obtain p q where pq: "quotient_of x = (p, q)" by force
  then have q: "0 < q" and x: "x = of_int p / of_int q" using quotient_of_denom_pos quotient_of_div by blast+
  then have p: "0 < p" using assms by (simp add: zero_less_divide_iff)
  let ?a = "bitsOf (nat p)" and ?b = "bitsOf (nat q)"
  have a: "2 ^ (?a - 1) \<le> nat p" "0 < ?a" and b: "nat q < 2 ^ ?b"
    using bitsOf_bounds [of "nat p"] bitsOf_bounds [of "nat q"] p q by auto
  have "(2 :: int) ^ (?a - 1) \<le> p" using a(1) p by (simp add: nat_le_iff le_nat_iff flip: of_nat_power)
  then have "(of_int (2 ^ (?a - 1)) :: rat) \<le> of_int p" by (simp only: of_int_le_iff)
  then have "(2 :: rat) ^ (?a - 1) \<le> of_int p" by simp
  moreover have "q \<le> 2 ^ ?b" using b q by (simp add: nat_less_iff)
  then have "(of_int q :: rat) \<le> of_int (2 ^ ?b)" by (simp only: of_int_le_iff)
  then have "(of_int q :: rat) \<le> 2 ^ ?b" by simp
  ultimately have "(2 :: rat) ^ (?a - 1) / 2 ^ ?b \<le> of_int p / of_int q"
    using q p by (intro frac_le) auto
  moreover have "pow2 (int ?a - int ?b - 1) = 2 ^ (?a - 1) / 2 ^ ?b"
  proof -
    have "pow2 (int (?a - 1) - int ?b) = 2 ^ (?a - 1) / 2 ^ ?b" by (simp add: pow2_eq power_int_diff)
    moreover have "int (?a - 1) - int ?b = int ?a - int ?b - 1" using a(2) by simp
    ultimately show ?thesis by (simp only:)
  qed
  ultimately have "pow2 (int ?a - int ?b - 1) \<le> x" unfolding x by (simp only:)
  then show ?thesis by (simp add: binaryExponent_def pq Let_def)
qed

lemma roundEven_int [simp]: "roundEven (of_int n) = n"
  by (simp add: roundEven_def Let_def)

lemma roundPositive_exact:
  assumes "0 < m" "m < 2 ^ 53"
  shows "roundPositive (of_int m * pow2 k) = of_int m * pow2 k"
proof -
  let ?x = "of_int m * pow2 k" and ?e = "binaryExponent (of_int m * pow2 k)"
  have x: "0 < ?x" using assms(1) by (simp add: zero_less_mult_iff)
  have "(of_int m :: rat) < of_int (2 ^ 53)" using assms(2) by (simp only: of_int_less_iff)
  then have "(of_int m :: rat) < pow2 53" by (simp add: pow2_def)
  then have "?x < pow2 (53 + k)" unfolding pow2_add by simp
  then have "pow2 ?e < pow2 (53 + k)" using binaryExponent_lower [OF x] by simp
  then have e: "?e - 52 \<le> k" by (simp add: pow2_less_iff)
  define u where "u = pow2 (?e - 52)"
  have "pow2 k = pow2 (k - (?e - 52)) * u" using pow2_add [of "k - (?e - 52)" "?e - 52"] by (simp add: u_def)
  moreover have "pow2 (k - (?e - 52)) = of_int (2 ^ nat (k - (?e - 52)))" using e by (simp add: pow2_def)
  ultimately have eq: "?x = of_int (m * 2 ^ nat (k - (?e - 52))) * u" by simp
  have "u \<noteq> 0" using pow2_pos [of "?e - 52"] unfolding u_def by (rule less_imp_neq [symmetric])
  then have "?x / u = of_int (m * 2 ^ nat (k - (?e - 52)))" by (subst eq) simp
  then have "roundEven (?x / u) = m * 2 ^ nat (k - (?e - 52))" by (simp only: roundEven_int)
  then show ?thesis unfolding roundPositive_def Let_def u_def [symmetric] by (metis eq)
qed

lemma f64_exact:
  assumes "\<bar>m\<bar> < 2 ^ 53"
  shows "f64 (of_int m * pow2 k) = of_int m * pow2 k"
proof -
  have pos: "\<not> pow2 k < 0" "pow2 k \<noteq> 0" using pow2_pos [of k] by (auto simp del: pow2_pos)
  show ?thesis using roundPositive_exact [of m k] roundPositive_exact [of "- m" k] assms pos
    by (auto simp: f64_def zero_less_mult_iff)
qed

lemma f64_int: "\<bar>m\<bar> < 2 ^ 53 \<Longrightarrow> f64 (of_int m) = of_int m"
  using f64_exact [of m 0] by (simp add: pow2_def)

text \<open>An even share of a count is exact.\<close>

lemma scaleBytes_one: "uint b < 2 ^ 53 \<Longrightarrow> scaleBytes b 1 = b"
proof -
  assume b: "uint b < 2 ^ 53"
  then have "f64 (of_int (uint b)) = of_int (uint b)" by (intro f64_int) simp
  then show ?thesis by (simp only: scaleBytes_def mult_1_right floor_of_int word_of_int_uint)
qed

section \<open>Rounding errors\<close>

lemma roundEven_error: "\<bar>of_int (roundEven y) - y\<bar> \<le> 1 / 2"
proof -
  define d where "d = y - of_int \<lfloor>y\<rfloor>"
  have "0 \<le> d" "d < 1" using floor_correct [of y] by (simp_all add: d_def)
  moreover have "of_int (roundEven y) = y - d \<and> d \<le> 1 / 2 \<or> of_int (roundEven y) = y - d + 1 \<and> 1 / 2 \<le> d"
    unfolding roundEven_def Let_def d_def [symmetric] by (auto simp: d_def not_less)
  ultimately show ?thesis by auto
qed

abbreviation ulp :: rat where "ulp \<equiv> 1 / 2 ^ 53"

text \<open>A positive number is rounded to one that differs from it by at most the relative error of 53 bits.\<close>

lemma f64_error:
  assumes "0 < x"
  shows "\<bar>f64 x - x\<bar> \<le> x * ulp"
proof -
  define u where "u = pow2 (binaryExponent x - 52)"
  have u: "0 < u" unfolding u_def by simp
  have "pow2 (binaryExponent x) = u * 2 ^ 52"
    unfolding u_def using pow2_add [of "binaryExponent x - 52" 52] by (simp add: pow2_def [of 52])
  then have small: "u * 2 ^ 52 \<le> x" using binaryExponent_lower [OF assms] by simp
  have "f64 x - x = (of_int (roundEven (x / u)) - x / u) * u"
    using assms u by (simp add: f64_def roundPositive_def Let_def flip: u_def) (simp add: field_simps)
  then have "\<bar>f64 x - x\<bar> = \<bar>of_int (roundEven (x / u)) - x / u\<bar> * u" using u by (simp add: abs_mult)
  also have "\<dots> \<le> 1 / 2 * u" using roundEven_error u by (intro mult_right_mono) auto
  also have "\<dots> \<le> x * ulp" using small by (simp add: field_simps)
  finally show ?thesis .
qed

text \<open>\<open>1.0 / float64(n)\<close>: \<open>n\<close> times this is almost one.\<close>

lemma share_error:
  assumes "0 < n"
  shows "0 < f64 (1 / f64 (of_nat n)) \<and> f64 (1 / f64 (of_nat n)) \<le> 1
    \<and> \<bar>of_nat n * f64 (1 / f64 (of_nat n)) - 1\<bar> \<le> 1 / 2 ^ 51"
proof -
  define N :: rat where "N = of_nat n"
  define m where "m = f64 N"
  define w where "w = f64 (1 / m)"
  have N: "1 \<le> N" using assms by (simp add: N_def)
  have m: "\<bar>m - N\<bar> \<le> N * ulp" unfolding m_def using N by (intro f64_error) simp
  then have "N - m \<le> N * ulp" by linarith
  then have low: "N * 9007199254740991 \<le> m * 9007199254740992" by simp
  have half: "N \<le> 2 * m" using low N by (simp add: field_simps)
  then have mpos: "0 < m" using N by simp
  have w: "\<bar>w - 1 / m\<bar> \<le> 1 / m * ulp" unfolding w_def using mpos by (intro f64_error) simp
  define r where "r = 1 / m"
  have r: "0 < r" using mpos by (simp add: r_def)
  have "\<bar>w - r\<bar> \<le> r * ulp" using w by (simp only: r_def)
  then have "r - w \<le> r * ulp" "w - r \<le> r * ulp" by linarith+
  then have wlow: "r * 9007199254740991 \<le> w * 9007199254740992"
    and whigh: "w * 9007199254740992 \<le> r * 9007199254740993" by simp_all
  have wpos: "0 < w" using wlow r by linarith
  have "w \<le> 1"
  proof (cases "n = 1")
    case True
    then have "N = of_int 1" by (simp add: N_def)
    then have "m = 1" using f64_int [of 1] by (simp add: m_def)
    then show ?thesis using f64_int [of 1] by (simp add: w_def)
  next
    case False
    then have "2 \<le> N" using assms by (simp add: N_def)
    then have "3 / 2 \<le> m" using low by (simp add: field_simps)
    then have "r \<le> 2 / 3" by (simp add: r_def field_simps)
    then show ?thesis using whigh by linarith
  qed
  moreover have "\<bar>N * w - 1\<bar> \<le> 1 / 2 ^ 51"
  proof -
    have "N * w - N / m = N * (w - 1 / m)" by (simp add: right_diff_distrib)
    then have "\<bar>N * w - N / m\<bar> = N * \<bar>w - 1 / m\<bar>" using N by (simp add: abs_mult)
    also have "\<dots> \<le> N * (1 / m * ulp)" using w N by (intro mult_left_mono) auto
    finally have a: "\<bar>N * w - N / m\<bar> \<le> N / m * ulp" by simp
    have "\<bar>N / m - 1\<bar> = \<bar>m - N\<bar> / m" using mpos by (simp add: abs_if field_simps)
    also have "\<dots> \<le> N * ulp / m" using m mpos by (intro divide_right_mono) auto
    finally have b: "\<bar>N / m - 1\<bar> \<le> N / m * ulp" by simp
    have "N / m \<le> 2" using half mpos by (simp add: field_simps)
    then have "N / m * ulp \<le> 2 * ulp" by (intro mult_right_mono) auto
    then have "\<bar>N * w - 1\<bar> \<le> 4 * ulp" using a b by linarith
    then show ?thesis by simp
  qed
  ultimately show ?thesis using wpos by (simp add: N_def m_def w_def)
qed

end
