(* ===== verification/Traffic.thy ===== *)
theory Traffic
  imports Header_Space Float64
begin

text \<open>
  \<open>internal/domain/model/tdg.go\<close> and the simulation in \<open>internal/engine/traffic\<close>: the traffic
  distribution graph of a packet class, how it is built from forwarding tables, how bytes spread over
  it, and flows that are hashed to one next hop at a time. The nodes of a graph do not change once
  made and are values; the index of nodes by name and the edges of a node are read off the two lists.
\<close>

section \<open>Traffic distribution graphs\<close>

record tdg_node =
  ndID :: nat
  ndNode :: string
  ndVRF :: string
  ndStage :: string
  ndClass :: int

record tdg_edge =
  egFrom :: tdg_node
  egTo :: tdg_node
  egWeight :: rat

record tdg =
  tdgNodes :: "tdg_node list"
  tdgEdges :: "tdg_edge list"
  tdgRoot :: "tdg_node option"
  tdgSinks :: "tdg_node list"

datatype tdg_error = NodeNotFound string

definition NewTDG :: tdg where
  "NewTDG = \<lparr>tdgNodes = [], tdgEdges = [], tdgRoot = None, tdgSinks = []\<rparr>"

definition nodeIndex :: "tdg \<Rightarrow> string \<Rightarrow> tdg_node option" where
  "nodeIndex g name = List.find (\<lambda>n. ndNode n = name) (tdgNodes g)"

definition AddNode :: "string \<Rightarrow> string \<Rightarrow> string \<Rightarrow> int \<Rightarrow> tdg \<Rightarrow> tdg" where
  "AddNode name vrf stage classID g =
     (case nodeIndex g name of
        Some _ \<Rightarrow> g
      | None \<Rightarrow> g\<lparr>tdgNodes := tdgNodes g @ [\<lparr>ndID = length (tdgNodes g), ndNode = name, ndVRF = vrf, ndStage = stage,
                                            ndClass = classID\<rparr>]\<rparr>)"

definition AddEdge :: "string \<Rightarrow> string \<Rightarrow> rat \<Rightarrow> tdg \<Rightarrow> tdg_error + tdg" where
  "AddEdge from to weight g =
     (case nodeIndex g from of
        None \<Rightarrow> Inl (NodeNotFound from)
      | Some a \<Rightarrow> (case nodeIndex g to of
                     None \<Rightarrow> Inl (NodeNotFound to)
                   | Some b \<Rightarrow> Inr (g\<lparr>tdgEdges := tdgEdges g @ [\<lparr>egFrom = a, egTo = b, egWeight = weight\<rparr>]\<rparr>)))"

definition SetRoot :: "string \<Rightarrow> tdg \<Rightarrow> tdg_error + tdg" where
  "SetRoot name g = (case nodeIndex g name of None \<Rightarrow> Inl (NodeNotFound name) | Some n \<Rightarrow> Inr (g\<lparr>tdgRoot := Some n\<rparr>))"

definition AddSink :: "string \<Rightarrow> tdg \<Rightarrow> tdg" where
  "AddSink name g = (case nodeIndex g name of None \<Rightarrow> g | Some n \<Rightarrow> g\<lparr>tdgSinks := tdgSinks g @ [n]\<rparr>)"

definition OutEdges :: "tdg \<Rightarrow> string \<Rightarrow> tdg_edge list" where
  "OutEdges g name = filter (\<lambda>e. ndNode (egFrom e) = name) (tdgEdges g)"

definition joins :: "string \<Rightarrow> string \<Rightarrow> tdg_edge \<Rightarrow> bool" where
  "joins from to e \<longleftrightarrow> ndNode (egFrom e) = from \<and> ndNode (egTo e) = to"

text \<open>Only the first edge between the two nodes is removed, or gets the weight.\<close>

definition RemoveEdge :: "string \<Rightarrow> string \<Rightarrow> tdg \<Rightarrow> tdg \<times> bool" where
  "RemoveEdge from to g =
     (if list_ex (joins from to) (tdgEdges g)
      then (g\<lparr>tdgEdges := takeWhile (\<lambda>e. \<not> joins from to e) (tdgEdges g)
                          @ tl (dropWhile (\<lambda>e. \<not> joins from to e) (tdgEdges g))\<rparr>, True)
      else (g, False))"

definition RemoveAllEdgesFrom :: "string \<Rightarrow> tdg \<Rightarrow> tdg" where
  "RemoveAllEdgesFrom from g = g\<lparr>tdgEdges := filter (\<lambda>e. ndNode (egFrom e) \<noteq> from) (tdgEdges g)\<rparr>"

definition RemoveEdgesTo :: "string \<Rightarrow> tdg \<Rightarrow> tdg" where
  "RemoveEdgesTo to g = g\<lparr>tdgEdges := filter (\<lambda>e. ndNode (egTo e) \<noteq> to) (tdgEdges g)\<rparr>"

fun setFirstWeight :: "string \<Rightarrow> string \<Rightarrow> rat \<Rightarrow> tdg_edge list \<Rightarrow> tdg_edge list" where
  "setFirstWeight from to weight [] = []"
| "setFirstWeight from to weight (e # es) =
     (if joins from to e then e\<lparr>egWeight := weight\<rparr> # es else e # setFirstWeight from to weight es)"

definition SetEdgeWeight :: "string \<Rightarrow> string \<Rightarrow> rat \<Rightarrow> tdg \<Rightarrow> tdg \<times> bool" where
  "SetEdgeWeight from to weight g =
     (g\<lparr>tdgEdges := setFirstWeight from to weight (tdgEdges g)\<rparr>, list_ex (joins from to) (tdgEdges g))"

definition BatchRemoveEdges :: "(string \<times> string) list \<Rightarrow> tdg \<Rightarrow> tdg" where
  "BatchRemoveEdges refs g =
     (if refs = [] then g
      else (let removed = map (\<lambda>(a, b). a @ ''|'' @ b) refs
            in g\<lparr>tdgEdges := filter (\<lambda>e. ndNode (egFrom e) @ ''|'' @ ndNode (egTo e) \<notin> set removed) (tdgEdges g)\<rparr>))"

section \<open>Order of a traversal\<close>

text \<open>A node that is done leaves the finite set of names that may still be met.\<close>

lemma frontier_smaller:
  assumes "finite B" "x \<notin> V" "x \<in> B" "A \<subseteq> B"
  shows "card (A - insert x V) < card (B - V)"
proof (rule psubset_card_mono)
  show "A - insert x V \<subset> B - V" using assms by blast
qed (use assms(1) in simp)

function orderLoop :: "tdg_edge list \<Rightarrow> string list \<Rightarrow> tdg_node list \<Rightarrow> tdg_node list" where
  "orderLoop es visited [] = []"
| "orderLoop es visited (n # queue) =
     (if ndNode n \<in> set visited then orderLoop es visited queue
      else n # orderLoop es (ndNode n # visited)
             (queue @ filter (\<lambda>m. ndNode m \<notin> set (ndNode n # visited)) (map egTo (filter (\<lambda>e. ndNode (egFrom e) = ndNode n) es))))"
  by pat_completeness auto
termination
proof (relation "measures [\<lambda>(es, visited, queue). card ((ndNode \<circ> egTo) ` set es \<union> ndNode ` set queue - set visited),
    \<lambda>(es, visited, queue). length queue]")
  fix es visited and n :: tdg_node and queue
  assume new: "ndNode n \<notin> set visited"
  show "((es, ndNode n # visited, queue @ filter (\<lambda>m. ndNode m \<notin> set (ndNode n # visited))
      (map egTo (filter (\<lambda>e. ndNode (egFrom e) = ndNode n) es))), es, visited, n # queue)
    \<in> measures [\<lambda>(es, visited, queue). card ((ndNode \<circ> egTo) ` set es \<union> ndNode ` set queue - set visited),
        \<lambda>(es, visited, queue). length queue]"
    using new frontier_smaller [of "(ndNode \<circ> egTo) ` set es \<union> ndNode ` set (n # queue)" "ndNode n" "set visited"
        "(ndNode \<circ> egTo) ` set es \<union> ndNode ` set (queue @ filter (\<lambda>m. ndNode m \<notin> set (ndNode n # visited))
           (map egTo (filter (\<lambda>e. ndNode (egFrom e) = ndNode n) es)))"]
    by auto
next
  fix es :: "tdg_edge list" and visited :: "string list" and n :: tdg_node and queue
  assume "ndNode n \<in> set visited"
  then have "(ndNode \<circ> egTo) ` set es \<union> ndNode ` set queue - set visited
      = (ndNode \<circ> egTo) ` set es \<union> ndNode ` set (n # queue) - set visited" by auto
  then show "((es, visited, queue), es, visited, n # queue)
    \<in> measures [\<lambda>(es, visited, queue). card ((ndNode \<circ> egTo) ` set es \<union> ndNode ` set queue - set visited),
        \<lambda>(es, visited, queue). length queue]"
    by simp
qed simp

definition TopologicalOrder :: "tdg \<Rightarrow> tdg_node list" where
  "TopologicalOrder g = (case tdgRoot g of None \<Rightarrow> [] | Some start \<Rightarrow> orderLoop (tdgEdges g) [] [start])"

section \<open>Forwarding tables\<close>

abbreviation (input) DefaultFlowBytes :: "64 word" where "DefaultFlowBytes \<equiv> 1500"

record traffic_next_hop =
  thNode :: string
  thWeight :: rat

record traffic_fib_entry =
  tfPrefix :: ipprefix
  tfNextHops :: "traffic_next_hop list"

type_synonym traffic_fibs = "(string \<times> traffic_fib_entry list) list"

text \<open>The first entry of the greatest length among those that contain the address.\<close>

definition longerMatch :: "ipaddr \<Rightarrow> traffic_fib_entry \<Rightarrow> traffic_fib_entry option \<times> int \<Rightarrow> traffic_fib_entry option \<times> int" where
  "longerMatch dst e st =
     (if pfxContains (tfPrefix e) dst \<and> snd st < pfxBits (tfPrefix e) then (Some e, pfxBits (tfPrefix e)) else st)"

definition lookupFIB :: "string \<Rightarrow> ipaddr \<Rightarrow> traffic_fibs \<Rightarrow> traffic_fib_entry option" where
  "lookupFIB n dst fibs =
     (case map_of fibs n of None \<Rightarrow> None | Some entries \<Rightarrow> fst (fold (longerMatch dst) entries (None, - 1)))"

definition representativeAddr :: "prefix_set \<Rightarrow> ipaddr" where
  "representativeAddr s =
     (case s of
        ExactPrefixSet p \<Rightarrow> pfxAddr p
      | AnyPrefixSet \<Rightarrow> IPv4 0
      | _ \<Rightarrow> (let str = prefixSetString s
              in if str = [] \<or> str = ''any'' then IPv4 0
                 else case ParsePrefix str of Some p \<Rightarrow> pfxAddr p | None \<Rightarrow> NoAddr))"

definition destinationAddr :: "packet_class \<Rightarrow> ipaddr" where
  "destinationAddr pc = (case pkDstSet pc of None \<Rightarrow> NoAddr | Some s \<Rightarrow> representativeAddr s)"

section \<open>Building a graph\<close>

text \<open>The next hops a node sends the destination to; empty where the traffic ends.\<close>

definition hopsAt :: "ipaddr \<Rightarrow> traffic_fibs \<Rightarrow> string \<Rightarrow> traffic_next_hop list" where
  "hopsAt dst fibs n = (case lookupFIB n dst fibs of None \<Rightarrow> [] | Some e \<Rightarrow> tfNextHops e)"

definition hopWeight :: "traffic_next_hop list \<Rightarrow> traffic_next_hop \<Rightarrow> rat" where
  "hopWeight hops h = (if length hops = 1 then 1 else thWeight h)"

definition addHop :: "string \<Rightarrow> int \<Rightarrow> traffic_next_hop list \<Rightarrow> tdg \<Rightarrow> traffic_next_hop \<Rightarrow> tdg_error + tdg" where
  "addHop current classID hops g h =
     AddEdge current (thNode h) (hopWeight hops h) (AddNode (thNode h) ''default'' ''fib_lookup'' classID g)"

definition fibHops :: "traffic_fibs \<Rightarrow> string set" where
  "fibHops fibs = (\<Union>(n, es) \<in> set fibs. \<Union>e \<in> set es. thNode ` set (tfNextHops e))"

lemma fold_longerMatch: "fst (fold (longerMatch dst) es st) = Some e \<Longrightarrow> e \<in> set es \<or> fst st = Some e"
  by (induction es arbitrary: st) (force simp: longerMatch_def split: if_splits)+

lemma hopsAt_fibHops: "thNode ` set (hopsAt dst fibs n) \<subseteq> fibHops fibs"
proof (cases "lookupFIB n dst fibs")
  case (Some e)
  then obtain es where es: "map_of fibs n = Some es" "fst (fold (longerMatch dst) es (None, - 1)) = Some e"
    by (auto simp: lookupFIB_def split: option.splits)
  then have "e \<in> set es" using fold_longerMatch [OF es(2)] by simp
  then show ?thesis using map_of_SomeD [OF es(1)] Some by (force simp: hopsAt_def fibHops_def)
qed (simp add: hopsAt_def)

lemma finite_fibHops [simp]: "finite (fibHops fibs)"
  by (auto simp: fibHops_def)

function buildLoop ::
    "ipaddr \<Rightarrow> traffic_fibs \<Rightarrow> int \<Rightarrow> string list \<Rightarrow> string list \<Rightarrow> tdg \<Rightarrow> tdg_error + tdg" where
  "buildLoop dst fibs classID visited [] g = Inr g"
| "buildLoop dst fibs classID visited (current # queue) g =
     (if current \<in> set visited then buildLoop dst fibs classID visited queue g
      else let hops = hopsAt dst fibs current
           in if hops = [] then buildLoop dst fibs classID (current # visited) queue (AddSink current g)
              else (case foldE (addHop current classID hops) g hops of
                      Inl err \<Rightarrow> Inl err
                    | Inr g' \<Rightarrow> buildLoop dst fibs classID (current # visited)
                        (queue @ filter (\<lambda>n. n \<notin> set (current # visited)) (map thNode hops)) g'))"
  by pat_completeness auto
termination
proof (relation "measures [\<lambda>(dst, fibs, classID, visited, queue, g). card (fibHops fibs \<union> set queue - set visited),
    \<lambda>(dst, fibs, classID, visited, queue, g). length queue]")
  fix dst fibs and classID :: int and visited and current :: string and queue and g :: tdg
  assume "current \<in> set visited"
  then have "fibHops fibs \<union> set (current # queue) - set visited = fibHops fibs \<union> set queue - set visited" by auto
  then show "((dst, fibs, classID, visited, queue, g), dst, fibs, classID, visited, current # queue, g)
    \<in> measures [\<lambda>(dst, fibs, classID, visited, queue, g). card (fibHops fibs \<union> set queue - set visited),
        \<lambda>(dst, fibs, classID, visited, queue, g). length queue]"
    by simp
next
  fix dst fibs and classID :: int and visited and current :: string and queue and g :: tdg
  assume new: "current \<notin> set visited"
  have "card (fibHops fibs \<union> set queue - insert current (set visited)) < card (fibHops fibs \<union> set (current # queue) - set visited)"
    by (rule frontier_smaller) (use new in auto)
  then show "((dst, fibs, classID, current # visited, queue, AddSink current g), dst, fibs, classID, visited, current # queue, g)
    \<in> measures [\<lambda>(dst, fibs, classID, visited, queue, g). card (fibHops fibs \<union> set queue - set visited),
        \<lambda>(dst, fibs, classID, visited, queue, g). length queue]"
    by simp
next
  fix dst fibs and classID :: int and visited and current :: string and queue and g :: tdg and hops and y :: tdg
  assume new: "current \<notin> set visited" and hops: "hops = hopsAt dst fibs current"
  have "card (fibHops fibs \<union> set (queue @ filter (\<lambda>n. n \<notin> set (current # visited)) (map thNode hops)) - insert current (set visited))
      < card (fibHops fibs \<union> set (current # queue) - set visited)"
    by (rule frontier_smaller) (use new hopsAt_fibHops [of dst fibs current] hops in auto)
  then show "((dst, fibs, classID, current # visited, queue @ filter (\<lambda>n. n \<notin> set (current # visited)) (map thNode hops), y),
      dst, fibs, classID, visited, current # queue, g)
    \<in> measures [\<lambda>(dst, fibs, classID, visited, queue, g). card (fibHops fibs \<union> set queue - set visited),
        \<lambda>(dst, fibs, classID, visited, queue, g). length queue]"
    by simp
qed simp

text \<open>The code panics where the model has an error.\<close>

definition BuildTDG :: "string \<Rightarrow> packet_class \<Rightarrow> traffic_fibs \<Rightarrow> tdg_error + tdg" where
  "BuildTDG rootNode pc fibs =
     (let dst = destinationAddr pc
      in case SetRoot rootNode (AddNode rootNode ''default'' ''ingress_acl'' (pkPrefixClass pc) NewTDG) of
           Inl err \<Rightarrow> Inl err
         | Inr g \<Rightarrow> if \<not> addrIsValid dst then Inr g else buildLoop dst fibs (pkPrefixClass pc) [] [rootNode] g)"

section \<open>Loads\<close>

text \<open>A map from links to byte counts; a missing link carries nothing.\<close>

type_synonym loads = "(string \<times> 64 word) list"

definition loadOf :: "loads \<Rightarrow> string \<Rightarrow> 64 word" where
  "loadOf m k = (case map_of m k of None \<Rightarrow> 0 | Some b \<Rightarrow> b)"

definition addLoad :: "string \<Rightarrow> 64 word \<Rightarrow> loads \<Rightarrow> loads" where
  "addLoad k b m = AList.update k (loadOf m k + b) m"

definition addLoads :: "loads \<Rightarrow> loads \<Rightarrow> loads" where
  "addLoads src dst = fold (\<lambda>(k, b). addLoad k b) src dst"

definition tdgLinkName :: "string \<Rightarrow> string \<Rightarrow> string" where
  "tdgLinkName from to = from @ ''->'' @ to"

text \<open>The loads of links and those of nodes, in this order.\<close>

definition carryEdge :: "64 word \<Rightarrow> tdg_edge \<Rightarrow> loads \<times> loads \<Rightarrow> loads \<times> loads" where
  "carryEdge bytes e st =
     (let edgeBytes = scaleBytes bytes (egWeight e)
      in if edgeBytes = 0 then st
         else (addLoad (tdgLinkName (ndNode (egFrom e)) (ndNode (egTo e))) edgeBytes (fst st),
               addLoad (ndNode (egTo e)) edgeBytes (snd st)))"

definition carryNode :: "tdg \<Rightarrow> tdg_node \<Rightarrow> loads \<times> loads \<Rightarrow> loads \<times> loads" where
  "carryNode g n st =
     (let bytes = loadOf (snd st) (ndNode n)
      in if bytes = 0 then st else fold (carryEdge bytes) (OutEdges g (ndNode n)) st)"

definition Traverse :: "tdg \<Rightarrow> 64 word \<Rightarrow> loads" where
  "Traverse g totalBytes =
     (case tdgRoot g of
        None \<Rightarrow> []
      | Some start \<Rightarrow> if totalBytes = 0 then []
                      else fst (fold (carryNode g) (TopologicalOrder g) ([], [(ndNode start, totalBytes)])))"

section \<open>Flows\<close>

record flow =
  flSrcIP :: ipaddr
  flDstIP :: ipaddr
  flProtocol :: string
  flSrcPort :: "16 word"
  flDstPort :: "16 word"

datatype ecmp_mode = ECMPModeUniform | ECMPModeHash

text \<open>\<open>hash/fnv\<close>: the 64-bit FNV-1a hash of a sequence of bytes.\<close>

definition fnvOffset :: "64 word" where "fnvOffset = 14695981039346656037"

definition fnvWrite :: "nat list \<Rightarrow> 64 word \<Rightarrow> 64 word" where
  "fnvWrite bytes h = fold (\<lambda>b h. (h XOR of_nat b) * 1099511628211) bytes h"

text \<open>The bytes of an address, most significant first.\<close>

definition wordBytes :: "nat \<Rightarrow> 'a :: len word \<Rightarrow> nat list" where
  "wordBytes n w = map (\<lambda>i. unat w div 256 ^ (n - 1 - i) mod 256) [0..<n]"

fun padAddrTo16 :: "ipaddr \<Rightarrow> nat list" where
  "padAddrTo16 NoAddr = []"
| "padAddrTo16 (IPv4 w) = replicate 12 0 @ wordBytes 4 w"
| "padAddrTo16 (IPv6 w z) = wordBytes 16 w"

definition flowHash :: "flow \<Rightarrow> 64 word" where
  "flowHash f =
     (let protoBytes = take 4 (map of_char (flProtocol f) @ replicate 4 0)
      in fnvWrite (wordBytes 2 (flSrcPort f) @ wordBytes 2 (flDstPort f))
           (fnvWrite protoBytes (fnvWrite (padAddrTo16 (flDstIP f)) (fnvWrite (padAddrTo16 (flSrcIP f)) fnvOffset))))"

text \<open>Its callers never pass an empty list, for which the code divides by zero.\<close>

definition SelectECMPMember :: "flow \<Rightarrow> traffic_next_hop list \<Rightarrow> nat" where
  "SelectECMPMember f hops = (if length hops = 1 then 0 else unat (flowHash f) mod length hops)"

text \<open>The next hop of a flow at a node, if the node forwards it.\<close>

definition flowHop :: "flow \<Rightarrow> ipaddr \<Rightarrow> traffic_fibs \<Rightarrow> string \<Rightarrow> string option" where
  "flowHop f dst fibs n =
     (case lookupFIB n dst fibs of
        None \<Rightarrow> None
      | Some entry \<Rightarrow>
          if tfNextHops entry = [] then None
          else (let i = SelectECMPMember f (tfNextHops entry)
                in if length (tfNextHops entry) \<le> i then None else Some (thNode (tfNextHops entry ! i))))"

lemma flowHop_fibHops: "flowHop f dst fibs n = Some m \<Longrightarrow> m \<in> fibHops fibs"
  using hopsAt_fibHops [of dst fibs n]
  by (auto simp: flowHop_def hopsAt_def Let_def split: option.splits if_splits)

function flowLoop :: "flow \<Rightarrow> ipaddr \<Rightarrow> traffic_fibs \<Rightarrow> string list \<Rightarrow> (string \<times> 64 word) list \<Rightarrow> loads \<Rightarrow> loads" where
  "flowLoop f dst fibs visited [] linkBytes = linkBytes"
| "flowLoop f dst fibs visited (nl # queue) linkBytes =
     (if fst nl \<in> set visited then flowLoop f dst fibs visited queue linkBytes
      else case flowHop f dst fibs (fst nl) of
             None \<Rightarrow> flowLoop f dst fibs (fst nl # visited) queue linkBytes
           | Some m \<Rightarrow> flowLoop f dst fibs (fst nl # visited)
                         (queue @ (if m \<notin> set (fst nl # visited) then [(m, snd nl)] else []))
                         (addLoad (tdgLinkName (fst nl) m) (snd nl) linkBytes))"
  by pat_completeness auto
termination
proof (relation "measures [\<lambda>(f, dst, fibs, visited, queue, linkBytes). card (fibHops fibs \<union> fst ` set queue - set visited),
    \<lambda>(f, dst, fibs, visited, queue, linkBytes). length queue]")
  fix f dst fibs visited and nl :: "string \<times> 64 word" and queue and linkBytes :: loads
  assume "fst nl \<in> set visited"
  then have "fibHops fibs \<union> fst ` set (nl # queue) - set visited = fibHops fibs \<union> fst ` set queue - set visited" by auto
  then show "((f, dst, fibs, visited, queue, linkBytes), f, dst, fibs, visited, nl # queue, linkBytes)
    \<in> measures [\<lambda>(f, dst, fibs, visited, queue, linkBytes). card (fibHops fibs \<union> fst ` set queue - set visited),
        \<lambda>(f, dst, fibs, visited, queue, linkBytes). length queue]"
    by simp
next
  fix f dst fibs visited and nl :: "string \<times> 64 word" and queue and linkBytes :: loads
  assume new: "fst nl \<notin> set visited"
  have "card (fibHops fibs \<union> fst ` set queue - insert (fst nl) (set visited)) < card (fibHops fibs \<union> fst ` set (nl # queue) - set visited)"
    by (rule frontier_smaller) (use new in auto)
  then show "((f, dst, fibs, fst nl # visited, queue, linkBytes), f, dst, fibs, visited, nl # queue, linkBytes)
    \<in> measures [\<lambda>(f, dst, fibs, visited, queue, linkBytes). card (fibHops fibs \<union> fst ` set queue - set visited),
        \<lambda>(f, dst, fibs, visited, queue, linkBytes). length queue]"
    by simp
next
  fix f dst fibs visited and nl :: "string \<times> 64 word" and queue and linkBytes :: loads and m
  assume new: "fst nl \<notin> set visited" and m: "flowHop f dst fibs (fst nl) = Some m"
  have "card (fibHops fibs \<union> fst ` set (queue @ (if m \<notin> set (fst nl # visited) then [(m, snd nl)] else [])) - insert (fst nl) (set visited))
      < card (fibHops fibs \<union> fst ` set (nl # queue) - set visited)"
    by (rule frontier_smaller) (use new flowHop_fibHops [OF m] in auto)
  then show "((f, dst, fibs, fst nl # visited, queue @ (if m \<notin> set (fst nl # visited) then [(m, snd nl)] else []),
      addLoad (tdgLinkName (fst nl) m) (snd nl) linkBytes), f, dst, fibs, visited, nl # queue, linkBytes)
    \<in> measures [\<lambda>(f, dst, fibs, visited, queue, linkBytes). card (fibHops fibs \<union> fst ` set queue - set visited),
        \<lambda>(f, dst, fibs, visited, queue, linkBytes). length queue]"
    by simp
qed simp

definition simulateFlow :: "string \<Rightarrow> packet_class \<Rightarrow> traffic_fibs \<Rightarrow> flow \<Rightarrow> loads" where
  "simulateFlow rootNode pc fibs f =
     (let dst = (if addrIsValid (flDstIP f) then flDstIP f else destinationAddr pc)
      in if \<not> addrIsValid dst then [] else flowLoop f dst fibs [] [(rootNode, DefaultFlowBytes)] [])"

section \<open>The simulator\<close>

definition SimulateClass :: "string \<Rightarrow> packet_class \<Rightarrow> traffic_fibs \<Rightarrow> 64 word \<Rightarrow> tdg_error + loads" where
  "SimulateClass rootNode pc fibs totalBytes =
     (case BuildTDG rootNode pc fibs of Inl err \<Rightarrow> Inl err | Inr g \<Rightarrow> Inr (Traverse g totalBytes))"

definition SimulateClassWithFlows ::
    "ecmp_mode \<Rightarrow> string \<Rightarrow> packet_class \<Rightarrow> traffic_fibs \<Rightarrow> flow list \<Rightarrow> tdg_error + loads" where
  "SimulateClassWithFlows mode rootNode pc fibs flows =
     (if mode \<noteq> ECMPModeHash then SimulateClass rootNode pc fibs (of_nat (length flows) * DefaultFlowBytes)
      else Inr (fold (\<lambda>f. addLoads (simulateFlow rootNode pc fibs f)) flows []))"

record link_load =
  llLinkName :: string
  llBytes :: "64 word"

record traffic_result =
  trLabel :: string
  trLinkLoads :: "(string \<times> link_load) list"

text \<open>\<open>math.Inf(1)\<close> is the only infinity the code makes.\<close>

datatype go_float = Finite rat | PosInf

record link_load_diff =
  ldLinkName :: string
  ldBefore :: "64 word"
  ldAfter :: "64 word"
  ldChangePct :: go_float

record snapshot_def =
  sdLabel :: string
  sdFIBs :: traffic_fibs
  sdTotalBytes :: "64 word"

record multi_snapshot_result =
  mrSnapshots :: "traffic_result list"
  mrDiffs :: "link_load_diff list"

definition toLinkLoads :: "loads \<Rightarrow> (string \<times> link_load) list" where
  "toLinkLoads raw = map (\<lambda>(k, b). (k, \<lparr>llLinkName = k, llBytes = b\<rparr>)) raw"

definition loadBytes :: "(string \<times> link_load) list \<Rightarrow> string \<Rightarrow> 64 word" where
  "loadBytes m k = (case map_of m k of None \<Rightarrow> 0 | Some l \<Rightarrow> llBytes l)"

text \<open>The counts are compared and subtracted as \<open>int64\<close>.\<close>

definition percentChange :: "int \<Rightarrow> int \<Rightarrow> go_float" where
  "percentChange delta before =
     (if 0 < before then Finite (twoDecimals (f64 (f64 (f64 (of_int delta) / f64 (of_int before)) * 100))) else PosInf)"

definition diffFor :: "traffic_result \<Rightarrow> traffic_result \<Rightarrow> string \<Rightarrow> link_load_diff option" where
  "diffFor former latter k =
     (let before = loadBytes (trLinkLoads former) k; after = loadBytes (trLinkLoads latter) k
      in if before = after then None
         else Some \<lparr>ldLinkName = k, ldBefore = before, ldAfter = after,
                    ldChangePct = percentChange (sint (after - before)) (sint before)\<rparr>)"

definition diffLess :: "link_load_diff \<Rightarrow> link_load_diff \<Rightarrow> bool" where
  "diffLess a b = (if ldLinkName a = ldLinkName b then ldBefore a < ldBefore b else ldLinkName a < ldLinkName b)"

definition pairDiffs :: "traffic_result \<Rightarrow> traffic_result \<Rightarrow> link_load_diff list" where
  "pairDiffs former latter = List.map_filter (diffFor former latter) (remdups (map fst (trLinkLoads former) @ map fst (trLinkLoads latter)))"

definition ComputeDiffs :: "traffic_result list \<Rightarrow> link_load_diff list" where
  "ComputeDiffs snapshots =
     (if length snapshots < 2 then []
      else sortSlice diffLess (concat (map (\<lambda>i. pairDiffs (snapshots ! (i - 1)) (snapshots ! i)) [1..<length snapshots])))"

definition simulateSnapshot ::
    "ecmp_mode \<Rightarrow> string \<Rightarrow> packet_class \<Rightarrow> flow list \<Rightarrow> snapshot_def \<Rightarrow> tdg_error + traffic_result" where
  "simulateSnapshot mode rootNode pc flows snap =
     (case (if mode = ECMPModeHash \<and> flows \<noteq> [] then SimulateClassWithFlows mode rootNode pc (sdFIBs snap) flows
            else SimulateClass rootNode pc (sdFIBs snap) (sdTotalBytes snap)) of
        Inl err \<Rightarrow> Inl err
      | Inr linkBytes \<Rightarrow> Inr \<lparr>trLabel = sdLabel snap, trLinkLoads = toLinkLoads linkBytes\<rparr>)"

definition SimulateMultiSnapshot ::
    "ecmp_mode \<Rightarrow> string \<Rightarrow> packet_class \<Rightarrow> snapshot_def list \<Rightarrow> flow list \<Rightarrow> tdg_error + multi_snapshot_result" where
  "SimulateMultiSnapshot mode rootNode pc snapshots flows =
     (case mapE (simulateSnapshot mode rootNode pc flows) snapshots of
        Inl err \<Rightarrow> Inl err
      | Inr rs \<Rightarrow> Inr \<lparr>mrSnapshots = rs, mrDiffs = ComputeDiffs rs\<rparr>)"

end
