(* ===== verification/Traffic_Laws.thy ===== *)
theory Traffic_Laws
  imports Traffic
begin

text \<open>
  What the traffic simulation promises: the graph of a packet class is exactly the part of the
  forwarding tables its traffic can reach, and a flow follows one trail of next hops.
\<close>

section \<open>Nodes and edges of a graph\<close>

abbreviation nodeNames :: "tdg \<Rightarrow> string list" where
  "nodeNames g \<equiv> map ndNode (tdgNodes g)"

lemma nodeIndex_Some: "nodeIndex g n = Some x \<Longrightarrow> ndNode x = n \<and> x \<in> set (tdgNodes g)"
  using find_SomeD unfolding nodeIndex_def by fast

lemma nodeIndex_known: "n \<in> set (nodeNames g) \<Longrightarrow> \<exists>x. nodeIndex g n = Some x"
  by (auto simp: nodeIndex_def find_None_iff simp flip: not_None_eq)

lemma nodeIndex_None: "nodeIndex g n = None \<longleftrightarrow> n \<notin> set (nodeNames g)"
  by (auto simp: nodeIndex_def find_None_iff)

text \<open>The ends and weights of the edges that leave a node, in order.\<close>

definition outHops :: "tdg \<Rightarrow> string \<Rightarrow> (string \<times> rat) list" where
  "outHops g n = map (\<lambda>e. (ndNode (egTo e), egWeight e)) (OutEdges g n)"

lemma AddNode_laws:
  "set (nodeNames (AddNode n vrf stage c g)) = insert n (set (nodeNames g))"
  "distinct (nodeNames g) \<Longrightarrow> distinct (nodeNames (AddNode n vrf stage c g))"
  "outHops (AddNode n vrf stage c g) = outHops g" "tdgRoot (AddNode n vrf stage c g) = tdgRoot g"
  by (auto simp: AddNode_def outHops_def OutEdges_def fun_eq_iff nodeIndex_None split: option.split dest!: nodeIndex_Some)

lemma AddSink_laws:
  "nodeNames (AddSink n g) = nodeNames g" "outHops (AddSink n g) = outHops g" "tdgRoot (AddSink n g) = tdgRoot g"
  by (auto simp: AddSink_def outHops_def OutEdges_def fun_eq_iff split: option.split)

lemma AddEdge_laws:
  assumes "a \<in> set (nodeNames g)" "b \<in> set (nodeNames g)"
  shows "\<exists>g'. AddEdge a b w g = Inr g' \<and> nodeNames g' = nodeNames g \<and> tdgRoot g' = tdgRoot g
    \<and> (\<forall>n. outHops g' n = outHops g n @ (if n = a then [(b, w)] else []))"
proof -
  obtain x y where xy: "nodeIndex g a = Some x" "nodeIndex g b = Some y"
    using nodeIndex_known assms by blast
  let ?g = "g\<lparr>tdgEdges := tdgEdges g @ [\<lparr>egFrom = x, egTo = y, egWeight = w\<rparr>]\<rparr>"
  have "AddEdge a b w g = Inr ?g" by (simp add: AddEdge_def xy)
  moreover have "outHops ?g n = outHops g n @ (if n = a then [(b, w)] else [])" for n
    using nodeIndex_Some [OF xy(1)] nodeIndex_Some [OF xy(2)] by (auto simp: outHops_def OutEdges_def)
  ultimately show ?thesis by auto
qed

text \<open>What the construction of a graph keeps, from \<open>g\<close> to \<open>g'\<close>.\<close>

definition grows :: "tdg \<Rightarrow> string set \<Rightarrow> (string \<Rightarrow> (string \<times> rat) list) \<Rightarrow> tdg \<Rightarrow> bool" where
  "grows g new outs g' \<longleftrightarrow> set (nodeNames g') = set (nodeNames g) \<union> new
     \<and> (distinct (nodeNames g) \<longrightarrow> distinct (nodeNames g')) \<and> tdgRoot g' = tdgRoot g
     \<and> (\<forall>n. outHops g' n = outHops g n @ outs n)"

lemma addHops_grow:
  "current \<in> set (nodeNames g) \<Longrightarrow> \<exists>g'. foldE (addHop current classID hops) g hs = Inr g'
    \<and> grows g (thNode ` set hs) (\<lambda>n. if n = current then map (\<lambda>h. (thNode h, hopWeight hops h)) hs else []) g'"
proof (induction hs arbitrary: g)
  case (Cons h hs)
  let ?g1 = "AddNode (thNode h) ''default'' ''fib_lookup'' classID g"
  have "current \<in> set (nodeNames ?g1)" "thNode h \<in> set (nodeNames ?g1)" using Cons.prems AddNode_laws(1) by simp_all
  from AddEdge_laws [OF this, where w = "hopWeight hops h"]
  obtain g2 where g2: "AddEdge current (thNode h) (hopWeight hops h) ?g1 = Inr g2" "nodeNames g2 = nodeNames ?g1"
    "tdgRoot g2 = tdgRoot ?g1" "\<forall>n. outHops g2 n = outHops ?g1 n @ (if n = current then [(thNode h, hopWeight hops h)] else [])"
    by blast
  then have "current \<in> set (nodeNames g2)" using Cons.prems AddNode_laws(1) by simp
  from Cons.IH [OF this] obtain g' where "foldE (addHop current classID hops) g2 hs = Inr g'"
    "grows g2 (thNode ` set hs) (\<lambda>n. if n = current then map (\<lambda>h. (thNode h, hopWeight hops h)) hs else []) g'" by blast
  then have "foldE (addHop current classID hops) g (h # hs) = Inr g'
      \<and> grows g (thNode ` set (h # hs)) (\<lambda>n. if n = current then map (\<lambda>h. (thNode h, hopWeight hops h)) (h # hs) else []) g'"
    using g2 AddNode_laws(2) [of g "thNode h"] by (simp add: addHop_def [of current classID hops g h] grows_def AddNode_laws AddNode_laws(1) [simplified] insert_commute)
  then show ?case by blast
qed (simp add: grows_def)

section \<open>The graph of a packet class\<close>

inductive hopReach :: "ipaddr \<Rightarrow> traffic_fibs \<Rightarrow> string \<Rightarrow> string \<Rightarrow> bool" for dst fibs start where
  origin: "hopReach dst fibs start start"
| hop: "hopReach dst fibs start n \<Longrightarrow> h \<in> set (hopsAt dst fibs n) \<Longrightarrow> hopReach dst fibs start (thNode h)"

definition weightedHops :: "ipaddr \<Rightarrow> traffic_fibs \<Rightarrow> string \<Rightarrow> (string \<times> rat) list" where
  "weightedHops dst fibs n = map (\<lambda>h. (thNode h, hopWeight (hopsAt dst fibs n) h)) (hopsAt dst fibs n)"

text \<open>The state between two passes of the loop.\<close>

definition building :: "ipaddr \<Rightarrow> traffic_fibs \<Rightarrow> string \<Rightarrow> string list \<Rightarrow> string list \<Rightarrow> tdg \<Rightarrow> bool" where
  "building dst fibs start visited queue g \<longleftrightarrow>
     distinct (nodeNames g) \<and> set (nodeNames g) = set visited \<union> set queue \<and> start \<in> set visited \<union> set queue
     \<and> (\<forall>n. outHops g n = (if n \<in> set visited then weightedHops dst fibs n else []))
     \<and> (\<forall>n \<in> set visited \<union> set queue. hopReach dst fibs start n)
     \<and> (\<forall>n \<in> set visited. thNode ` set (hopsAt dst fibs n) \<subseteq> set visited \<union> set queue)"

definition built :: "ipaddr \<Rightarrow> traffic_fibs \<Rightarrow> string \<Rightarrow> tdg \<Rightarrow> bool" where
  "built dst fibs start g \<longleftrightarrow> distinct (nodeNames g) \<and> (\<forall>n. n \<in> set (nodeNames g) \<longleftrightarrow> hopReach dst fibs start n)
     \<and> (\<forall>n. outHops g n = (if hopReach dst fibs start n then weightedHops dst fibs n else []))"

lemma building_done: "building dst fibs start visited [] g \<Longrightarrow> built dst fibs start g"
proof -
  assume b: "building dst fibs start visited [] g"
  have "n \<in> set visited" if "hopReach dst fibs start n" for n
    using that by (induction rule: hopReach.induct) (use b in \<open>auto simp: building_def image_subset_iff\<close>)
  then show ?thesis using b unfolding building_def built_def by auto
qed

lemma buildLoop_built:
  "building dst fibs start visited queue g \<Longrightarrow>
     \<exists>g'. buildLoop dst fibs classID visited queue g = Inr g' \<and> built dst fibs start g' \<and> tdgRoot g' = tdgRoot g"
proof (induction dst fibs classID visited queue g rule: buildLoop.induct)
  case (1 dst fibs classID visited g)
  then show ?case using building_done by auto
next
  case (2 dst fibs classID visited current queue g)
  let ?hops = "hopsAt dst fibs current"
  show ?case
  proof (cases "current \<in> set visited")
    case True
    then have "building dst fibs start visited queue g" using "2.prems" by (simp add: building_def insert_absorb)
    then show ?thesis using "2.IH"(1) [OF True] True by simp
  next
    case new: False
    have reach: "hopReach dst fibs start current" "current \<in> set (nodeNames g)" using "2.prems" by (auto simp: building_def)
    show ?thesis
    proof (cases "?hops = []")
      case True
      have "building dst fibs start (current # visited) queue (AddSink current g)"
        using "2.prems" new True by (auto simp: building_def AddSink_laws weightedHops_def simp del: map_eq_Cons_conv)
      then show ?thesis using "2.IH"(2) [OF new refl True] new True by (simp add: AddSink_laws)
    next
      case False
      obtain g1 where g1: "foldE (addHop current classID ?hops) g ?hops = Inr g1"
        and grow: "grows g (thNode ` set ?hops) (\<lambda>n. if n = current then weightedHops dst fibs current else []) g1"
        using addHops_grow [OF reach(2), of classID ?hops ?hops] unfolding weightedHops_def by blast
      let ?q = "queue @ filter (\<lambda>n. n \<notin> set (current # visited)) (map thNode ?hops)"
      have next_reach: "\<forall>m \<in> thNode ` set ?hops. hopReach dst fibs start m" using reach(1) hopReach.hop by fast
      have "building dst fibs start (current # visited) ?q g1"
        unfolding building_def
      proof (intro conjI)
        show "distinct (nodeNames g1)" using grow "2.prems" by (simp add: grows_def building_def)
        show "set (nodeNames g1) = set (current # visited) \<union> set ?q" using grow "2.prems" by (auto simp: grows_def building_def)
        show "start \<in> set (current # visited) \<union> set ?q" using "2.prems" by (auto simp: building_def)
        show "\<forall>n. outHops g1 n = (if n \<in> set (current # visited) then weightedHops dst fibs n else [])"
          using grow "2.prems" new by (auto simp: grows_def building_def)
        show "\<forall>n \<in> set (current # visited) \<union> set ?q. hopReach dst fibs start n"
          using next_reach reach(1) "2.prems" by (auto simp: building_def)
        show "\<forall>n \<in> set (current # visited). thNode ` set (hopsAt dst fibs n) \<subseteq> set (current # visited) \<union> set ?q"
          using "2.prems" by (fastforce simp: building_def)
      qed
      then show ?thesis using "2.IH"(3) [OF new refl False g1] new False g1 grow by (simp add: grows_def)
    qed
  qed
qed

lemma BuildTDG_graph:
  "\<exists>g. BuildTDG start pc fibs = Inr g \<and> map_option ndNode (tdgRoot g) = Some start \<and> distinct (map ndNode (tdgNodes g))
    \<and> (\<forall>n. n \<in> set (map ndNode (tdgNodes g)) \<longleftrightarrow> n = start \<or> addrIsValid (destinationAddr pc) \<and> hopReach (destinationAddr pc) fibs start n)
    \<and> (\<forall>n. map (\<lambda>e. (ndNode (egTo e), egWeight e)) (OutEdges g n) =
        (if addrIsValid (destinationAddr pc) \<and> hopReach (destinationAddr pc) fibs start n
         then map (\<lambda>h. (thNode h, hopWeight (hopsAt (destinationAddr pc) fibs n) h)) (hopsAt (destinationAddr pc) fibs n) else []))"
proof -
  let ?n = "\<lparr>ndID = 0, ndNode = start, ndVRF = ''default'', ndStage = ''ingress_acl'', ndClass = pkPrefixClass pc\<rparr>"
  let ?g = "\<lparr>tdgNodes = [?n], tdgEdges = [], tdgRoot = Some ?n, tdgSinks = []\<rparr>"
  let ?dst = "destinationAddr pc"
  have g: "BuildTDG start pc fibs = (if \<not> addrIsValid ?dst then Inr ?g else buildLoop ?dst fibs (pkPrefixClass pc) [] [start] ?g)"
    by (simp add: BuildTDG_def Let_def AddNode_def NewTDG_def SetRoot_def nodeIndex_def)
  show ?thesis
  proof (cases "addrIsValid ?dst")
    case True
    have "building ?dst fibs start [] [start] ?g"
      by (auto simp: building_def outHops_def OutEdges_def intro: hopReach.origin)
    from buildLoop_built [OF this, of "pkPrefixClass pc"] obtain g' where
      "buildLoop ?dst fibs (pkPrefixClass pc) [] [start] ?g = Inr g'" "built ?dst fibs start g'" "tdgRoot g' = Some ?n" by auto
    then show ?thesis using True by (auto simp: g built_def outHops_def weightedHops_def intro: hopReach.origin)
  qed (auto simp: g OutEdges_def)
qed

lemma BuildTDG_never_fails: "\<exists>g. BuildTDG start pc fibs = Inr g"
  using BuildTDG_graph by blast

text \<open>
  C34 (the traffic graph of a class). \<open>BuildTDG\<close> never panics. Its root is the ingress node; when the
  class has a destination address, its nodes are, without repetition, exactly those the next hops of
  the tables lead to from the ingress node, and the edges of each are its next hops, in their order
  and with their weights, or weight one for a single next hop; otherwise the root is all there is.
\<close>

theorem BuildTDG_exact:
  "\<exists>g. BuildTDG start pc fibs = Inr g \<and> map_option ndNode (tdgRoot g) = Some start \<and> distinct (map ndNode (tdgNodes g))
    \<and> (\<forall>n. n \<in> set (map ndNode (tdgNodes g)) \<longleftrightarrow> n = start \<or> addrIsValid (destinationAddr pc) \<and> hopReach (destinationAddr pc) fibs start n)
    \<and> (\<forall>n. map (\<lambda>e. (ndNode (egTo e), egWeight e)) (OutEdges g n) =
        (if addrIsValid (destinationAddr pc) \<and> hopReach (destinationAddr pc) fibs start n
         then map (\<lambda>h. (thNode h, hopWeight (hopsAt (destinationAddr pc) fibs n) h)) (hopsAt (destinationAddr pc) fibs n) else []))"
  by (rule BuildTDG_graph)

section \<open>The trail of a flow\<close>

lemma loadOf_addLoad: "loadOf (addLoad k b m) k' = loadOf m k' + (if k' = k then b else 0)"
  by (simp add: loadOf_def addLoad_def update_conv')

text \<open>The nodes a flow passes from \<open>n\<close> on, when those in \<open>visited\<close> have been passed already.\<close>

definition trailFrom :: "flow \<Rightarrow> ipaddr \<Rightarrow> traffic_fibs \<Rightarrow> string list \<Rightarrow> string list \<Rightarrow> bool" where
  "trailFrom f dst fibs visited ns \<longleftrightarrow>
     distinct ns \<and> set ns \<inter> set visited = {} \<and> successively (\<lambda>a b. flowHop f dst fibs a = Some b) ns
     \<and> (case flowHop f dst fibs (last ns) of None \<Rightarrow> True | Some m \<Rightarrow> m \<in> set ns \<union> set visited)"

definition carries :: "flow \<Rightarrow> ipaddr \<Rightarrow> traffic_fibs \<Rightarrow> string \<Rightarrow> string \<Rightarrow> bool" where
  "carries f dst fibs k n \<longleftrightarrow> (case flowHop f dst fibs n of None \<Rightarrow> False | Some m \<Rightarrow> tdgLinkName n m = k)"

lemma trailFrom_single:
  assumes "n \<notin> set visited" "case flowHop f dst fibs n of None \<Rightarrow> True | Some m \<Rightarrow> m \<in> set (n # visited)"
  shows "trailFrom f dst fibs visited [n]"
  using assms by (auto simp: trailFrom_def split: option.splits)

lemma trailFrom_Cons:
  assumes "n \<notin> set visited" "flowHop f dst fibs n = Some m" "ns \<noteq> []" "hd ns = m" "trailFrom f dst fibs (n # visited) ns"
  shows "trailFrom f dst fibs visited (n # ns)"
  using assms by (cases ns) (auto simp: trailFrom_def split: option.splits)

lemma flowLoop_trail:
  "queue = [(n, b)] \<Longrightarrow> n \<notin> set visited \<Longrightarrow>
     \<exists>ns. ns \<noteq> [] \<and> hd ns = n \<and> trailFrom f dst fibs visited ns
      \<and> (\<forall>k. loadOf (flowLoop f dst fibs visited queue linkBytes) k = loadOf linkBytes k + b * of_nat (length (filter (carries f dst fibs k) ns)))"
proof (induction f dst fibs visited queue linkBytes arbitrary: n rule: flowLoop.induct)
  case (2 f dst fibs visited nl queue linkBytes)
  then have q: "queue = []" "nl = (n, b)" and new: "fst nl \<notin> set visited" by auto
  show ?case
  proof (cases "flowHop f dst fibs n")
    case None
    then have "trailFrom f dst fibs visited [n]" using new q by (intro trailFrom_single) auto
    then show ?thesis using None q new by (intro exI [of _ "[n]"]) (simp add: carries_def)
  next
    case (Some m)
    let ?l = "addLoad (tdgLinkName n m) b linkBytes"
    show ?thesis
    proof (cases "m \<in> set (n # visited)")
      case True
      then have "trailFrom f dst fibs visited [n]" using new q Some by (intro trailFrom_single) auto
      then show ?thesis using Some True q new by (intro exI [of _ "[n]"]) (auto simp: carries_def loadOf_addLoad)
    next
      case False
      have "\<exists>ns. ns \<noteq> [] \<and> hd ns = m \<and> trailFrom f dst fibs (n # visited) ns
        \<and> (\<forall>k. loadOf (flowLoop f dst fibs (n # visited) [(m, b)] ?l) k
            = loadOf ?l k + b * of_nat (length (filter (carries f dst fibs k) ns)))"
        using "2.IH"(3) [OF new, of m m] Some False q by simp
      then obtain ns where ns: "ns \<noteq> []" "hd ns = m" "trailFrom f dst fibs (n # visited) ns"
        "\<forall>k. loadOf (flowLoop f dst fibs (n # visited) [(m, b)] ?l) k
            = loadOf ?l k + b * of_nat (length (filter (carries f dst fibs k) ns))" by blast
      have "trailFrom f dst fibs visited (n # ns)" using trailFrom_Cons [OF _ Some ns(1-3)] new q by simp
      moreover have "loadOf (flowLoop f dst fibs visited (nl # queue) linkBytes) k
          = loadOf linkBytes k + b * of_nat (length (filter (carries f dst fibs k) (n # ns)))" for k
        using ns(4) Some False q new by (auto simp: carries_def loadOf_addLoad algebra_simps)
      ultimately show ?thesis using ns(1) by (intro exI [of _ "n # ns"]) simp
    qed
  qed
qed simp

text \<open>
  A hashed flow follows one trail. A flow with a destination address, its own or that of its
  class, leaves the ingress node over the next hop its hash selects at each node, until a node does
  not forward it or sends it to a node it has passed: the nodes it passes are distinct, and every link
  carries 1500 bytes for each of them that sends the flow over that link. A flow with neither address
  loads no link.
\<close>

lemma simulateFlow_trail:
  "let dst = (if addrIsValid (flDstIP f) then flDstIP f else destinationAddr pc)
   in if addrIsValid dst
      then (\<exists>ns. ns \<noteq> [] \<and> hd ns = start \<and> distinct ns \<and> successively (\<lambda>a b. flowHop f dst fibs a = Some b) ns
        \<and> (case flowHop f dst fibs (last ns) of None \<Rightarrow> True | Some m \<Rightarrow> m \<in> set ns)
        \<and> (\<forall>k. loadOf (simulateFlow start pc fibs f) k
            = 1500 * of_nat (length (filter (\<lambda>n. case flowHop f dst fibs n of None \<Rightarrow> False | Some m \<Rightarrow> tdgLinkName n m = k) ns))))
      else simulateFlow start pc fibs f = []"
proof -
  define dst where "dst = (if addrIsValid (flDstIP f) then flDstIP f else destinationAddr pc)"
  obtain ns where ns: "ns \<noteq> []" "hd ns = start" "trailFrom f dst fibs [] ns"
    "\<forall>k. loadOf (flowLoop f dst fibs [] [(start, 1500)] []) k = loadOf [] k + 1500 * of_nat (length (filter (carries f dst fibs k) ns))"
    using flowLoop_trail [of "[(start, 1500)]" start 1500 "[]" f dst fibs "[]"] by auto
  have trail: "distinct ns" "successively (\<lambda>a b. flowHop f dst fibs a = Some b) ns"
    "case flowHop f dst fibs (last ns) of None \<Rightarrow> True | Some m \<Rightarrow> m \<in> set ns"
    using ns(3) by (auto simp: trailFrom_def split: option.splits)
  have loads: "loadOf (simulateFlow start pc fibs f) k = 1500 * of_nat (length (filter (\<lambda>n. case flowHop f dst fibs n of
      None \<Rightarrow> False | Some m \<Rightarrow> tdgLinkName n m = k) ns))" if "addrIsValid dst" for k
    using ns(4) [rule_format, of k] that
    unfolding simulateFlow_def Let_def dst_def [symmetric] carries_def [abs_def]
    by (simp add: loadOf_def [of "[]"] del: flowLoop.simps)
  show ?thesis unfolding Let_def dst_def [symmetric]
    using ns(1,2) trail loads by (auto simp: simulateFlow_def Let_def dst_def simp del: flowLoop.simps intro!: exI [of _ ns])
qed

end
