(* ===== verification/Traffic_Traverse.thy ===== *)
theory Traffic_Traverse
  imports Traffic_Laws
begin

text \<open>
  \<open>Traverse\<close> spreads the traffic of a class over its graph in breadth-first order. Where no edge leads
  back in that order, the loads are the solution of the flow equations; elsewhere traffic that arrives
  at a node after its turn is lost.
\<close>

section \<open>The order of a traversal\<close>

lemma orderLoop_names:
  "distinct (map ndNode (orderLoop es visited queue)) \<and> ndNode ` set (orderLoop es visited queue) \<inter> set visited = {}"
  by (induction es visited queue rule: orderLoop.induct) auto

lemma TopologicalOrder_start: "tdgRoot g = Some start \<Longrightarrow> \<exists>ns. TopologicalOrder g = start # ns"
  by (simp add: TopologicalOrder_def)

lemma TopologicalOrder_distinct: "distinct (map ndNode (TopologicalOrder g))"
  using orderLoop_names by (simp add: TopologicalOrder_def del: orderLoop.simps split: option.split)

text \<open>No edge leads from a node of the list to itself or to one before it.\<close>

definition leadsOn :: "tdg \<Rightarrow> tdg_node list \<Rightarrow> bool" where
  "leadsOn g ns \<longleftrightarrow> list_all (\<lambda>n. list_all (\<lambda>e. ndNode (egTo e) \<noteq> ndNode n) (OutEdges g (ndNode n))) ns
     \<and> sorted_wrt (\<lambda>m n. list_all (\<lambda>e. ndNode (egTo e) \<noteq> ndNode m) (OutEdges g (ndNode n))) ns"

definition edgesFrom :: "tdg \<Rightarrow> tdg_node list \<Rightarrow> tdg_edge list" where
  "edgesFrom g ns = concat (map (\<lambda>n. OutEdges g (ndNode n)) ns)"

text \<open>What the edges with a property carry when the nodes hold \<open>held\<close>.\<close>

definition carried :: "(string \<Rightarrow> 64 word) \<Rightarrow> (tdg_edge \<Rightarrow> bool) \<Rightarrow> tdg_edge list \<Rightarrow> 64 word" where
  "carried held P es = sum_list (map (\<lambda>e. scaleBytes (held (ndNode (egFrom e))) (egWeight e)) (filter P es))"

lemma carried_append [simp]: "carried held P (xs @ ys) = carried held P xs + carried held P ys"
  by (simp add: carried_def)

lemma carried_Nil [simp]: "carried held P [] = 0"
  by (simp add: carried_def)

lemma carried_None: "list_all (\<lambda>e. \<not> P e) es \<Longrightarrow> carried held P es = 0"
  by (induction es) (auto simp: carried_def)

lemma carried_cong: "(\<And>e. e \<in> set es \<Longrightarrow> held (ndNode (egFrom e)) = held' (ndNode (egFrom e))) \<Longrightarrow> carried held P es = carried held' P es"
  by (induction es) (auto simp: carried_def)

section \<open>One node\<close>

lemma scaleBytes_zero [simp]: "scaleBytes 0 w = 0"
  by (simp add: scaleBytes_def f64_def)

abbreviation edgeName :: "tdg_edge \<Rightarrow> string" where
  "edgeName e \<equiv> tdgLinkName (ndNode (egFrom e)) (ndNode (egTo e))"

lemma carryEdges_loads:
  "list_all (\<lambda>e. ndNode (egFrom e) = n) es \<Longrightarrow>
     loadOf (fst (fold (carryEdge bytes) es st)) k = loadOf (fst st) k + carried (\<lambda>_. bytes) (\<lambda>e. edgeName e = k) es
     \<and> loadOf (snd (fold (carryEdge bytes) es st)) k = loadOf (snd st) k + carried (\<lambda>_. bytes) (\<lambda>e. ndNode (egTo e) = k) es"
  by (induction es arbitrary: st) (auto simp: carryEdge_def Let_def loadOf_addLoad carried_def)

lemma OutEdges_from: "list_all (\<lambda>e. ndNode (egFrom e) = n) (OutEdges g n)"
  by (simp add: OutEdges_def list_all_iff)

lemma carryNode_loads:
  "loadOf (fst (carryNode g n st)) k
      = loadOf (fst st) k + carried (loadOf (snd st)) (\<lambda>e. edgeName e = k) (OutEdges g (ndNode n))
   \<and> loadOf (snd (carryNode g n st)) k
      = loadOf (snd st) k + carried (loadOf (snd st)) (\<lambda>e. ndNode (egTo e) = k) (OutEdges g (ndNode n))"
proof -
  let ?b = "loadOf (snd st) (ndNode n)"
  have "carried (loadOf (snd st)) P (OutEdges g (ndNode n)) = carried (\<lambda>_. ?b) P (OutEdges g (ndNode n))" for P
    by (rule carried_cong) (use OutEdges_from [of "ndNode n" g] in \<open>auto simp: list_all_iff\<close>)
  moreover have "carried (\<lambda>_. 0) P es = 0" for P es by (induction es) (auto simp: carried_def)
  ultimately show ?thesis using carryEdges_loads [OF OutEdges_from, of ?b g "ndNode n" st k]
    by (simp add: carryNode_def Let_def)
qed

section \<open>All nodes\<close>

lemma leadsOn_Cons:
  "leadsOn g (n # ns) \<Longrightarrow> leadsOn g ns \<and> list_all (\<lambda>e. ndNode (egTo e) \<noteq> ndNode n) (edgesFrom g (n # ns))"
  by (auto simp: leadsOn_def edgesFrom_def list_all_iff)

lemma fold_carryNode:
  assumes "leadsOn g ns"
  shows "loadOf (fst (fold (carryNode g) ns st)) k
      = loadOf (fst st) k + carried (loadOf (snd (fold (carryNode g) ns st))) (\<lambda>e. edgeName e = k) (edgesFrom g ns)
    \<and> loadOf (snd (fold (carryNode g) ns st)) k
      = loadOf (snd st) k + carried (loadOf (snd (fold (carryNode g) ns st))) (\<lambda>e. ndNode (egTo e) = k) (edgesFrom g ns)"
  using assms
proof (induction ns arbitrary: st k)
  case (Cons n ns)
  let ?st = "carryNode g n st"
  let ?held = "loadOf (snd (fold (carryNode g) ns ?st))"
  have on: "leadsOn g ns" "list_all (\<lambda>e. ndNode (egTo e) \<noteq> ndNode n) (edgesFrom g (n # ns))"
    using leadsOn_Cons [OF Cons.prems] by auto
  then have parts: "list_all (\<lambda>e. ndNode (egTo e) \<noteq> ndNode n) (OutEdges g (ndNode n))"
    "list_all (\<lambda>e. ndNode (egTo e) \<noteq> ndNode n) (edgesFrom g ns)" by (simp_all add: edgesFrom_def)
  note IH = Cons.IH [OF on(1), of ?st]
  have "?held (ndNode n) = loadOf (snd ?st) (ndNode n)"
    using conjunct2 [OF IH [of "ndNode n"]] carried_None [OF parts(2)] by simp
  also have "\<dots> = loadOf (snd st) (ndNode n)"
    using conjunct2 [OF carryNode_loads [of g n st "ndNode n"]] carried_None [OF parts(1)] by simp
  finally have "carried ?held P (OutEdges g (ndNode n)) = carried (loadOf (snd st)) P (OutEdges g (ndNode n))" for P
    by (intro carried_cong) (use OutEdges_from [of "ndNode n" g] in \<open>auto simp: list_all_iff\<close>)
  then show ?case using IH [of k] carryNode_loads [of g n st k] by (simp add: edgesFrom_def)
qed (simp add: edgesFrom_def)

text \<open>
  Loads solve the flow equations. When no edge of the graph leads back in the order of the
  traversal, there are node loads that satisfy the flow equations: the root holds all bytes, every
  other node what the edges into it carry, where an edge carries its share, rounded down, of what its
  source holds; and the load that \<open>Traverse\<close> records for a link is what the edges of that name carry.
\<close>

lemma Traverse_flow_equations:
  assumes "tdgRoot g = Some start" "0 < bytes" "leadsOn g (TopologicalOrder g)"
  shows "\<exists>held. held (ndNode start) = bytes
    \<and> (\<forall>n. n = ndNode start \<or> held n = carried held (\<lambda>e. ndNode (egTo e) = n) (edgesFrom g (TopologicalOrder g)))
    \<and> (\<forall>k. loadOf (Traverse g bytes) k = carried held (\<lambda>e. tdgLinkName (ndNode (egFrom e)) (ndNode (egTo e)) = k) (edgesFrom g (TopologicalOrder g)))"
proof -
  let ?st = "fold (carryNode g) (TopologicalOrder g) ([], [(ndNode start, bytes)])"
  obtain ns where "TopologicalOrder g = start # ns" using TopologicalOrder_start [OF assms(1)] by blast
  then have "list_all (\<lambda>e. ndNode (egTo e) \<noteq> ndNode start) (edgesFrom g (TopologicalOrder g))"
    using leadsOn_Cons [of g start ns] assms(3) by simp
  note first = carried_None [OF this, of "loadOf (snd ?st)"]
  note eqs = fold_carryNode [OF assms(3), of "([], [(ndNode start, bytes)])"]
  have "Traverse g bytes = fst ?st" using assms(1,2) by (auto simp: Traverse_def)
  then show ?thesis using eqs first by (intro exI [of _ "loadOf (snd ?st)"]) (auto simp: loadOf_def)
qed

section \<open>A graph that is traversed too early\<close>

definition sampleHop :: "string \<Rightarrow> rat \<Rightarrow> traffic_next_hop" where
  "sampleHop n w = \<lparr>thNode = n, thWeight = w\<rparr>"

definition sampleFIB :: "traffic_next_hop list \<Rightarrow> traffic_fib_entry list" where
  "sampleFIB hops = [\<lparr>tfPrefix = IPPrefix (IPv4 167772160) 8, tfNextHops = hops\<rparr>]"

definition sampleClass :: packet_class where
  "sampleClass = \<lparr>pkID = 0, pkPrefixClass = 1, pkDstSet = Some (ExactPrefixSet (IPPrefix (IPv4 167772160) 8)),
     pkProtocol = [], pkSrcPort = None, pkDstPort = None, pkIngress = [], pkEgress = [], pkMatching = []\<rparr>"

definition diamond :: traffic_fibs where
  "diamond = [(''r'', sampleFIB [sampleHop ''a'' (1 / 2), sampleHop ''b'' (1 / 2)]), (''a'', sampleFIB [sampleHop ''d'' 1]),
     (''b'', sampleFIB [sampleHop ''d'' 1]), (''d'', sampleFIB [sampleHop ''e'' 1])]"

definition kite :: traffic_fibs where
  "kite = [(''r'', sampleFIB [sampleHop ''a'' (1 / 2), sampleHop ''d'' (1 / 2)]), (''a'', sampleFIB [sampleHop ''b'' 1]),
     (''b'', sampleFIB [sampleHop ''d'' 1]), (''d'', sampleFIB [sampleHop ''e'' 1])]"

text \<open>
  Traffic is lost when paths of different lengths meet. The order that the code calls topological
  is breadth-first. In this acyclic network, where the shares of every node add up to one, half of the
  traffic takes the longer way to \<open>d\<close>, arrives after \<open>d\<close> has been processed, and never gets to \<open>e\<close>.
\<close>

lemma Traverse_loses_traffic:
  "SimulateClass ''r'' sampleClass kite 1000
    = Inr [(''r->a'', 500), (''r->d'', 500), (''a->b'', 500), (''d->e'', 500), (''b->d'', 500)]"
  by code_simp

definition diamondGraph :: tdg where
  "diamondGraph = (case BuildTDG ''r'' sampleClass diamond of Inl _ \<Rightarrow> NewTDG | Inr g \<Rightarrow> g)"

lemma diamondGraph_facts:
  "tdgRoot diamondGraph = Some \<lparr>ndID = 0, ndNode = ''r'', ndVRF = ''default'', ndStage = ''ingress_acl'', ndClass = 1\<rparr>"
  "leadsOn diamondGraph (TopologicalOrder diamondGraph)" "loadOf (Traverse diamondGraph 1000) ''d->e'' = 1000"
  by code_simp+

lemma Traverse_flow_equations_witness:
  "\<exists>held. held ''r'' = (1000 :: 64 word)
    \<and> (\<forall>k. loadOf (Traverse diamondGraph 1000) k = carried held (\<lambda>e. edgeName e = k) (edgesFrom diamondGraph (TopologicalOrder diamondGraph)))
    \<and> loadOf (Traverse diamondGraph 1000) ''d->e'' = 1000"
  using Traverse_flow_equations [OF diamondGraph_facts(1) _ diamondGraph_facts(2), of 1000] diamondGraph_facts(3) by auto

end
