(* ===== verification/Traffic_Classes.thy ===== *)
theory Traffic_Classes
  imports Traffic_Traverse
begin

text \<open>
  \<open>internal/engine/traffic/classifier.go\<close> and the simulation of many classes at once in
  \<open>simulator.go\<close>: sampled flows are grouped by their equivalence key, and the loads of the classes
  are added up in whatever order the workers finish.
\<close>

section \<open>Classes of flows\<close>

type_synonym dscp = "8 word"

record sampled_flow =
  sfFlow :: flow
  sfDSCP :: dscp

record flow_class_key =
  fkPrefixClass :: int
  fkProtocol :: string
  fkSrcPort :: "port_set option"
  fkDstPort :: "port_set option"
  fkDSCP :: dscp
  fkIngress :: string
  fkEgress :: string

record flow_class =
  fcKey :: flow_class_key
  fcFlows :: "sampled_flow list"
  fcTotalBytes :: "64 word"
  fcDstSet :: "prefix_set option"

abbreviation (input) SamplingRandom :: string where "SamplingRandom \<equiv> ''random''"
abbreviation (input) SamplingTopNByBytes :: string where "SamplingTopNByBytes \<equiv> ''top_n_by_bytes''"

record sampling_config =
  scRate :: rat
  scStrategy :: string

definition DefaultSamplingConfig :: sampling_config where
  "DefaultSamplingConfig = \<lparr>scRate = 1, scStrategy = SamplingRandom\<rparr>"

definition flowSortKey :: "sampled_flow \<Rightarrow> string" where
  "flowSortKey f =
     (let w = sfFlow f
      in addrStr (flSrcIP w) @ ''|'' @ addrStr (flDstIP w) @ ''|'' @ flProtocol w @ ''|'' @ itoa (uint (flSrcPort w))
         @ ''|'' @ itoa (uint (flDstPort w)))"

text \<open>The numbers \<open>rand.Float64\<close> returns, one for each flow, are an argument.\<close>

definition sampleRandom :: "rat \<Rightarrow> (nat \<Rightarrow> rat) \<Rightarrow> sampled_flow list \<Rightarrow> sampled_flow list" where
  "sampleRandom rate draws flows = map snd (filter (\<lambda>(i, f). draws i < rate) (enumerate 0 flows))"

definition sampleTopN :: "rat \<Rightarrow> sampled_flow list \<Rightarrow> sampled_flow list" where
  "sampleTopN rate flows =
     (if flows = [] then []
      else (let n0 = nat \<lfloor>f64 (f64 (of_nat (length flows)) * rate)\<rfloor>; n = (if n0 < 1 then 1 else n0)
            in if length flows \<le> n then flows
               else take n (sortSlice (\<lambda>a b. flowSortKey a < flowSortKey b) flows)))"

definition sampleFlows :: "sampling_config \<Rightarrow> (nat \<Rightarrow> rat) \<Rightarrow> sampled_flow list \<Rightarrow> sampled_flow list" where
  "sampleFlows c draws flows =
     (if 1 \<le> scRate c then flows
      else if scRate c \<le> 0 then []
      else if scStrategy c = SamplingTopNByBytes then sampleTopN (scRate c) flows
      else sampleRandom (scRate c) draws flows)"

definition flowEquivalenceKey :: "sampled_flow \<Rightarrow> packet_class \<Rightarrow> flow_class_key" where
  "flowEquivalenceKey f pc =
     \<lparr>fkPrefixClass = pkPrefixClass pc, fkProtocol = flProtocol (sfFlow f),
      fkSrcPort = Some (ExactPortSet (uint (flSrcPort (sfFlow f)))), fkDstPort = Some (ExactPortSet (uint (flDstPort (sfFlow f)))),
      fkDSCP = sfDSCP f, fkIngress = pkIngress pc, fkEgress = pkEgress pc\<rparr>"

definition dummyClass :: packet_class where
  "dummyClass = \<lparr>pkID = 0, pkPrefixClass = 0, pkDstSet = None, pkProtocol = [], pkSrcPort = None, pkDstPort = None,
     pkIngress = [], pkEgress = [], pkMatching = []\<rparr>"

text \<open>One pass of the loop: the groups are kept in the order of their keys.\<close>

definition emptyGroup :: "flow_class_key \<Rightarrow> flow_class" where
  "emptyGroup k = \<lparr>fcKey = k, fcFlows = [], fcTotalBytes = 0, fcDstSet = None\<rparr>"

definition joinGroup :: "sampled_flow \<Rightarrow> flow_class \<Rightarrow> flow_class" where
  "joinGroup f c = c\<lparr>fcFlows := fcFlows c @ [f], fcTotalBytes := fcTotalBytes c + DefaultFlowBytes\<rparr>"

definition groupFlow :: "sampled_flow \<Rightarrow> flow_class list \<Rightarrow> flow_class list" where
  "groupFlow f groups =
     (let key = flowEquivalenceKey f dummyClass;
          known = (if list_ex (\<lambda>c. fcKey c = key) groups then groups else groups @ [emptyGroup key])
      in map (\<lambda>c. if fcKey c = key then joinGroup f c else c) known)"

definition groupByKey :: "sampled_flow list \<Rightarrow> flow_class list" where
  "groupByKey flows = sortSlice (\<lambda>a b. fcTotalBytes b < fcTotalBytes a) (fold groupFlow flows [])"

definition ClassifyFlows :: "sampling_config \<Rightarrow> (nat \<Rightarrow> rat) \<Rightarrow> sampled_flow list \<Rightarrow> flow_class list" where
  "ClassifyFlows c draws flows = groupByKey (sampleFlows c draws flows)"

definition flowMatchesPacketClass :: "sampled_flow \<Rightarrow> packet_class \<Rightarrow> bool" where
  "flowMatchesPacketClass f pc =
     (if pkProtocol pc \<noteq> [] \<and> pkProtocol pc \<noteq> flProtocol (sfFlow f) then False
      else if (case pkDstSet pc of None \<Rightarrow> False | Some s \<Rightarrow> \<not> ContainsAddr s (flDstIP (sfFlow f))) then False
      else if (case pkSrcPort pc of None \<Rightarrow> False | Some s \<Rightarrow> \<not> portContains s (uint (flSrcPort (sfFlow f)))) then False
      else if (case pkDstPort pc of None \<Rightarrow> False | Some s \<Rightarrow> \<not> portContains s (uint (flDstPort (sfFlow f)))) then False
      else True)"

definition ClassifyFlowsFromPacketClass ::
    "sampling_config \<Rightarrow> (nat \<Rightarrow> rat) \<Rightarrow> packet_class \<Rightarrow> sampled_flow list \<Rightarrow> flow_class list" where
  "ClassifyFlowsFromPacketClass c draws pc flows =
     map (\<lambda>fc. fc\<lparr>fcKey := (fcKey fc)\<lparr>fkPrefixClass := pkPrefixClass pc\<rparr>\<rparr>)
       (ClassifyFlows c draws (filter (\<lambda>f. flowMatchesPacketClass f pc) flows))"

definition FlowEquivalenceClassKeyFromPacketClass :: "packet_class \<Rightarrow> dscp \<Rightarrow> flow_class_key" where
  "FlowEquivalenceClassKeyFromPacketClass pc d =
     \<lparr>fkPrefixClass = pkPrefixClass pc, fkProtocol = pkProtocol pc, fkSrcPort = pkSrcPort pc, fkDstPort = pkDstPort pc,
      fkDSCP = d, fkIngress = pkIngress pc, fkEgress = pkEgress pc\<rparr>"

definition flowClassKeyString :: "flow_class_key \<Rightarrow> string" where
  "flowClassKeyString k =
     ''EC{prefix='' @ itoa (fkPrefixClass k) @ '' proto='' @ fkProtocol k @ '' srcPort='' @ portSetString (fkSrcPort k)
     @ '' dstPort='' @ portSetString (fkDstPort k) @ '' dscp='' @ itoa (uint (fkDSCP k)) @ '' ifaces='' @ fkIngress k
     @ ''/'' @ fkEgress k @ ''}''"

section \<open>Many classes at once\<close>

definition classPacket :: "flow_class \<Rightarrow> packet_class" where
  "classPacket ec = dummyClass\<lparr>pkPrefixClass := fkPrefixClass (fcKey ec), pkDstSet := fcDstSet ec\<rparr>"

text \<open>What one worker sends.\<close>

definition simulateEC :: "ecmp_mode \<Rightarrow> string \<Rightarrow> traffic_fibs \<Rightarrow> flow_class \<Rightarrow> tdg_error + loads" where
  "simulateEC mode rootNode fibs ec =
     (if 0 < length (fcFlows ec) \<and> mode = ECMPModeHash
      then SimulateClassWithFlows mode rootNode (classPacket ec) fibs (map sfFlow (fcFlows ec))
      else SimulateClass rootNode (classPacket ec) fibs
             (if fcTotalBytes ec = 0 then of_nat (length (fcFlows ec)) * DefaultFlowBytes else fcTotalBytes ec))"

text \<open>
  The results arrive in the order of \<open>arrivals\<close>, the classes' positions as their workers finish; the
  number of workers bounds which orders are possible and nothing else.
\<close>

definition SimulateParallel :: "ecmp_mode \<Rightarrow> string \<Rightarrow> flow_class list \<Rightarrow> traffic_fibs \<Rightarrow> nat list \<Rightarrow> tdg_error + loads" where
  "SimulateParallel mode rootNode ecs fibs arrivals =
     (case mapE (\<lambda>i. simulateEC mode rootNode fibs (ecs ! i)) arrivals of
        Inl err \<Rightarrow> Inl err
      | Inr results \<Rightarrow> Inr (fold addLoads results []))"

section \<open>Every flow is in one class\<close>

definition flowKey :: "sampled_flow \<Rightarrow> flow_class_key" where
  "flowKey f = flowEquivalenceKey f dummyClass"

definition grouped :: "sampled_flow list \<Rightarrow> flow_class list \<Rightarrow> bool" where
  "grouped flows groups \<longleftrightarrow> distinct (map fcKey groups) \<and> fcKey ` set groups = flowKey ` set flows
     \<and> (\<forall>c \<in> set groups. fcFlows c = filter (\<lambda>f. flowKey f = fcKey c) flows
          \<and> fcTotalBytes c = 1500 * of_nat (length (fcFlows c)) \<and> fcDstSet c = None)"

lemma joinGroup_simps [simp]:
  "fcKey (joinGroup f c) = fcKey c" "fcFlows (joinGroup f c) = fcFlows c @ [f]"
  "fcTotalBytes (joinGroup f c) = fcTotalBytes c + 1500" "fcDstSet (joinGroup f c) = fcDstSet c"
  by (simp_all add: joinGroup_def)

lemma groupFlow_grouped:
  assumes "grouped flows groups"
  shows "grouped (flows @ [f]) (groupFlow f groups)"
proof -
  let ?key = "flowKey f"
  define known where "known = (if list_ex (\<lambda>c. fcKey c = ?key) groups then groups else groups @ [emptyGroup ?key])"
  have g: "groupFlow f groups = map (\<lambda>c. if fcKey c = ?key then joinGroup f c else c) known"
    by (simp add: groupFlow_def known_def flowKey_def Let_def)
  have keys: "map fcKey (groupFlow f groups) = map fcKey known" unfolding g by simp
  have known: "distinct (map fcKey known)" "fcKey ` set known = insert ?key (flowKey ` set flows)"
  proof -
    have g: "distinct (map fcKey groups)" "fcKey ` set groups = flowKey ` set flows" using assms by (simp_all add: grouped_def)
    show "fcKey ` set known = insert ?key (flowKey ` set flows)"
      using g(2) by (auto simp: known_def emptyGroup_def list_ex_iff simp flip: g(2) intro: rev_image_eqI)
    show "distinct (map fcKey known)" using g(1) by (auto simp: known_def emptyGroup_def list_ex_iff)
  qed
  have none: "filter (\<lambda>x. flowKey x = ?key) flows = []" if "\<not> list_ex (\<lambda>c. fcKey c = ?key) groups"
  proof -
    have "?key \<notin> fcKey ` set groups" using that by (auto simp: list_ex_iff)
    moreover have "fcKey ` set groups = flowKey ` set flows" using assms by (simp add: grouped_def)
    ultimately have "?key \<notin> flowKey ` set flows" by simp
    then show ?thesis unfolding filter_empty_conv by (metis imageI)
  qed
  have "fcFlows c = filter (\<lambda>f. flowKey f = fcKey c) flows \<and> fcTotalBytes c = 1500 * of_nat (length (fcFlows c)) \<and> fcDstSet c = None"
    if "c \<in> set known" for c
    using that assms none by (auto simp: known_def grouped_def emptyGroup_def split: if_splits)
  then have "\<forall>c \<in> set (groupFlow f groups). fcFlows c = filter (\<lambda>x. flowKey x = fcKey c) (flows @ [f])
      \<and> fcTotalBytes c = 1500 * of_nat (length (fcFlows c)) \<and> fcDstSet c = None"
    unfolding g by (auto simp: algebra_simps)
  moreover have "fcKey ` set (groupFlow f groups) = flowKey ` set (flows @ [f])"
    using known(2) arg_cong [OF keys, of set] by simp
  ultimately show ?thesis using known(1) keys by (simp add: grouped_def)
qed

lemma fold_groupFlow: "grouped flows (fold groupFlow flows [])"
  by (induction flows rule: rev_induct) (auto simp: grouped_def [of "[]"] groupFlow_grouped)

lemma sampleFlows_subset: "set (sampleFlows c draws flows) \<subseteq> set flows"
proof -
  have "set (sampleRandom r draws flows) \<subseteq> set flows" for r
    using in_set_enumerate_eq [of _ 0 flows] by (auto simp: sampleRandom_def)
  moreover have "set (sampleTopN r flows) \<subseteq> set flows" for r
    using set_take_subset [of _ "sortSlice (\<lambda>a b. flowSortKey a < flowSortKey b) flows"] by (auto simp: sampleTopN_def Let_def)
  ultimately show ?thesis by (auto simp: sampleFlows_def)
qed

interpretation bytes_down: less_closure "\<lambda>a b. fcTotalBytes b < fcTotalBytes a"
  by unfold_locales auto

text \<open>
  Classification is a partition. Sampling only drops flows. Every class of \<open>ClassifyFlows\<close> has a
  key of its own and holds
  exactly the sampled flows with that key, in their order; every sampled flow's key has a class; a
  class counts 1500 bytes for each of its flows; and the classes come in descending order of bytes.
\<close>

lemma ClassifyFlows_partition:
  "distinct (map fcKey (ClassifyFlows c draws flows))
   \<and> fcKey ` set (ClassifyFlows c draws flows) = (\<lambda>f. flowEquivalenceKey f dummyClass) ` set (sampleFlows c draws flows)
   \<and> set (sampleFlows c draws flows) \<subseteq> set flows
   \<and> list_all (\<lambda>k. fcFlows k = filter (\<lambda>f. flowEquivalenceKey f dummyClass = fcKey k) (sampleFlows c draws flows)
        \<and> fcTotalBytes k = 1500 * of_nat (length (fcFlows k))) (ClassifyFlows c draws flows)
   \<and> sorted_wrt (\<lambda>a b. fcTotalBytes b \<le> fcTotalBytes a) (ClassifyFlows c draws flows)"
proof -
  let ?fs = "sampleFlows c draws flows"
  let ?raw = "fold groupFlow ?fs []"
  have raw: "grouped ?fs ?raw" by (rule fold_groupFlow)
  have mset: "mset (ClassifyFlows c draws flows) = mset ?raw" by (simp add: ClassifyFlows_def groupByKey_def)
  then have set: "set (ClassifyFlows c draws flows) = set ?raw" by (rule mset_eq_setD)
  have "mset (map fcKey (ClassifyFlows c draws flows)) = mset (map fcKey ?raw)" using mset by simp
  then have "distinct (map fcKey (ClassifyFlows c draws flows))" using raw mset_eq_imp_distinct_iff by (metis grouped_def)
  moreover have "sorted_wrt (\<lambda>a b. fcTotalBytes b \<le> fcTotalBytes a) (ClassifyFlows c draws flows)"
    using bytes_down.sorted_sortSlice unfolding ClassifyFlows_def groupByKey_def by (simp add: not_less)
  ultimately show ?thesis using raw set sampleFlows_subset by (simp add: grouped_def flowKey_def [abs_def] list_all_iff)
qed

section \<open>The order in which classes finish\<close>

abbreviation keyed :: "loads \<Rightarrow> bool" where
  "keyed m \<equiv> distinct (map fst m)"

lemma addLoad_keyed: "keyed m \<Longrightarrow> keyed (addLoad k b m)"
  by (simp add: addLoad_def distinct_update)

lemma addLoads_keyed: "keyed m \<Longrightarrow> keyed (addLoads src m)"
  by (induction src arbitrary: m) (auto simp: addLoads_def addLoad_keyed)

lemma addLoads_loadOf: "keyed src \<Longrightarrow> loadOf (addLoads src m) k = loadOf m k + loadOf src k"
proof (induction src arbitrary: m)
  case (Cons kb src)
  obtain k0 b where kb: "kb = (k0, b)" by force
  have "loadOf src k0 = 0" using Cons.prems by (auto simp: loadOf_def kb split: option.split dest!: map_of_SomeD intro: rev_image_eqI)
  then show ?case using Cons by (auto simp: addLoads_def kb loadOf_addLoad) (auto simp: loadOf_def)
qed (simp add: addLoads_def loadOf_def)

lemma fold_addLoads:
  "list_all keyed rs \<Longrightarrow> loadOf (fold addLoads rs m) k = loadOf m k + sum_list (map (\<lambda>r. loadOf r k) rs)"
  by (induction rs arbitrary: m) (auto simp: addLoads_loadOf)

lemma carryEdge_keyed: "keyed (fst st) \<Longrightarrow> keyed (fst (carryEdge b e st))"
  by (simp add: carryEdge_def Let_def addLoad_keyed)

lemma fold_carryEdge_keyed: "keyed (fst st) \<Longrightarrow> keyed (fst (fold (carryEdge b) es st))"
  by (induction es arbitrary: st) (simp_all add: carryEdge_keyed)

lemma Traverse_keyed: "keyed (Traverse g b)"
proof -
  have "keyed (fst st) \<Longrightarrow> keyed (fst (fold (carryNode g) ns st))" for ns st
    by (induction ns arbitrary: st) (simp_all add: carryNode_def Let_def fold_carryEdge_keyed)
  then show ?thesis by (simp add: Traverse_def split: option.split)
qed

lemma flowLoop_keyed: "keyed m \<Longrightarrow> keyed (flowLoop f dst fibs visited queue m)"
  by (induction f dst fibs visited queue m rule: flowLoop.induct) (auto simp: addLoad_keyed split: option.split)

lemma fold_addLoads_keyed: "keyed m \<Longrightarrow> keyed (fold (\<lambda>x. addLoads (g x)) xs m)"
  by (induction xs arbitrary: m) (simp_all add: addLoads_keyed)

lemma simulateEC_result: "\<exists>l. simulateEC mode rootNode fibs ec = Inr l \<and> keyed l"
proof -
  have "\<exists>l. SimulateClass rootNode pc fibs b = Inr l \<and> keyed l" for pc b
    using BuildTDG_never_fails [of rootNode pc fibs] Traverse_keyed by (auto simp: SimulateClass_def)
  then show ?thesis
    by (auto simp: simulateEC_def SimulateClassWithFlows_def fold_addLoads_keyed)
qed

text \<open>
  Parallel simulation is deterministic. Whatever the order in which the workers deliver their
  results, \<open>SimulateParallel\<close> loads every link with the sum, modulo 2 to the 64, of what the classes
  load it with on their own.
\<close>

lemma SimulateParallel_any_order:
  assumes "mset arrivals = mset [0..<length ecs]"
  shows "\<exists>m. SimulateParallel mode rootNode ecs fibs arrivals = Inr m
    \<and> (\<forall>k. loadOf m k = sum_list (map (\<lambda>ec. loadOf (projr (simulateEC mode rootNode fibs ec)) k) ecs))"
proof -
  have "\<exists>r. \<forall>ec. simulateEC mode rootNode fibs ec = Inr (r ec) \<and> keyed (r ec)"
    by (rule choice) (use simulateEC_result in blast)
  then obtain r where r: "\<And>ec. simulateEC mode rootNode fibs ec = Inr (r ec)" "\<And>ec. keyed (r ec)" by blast
  have "mapE (\<lambda>i. simulateEC mode rootNode fibs (ecs ! i)) is = Inr (map (\<lambda>i. r (ecs ! i)) is)" for "is"
    by (induction "is") (simp_all add: r(1))
  moreover have "loadOf (fold addLoads (map (\<lambda>i. r (ecs ! i)) arrivals) []) k = sum_list (map (\<lambda>ec. loadOf (r ec) k) ecs)" for k
  proof -
    have "sum_list (map (\<lambda>i. loadOf (r (ecs ! i)) k) arrivals) = sum_mset (mset (map (\<lambda>i. loadOf (r (ecs ! i)) k) arrivals))"
      by (rule sum_mset_sum_list [symmetric])
    also have "\<dots> = sum_list (map (\<lambda>i. loadOf (r (ecs ! i)) k) [0..<length ecs])"
      by (simp only: mset_map assms flip: sum_mset_sum_list)
    also have "\<dots> = sum_list (map (\<lambda>ec. loadOf (r ec) k) ecs)"
      by (rule arg_cong [where f = sum_list], rule nth_equalityI) simp_all
    finally have "sum_list (map (\<lambda>i. loadOf (r (ecs ! i)) k) arrivals) = sum_list (map (\<lambda>ec. loadOf (r ec) k) ecs)" .
    moreover have "list_all keyed (map (\<lambda>i. r (ecs ! i)) arrivals)" using r(2) by (simp add: list_all_iff)
    ultimately show ?thesis using fold_addLoads [of "map (\<lambda>i. r (ecs ! i)) arrivals" "[]" k]
      by (simp add: loadOf_def [of "[]"] comp_def)
  qed
  ultimately show ?thesis by (simp add: SimulateParallel_def r(1))
qed

definition sampleKey :: "nat \<Rightarrow> flow_class_key" where
  "sampleKey n = \<lparr>fkPrefixClass = int n, fkProtocol = [], fkSrcPort = None, fkDstPort = None, fkDSCP = 0, fkIngress = [], fkEgress = []\<rparr>"

definition sampleEC :: "nat \<Rightarrow> 64 word \<Rightarrow> flow_class" where
  "sampleEC n b = \<lparr>fcKey = sampleKey n, fcFlows = [], fcTotalBytes = b, fcDstSet = pkDstSet sampleClass\<rparr>"

definition oneHop :: traffic_fibs where
  "oneHop = [(''r'', sampleFIB [sampleHop ''e'' 1])]"

lemma SimulateParallel_any_order_witness:
  "\<exists>m. SimulateParallel ECMPModeUniform ''r'' [sampleEC 1 1000, sampleEC 2 500] oneHop [1, 0] = Inr m \<and> loadOf m ''r->e'' = 1500"
proof -
  have "mset [1, 0] = mset [0..<length [sampleEC 1 1000, sampleEC 2 500]]" by (simp add: upt_rec)
  from SimulateParallel_any_order [OF this, of ECMPModeUniform "''r''" oneHop]
  obtain m where "SimulateParallel ECMPModeUniform ''r'' [sampleEC 1 1000, sampleEC 2 500] oneHop [1, 0] = Inr m"
    "loadOf m ''r->e'' = sum_list (map (\<lambda>ec. loadOf (projr (simulateEC ECMPModeUniform ''r'' oneHop ec)) ''r->e'')
      [sampleEC 1 1000, sampleEC 2 500])" by blast
  moreover have "loadOf (projr (simulateEC ECMPModeUniform ''r'' oneHop (sampleEC 1 1000))) ''r->e'' = 1000"
    "loadOf (projr (simulateEC ECMPModeUniform ''r'' oneHop (sampleEC 2 500))) ''r->e'' = 500" by code_simp+
  ultimately show ?thesis by simp
qed

end
