(* ===== verification/Failure_Set.thy ===== *)
theory Failure_Set
  imports Topology "HOL-Library.Sublist"
begin

text \<open>
  \<open>internal/domain/failure/failure_set.go\<close> and the element types of
  \<open>internal/domain/solver/solver.go\<close>: which links and nodes are down, and which of them a
  search may take down. A Go \<open>map[string]bool\<close> is a map to \<open>bool\<close>; reading a missing key
  gives \<open>false\<close>, so an entry counts when it is \<open>Some True\<close>.
\<close>

section \<open>Failure elements\<close>

abbreviation (input) FailureLink :: string where "FailureLink \<equiv> ''link''"
abbreviation (input) FailureNode :: string where "FailureNode \<equiv> ''node''"

record failure_element =
  feKind :: string
  feName :: string

definition elementString :: "failure_element \<Rightarrow> string" where
  "elementString e = feKind e @ '':'' @ feName e"

section \<open>Failure sets and contexts\<close>

record fail_set =
  Links :: "link_id \<rightharpoonup> bool"
  Nodes :: "node_id \<rightharpoonup> bool"

record fail_context =
  Failures :: fail_set
  LinksByName :: "link_id \<rightharpoonup> link"

definition noFailures :: fail_set where
  "noFailures = \<lparr>Links = Map.empty, Nodes = Map.empty\<rparr>"

definition addLink :: "fail_set \<Rightarrow> link_id \<Rightarrow> fail_set" where
  "addLink s name = s\<lparr>Links := (Links s)(name \<mapsto> True)\<rparr>"

definition addNode :: "fail_set \<Rightarrow> node_id \<Rightarrow> fail_set" where
  "addNode s name = s\<lparr>Nodes := (Nodes s)(name \<mapsto> True)\<rparr>"

definition NewSet :: "link_id list \<Rightarrow> node_id list \<Rightarrow> fail_set" where
  "NewSet links nodes = foldl addNode (foldl addLink noFailures links) nodes"

text \<open>The entries of the Go map, in the order its iteration visits them.\<close>

definition SetFromMap :: "(string \<times> bool) list \<Rightarrow> fail_set" where
  "SetFromMap raw = foldl (\<lambda>out (key, failed).
      if \<not> failed then out
      else if hasPrefix key ''link:'' then addLink out (trimPrefix key ''link:'')
      else if hasPrefix key ''node:'' then addNode out (trimPrefix key ''node:'')
      else addLink out key) noFailures raw"

definition SetFromElements :: "failure_element list \<Rightarrow> fail_set" where
  "SetFromElements elements = foldl (\<lambda>out e.
      if feKind e = FailureLink then addLink out (feName e)
      else if feKind e = FailureNode then addNode out (feName e)
      else out) noFailures elements"

definition NodeFailed :: "fail_context \<Rightarrow> node_id \<Rightarrow> bool" where
  "NodeFailed ctx n \<longleftrightarrow> Nodes (Failures ctx) n = Some True"

definition LinkFailed :: "fail_context \<Rightarrow> link_id \<Rightarrow> bool" where
  "LinkFailed ctx name =
     (if Links (Failures ctx) name = Some True then True
      else (case LinksByName ctx name of
              None \<Rightarrow> False
            | Some l \<Rightarrow> Nodes (Failures ctx) (linkA l) = Some True \<or> Nodes (Failures ctx) (linkB l) = Some True))"

section \<open>Elements of a search\<close>

record search_options =
  IncludeLinkElements :: bool
  IncludeNodeElements :: bool
  MaxFailures :: int
  SearchDomain :: failure_domain

definition stringSet :: "string list \<Rightarrow> string \<Rightarrow> bool" where
  "stringSet values v \<longleftrightarrow> v \<in> set values"

definition intersects :: "string list \<Rightarrow> (string \<Rightarrow> bool) \<Rightarrow> bool" where
  "intersects values inSet = list_ex inSet values"

definition nodeRoles :: "node list \<Rightarrow> (string \<rightharpoonup> string)" where
  "nodeRoles nodes = foldl (\<lambda>out n. if nodeRole n \<noteq> [] then out(nodeName n \<mapsto> nodeRole n) else out) Map.empty nodes"

definition lookupRole :: "(string \<rightharpoonup> string) \<Rightarrow> string \<Rightarrow> string" where
  "lookupRole roles n = (case roles n of None \<Rightarrow> [] | Some r \<Rightarrow> r)"

definition effectiveLinkRoles :: "link \<Rightarrow> (string \<rightharpoonup> string) \<Rightarrow> string list" where
  "effectiveLinkRoles l roles =
     collectUnseen id [[]] [linkRole l, lookupRole roles (linkA l), lookupRole roles (linkB l)]"

definition nodeEligible :: "node \<Rightarrow> failure_domain \<Rightarrow> bool" where
  "nodeEligible n d =
     (if stringSet (ExcludeNodes d) (nodeName n) then False
      else if nodeRole n \<noteq> [] \<and> stringSet (ExcludeNodeRoles d) (nodeRole n) then False
      else if \<not> (0 < length (IncludeNodes d) \<or> 0 < length (IncludeNodeRoles d)) then True
      else if stringSet (IncludeNodes d) (nodeName n) then True
      else nodeRole n \<noteq> [] \<and> stringSet (IncludeNodeRoles d) (nodeRole n))"

definition linkEligible :: "link \<Rightarrow> (string \<rightharpoonup> string) \<Rightarrow> failure_domain \<Rightarrow> bool" where
  "linkEligible l rolesByNode d =
     (if stringSet (ExcludeLinks d) (linkName l) then False
      else (let roles = effectiveLinkRoles l rolesByNode
            in if intersects roles (stringSet (ExcludeLinkRoles d)) then False
               else if \<not> (0 < length (IncludeLinks d) \<or> 0 < length (IncludeLinkRoles d)) then True
               else if stringSet (IncludeLinks d) (linkName l) then True
               else intersects roles (stringSet (IncludeLinkRoles d))))"

definition DefaultWANFailureDomain :: failure_domain where
  "DefaultWANFailureDomain =
     \<lparr>IncludeNodeRoles = [], ExcludeNodeRoles = [''customer''], IncludeLinkRoles = [],
      ExcludeLinkRoles = [''customer''], IncludeNodes = [], ExcludeNodes = [],
      IncludeLinks = [], ExcludeLinks = []\<rparr>"

text \<open>
  Links and nodes are sorted by name with \<open>sort.Slice\<close>; \<open>Topology.Validate\<close> makes node names
  distinct and \<open>BuildTopologyIndex\<close> link names, so the order of ties plays no part.
\<close>

definition SearchElements :: "topology \<Rightarrow> search_options \<Rightarrow> failure_element list" where
  "SearchElements topo opts =
     (let domain = (if failureDomainIsZero (SearchDomain opts) then DefaultWANFailureDomain else SearchDomain opts);
          rolesByNode = nodeRoles (topoNodes topo)
      in (if IncludeLinkElements opts
          then map (\<lambda>l. \<lparr>feKind = FailureLink, feName = linkName l\<rparr>)
                 (filter (\<lambda>l. linkEligible l rolesByNode domain)
                   (sortSlice (\<lambda>a b. linkName a < linkName b) (topoLinks topo)))
          else [])
       @ (if IncludeNodeElements opts
          then map (\<lambda>n. \<lparr>feKind = FailureNode, feName = nodeName n\<rparr>)
                 (filter (\<lambda>n. nodeEligible n domain)
                   (sortSlice (\<lambda>a b. nodeName a < nodeName b) (topoNodes topo)))
          else []))"

section \<open>Enumerating combinations\<close>

text \<open>
  \<open>FindElementCombo\<close> (and its copy \<open>findCombo\<close> in the enumerating solver) calls \<open>fn\<close> on
  the combinations of \<open>want\<close> elements in lexicographic order of their indices until it returns
  true. The closure \<open>fn\<close> writes captured variables: it is a function of that state \<open>s\<close>.
  \<open>FindElementLoop\<close> is the \<open>for\<close> loop of the body, at index \<open>i\<close>.
\<close>

function FindElementCombo ::
    "'e list \<Rightarrow> int \<Rightarrow> nat \<Rightarrow> 'e list \<Rightarrow> ('e list \<Rightarrow> 's \<Rightarrow> bool \<times> 's) \<Rightarrow> 's \<Rightarrow> bool \<times> 's"
  and FindElementLoop ::
    "'e list \<Rightarrow> int \<Rightarrow> nat \<Rightarrow> 'e list \<Rightarrow> ('e list \<Rightarrow> 's \<Rightarrow> bool \<times> 's) \<Rightarrow> 's \<Rightarrow> bool \<times> 's"
where
  "FindElementCombo elements want start cur fn s =
     (if int (length cur) = want then fn cur s
      else FindElementLoop elements want start cur fn s)"
| "FindElementLoop elements want i cur fn s =
     (if i < length elements
      then (case FindElementCombo elements want (i + 1) (cur @ [elements ! i]) fn s of
              (True, s') \<Rightarrow> (True, s')
            | (False, s') \<Rightarrow> FindElementLoop elements want (i + 1) cur fn s')
      else (False, s))"
  by pat_completeness auto
termination
  by (relation "measures [\<lambda>x. case x of Inl (es, _, i, _) \<Rightarrow> length es - i | Inr (es, _, i, _) \<Rightarrow> length es - i,
                          \<lambda>x. case x of Inl _ \<Rightarrow> 1 | Inr _ \<Rightarrow> 0]") auto

declare FindElementCombo.simps [simp del] FindElementLoop.simps [simp del]

text \<open>The combinations the search is about, in the order it visits them.\<close>

fun combos :: "nat \<Rightarrow> 'a list \<Rightarrow> 'a list list" where
  "combos 0 xs = [[]]"
| "combos (Suc k) [] = []"
| "combos (Suc k) (x # xs) = map ((#) x) (combos k xs) @ combos (Suc k) xs"

fun firstHit :: "('c \<Rightarrow> 's \<Rightarrow> bool \<times> 's) \<Rightarrow> 'c list \<Rightarrow> 's \<Rightarrow> bool \<times> 's" where
  "firstHit fn [] s = (False, s)"
| "firstHit fn (c # cs) s = (case fn c s of (True, s') \<Rightarrow> (True, s') | (False, s') \<Rightarrow> firstHit fn cs s')"

lemma firstHit_append:
  "firstHit fn (as @ bs) s = (case firstHit fn as s of (True, s') \<Rightarrow> (True, s') | (False, s') \<Rightarrow> firstHit fn bs s')"
  by (induction as arbitrary: s) (auto split: prod.splits bool.splits)

lemma combos_drop:
  "i < length es \<Longrightarrow> combos (Suc k) (drop i es) = map ((#) (es ! i)) (combos k (drop (Suc i) es)) @ combos (Suc k) (drop (Suc i) es)"
  by (simp add: Cons_nth_drop_Suc [symmetric])

lemma FindElement_firstHit:
  "want = int (length cur + k) \<Longrightarrow>
     FindElementCombo elements want start cur fn s = firstHit fn (map ((@) cur) (combos k (drop start elements))) s"
  "want = int (length cur + Suc k) \<Longrightarrow>
     FindElementLoop elements want start cur fn s = firstHit fn (map ((@) cur) (combos (Suc k) (drop start elements))) s"
proof (induction elements want start cur fn s and elements want start cur fn s arbitrary: k and k
    rule: FindElementCombo_FindElementLoop.induct)
  case (1 elements want start cur fn s)
  show ?case
  proof (cases k)
    case 0
    then show ?thesis using "1.prems"
      by (subst FindElementCombo.simps) (auto split: prod.splits bool.splits)
  next
    case (Suc k')
    then show ?thesis using "1.prems" "1.IH" by (subst FindElementCombo.simps) simp
  qed
next
  case (2 elements want i cur fn s)
  show ?case
  proof (cases "i < length elements")
    case True
    have app: "(@) (cur @ [elements ! i]) = (\<lambda>c. cur @ elements ! i # c)"
      by (simp add: fun_eq_iff)
    have hd: "FindElementCombo elements want (i + 1) (cur @ [elements ! i]) fn s =
        firstHit fn (map ((@) (cur @ [elements ! i])) (combos k (drop (Suc i) elements))) s"
      using "2.IH"(1) [OF True, of k] "2.prems" by (simp add: app)
    have tl: "FindElementLoop elements want (i + 1) cur fn s' =
        firstHit fn (map ((@) cur) (combos (Suc k) (drop (Suc i) elements))) s'"
      if "FindElementCombo elements want (i + 1) (cur @ [elements ! i]) fn s = (False, s')" for s'
      using "2.IH"(2) [OF True that [symmetric] refl] "2.prems" by simp
    show ?thesis using True hd tl
      by (subst FindElementLoop.simps)
         (auto simp: combos_drop firstHit_append comp_def app split: prod.splits bool.splits)
  next
    case False
    then show ?thesis by (subst FindElementLoop.simps) simp
  qed
qed

lemma set_combos: "set (combos k xs) = {c. subseq c xs \<and> length c = k}"
proof (induction k xs rule: combos.induct)
  case (3 k x xs)
  have "subseq c (x # xs) \<and> length c = Suc k \<longleftrightarrow>
      (\<exists>d. c = x # d \<and> subseq d xs \<and> length d = k) \<or> (subseq c xs \<and> length c = Suc k)" for c
  proof (cases c)
    case (Cons y d)
    then show ?thesis by (cases "y = x") (auto dest: subseq_Cons')
  qed simp
  moreover have "set (combos (Suc k) (x # xs)) = (#) x ` {c. subseq c xs \<and> length c = k} \<union> {c. subseq c xs \<and> length c = Suc k}"
    using 3 by simp
  ultimately show ?case by (auto simp only: image_iff Un_iff mem_Collect_eq)
qed auto

text \<open>Every set of elements is a combination: its elements in the order of their first occurrence.\<close>

lemma subseq_of_subset:
  "A \<subseteq> set xs \<Longrightarrow> \<exists>c. subseq c xs \<and> set c = A \<and> length c = card A"
proof (induction xs arbitrary: A)
  case (Cons x xs)
  show ?case
  proof (cases "x \<in> A")
    case True
    then obtain c where c: "subseq c xs" "set c = A - {x}" "length c = card (A - {x})"
      using Cons.IH [of "A - {x}"] Cons.prems by auto
    have "finite A" using Cons.prems finite_subset by blast
    then have "length (x # c) = card A" using c(3) True card_Suc_Diff1 [of A x] by simp
    moreover have "set (x # c) = A" using c(2) True by auto
    ultimately show ?thesis using c(1) by (intro exI [of _ "x # c"]) simp
  next
    case False
    then show ?thesis using Cons.IH [of A] Cons.prems by (auto intro: list_emb_Cons)
  qed
qed simp

lemma firstHit_None:
  assumes "\<And>c s. c \<in> set cs \<Longrightarrow> fn c s = (P c, if P c then f c else s)"
  shows "firstHit fn cs s = (case List.find P cs of None \<Rightarrow> (False, s) | Some c \<Rightarrow> (True, f c))"
  using assms by (induction cs arbitrary: s) (auto split: if_splits option.splits)

section \<open>What a failure set says\<close>

lemma foldl_addLink: "Links (foldl addLink s names) n = (if n \<in> set names then Some True else Links s n)"
    "Nodes (foldl addLink s names) = Nodes s"
  by (induction names arbitrary: s) (auto simp: addLink_def)

lemma foldl_addNode: "Nodes (foldl addNode s names) n = (if n \<in> set names then Some True else Nodes s n)"
    "Links (foldl addNode s names) = Links s"
  by (induction names arbitrary: s) (auto simp: addNode_def)

lemma NewSet_lookup:
  "Links (NewSet links nodes) n = Some True \<longleftrightarrow> n \<in> set links"
  "Nodes (NewSet links nodes) n = Some True \<longleftrightarrow> n \<in> set nodes"
  by (simp_all add: NewSet_def foldl_addLink foldl_addNode noFailures_def)

lemma element_eq_iff:
  "x = \<lparr>feKind = k, feName = n\<rparr> \<longleftrightarrow> feKind x = k \<and> feName x = n"
  "\<lparr>feKind = k, feName = n\<rparr> = x \<longleftrightarrow> feKind x = k \<and> feName x = n"
  by (cases x; auto)+

lemma SetFromElements_lookup:
  "Links (SetFromElements es) n = Some True \<longleftrightarrow> \<lparr>feKind = FailureLink, feName = n\<rparr> \<in> set es"
  "Nodes (SetFromElements es) n = Some True \<longleftrightarrow> \<lparr>feKind = FailureNode, feName = n\<rparr> \<in> set es"
  by (induction es rule: rev_induct)
     (auto simp: SetFromElements_def noFailures_def addLink_def addNode_def element_eq_iff)

end
