(* ===== verification/Traffic_Failure.thy ===== *)
theory Traffic_Failure
  imports Traffic_Classes Failure_Set
begin

text \<open>
  Traffic under failures: \<open>tdg_cache.go\<close>, \<open>whatif.go\<close>, \<open>kfail.go\<close> and \<open>bandwidth.go\<close> in
  \<open>internal/engine/traffic\<close>. A graph is cached by ingress node and class; a failure removes its edges
  from a copy and spreads the shares of the removed next hops over the others. What the code would
  panic on is an error.
\<close>

section \<open>Bandwidths\<close>

definition defaultBandwidthForRole :: "string \<Rightarrow> 64 word" where
  "defaultBandwidthForRole role =
     (if role = ''core'' then 40000000000
      else if role = ''edge'' \<or> role = ''border'' then 10000000000
      else if role = ''customer'' then 1000000000
      else 0)"

definition linkBandwidthOf :: "link \<Rightarrow> 64 word" where
  "linkBandwidthOf l = (if 0 < linkBandwidth l then linkBandwidth l else defaultBandwidthForRole (linkRole l))"

definition ApplyBandwidthOverrides :: "(string \<times> 64 word) list \<Rightarrow> topology \<Rightarrow> topology" where
  "ApplyBandwidthOverrides overrides topo =
     topo\<lparr>topoLinks := map (\<lambda>l. case map_of overrides (linkName l) of None \<Rightarrow> l | Some bw \<Rightarrow> l\<lparr>linkBandwidth := bw\<rparr>) (topoLinks topo)\<rparr>"

text \<open>\<open>strings.SplitN(s, "->", 2)\<close> when it has two parts.\<close>

fun cutArrow :: "string \<Rightarrow> (string \<times> string) option" where
  "cutArrow [] = None"
| "cutArrow (c # cs) =
     (if hasPrefix (c # cs) ''->'' then Some ([], drop 1 cs) else map_option (\<lambda>(a, b). (c # a, b)) (cutArrow cs))"

definition linkBandwidthForName :: "topology \<Rightarrow> string \<Rightarrow> 64 word" where
  "linkBandwidthForName topo name =
     (case List.find (\<lambda>l. linkName l = name) (topoLinks topo) of
        Some l \<Rightarrow> linkBandwidthOf l
      | None \<Rightarrow>
          (case cutArrow name of
             None \<Rightarrow> 0
           | Some (a, b) \<Rightarrow>
               let from = trimSpace a; to = trimSpace b
               in case List.find (\<lambda>l. linkA l = from \<and> linkB l = to \<or> linkA l = to \<and> linkB l = from) (topoLinks topo) of
                    Some l \<Rightarrow> linkBandwidthOf l
                  | None \<Rightarrow> 0))"

section \<open>Cached graphs\<close>

type_synonym tdg_cache = "(string \<times> tdg) list"

definition cacheKey :: "string \<Rightarrow> int \<Rightarrow> string" where
  "cacheKey ingress classID = ingress @ ''|'' @ itoa classID"

definition GetOrBuild :: "string \<Rightarrow> packet_class \<Rightarrow> traffic_fibs \<Rightarrow> tdg_cache \<Rightarrow> tdg_error + tdg \<times> tdg_cache" where
  "GetOrBuild ingress pc fibs cache =
     (let key = cacheKey ingress (pkPrefixClass pc)
      in case map_of cache key of
           Some g \<Rightarrow> Inr (g, cache)
         | None \<Rightarrow> (case BuildTDG ingress pc fibs of
                      Inl err \<Rightarrow> Inl err
                    | Inr g \<Rightarrow> Inr (g, (key, g) # cache)))"

definition copyEdge :: "tdg_edge \<Rightarrow> tdg \<Rightarrow> tdg" where
  "copyEdge e g = (case AddEdge (ndNode (egFrom e)) (ndNode (egTo e)) (egWeight e) g of Inl _ \<Rightarrow> g | Inr g' \<Rightarrow> g')"

definition cloneTDG :: "tdg \<Rightarrow> tdg option" where
  "cloneTDG g =
     (let withNodes = fold (\<lambda>n. AddNode (ndNode n) (ndVRF n) (ndStage n) (ndClass n)) (tdgNodes g) NewTDG;
          withEdges = fold copyEdge (tdgEdges g) withNodes;
          sinks = fold (\<lambda>n. AddSink (ndNode n)) (tdgSinks g)
      in case tdgRoot g of
           None \<Rightarrow> Some (sinks withEdges)
         | Some start \<Rightarrow> (case SetRoot (ndNode start) withEdges of Inl _ \<Rightarrow> None | Inr c \<Rightarrow> Some (sinks c)))"

text \<open>The code reads only which names have an entry.\<close>

definition edgeFails :: "fail_set \<Rightarrow> tdg_edge \<Rightarrow> bool" where
  "edgeFails s e \<longleftrightarrow> Links s (edgeName e) \<noteq> None \<or> Nodes s (ndNode (egFrom e)) \<noteq> None \<or> Nodes s (ndNode (egTo e)) \<noteq> None"

definition weightSum :: "tdg_edge list \<Rightarrow> rat" where
  "weightSum es = fold (\<lambda>e acc. f64 (acc + egWeight e)) es 0"

text \<open>
  The weights are read through pointers while they are set; an edge is set only after it has been
  read, so reading them first makes no difference.
\<close>

definition rebalance :: "string \<Rightarrow> tdg \<Rightarrow> tdg" where
  "rebalance n g =
     (let outs = OutEdges g n
      in if outs = [] then AddSink n g
         else let remaining = weightSum outs
              in if 0 < remaining \<and> remaining < 1
                 then fold (\<lambda>e g. fst (SetEdgeWeight (ndNode (egFrom e)) (ndNode (egTo e)) (f64 (egWeight e / remaining)) g)) outs g
                 else g)"

text \<open>
  The sources of removed edges, which the code keeps in a map, are visited in any order: only the
  order of the sinks depends on it.
\<close>

definition ApplyFailure :: "tdg \<Rightarrow> fail_set \<Rightarrow> tdg option" where
  "ApplyFailure g s =
     (case cloneTDG g of
        None \<Rightarrow> None
      | Some c \<Rightarrow>
          (let toRemove = map (\<lambda>e. (ndNode (egFrom e), ndNode (egTo e))) (filter (edgeFails s) (tdgEdges c))
           in Some (fold rebalance (remdups (map fst toRemove)) (BatchRemoveEdges toRemove c))))"

section \<open>What if\<close>

record link_load_change =
  lcLinkName :: string
  lcBefore :: "64 word"
  lcAfter :: "64 word"
  lcDelta :: int
  lcDeltaPct :: go_float

record what_if_result =
  wiFailure :: fail_set
  wiLinkLoads :: "(string \<times> link_load) list"
  wiDiffs :: "link_load_change list"

datatype traffic_panic = BuildPanic tdg_error | NilGraph

definition nothingFails :: "fail_set \<Rightarrow> bool" where
  "nothingFails s \<longleftrightarrow> Links s = Map.empty \<and> Nodes s = Map.empty"

definition changeFor :: "loads \<Rightarrow> loads \<Rightarrow> string \<Rightarrow> link_load_change option" where
  "changeFor base failed k =
     (let before = loadOf base k; after = loadOf failed k; delta = sint (after - before)
      in if delta = 0 then None
         else Some \<lparr>lcLinkName = k, lcBefore = before, lcAfter = after, lcDelta = delta,
                    lcDeltaPct = percentChange delta (uint before)\<rparr>)"

definition computeLinkLoadChanges :: "loads \<Rightarrow> loads \<Rightarrow> link_load_change list" where
  "computeLinkLoadChanges base failed =
     sortSlice (\<lambda>a b. lcLinkName a < lcLinkName b)
       (List.map_filter (changeFor base failed) (remdups (map fst base @ map fst failed)))"

text \<open>The loop over the classes: the base loads, the failed graphs by class, and the cache.\<close>

type_synonym what_if_state = "loads \<times> (int \<times> tdg option) list \<times> tdg_cache"

definition whatIfClass :: "string \<Rightarrow> fail_set \<Rightarrow> traffic_fibs \<Rightarrow> what_if_state \<Rightarrow> flow_class \<Rightarrow> traffic_panic + what_if_state" where
  "whatIfClass rootNode failSet fibs st ec =
     (let (base, failedTDGs, cache) = st; pc = classPacket ec
      in case GetOrBuild rootNode pc fibs cache of
           Inl err \<Rightarrow> Inl (BuildPanic err)
         | Inr (g, cache') \<Rightarrow>
             Inr (addLoads (Traverse g (fcTotalBytes ec)) base,
                  if nothingFails failSet then failedTDGs
                  else AList.update (pkPrefixClass pc) (ApplyFailure g failSet) failedTDGs, cache'))"

definition whatIfFailed :: "(int \<times> tdg option) list \<Rightarrow> loads \<Rightarrow> flow_class \<Rightarrow> traffic_panic + loads" where
  "whatIfFailed failedTDGs failedLoads ec =
     (case map_of failedTDGs (pkPrefixClass (classPacket ec)) of
        None \<Rightarrow> Inr failedLoads
      | Some None \<Rightarrow> Inl NilGraph
      | Some (Some g) \<Rightarrow> Inr (addLoads (Traverse g (fcTotalBytes ec)) failedLoads))"

definition WhatIfSimulate ::
    "string \<Rightarrow> fail_set \<Rightarrow> flow_class list \<Rightarrow> tdg_cache \<Rightarrow> traffic_fibs \<Rightarrow> traffic_panic + what_if_result option \<times> tdg_cache" where
  "WhatIfSimulate rootNode failSet ecs cache fibs =
     (if rootNode = [] then Inr (None, cache)
      else case foldE (whatIfClass rootNode failSet fibs) ([], [], cache) ecs of
             Inl err \<Rightarrow> Inl err
           | Inr (base, failedTDGs, cache') \<Rightarrow>
               if nothingFails failSet
               then Inr (Some \<lparr>wiFailure = failSet, wiLinkLoads = toLinkLoads base, wiDiffs = []\<rparr>, cache')
               else (case foldE (whatIfFailed failedTDGs) [] ecs of
                       Inl err \<Rightarrow> Inl err
                     | Inr failedLoads \<Rightarrow>
                         Inr (Some \<lparr>wiFailure = failSet, wiLinkLoads = toLinkLoads failedLoads,
                                    wiDiffs = computeLinkLoadChanges base failedLoads\<rparr>, cache')))"

section \<open>How many failures a link tolerates\<close>

record kfail_finding =
  kfLink :: string
  kfPct :: rat
  kfK :: int
  kfFailures :: "failure_element list"

definition utilization :: "64 word \<Rightarrow> 64 word \<Rightarrow> rat" where
  "utilization b bw = f64 (f64 (f64 (of_int (uint b)) / f64 (of_int (uint bw))) * 100)"

definition overloads :: "topology \<Rightarrow> rat \<Rightarrow> string \<times> link_load \<Rightarrow> bool" where
  "overloads topo thresholdPct nl =
     (let bw = linkBandwidthForName topo (fst nl)
      in if bw = 0 then False else thresholdPct \<le> utilization (llBytes (snd nl)) bw)"

definition findingFor :: "topology \<Rightarrow> int \<Rightarrow> failure_element list \<Rightarrow> string \<times> link_load \<Rightarrow> kfail_finding" where
  "findingFor topo k combo nl =
     \<lparr>kfLink = fst nl, kfPct = twoDecimals (utilization (llBytes (snd nl)) (linkBandwidthForName topo (fst nl))),
      kfK = k, kfFailures = combo\<rparr>"

definition baseFindings :: "topology \<Rightarrow> rat \<Rightarrow> (string \<times> link_load) list \<Rightarrow> kfail_finding list" where
  "baseFindings topo thresholdPct m = map (findingFor topo 0 []) (filter (overloads topo thresholdPct) m)"

definition addFinding :: "topology \<Rightarrow> rat \<Rightarrow> int \<Rightarrow> failure_element list \<Rightarrow> string \<times> link_load \<Rightarrow> kfail_finding list \<Rightarrow> kfail_finding list" where
  "addFinding topo thresholdPct k combo nl findings =
     (if overloads topo thresholdPct nl \<and> \<not> list_ex (\<lambda>f. kfLink f = fst nl) findings
      then findings @ [findingFor topo k combo nl] else findings)"

type_synonym kfail_state = "traffic_panic + kfail_finding list \<times> tdg_cache"

text \<open>The closure given to \<open>FindElementCombo\<close>; it always asks for the next combination.\<close>

definition tryCombo ::
    "string \<Rightarrow> topology \<Rightarrow> traffic_fibs \<Rightarrow> flow_class list \<Rightarrow> rat \<Rightarrow> int \<Rightarrow> failure_element list \<Rightarrow> kfail_state \<Rightarrow> bool \<times> kfail_state" where
  "tryCombo rootNode topo fibs ecs thresholdPct k combo st =
     (False,
      case st of
        Inl err \<Rightarrow> Inl err
      | Inr (findings, cache) \<Rightarrow>
          (case WhatIfSimulate rootNode (SetFromElements combo) ecs cache fibs of
             Inl err \<Rightarrow> Inl err
           | Inr (None, cache') \<Rightarrow> Inr (findings, cache')
           | Inr (Some r, cache') \<Rightarrow> Inr (fold (addFinding topo thresholdPct k combo) (wiLinkLoads r) findings, cache')))"

definition findingLess :: "kfail_finding \<Rightarrow> kfail_finding \<Rightarrow> bool" where
  "findingLess a b = (if kfK a \<noteq> kfK b then kfK a < kfK b else kfLink a < kfLink b)"

definition sortFindings :: "kfail_finding list \<Rightarrow> kfail_finding list" where
  "sortFindings = sortSlice findingLess"

definition failureCandidates :: "topology \<Rightarrow> int \<Rightarrow> failure_element list" where
  "failureCandidates topo maxK =
     SearchElements topo \<lparr>IncludeLinkElements = True, IncludeNodeElements = True, MaxFailures = maxK, SearchDomain = zeroFailureDomain\<rparr>"

definition Analyze ::
    "string \<Rightarrow> topology \<Rightarrow> traffic_fibs \<Rightarrow> flow_class list \<Rightarrow> rat \<Rightarrow> int \<Rightarrow> traffic_panic + kfail_finding list" where
  "Analyze rootNode topo fibs ecs thresholdPct maxK =
     (if rootNode = [] then Inr []
      else case WhatIfSimulate rootNode noFailures ecs [] fibs of
             Inl err \<Rightarrow> Inl err
           | Inr (None, _) \<Rightarrow> Inr []
           | Inr (Some baseResult, cache) \<Rightarrow>
               let findings = baseFindings topo thresholdPct (wiLinkLoads baseResult)
               in if maxK \<le> 0 then Inr (sortFindings findings)
                  else let elements = failureCandidates topo maxK
                       in if elements = [] then Inr (sortFindings findings)
                          else (case fold (\<lambda>k st. snd (FindElementCombo elements (int k) 0 []
                                             (tryCombo rootNode topo fibs ecs thresholdPct (int k)) st))
                                       [1..<Suc (min (nat maxK) (length elements))] (Inr (findings, cache)) of
                                  Inl err \<Rightarrow> Inl err
                                | Inr (found, _) \<Rightarrow> Inr (sortFindings found)))"

end
