(* ===== verification/Traffic_Failure_Laws.thy ===== *)
theory Traffic_Failure_Laws
  imports Traffic_Failure
begin

text \<open>
  What the simulation of failures promises: graphs stay well formed, a failed graph is the original
  without the edges that fail, and its shares spread over the edges that are left. It also shows where
  the code falls short of that.
\<close>

section \<open>Well-formed graphs\<close>

definition tdgOK :: "tdg \<Rightarrow> bool" where
  "tdgOK g \<longleftrightarrow> distinct (map ndNode (tdgNodes g)) \<and> map ndID (tdgNodes g) = [0..<length (tdgNodes g)]
     \<and> list_all (\<lambda>e. egFrom e \<in> set (tdgNodes g) \<and> egTo e \<in> set (tdgNodes g)) (tdgEdges g)
     \<and> pred_option (\<lambda>start. start \<in> set (tdgNodes g)) (tdgRoot g)
     \<and> set (tdgSinks g) \<subseteq> set (tdgNodes g)"

lemma nodeIndex_in: "nodeIndex g n = Some x \<Longrightarrow> x \<in> set (tdgNodes g)"
  using nodeIndex_Some by blast

lemma nodeIndex_of: "distinct (map ndNode (tdgNodes g)) \<Longrightarrow> x \<in> set (tdgNodes g) \<Longrightarrow> nodeIndex g (ndNode x) = Some x"
proof -
  assume d: "distinct (map ndNode (tdgNodes g))" and x: "x \<in> set (tdgNodes g)"
  then obtain y where y: "nodeIndex g (ndNode x) = Some y" using nodeIndex_known [of "ndNode x" g] by auto
  then show ?thesis using nodeIndex_Some [OF y] d x by (auto simp: distinct_map inj_on_def)
qed

lemma tdgOK_NewTDG: "tdgOK NewTDG"
  by (simp add: tdgOK_def NewTDG_def)

lemma tdgOK_AddNode: "tdgOK g \<Longrightarrow> tdgOK (AddNode n vrf stage c g)"
  by (cases "tdgRoot g") (auto simp: tdgOK_def AddNode_def nodeIndex_None list_all_iff split: option.splits)

lemma tdgOK_AddEdge: "tdgOK g \<Longrightarrow> AddEdge a b w g = Inr g' \<Longrightarrow> tdgOK g'"
  by (auto simp: tdgOK_def AddEdge_def dest!: nodeIndex_in split: option.splits)

lemma tdgOK_SetRoot: "tdgOK g \<Longrightarrow> SetRoot n g = Inr g' \<Longrightarrow> tdgOK g'"
  by (auto simp: tdgOK_def SetRoot_def dest!: nodeIndex_in split: option.splits)

lemma tdgOK_AddSink: "tdgOK g \<Longrightarrow> tdgOK (AddSink n g)"
  by (auto simp: tdgOK_def AddSink_def dest!: nodeIndex_in split: option.splits)

text \<open>Taking edges away, or changing their weights, keeps a graph well formed.\<close>

lemma tdgOK_edges:
  assumes "tdgOK g" "\<forall>e \<in> set es. \<exists>e' \<in> set (tdgEdges g). egFrom e = egFrom e' \<and> egTo e = egTo e'"
  shows "tdgOK (g\<lparr>tdgEdges := es\<rparr>)"
proof -
  have "list_all (\<lambda>e. egFrom e \<in> set (tdgNodes g) \<and> egTo e \<in> set (tdgNodes g)) (tdgEdges g)"
    using assms(1) by (simp add: tdgOK_def)
  then have "list_all (\<lambda>e. egFrom e \<in> set (tdgNodes g) \<and> egTo e \<in> set (tdgNodes g)) es"
    using assms(2) unfolding list_all_iff by metis
  then show ?thesis using assms(1) by (simp add: tdgOK_def)
qed

lemma setFirstWeight_ends:
  "e \<in> set (setFirstWeight a b w es) \<Longrightarrow> \<exists>e' \<in> set es. egFrom e = egFrom e' \<and> egTo e = egTo e'"
  by (induction es) (auto split: if_splits)

lemma tdgOK_SetEdgeWeight: "tdgOK g \<Longrightarrow> tdgOK (fst (SetEdgeWeight a b w g))"
  unfolding SetEdgeWeight_def fst_conv by (erule tdgOK_edges) (use setFirstWeight_ends in blast)

lemma tdgOK_subset: "tdgOK g \<Longrightarrow> set es \<subseteq> set (tdgEdges g) \<Longrightarrow> tdgOK (g\<lparr>tdgEdges := es\<rparr>)"
  by (erule tdgOK_edges) blast

lemma tdgOK_RemoveEdge: "tdgOK g \<Longrightarrow> tdgOK (fst (RemoveEdge a b g))"
proof -
  assume ok: "tdgOK g"
  let ?es = "takeWhile (\<lambda>e. \<not> joins a b e) (tdgEdges g) @ tl (dropWhile (\<lambda>e. \<not> joins a b e) (tdgEdges g))"
  have "set ?es \<subseteq> set (tdgEdges g)"
    by (auto dest: set_takeWhileD) (metis list.sel(2) list.set_sel(2) set_dropWhileD)
  then show ?thesis using tdgOK_subset [OF ok] ok by (simp add: RemoveEdge_def)
qed

lemma tdgOK_filter: "tdgOK g \<Longrightarrow> tdgOK (g\<lparr>tdgEdges := filter P (tdgEdges g)\<rparr>)"
  by (erule tdgOK_subset) simp

lemma tdgOK_BatchRemoveEdges: "tdgOK g \<Longrightarrow> tdgOK (BatchRemoveEdges refs g)"
  by (simp add: BatchRemoveEdges_def Let_def tdgOK_filter)

lemma tdgOK_foldE: "(\<And>g x g'. tdgOK g \<Longrightarrow> f g x = Inr g' \<Longrightarrow> tdgOK g') \<Longrightarrow> tdgOK g \<Longrightarrow> foldE f g xs = Inr g' \<Longrightarrow> tdgOK g'"
  by (induction xs arbitrary: g) (auto split: sum.splits)

lemma tdgOK_fold: "(\<And>x g. tdgOK g \<Longrightarrow> tdgOK (f x g)) \<Longrightarrow> tdgOK g \<Longrightarrow> tdgOK (fold f xs g)"
  by (induction xs arbitrary: g) auto

lemma tdgOK_rebalance: "tdgOK g \<Longrightarrow> tdgOK (rebalance n g)"
  by (auto simp: rebalance_def Let_def intro!: tdgOK_AddSink tdgOK_fold tdgOK_SetEdgeWeight)

lemma tdgOK_buildLoop: "tdgOK g \<Longrightarrow> buildLoop dst fibs c visited queue g = Inr g' \<Longrightarrow> tdgOK g'"
proof (induction dst fibs c visited queue g rule: buildLoop.induct)
  case (2 dst fibs c visited current queue g)
  have step: "tdgOK g1 \<Longrightarrow> addHop current c hops g1 h = Inr g2 \<Longrightarrow> tdgOK g2" for g1 g2 hops h
    using tdgOK_AddEdge tdgOK_AddNode unfolding addHop_def by blast
  show ?case
  proof (cases "current \<in> set visited")
    case True
    then show ?thesis using "2.IH"(1) "2.prems" by simp
  next
    case new: False
    show ?thesis
    proof (cases "hopsAt dst fibs current = []")
      case True
      then show ?thesis using "2.IH"(2) [OF new refl True] "2.prems" new tdgOK_AddSink by simp
    next
      case False
      obtain g1 where g1: "foldE (addHop current c (hopsAt dst fibs current)) g (hopsAt dst fibs current) = Inr g1"
        using "2.prems"(2) new False by (auto simp: Let_def split: sum.splits)
      have "tdgOK g1" by (rule tdgOK_foldE [OF _ "2.prems"(1) g1]) (erule (1) step)
      then show ?thesis using "2.IH"(3) [OF new refl False g1] "2.prems"(2) new False g1 by simp
    qed
  qed
qed simp

lemma tdgOK_BuildTDG: "BuildTDG start pc fibs = Inr g \<Longrightarrow> tdgOK g"
proof -
  assume built: "BuildTDG start pc fibs = Inr g"
  obtain g0 where g0: "SetRoot start (AddNode start ''default'' ''ingress_acl'' (pkPrefixClass pc) NewTDG) = Inr g0"
    using built by (auto simp: BuildTDG_def Let_def split: sum.splits)
  then have "tdgOK g0" using tdgOK_SetRoot [OF tdgOK_AddNode [OF tdgOK_NewTDG]] by blast
  then show ?thesis using built g0 tdgOK_buildLoop
    by (auto simp: BuildTDG_def Let_def simp del: buildLoop.simps split: if_splits)
qed

lemma tdgOK_diamond: "tdgOK diamondGraph"
  by (auto simp: diamondGraph_def split: sum.split intro: tdgOK_BuildTDG tdgOK_NewTDG)

section \<open>Copies\<close>

lemma fold_AddNode:
  "distinct (map ndNode ns) \<Longrightarrow> map ndID ns = [0..<length ns] \<Longrightarrow>
     fold (\<lambda>n. AddNode (ndNode n) (ndVRF n) (ndStage n) (ndClass n)) ns NewTDG = NewTDG\<lparr>tdgNodes := ns\<rparr>"
proof (induction ns rule: rev_induct)
  case (snoc n ns)
  have "map ndID ns @ [ndID n] = [0..<length ns] @ [length ns]" using snoc.prems(2) by simp
  then have id: "map ndID ns = [0..<length ns]" "ndID n = length ns" by (simp_all only: append1_eq_conv)
  have "nodeIndex (NewTDG\<lparr>tdgNodes := ns\<rparr>) (ndNode n) = None" using snoc.prems(1) by (simp add: nodeIndex_None)
  then show ?case using snoc id by (simp add: AddNode_def)
qed (simp add: NewTDG_def)

lemma fold_copyEdge:
  assumes "distinct (map ndNode (tdgNodes g))" "list_all (\<lambda>e. egFrom e \<in> set (tdgNodes g) \<and> egTo e \<in> set (tdgNodes g)) es"
  shows "fold copyEdge es g = g\<lparr>tdgEdges := tdgEdges g @ es\<rparr>"
  using assms
proof (induction es arbitrary: g)
  case (Cons e es)
  have ends: "nodeIndex g (ndNode (egFrom e)) = Some (egFrom e)" "nodeIndex g (ndNode (egTo e)) = Some (egTo e)"
    using nodeIndex_of Cons.prems by auto
  have "copyEdge e g = g\<lparr>tdgEdges := tdgEdges g @ [e]\<rparr>" by (simp add: copyEdge_def AddEdge_def ends)
  then show ?case using Cons by simp
qed simp

lemma fold_AddSink:
  "distinct (map ndNode (tdgNodes g)) \<Longrightarrow> set ns \<subseteq> set (tdgNodes g) \<Longrightarrow>
     fold (\<lambda>n. AddSink (ndNode n)) ns g = g\<lparr>tdgSinks := tdgSinks g @ ns\<rparr>"
  by (induction ns arbitrary: g) (simp_all add: AddSink_def nodeIndex_of)

lemma cloneTDG_same: "tdgOK g \<Longrightarrow> cloneTDG g = Some g"
proof -
  assume ok: "tdgOK g"
  define g1 where "g1 = NewTDG\<lparr>tdgNodes := tdgNodes g\<rparr>"
  define g2 where "g2 = g1\<lparr>tdgEdges := tdgEdges g\<rparr>"
  have ns: "fold (\<lambda>n. AddNode (ndNode n) (ndVRF n) (ndStage n) (ndClass n)) (tdgNodes g) NewTDG = g1"
    unfolding g1_def by (rule fold_AddNode) (use ok in \<open>simp_all add: tdgOK_def\<close>)
  have es: "fold copyEdge (tdgEdges g) g1 = g2"
    using fold_copyEdge [of g1 "tdgEdges g"] ok by (simp add: g1_def g2_def tdgOK_def NewTDG_def)
  have "\<exists>c. (case tdgRoot g of None \<Rightarrow> Inr g2 | Some start \<Rightarrow> SetRoot (ndNode start) g2) = Inr c \<and> c = g2\<lparr>tdgRoot := tdgRoot g\<rparr>"
    using ok nodeIndex_of [of g2] by (auto simp: SetRoot_def tdgOK_def g1_def g2_def NewTDG_def split: option.split)
  moreover have "fold (\<lambda>n. AddSink (ndNode n)) (tdgSinks g) (g2\<lparr>tdgRoot := tdgRoot g\<rparr>) = g"
    using fold_AddSink [of "g2\<lparr>tdgRoot := tdgRoot g\<rparr>" "tdgSinks g"] ok by (simp add: g1_def g2_def tdgOK_def NewTDG_def)
  ultimately show ?thesis by (auto simp: cloneTDG_def ns es Let_def split: option.splits)
qed

lemma tdgOK_ApplyFailure: "tdgOK g \<Longrightarrow> ApplyFailure g s = Some g' \<Longrightarrow> tdgOK g'"
  by (auto simp: ApplyFailure_def cloneTDG_same Let_def intro!: tdgOK_fold tdgOK_rebalance tdgOK_BatchRemoveEdges)

text \<open>
  Graphs stay well formed. In the graph that \<open>BuildTDG\<close> makes, names are distinct, identifiers
  are positions, and the ends of edges, the root and the sinks are nodes of the graph; every operation
  of a graph keeps this, and so does applying a failure, which always succeeds on such a graph.
\<close>

lemma tdg_operations_keep_OK:
  assumes "tdgOK g"
  shows "tdgOK (AddNode n vrf stage c g) \<and> (case AddEdge a b w g of Inl _ \<Rightarrow> True | Inr g' \<Rightarrow> tdgOK g')
    \<and> (case SetRoot n g of Inl _ \<Rightarrow> True | Inr g' \<Rightarrow> tdgOK g') \<and> tdgOK (AddSink n g) \<and> tdgOK (fst (RemoveEdge a b g))
    \<and> tdgOK (RemoveAllEdgesFrom a g) \<and> tdgOK (RemoveEdgesTo b g) \<and> tdgOK (fst (SetEdgeWeight a b w g))
    \<and> tdgOK (BatchRemoveEdges refs g) \<and> (case BuildTDG start pc fibs of Inl _ \<Rightarrow> False | Inr g' \<Rightarrow> tdgOK g')
    \<and> (case ApplyFailure g s of None \<Rightarrow> False | Some g' \<Rightarrow> tdgOK g')"
proof (intro conjI)
  show "case AddEdge a b w g of Inl _ \<Rightarrow> True | Inr g' \<Rightarrow> tdgOK g'"
    using tdgOK_AddEdge [OF assms] by (auto split: sum.split)
  show "case SetRoot n g of Inl _ \<Rightarrow> True | Inr g' \<Rightarrow> tdgOK g'"
    using tdgOK_SetRoot [OF assms] by (auto split: sum.split)
  show "case BuildTDG start pc fibs of Inl _ \<Rightarrow> False | Inr g' \<Rightarrow> tdgOK g'"
    using BuildTDG_never_fails [of start pc fibs] tdgOK_BuildTDG by auto
  show "case ApplyFailure g s of None \<Rightarrow> False | Some g' \<Rightarrow> tdgOK g'"
    using tdgOK_ApplyFailure [OF assms] by (auto simp: ApplyFailure_def cloneTDG_same [OF assms] split: option.split)
qed (simp_all add: assms tdgOK_AddNode tdgOK_AddSink tdgOK_RemoveEdge tdgOK_SetEdgeWeight tdgOK_BatchRemoveEdges
    RemoveAllEdgesFrom_def RemoveEdgesTo_def tdgOK_filter)

lemma tdg_operations_keep_OK_witness:
  "tdgOK diamondGraph \<and> (case ApplyFailure diamondGraph (SetFromElements []) of None \<Rightarrow> False | Some g' \<Rightarrow> tdgOK g')"
  using tdg_operations_keep_OK [OF tdgOK_diamond] tdgOK_diamond by blast

section \<open>A failed graph\<close>

abbreviation pairOf :: "tdg_edge \<Rightarrow> string \<times> string" where
  "pairOf e \<equiv> (ndNode (egFrom e), ndNode (egTo e))"

text \<open>At most one edge between two nodes, and names that the keys of removed edges can tell apart.\<close>

definition simpleTDG :: "tdg \<Rightarrow> bool" where
  "simpleTDG g \<longleftrightarrow> distinct (map pairOf (tdgEdges g)) \<and> list_all (\<lambda>n. barFree (ndNode n)) (tdgNodes g)"

definition survivors :: "fail_set \<Rightarrow> tdg \<Rightarrow> string \<Rightarrow> tdg_edge list" where
  "survivors s g n = filter (\<lambda>e. \<not> edgeFails s e) (OutEdges g n)"

definition spreadWeight :: "tdg_edge list \<Rightarrow> tdg_edge \<Rightarrow> tdg_edge" where
  "spreadWeight outs e =
     (if 0 < weightSum outs \<and> weightSum outs < 1 then e\<lparr>egWeight := f64 (egWeight e / weightSum outs)\<rparr> else e)"

lemma spreadWeight_ends [simp]: "egFrom (spreadWeight outs e) = egFrom e" "egTo (spreadWeight outs e) = egTo e"
  by (simp_all add: spreadWeight_def)

lemma joins_pairOf: "joins a b e \<longleftrightarrow> pairOf e = (a, b)"
  by (auto simp: joins_def)

lemma setFirstWeight_map:
  "distinct (map pairOf es) \<Longrightarrow> setFirstWeight a b w es = map (\<lambda>e. if pairOf e = (a, b) then e\<lparr>egWeight := w\<rparr> else e) es"
proof (induction es)
  case (Cons e es)
  show ?case
  proof (cases "pairOf e = (a, b)")
    case True
    then have "(a, b) \<notin> pairOf ` set es" using Cons.prems by auto
    then have "\<forall>x \<in> set es. pairOf x \<noteq> (a, b)" by force
    then have "map (\<lambda>e. if pairOf e = (a, b) then e\<lparr>egWeight := w\<rparr> else e) es = es" by (intro map_idI) auto
    then show ?thesis using True by (simp add: joins_pairOf)
  next
    case False
    then show ?thesis using Cons by (auto simp: joins_pairOf)
  qed
qed simp

definition setAs :: "(tdg_edge \<Rightarrow> rat) \<Rightarrow> tdg_edge \<Rightarrow> tdg_edge \<Rightarrow> tdg_edge" where
  "setAs wt e x = (if pairOf x = pairOf e then x\<lparr>egWeight := wt e\<rparr> else x)"

lemma setAs_ends [simp]: "egFrom (setAs wt e x) = egFrom x" "egTo (setAs wt e x) = egTo x"
  by (simp_all add: setAs_def)

lemma fold_setAs:
  "distinct (map pairOf outs) \<Longrightarrow>
     (x \<in> set outs \<longrightarrow> fold (setAs wt) outs x = x\<lparr>egWeight := wt x\<rparr>) \<and> (pairOf x \<notin> pairOf ` set outs \<longrightarrow> fold (setAs wt) outs x = x)"
proof (induction outs rule: rev_induct)
  case (snoc e outs)
  have "fold (setAs wt) es y = y" if "pairOf y \<notin> pairOf ` set es" for es y
    using that by (induction es arbitrary: y) (auto simp: setAs_def)
  moreover have "pairOf (fold (setAs wt) es y) = pairOf y" for es y
    by (induction es arbitrary: y) auto
  moreover have "pairOf e \<notin> pairOf ` set outs" using snoc.prems by auto
  moreover have "x \<notin> set outs" if "ndNode (egFrom x) = ndNode (egFrom e)" "ndNode (egTo x) = ndNode (egTo e)"
    using that \<open>pairOf e \<notin> pairOf ` set outs\<close> image_eqI [of "pairOf e" pairOf x "set outs"] by auto
  ultimately show ?case using snoc by (auto simp: setAs_def [of wt e])
qed simp

lemma fold_SetEdgeWeight:
  "distinct (map pairOf (tdgEdges g)) \<Longrightarrow>
     fold (\<lambda>e g. fst (SetEdgeWeight (ndNode (egFrom e)) (ndNode (egTo e)) (wt e) g)) outs g
       = g\<lparr>tdgEdges := map (fold (setAs wt) outs) (tdgEdges g)\<rparr>"
proof (induction outs arbitrary: g)
  case (Cons e outs)
  let ?g = "fst (SetEdgeWeight (ndNode (egFrom e)) (ndNode (egTo e)) (wt e) g)"
  have g: "?g = g\<lparr>tdgEdges := map (setAs wt e) (tdgEdges g)\<rparr>"
    using setFirstWeight_map [OF Cons.prems] by (simp add: SetEdgeWeight_def setAs_def [abs_def])
  have "map pairOf (map (setAs wt e) (tdgEdges g)) = map pairOf (tdgEdges g)" by simp
  then have "distinct (map pairOf (tdgEdges ?g))" using Cons.prems by (simp add: g comp_def)
  from Cons.IH [OF this] show ?case by (simp add: g comp_def)
qed simp

text \<open>One source of removed edges, and then all of them.\<close>

lemma rebalance_edges:
  assumes "distinct (map pairOf (tdgEdges g))"
  shows "tdgEdges (rebalance n g) = map (\<lambda>e. if ndNode (egFrom e) = n then spreadWeight (OutEdges g n) e else e) (tdgEdges g)
    \<and> tdgNodes (rebalance n g) = tdgNodes g \<and> tdgRoot (rebalance n g) = tdgRoot g"
proof -
  let ?outs = "OutEdges g n"
  let ?set = "\<lambda>e. if ndNode (egFrom e) = n then spreadWeight ?outs e else e"
  have sink: "tdgEdges (AddSink n g) = tdgEdges g \<and> tdgNodes (AddSink n g) = tdgNodes g \<and> tdgRoot (AddSink n g) = tdgRoot g"
    by (simp add: AddSink_def split: option.split)
  have spread: "fold (setAs wt) ?outs e = (if ndNode (egFrom e) = n then e\<lparr>egWeight := wt e\<rparr> else e)" if "e \<in> set (tdgEdges g)" for e wt
  proof -
    have "distinct (map pairOf ?outs)" using assms by (simp add: OutEdges_def distinct_map inj_on_def)
    moreover have "pairOf e \<notin> pairOf ` set ?outs" if "ndNode (egFrom e) \<noteq> n" using that by (auto simp: OutEdges_def)
    moreover have "e \<in> set ?outs" if "ndNode (egFrom e) = n" using that \<open>e \<in> set (tdgEdges g)\<close> by (simp add: OutEdges_def)
    ultimately show ?thesis using fold_setAs [of ?outs e wt] by auto
  qed
  show ?thesis
  proof (cases "?outs = []")
    case True
    then have "map ?set (tdgEdges g) = tdgEdges g" by (intro map_idI) (auto simp: OutEdges_def filter_empty_conv)
    then show ?thesis using True sink by (simp add: rebalance_def)
  next
    case False
    show ?thesis
    proof (cases "0 < weightSum ?outs \<and> weightSum ?outs < 1")
      case True
      have "map (fold (setAs (\<lambda>e. f64 (egWeight e / weightSum ?outs))) ?outs) (tdgEdges g) = map ?set (tdgEdges g)"
        by (rule map_cong [OF refl]) (simp add: spread spreadWeight_def True)
      then show ?thesis using False True fold_SetEdgeWeight [OF assms, of "\<lambda>e. f64 (egWeight e / weightSum ?outs)" ?outs]
        by (simp add: rebalance_def Let_def)
    next
      case light: False
      then have "map ?set (tdgEdges g) = tdgEdges g" by (intro map_idI) (auto simp: spreadWeight_def)
      then show ?thesis using False light by (auto simp: rebalance_def Let_def)
    qed
  qed
qed

lemma fold_rebalance:
  assumes "distinct (map pairOf (tdgEdges g))" "distinct ns"
  shows "tdgEdges (fold rebalance ns g)
      = map (\<lambda>e. if ndNode (egFrom e) \<in> set ns then spreadWeight (OutEdges g (ndNode (egFrom e))) e else e) (tdgEdges g)
    \<and> tdgNodes (fold rebalance ns g) = tdgNodes g \<and> tdgRoot (fold rebalance ns g) = tdgRoot g"
  using assms
proof (induction ns arbitrary: g)
  case (Cons n ns)
  let ?g = "rebalance n g"
  have g: "tdgEdges ?g = map (\<lambda>e. if ndNode (egFrom e) = n then spreadWeight (OutEdges g n) e else e) (tdgEdges g)"
    "tdgNodes ?g = tdgNodes g" "tdgRoot ?g = tdgRoot g" using rebalance_edges [OF Cons.prems(1)] by blast+
  have "map pairOf (tdgEdges ?g) = map pairOf (tdgEdges g)" unfolding g(1) by simp
  then have "distinct (map pairOf (tdgEdges ?g))" using Cons.prems(1) by (simp only:)
  note IH = Cons.IH [OF this]
  have "OutEdges ?g m = OutEdges g m" if "m \<noteq> n" for m
    unfolding OutEdges_def g(1) filter_map comp_def using that
    by (simp add: if_distrib cong: if_cong) (rule map_idI, auto)
  then show ?case using IH Cons.prems(2) by (auto simp: g)
qed simp

lemma edgeFails_pairOf: "pairOf e = pairOf e' \<Longrightarrow> edgeFails s e = edgeFails s e'"
  by (simp add: edgeFails_def)

lemma barFree_key: "barFree a \<Longrightarrow> barFree c \<Longrightarrow> a @ ''|'' @ b = c @ ''|'' @ d \<longleftrightarrow> a = c \<and> b = d"
proof (induction a arbitrary: c)
  case Nil
  then show ?case by (cases c) (auto simp: barFree_def)
next
  case (Cons x a)
  then show ?case by (cases c) (auto simp: barFree_def)
qed

lemma BatchRemove_failing:
  assumes "tdgOK g" "simpleTDG g"
  shows "BatchRemoveEdges (map pairOf (filter (edgeFails s) (tdgEdges g))) g = g\<lparr>tdgEdges := filter (\<lambda>e. \<not> edgeFails s e) (tdgEdges g)\<rparr>"
proof -
  let ?key = "\<lambda>e. ndNode (egFrom e) @ ''|'' @ ndNode (egTo e)"
  have bar: "barFree (ndNode (egFrom e))" if "e \<in> set (tdgEdges g)" for e
    using that assms by (auto simp: simpleTDG_def tdgOK_def list_all_iff)
  have "?key e \<notin> ?key ` set (filter (edgeFails s) (tdgEdges g)) \<longleftrightarrow> \<not> edgeFails s e" if e: "e \<in> set (tdgEdges g)" for e
  proof -
    have "edgeFails s e" if x: "x \<in> set (tdgEdges g)" "edgeFails s x" "?key e = ?key x" for x
    proof -
      have "pairOf e = pairOf x" using barFree_key [OF bar [OF e] bar [OF x(1)]] x(3) by simp
      then show ?thesis using edgeFails_pairOf [of e x s] x(2) by blast
    qed
    then show ?thesis using e by auto
  qed
  then have "filter (\<lambda>e. ?key e \<notin> ?key ` set (filter (edgeFails s) (tdgEdges g))) (tdgEdges g) = filter (\<lambda>e. \<not> edgeFails s e) (tdgEdges g)"
    by (intro filter_cong refl) blast
  moreover have "set (map (\<lambda>(a, b). a @ ''|'' @ b) (map pairOf (filter (edgeFails s) (tdgEdges g)))) = ?key ` set (filter (edgeFails s) (tdgEdges g))"
    by auto
  moreover have "filter (\<lambda>e. \<not> edgeFails s e) (tdgEdges g) = tdgEdges g" if "filter (edgeFails s) (tdgEdges g) = []"
    using that by (auto simp: filter_empty_conv intro: filter_True)
  ultimately show ?thesis by (simp add: BatchRemoveEdges_def Let_def)
qed

lemma ApplyFailure_edges:
  assumes "tdgOK g" "simpleTDG g"
  shows "\<exists>g'. ApplyFailure g s = Some g' \<and> tdgNodes g' = tdgNodes g \<and> tdgRoot g' = tdgRoot g
    \<and> (\<forall>n. OutEdges g' n = (if list_ex (edgeFails s) (OutEdges g n) then map (spreadWeight (survivors s g n)) (survivors s g n) else survivors s g n))"
proof -
  define ns where "ns = remdups (map fst (map pairOf (filter (edgeFails s) (tdgEdges g))))"
  define g1 where "g1 = g\<lparr>tdgEdges := filter (\<lambda>e. \<not> edgeFails s e) (tdgEdges g)\<rparr>"
  define g' where "g' = fold rebalance ns g1"
  have outs: "OutEdges g1 n = survivors s g n" for n
    by (simp add: g1_def OutEdges_def survivors_def conj_commute)
  have "distinct (map pairOf (tdgEdges g1))" using assms(2) by (simp add: g1_def simpleTDG_def distinct_map inj_on_def)
  moreover have "distinct ns" by (simp add: ns_def)
  ultimately have edges: "tdgEdges g' = map (\<lambda>e. if ndNode (egFrom e) \<in> set ns
      then spreadWeight (survivors s g (ndNode (egFrom e))) e else e) (tdgEdges g1)"
    "tdgNodes g' = tdgNodes g1" "tdgRoot g' = tdgRoot g1"
    using fold_rebalance [of g1 ns] by (simp_all add: g'_def outs)
  have src: "n \<in> set ns \<longleftrightarrow> list_ex (edgeFails s) (OutEdges g n)" for n
    by (auto simp: ns_def OutEdges_def list_ex_iff)
  have "OutEdges g' n = map (\<lambda>e. if n \<in> set ns then spreadWeight (survivors s g n) e else e) (survivors s g n)" for n
  proof -
    have "OutEdges g' n = filter (\<lambda>e. ndNode (egFrom e) = n) (map (\<lambda>e. if ndNode (egFrom e) \<in> set ns
        then spreadWeight (survivors s g (ndNode (egFrom e))) e else e) (tdgEdges g1))"
      by (simp only: OutEdges_def edges(1))
    also have "\<dots> = map (\<lambda>e. if n \<in> set ns then spreadWeight (survivors s g n) e else e) (OutEdges g1 n)"
      unfolding OutEdges_def filter_map comp_def by (simp add: if_distrib cong: if_cong)
    finally show ?thesis by (simp only: outs)
  qed
  then have "OutEdges g' n = (if list_ex (edgeFails s) (OutEdges g n) then map (spreadWeight (survivors s g n)) (survivors s g n) else survivors s g n)" for n
    by (simp add: src)
  moreover have "ApplyFailure g s = Some g'"
    using BatchRemove_failing [OF assms, of s] by (simp add: ApplyFailure_def cloneTDG_same [OF assms(1)] g'_def g1_def ns_def Let_def)
  ultimately show ?thesis using edges(2,3) by (intro exI [of _ g']) (simp add: g1_def)
qed

text \<open>
  C35 (failures and shares). In a well-formed graph with at most one edge between two nodes and names
  without a bar, \<open>ApplyFailure\<close> keeps the nodes and the root, and at every node exactly the edges whose
  link and ends have not failed. Where an edge was removed and the shares that are left add up to
  less than one, each of them is divided by their sum; elsewhere they stay as they are.
\<close>

theorem ApplyFailure_rebalances:
  assumes "tdgOK g" "simpleTDG g"
  shows "\<exists>g'. ApplyFailure g s = Some g' \<and> tdgNodes g' = tdgNodes g \<and> tdgRoot g' = tdgRoot g
    \<and> (\<forall>n. OutEdges g' n =
         (let left = filter (\<lambda>e. \<not> edgeFails s e) (OutEdges g n)
          in if list_ex (edgeFails s) (OutEdges g n) \<and> 0 < weightSum left \<and> weightSum left < 1
             then map (\<lambda>e. e\<lparr>egWeight := f64 (egWeight e / weightSum left)\<rparr>) left else left))"
proof -
  have spread: "map (spreadWeight left) es = (if 0 < weightSum left \<and> weightSum left < 1
      then map (\<lambda>e. e\<lparr>egWeight := f64 (egWeight e / weightSum left)\<rparr>) es else es)" for left es
  proof (cases "0 < weightSum left \<and> weightSum left < 1")
    case True
    then show ?thesis by (simp add: spreadWeight_def)
  next
    case False
    then have "map (spreadWeight left) es = es" by (intro map_idI) (auto simp: spreadWeight_def)
    then show ?thesis using False by auto
  qed
  have shares: "(if b then map (spreadWeight left) left else left)
      = (if b \<and> 0 < weightSum left \<and> weightSum left < 1
         then map (\<lambda>e. e\<lparr>egWeight := f64 (egWeight e / weightSum left)\<rparr>) left else left)" for b left
    by (simp add: spread)
  show ?thesis using ApplyFailure_edges [OF assms, of s] unfolding survivors_def shares Let_def .
qed

definition diamondFailure :: fail_set where
  "diamondFailure = NewSet [''r->a''] []"

lemma simpleTDG_diamond: "simpleTDG diamondGraph"
  by code_simp

theorem ApplyFailure_rebalances_witness:
  "(case ApplyFailure diamondGraph diamondFailure of None \<Rightarrow> False
    | Some g' \<Rightarrow> map (\<lambda>e. (ndNode (egTo e), egWeight e)) (OutEdges g' ''r'') = [(''b'', 1)])"
proof -
  let ?left = "filter (\<lambda>e. \<not> edgeFails diamondFailure e) (OutEdges diamondGraph ''r'')"
  have left: "map (\<lambda>e. (ndNode (egTo e), f64 (egWeight e / weightSum ?left))) ?left = [(''b'', 1)]"
    "list_ex (edgeFails diamondFailure) (OutEdges diamondGraph ''r'')" "0 < weightSum ?left" "weightSum ?left < 1"
    by code_simp+
  obtain g' where "ApplyFailure diamondGraph diamondFailure = Some g'"
    "OutEdges g' ''r'' = map (\<lambda>e. e\<lparr>egWeight := f64 (egWeight e / weightSum ?left)\<rparr>) ?left"
    using ApplyFailure_rebalances [OF tdgOK_diamond simpleTDG_diamond, of diamondFailure] left(2-4) by (auto simp: Let_def)
  then show ?thesis using left(1) by (simp add: comp_def)
qed

text \<open>
  Link failures by their configured names do nothing. A failure that names no edge of the graph
  as the two node names joined by an arrow, and no node at its ends, leaves the graph as it is. The
  names that the topology gives its links are of another form, so failing a link by its name changes
  nothing in the simulations under failure.
\<close>

lemma ApplyFailure_unknown_names:
  assumes "tdgOK g"
    "list_all (\<lambda>e. Links s (tdgLinkName (ndNode (egFrom e)) (ndNode (egTo e))) = None
      \<and> Nodes s (ndNode (egFrom e)) = None \<and> Nodes s (ndNode (egTo e)) = None) (tdgEdges g)"
  shows "ApplyFailure g s = Some g"
proof -
  have "filter (edgeFails s) (tdgEdges g) = []"
    using assms(2) by (auto simp: filter_empty_conv list_all_iff edgeFails_def)
  then show ?thesis by (simp add: ApplyFailure_def cloneTDG_same [OF assms(1)] BatchRemoveEdges_def)
qed

lemma ApplyFailure_unknown_names_witness:
  "ApplyFailure diamondGraph (NewSet [''r-eth1__a-eth1''] []) = Some diamondGraph"
proof -
  have "list_all (\<lambda>e. Links (NewSet [''r-eth1__a-eth1''] []) (edgeName e) = None
      \<and> Nodes (NewSet [''r-eth1__a-eth1''] []) (ndNode (egFrom e)) = None
      \<and> Nodes (NewSet [''r-eth1__a-eth1''] []) (ndNode (egTo e)) = None) (tdgEdges diamondGraph)" by code_simp
  then show ?thesis by (rule ApplyFailure_unknown_names [OF tdgOK_diamond])
qed

text \<open>
  Shares are lost where next hops repeat. \<open>SetEdgeWeight\<close> sets only the first edge between two
  nodes. When two of three next hops lead to the same node and the third fails, the shares that are
  left are raised on one of the two only: a quarter of the traffic disappears.
\<close>

definition twinHops :: traffic_fibs where
  "twinHops = [(''r'', sampleFIB [sampleHop ''a'' (1 / 4), sampleHop ''a'' (1 / 4), sampleHop ''b'' (1 / 2)])]"

lemma ApplyFailure_loses_shares:
  "case BuildTDG ''r'' sampleClass twinHops of
     Inl _ \<Rightarrow> False
   | Inr g \<Rightarrow> (case ApplyFailure g (NewSet [] [''b'']) of
                None \<Rightarrow> False
              | Some g' \<Rightarrow> map egWeight (OutEdges g' ''r'') = [1 / 2, 1 / 4] \<and> loadOf (Traverse g' 1000) ''r->a'' = 750)"
  by code_simp

end
