(* ===== verification/Condition.thy ===== *)
theory Condition
  imports Failure_Set
begin

text \<open>
  \<open>internal/domain/failure/condition.go\<close>: the propositional conditions over link and node
  variables that annotate routes. The Go interface \<open>Cond\<close> has six implementers, the
  constructors of \<open>cond\<close>; \<open>condVarKind\<close> is unexported and takes two values only, so the
  default branches of its switches are unreachable.
\<close>

section \<open>Conditions\<close>

datatype cond_kind = CondVarLink | CondVarNode

datatype cond =
    TrueC
  | FalseC
  | VarC cond_kind string
  | AndC "cond list"
  | OrC "cond list"
  | NotC cond

fun condKindString :: "cond_kind \<Rightarrow> string" where
  "condKindString CondVarLink = ''link''"
| "condKindString CondVarNode = ''node''"

definition LinkVar :: "string \<Rightarrow> cond" where
  "LinkVar name = VarC CondVarLink name"

definition NodeVar :: "string \<Rightarrow> cond" where
  "NodeVar name = VarC CondVarNode name"

fun evalCond :: "fail_context \<Rightarrow> cond \<Rightarrow> bool" where
  "evalCond ctx TrueC = True"
| "evalCond ctx FalseC = False"
| "evalCond ctx (VarC CondVarNode name) = (\<not> NodeFailed ctx name)"
| "evalCond ctx (VarC CondVarLink name) = (\<not> LinkFailed ctx name)"
| "evalCond ctx (AndC cs) = list_all (evalCond ctx) cs"
| "evalCond ctx (OrC cs) = list_ex (evalCond ctx) cs"
| "evalCond ctx (NotC c) = (\<not> evalCond ctx c)"

definition joinCondKey :: "string \<Rightarrow> string list \<Rightarrow> string" where
  "joinCondKey op keys = op @ ''('' @ join '','' keys @ '')''"

fun condKey :: "cond \<Rightarrow> string" where
  "condKey TrueC = ''true''"
| "condKey FalseC = ''false''"
| "condKey (VarC kind name) = ''var:'' @ condKindString kind @ '':'' @ name"
| "condKey (AndC cs) = joinCondKey ''and'' (map condKey cs)"
| "condKey (OrC cs) = joinCondKey ''or'' (map condKey cs)"
| "condKey (NotC c) = ''not('' @ condKey c @ '')''"

definition joinCond :: "string \<Rightarrow> string list \<Rightarrow> string" where
  "joinCond sep parts = ''('' @ join sep parts @ '')''"

fun condString :: "cond \<Rightarrow> string" where
  "condString TrueC = ''true''"
| "condString FalseC = ''false''"
| "condString (VarC kind name) = condKindString kind @ '':'' @ name"
| "condString (AndC cs) = joinCond '' && '' (map condString cs)"
| "condString (OrC cs) = joinCond '' || '' (map condString cs)"
| "condString (NotC c) = ''!('' @ condString c @ '')''"

section \<open>Normalisation\<close>

text \<open>
  The loop of \<open>flattenAnd\<close> over the normalised arguments appends, under one \<open>seen\<close> map of
  keys, every argument that is not \<open>true\<close>, a conjunction by its children, and returns at once
  at a \<open>false\<close>. \<open>andParts\<close> lists the candidates in the order the loop meets them,
  \<open>None\<close> standing for the early return. The keys of the result are distinct, so sorting by key
  has one outcome only.
\<close>

fun andParts :: "cond list \<Rightarrow> cond list option" where
  "andParts [] = Some []"
| "andParts (TrueC # cs) = andParts cs"
| "andParts (FalseC # cs) = None"
| "andParts (AndC children # cs) = map_option ((@) children) (andParts cs)"
| "andParts (c # cs) = map_option ((#) c) (andParts cs)"

text \<open>The rest of the loop and of the function: the \<open>seen\<close> map, the two short cases and the sort.\<close>

definition finishParts :: "cond \<Rightarrow> (cond list \<Rightarrow> cond) \<Rightarrow> cond list \<Rightarrow> cond" where
  "finishParts unit wrap parts =
     (case collectUnseen condKey [] parts of
        [] \<Rightarrow> unit
      | [c] \<Rightarrow> c
      | out \<Rightarrow> wrap (sort_key condKey out))"

definition flattenAndNormalized :: "cond list \<Rightarrow> cond" where
  "flattenAndNormalized cs =
     (case andParts cs of None \<Rightarrow> FalseC | Some parts \<Rightarrow> finishParts TrueC AndC parts)"

fun orParts :: "cond list \<Rightarrow> cond list option" where
  "orParts [] = Some []"
| "orParts (FalseC # cs) = orParts cs"
| "orParts (TrueC # cs) = None"
| "orParts (OrC children # cs) = map_option ((@) children) (orParts cs)"
| "orParts (c # cs) = map_option ((#) c) (orParts cs)"

definition flattenOrNormalized :: "cond list \<Rightarrow> cond" where
  "flattenOrNormalized cs =
     (case orParts cs of None \<Rightarrow> TrueC | Some parts \<Rightarrow> finishParts FalseC OrC parts)"

fun notNormalized :: "cond \<Rightarrow> cond" where
  "notNormalized TrueC = FalseC"
| "notNormalized FalseC = TrueC"
| "notNormalized (NotC c) = c"
| "notNormalized c = NotC c"

text \<open>
  \<open>normalizeCond\<close>, \<open>flattenAnd\<close>, \<open>flattenOr\<close> and \<open>simplifyNot\<close> call each other: the
  three callees normalise their arguments first.
\<close>

fun normalizeCond :: "cond \<Rightarrow> cond" where
  "normalizeCond (AndC cs) = flattenAndNormalized (map normalizeCond cs)"
| "normalizeCond (OrC cs) = flattenOrNormalized (map normalizeCond cs)"
| "normalizeCond (NotC c) = notNormalized (normalizeCond c)"
| "normalizeCond c = c"

definition flattenAnd :: "cond list \<Rightarrow> cond" where
  "flattenAnd cs = flattenAndNormalized (map normalizeCond cs)"

definition flattenOr :: "cond list \<Rightarrow> cond" where
  "flattenOr cs = flattenOrNormalized (map normalizeCond cs)"

definition simplifyNot :: "cond \<Rightarrow> cond" where
  "simplifyNot c = notNormalized (normalizeCond c)"

abbreviation And :: "cond list \<Rightarrow> cond" where "And cs \<equiv> flattenAnd cs"
abbreviation Or :: "cond list \<Rightarrow> cond" where "Or cs \<equiv> flattenOr cs"
abbreviation Not :: "cond \<Rightarrow> cond" where "Not c \<equiv> simplifyNot c"

section \<open>Sizes, for the functions that recur on a normalised condition\<close>

lemma size_list_append [simp]: "size_list f (xs @ ys) = size_list f xs + size_list f ys"
  by (induction xs) auto

lemma size_andParts: "andParts cs = Some ps \<Longrightarrow> size_list size ps \<le> size_list size cs"
  by (induction cs arbitrary: ps rule: andParts.induct) fastforce+

lemma size_orParts: "orParts cs = Some ps \<Longrightarrow> size_list size ps \<le> size_list size cs"
  by (induction cs arbitrary: ps rule: orParts.induct) fastforce+

lemma size_collectUnseen: "size_list size (collectUnseen key seen xs) \<le> size_list size xs"
proof (induction xs arbitrary: seen)
  case (Cons x xs)
  show ?case using Cons [of seen] Cons [of "key x # seen"] by simp
qed simp

lemma size_list_sort_key [simp]: "size_list f (sort_key key xs) = size_list f xs"
proof -
  have "size_list f xs = sum_list (map (\<lambda>x. Suc (f x)) xs)" for xs
    by (induction xs) auto
  then show ?thesis by (simp flip: sum_mset_sum_list)
qed

lemma finishParts_cases [case_names Nil One Many]:
  obtains "collectUnseen condKey [] parts = []" "finishParts unit wrap parts = unit"
        | c where "collectUnseen condKey [] parts = [c]" "finishParts unit wrap parts = c"
        | "2 \<le> length (collectUnseen condKey [] parts)"
          "finishParts unit wrap parts = wrap (sort_key condKey (collectUnseen condKey [] parts))"
proof (cases "collectUnseen condKey [] parts")
  case (Cons c cs)
  then show ?thesis using that by (cases cs) (simp_all add: finishParts_def)
qed (use that in \<open>simp add: finishParts_def\<close>)

lemma size_finishParts:
  assumes "size unit = 0" "\<And>xs. size (wrap xs) = Suc (size_list size xs)"
  shows "size (finishParts unit wrap parts) \<le> Suc (size_list size parts)"
  using size_collectUnseen [of condKey "[]" parts] assms
  by (cases parts rule: finishParts_cases [of _ unit wrap]) simp_all

lemma size_flatten:
  "size (flattenAndNormalized cs) \<le> Suc (size_list size cs)"
  "size (flattenOrNormalized cs) \<le> Suc (size_list size cs)"
proof -
  have "size (finishParts TrueC AndC ps) \<le> Suc (size_list size cs)" if "andParts cs = Some ps" for ps
    using size_andParts [OF that] size_finishParts [of TrueC AndC ps] by simp
  then show "size (flattenAndNormalized cs) \<le> Suc (size_list size cs)"
    by (simp add: flattenAndNormalized_def split: option.split)
  have "size (finishParts FalseC OrC ps) \<le> Suc (size_list size cs)" if "orParts cs = Some ps" for ps
    using size_orParts [OF that] size_finishParts [of FalseC OrC ps] by simp
  then show "size (flattenOrNormalized cs) \<le> Suc (size_list size cs)"
    by (simp add: flattenOrNormalized_def split: option.split)
qed

lemma size_list_map_le: "(\<And>x. x \<in> set xs \<Longrightarrow> size (f x) \<le> size x) \<Longrightarrow> size_list size (map f xs) \<le> size_list size xs"
  by (induction xs) (simp_all add: add_le_mono)

lemma size_normalizeCond: "size (normalizeCond c) \<le> size c"
proof (induction c rule: normalizeCond.induct)
  case (1 cs)
  then show ?case using size_flatten(1) [of "map normalizeCond cs"] size_list_map_le [of cs normalizeCond] by simp
next
  case (2 cs)
  then show ?case using size_flatten(2) [of "map normalizeCond cs"] size_list_map_le [of cs normalizeCond] by simp
next
  case (3 c)
  then show ?case by (cases "normalizeCond c") simp_all
qed simp_all

lemma size_normalized_child:
  "normalizeCond c = AndC cs \<Longrightarrow> x \<in> set cs \<Longrightarrow> size x < size c"
  "normalizeCond c = OrC cs \<Longrightarrow> x \<in> set cs \<Longrightarrow> size x < size c"
  "normalizeCond c = NotC x \<Longrightarrow> size x < size c"
  using size_normalizeCond [of c] size_list_estimation' [of x cs "size x" size]
  by (force simp: less_eq_Suc_le)+

section \<open>Counting, simplifying and expanding\<close>

function NegatedLinkCount :: "cond \<Rightarrow> nat" where
  "NegatedLinkCount c =
     (case normalizeCond c of
        NotC x \<Rightarrow> (case x of VarC CondVarLink _ \<Rightarrow> 1 | _ \<Rightarrow> 0)
      | AndC cs \<Rightarrow> sum_list (map NegatedLinkCount cs)
      | OrC cs \<Rightarrow> sum_list (map NegatedLinkCount cs)
      | _ \<Rightarrow> 0)"
  by pat_completeness auto
termination
  by (relation "measure size") (auto dest: size_normalized_child)

declare NegatedLinkCount.simps [simp del]

definition equalCond :: "cond \<Rightarrow> cond \<Rightarrow> bool" where
  "equalCond a b \<longleftrightarrow> condKey a = condKey b"

definition isNegation :: "cond \<Rightarrow> cond \<Rightarrow> bool" where
  "isNegation a b =
     (let a = normalizeCond a; b = normalizeCond b
      in if (case a of NotC n \<Rightarrow> equalCond n b | _ \<Rightarrow> False) then True
         else if (case b of NotC n \<Rightarrow> equalCond n a | _ \<Rightarrow> False) then True
         else False)"

text \<open>The two nested loops over \<open>i < j\<close> that return at the first pair satisfying a test.\<close>

fun anyPair :: "('a \<Rightarrow> 'a \<Rightarrow> bool) \<Rightarrow> 'a list \<Rightarrow> bool" where
  "anyPair P [] = False"
| "anyPair P (x # xs) = (list_ex (P x) xs \<or> anyPair P xs)"

definition allNegated :: "cond list \<Rightarrow> cond list \<Rightarrow> bool" where
  "allNegated children cs = list_all (\<lambda>child. list_ex (\<lambda>cj. isNegation child cj) cs) children"

definition simplifyAnd :: "cond list \<Rightarrow> cond" where
  "simplifyAnd cs =
     (if anyPair (\<lambda>ci cj. isNegation (normalizeCond ci) (normalizeCond cj)) cs then FalseC
      else if list_ex (\<lambda>ci. case ci of OrC children \<Rightarrow> allNegated children cs | _ \<Rightarrow> False) cs then FalseC
      else AndC cs)"

definition simplifyOr :: "cond list \<Rightarrow> cond" where
  "simplifyOr cs =
     (if anyPair (\<lambda>ci cj. isNegation (normalizeCond ci) (normalizeCond cj)) cs then TrueC
      else if list_ex (\<lambda>ci. case ci of AndC children \<Rightarrow> allNegated children cs | _ \<Rightarrow> False) cs then TrueC
      else OrC cs)"

function SimplifyCond :: "cond \<Rightarrow> cond" where
  "SimplifyCond c =
     (case normalizeCond c of
        AndC cs \<Rightarrow>
          (let norm = normalizeCond (AndC (map SimplifyCond cs))
           in case norm of FalseC \<Rightarrow> norm | AndC ac \<Rightarrow> simplifyAnd ac | _ \<Rightarrow> norm)
      | OrC cs \<Rightarrow>
          (let norm = normalizeCond (OrC (map SimplifyCond cs))
           in case norm of TrueC \<Rightarrow> norm | OrC ac \<Rightarrow> simplifyOr ac | _ \<Rightarrow> norm)
      | n \<Rightarrow> n)"
  by pat_completeness auto
termination
  by (relation "measure size") (auto dest: size_normalized_child)

declare SimplifyCond.simps [simp del]

function ExpandLinkVars :: "cond \<Rightarrow> (link_id \<rightharpoonup> link) \<Rightarrow> cond" where
  "ExpandLinkVars c linksByName =
     (case normalizeCond c of
        VarC kind name \<Rightarrow>
          (if kind \<noteq> CondVarLink then VarC kind name
           else (case linksByName name of
                   None \<Rightarrow> VarC kind name
                 | Some l \<Rightarrow> And [VarC kind name, NodeVar (linkA l), NodeVar (linkB l)]))
      | AndC cs \<Rightarrow> And (map (\<lambda>child. ExpandLinkVars child linksByName) cs)
      | OrC cs \<Rightarrow> Or (map (\<lambda>child. ExpandLinkVars child linksByName) cs)
      | NotC x \<Rightarrow> Not (ExpandLinkVars x linksByName)
      | n \<Rightarrow> n)"
  by pat_completeness auto
termination
  by (relation "measure (\<lambda>(c, _). size c)") (auto dest: size_normalized_child)

declare ExpandLinkVars.simps [simp del]

section \<open>Keys identify conditions\<close>

text \<open>
  A name that contains neither a comma nor a closing parenthesis cannot run into the punctuation of a
  key. The names the topology builder makes (node names joined by a dash) are of this kind.
\<close>

definition plainName :: "string \<Rightarrow> bool" where
  "plainName name \<longleftrightarrow> CHR '','' \<notin> set name \<and> CHR '')'' \<notin> set name"

fun plainCond :: "cond \<Rightarrow> bool" where
  "plainCond (VarC _ name) = plainName name"
| "plainCond (AndC cs) = list_all plainCond cs"
| "plainCond (OrC cs) = list_all plainCond cs"
| "plainCond (NotC c) = plainCond c"
| "plainCond _ = True"

definition keyStop :: "string \<Rightarrow> bool" where
  "keyStop r \<longleftrightarrow> r = [] \<or> hd r = CHR '','' \<or> hd r = CHR '')''"

lemma condKey_nonempty [simp]: "condKey c \<noteq> []"
  by (cases c) (auto simp: joinCondKey_def)

lemma condKey_not_close:
  "condKey c @ r \<noteq> CHR '')'' # s" "CHR '')'' # s \<noteq> condKey c @ r"
  by (cases c; simp add: joinCondKey_def)+

lemma joined_keys_unique:
  assumes "\<And>c d r s. c \<in> set cs \<Longrightarrow> plainCond d \<Longrightarrow> keyStop r \<Longrightarrow> keyStop s \<Longrightarrow>
      condKey c @ r = condKey d @ s \<Longrightarrow> c = d \<and> r = s"
    and "list_all plainCond ds"
    and "join '','' (map condKey cs) @ CHR '')'' # r = join '','' (map condKey ds) @ CHR '')'' # s"
  shows "cs = ds \<and> r = s"
  using assms
proof (induction cs arbitrary: ds)
  case Nil
  then show ?case by (cases ds) (simp_all add: join_Cons condKey_not_close)
next
  case (Cons c cs)
  show ?case
  proof (cases ds)
    case Nil
    then show ?thesis using Cons.prems(3) by (simp add: join_Cons condKey_not_close)
  next
    case ds: (Cons d ds')
    let ?R = "\<lambda>cs r. if cs = [] then CHR '')'' # r else CHR '','' # join '','' (map condKey cs) @ CHR '')'' # r"
    have "condKey c @ ?R cs r = condKey d @ ?R ds' s"
      using Cons.prems(3) by (auto simp: ds join_Cons)
    moreover have "keyStop (?R cs r)" "keyStop (?R ds' s)" by (simp_all add: keyStop_def)
    ultimately have eq: "c = d" "?R cs r = ?R ds' s"
      using Cons.prems(1) [of c d "?R cs r" "?R ds' s"] Cons.prems(2) by (simp_all add: ds)
    show ?thesis
    proof (cases "cs = []")
      case True
      then show ?thesis using eq by (auto simp: ds split: if_splits)
    next
      case False
      then have "join '','' (map condKey cs) @ CHR '')'' # r = join '','' (map condKey ds') @ CHR '')'' # s"
        using eq(2) by (auto split: if_splits)
      then show ?thesis using Cons.IH [of ds'] Cons.prems eq(1) by (auto simp: ds)
    qed
  qed
qed

lemma condKey_unique:
  "plainCond c \<Longrightarrow> plainCond d \<Longrightarrow> keyStop r \<Longrightarrow> keyStop s \<Longrightarrow> condKey c @ r = condKey d @ s \<Longrightarrow> c = d \<and> r = s"
proof (induction c arbitrary: d r s)
  case (VarC k name)
  then obtain k' name' where d: "d = VarC k' name'"
    by (cases d; cases k) (auto simp: joinCondKey_def)
  with VarC have "k = k'" "name @ r = name' @ s"
    by (cases k; cases k'; simp)+
  moreover have "name = name' \<and> r = s"
    using VarC \<open>name @ r = name' @ s\<close> d append_stop_unique [of name r name' s "\<lambda>c. c = CHR '','' \<or> c = CHR '')''"]
    by (auto simp: plainName_def keyStop_def)
  ultimately show ?case using d by simp
next
  case (AndC cs)
  then obtain ds where d: "d = AndC ds" by (cases d) (auto simp: joinCondKey_def)
  have "cs = ds \<and> r = s"
    by (rule joined_keys_unique [of cs]) (use AndC d in \<open>auto simp: joinCondKey_def list_all_iff\<close>)
  then show ?case using d by simp
next
  case (OrC cs)
  then obtain ds where d: "d = OrC ds" by (cases d) (auto simp: joinCondKey_def)
  have "cs = ds \<and> r = s"
    by (rule joined_keys_unique [of cs]) (use OrC d in \<open>auto simp: joinCondKey_def list_all_iff\<close>)
  then show ?case using d by simp
next
  case (NotC c)
  then obtain e where d: "d = NotC e" by (cases d) (auto simp: joinCondKey_def)
  have "c = e \<and> CHR '')'' # r = CHR '')'' # s"
    by (rule NotC.IH) (use NotC.prems d in \<open>auto simp: keyStop_def\<close>)
  then show ?case using d by simp
next
  case TrueC
  then show ?case by (cases d) (simp_all add: joinCondKey_def)
next
  case FalseC
  then show ?case by (cases d) (simp_all add: joinCondKey_def)
qed

lemma condKey_inject: "plainCond c \<Longrightarrow> plainCond d \<Longrightarrow> condKey c = condKey d \<longleftrightarrow> c = d"
  using condKey_unique [of c d "[]" "[]"] by (auto simp: keyStop_def)

section \<open>Normalisation preserves meaning\<close>

lemma inj_on_condKey: "list_all plainCond cs \<Longrightarrow> inj_on condKey (set cs)"
  by (auto simp: inj_on_def list_all_iff condKey_inject)

lemma set_unseen_conds: "list_all plainCond cs \<Longrightarrow> set (collectUnseen condKey [] cs) = set cs"
  by (rule set_collectUnseen_inj) (simp add: inj_on_condKey)

lemma finishParts_eval:
  assumes "list_all plainCond ps"
  shows "evalCond ctx (finishParts TrueC AndC ps) = list_all (evalCond ctx) ps"
    and "evalCond ctx (finishParts FalseC OrC ps) = list_ex (evalCond ctx) ps"
proof -
  note sets = set_unseen_conds [OF assms, symmetric]
  show "evalCond ctx (finishParts TrueC AndC ps) = list_all (evalCond ctx) ps"
    by (cases ps rule: finishParts_cases [of _ TrueC AndC]) (simp_all add: list_all_iff sets)
  show "evalCond ctx (finishParts FalseC OrC ps) = list_ex (evalCond ctx) ps"
    by (cases ps rule: finishParts_cases [of _ FalseC OrC]) (simp_all add: list_ex_iff sets)
qed

lemma andParts_None: "andParts cs = None \<longleftrightarrow> FalseC \<in> set cs"
  by (induction cs rule: andParts.induct) auto

lemma orParts_None: "orParts cs = None \<longleftrightarrow> TrueC \<in> set cs"
  by (induction cs rule: orParts.induct) auto

lemma andParts_eval: "andParts cs = Some ps \<Longrightarrow> list_all (evalCond ctx) ps = list_all (evalCond ctx) cs"
  by (induction cs arbitrary: ps rule: andParts.induct) auto

lemma orParts_eval: "orParts cs = Some ps \<Longrightarrow> list_ex (evalCond ctx) ps = list_ex (evalCond ctx) cs"
  by (induction cs arbitrary: ps rule: orParts.induct) auto

lemma andParts_plain: "andParts cs = Some ps \<Longrightarrow> list_all plainCond cs \<Longrightarrow> list_all plainCond ps"
  by (induction cs arbitrary: ps rule: andParts.induct) auto

lemma orParts_plain: "orParts cs = Some ps \<Longrightarrow> list_all plainCond cs \<Longrightarrow> list_all plainCond ps"
  by (induction cs arbitrary: ps rule: orParts.induct) auto

lemma finishParts_plain:
  assumes "list_all plainCond ps" "plainCond unit" "\<And>xs. list_all plainCond xs \<Longrightarrow> plainCond (wrap xs)"
  shows "plainCond (finishParts unit wrap ps)"
  using assms set_unseen_conds [OF assms(1)]
  by (cases ps rule: finishParts_cases [of _ unit wrap]) (auto simp: list_all_iff)

lemma flattenAndNormalized_eval:
  assumes "list_all plainCond cs"
  shows "evalCond ctx (flattenAndNormalized cs) = list_all (evalCond ctx) cs"
proof (cases "andParts cs")
  case None
  moreover from None have "FalseC \<in> set cs" by (simp only: andParts_None)
  ultimately show ?thesis by (auto simp: flattenAndNormalized_def list_all_iff intro!: bexI [of _ FalseC])
next
  case (Some ps)
  then show ?thesis using andParts_plain [OF Some assms]
    by (simp add: flattenAndNormalized_def finishParts_eval andParts_eval)
qed

lemma flattenOrNormalized_eval:
  assumes "list_all plainCond cs"
  shows "evalCond ctx (flattenOrNormalized cs) = list_ex (evalCond ctx) cs"
proof (cases "orParts cs")
  case None
  moreover from None have "TrueC \<in> set cs" by (simp only: orParts_None)
  ultimately show ?thesis by (auto simp: flattenOrNormalized_def list_ex_iff intro!: bexI [of _ TrueC])
next
  case (Some ps)
  then show ?thesis using orParts_plain [OF Some assms]
    by (simp add: flattenOrNormalized_def finishParts_eval orParts_eval)
qed

lemma notNormalized_eval: "evalCond ctx (notNormalized c) = (\<not> evalCond ctx c)"
  by (cases c rule: notNormalized.cases) simp_all

lemma flatten_plain:
  "list_all plainCond cs \<Longrightarrow> plainCond (flattenAndNormalized cs)"
  "list_all plainCond cs \<Longrightarrow> plainCond (flattenOrNormalized cs)"
  "plainCond c \<Longrightarrow> plainCond (notNormalized c)"
  by (auto simp: flattenAndNormalized_def flattenOrNormalized_def
       intro!: finishParts_plain intro: andParts_plain orParts_plain split: option.split)
     (cases c rule: notNormalized.cases; simp)

lemma plain_normalizeCond: "plainCond c \<Longrightarrow> plainCond (normalizeCond c)"
  by (induction c rule: normalizeCond.induct) (auto simp: list_all_iff intro!: flatten_plain)

lemma normalizeCond_eval: "plainCond c \<Longrightarrow> evalCond ctx (normalizeCond c) = evalCond ctx c"
proof (induction c rule: normalizeCond.induct)
  case (1 cs)
  then have "list_all plainCond (map normalizeCond cs)"
    by (simp add: list_all_iff plain_normalizeCond)
  then show ?case using 1 by (simp add: flattenAndNormalized_eval list_all_iff)
next
  case (2 cs)
  then have "list_all plainCond (map normalizeCond cs)"
    by (simp add: list_all_iff plain_normalizeCond)
  then show ?case using 2 by (simp add: flattenOrNormalized_eval list_ex_iff list_all_iff)
qed (simp_all add: notNormalized_eval)

lemma And_eval: "list_all plainCond cs \<Longrightarrow> evalCond ctx (And cs) = list_all (evalCond ctx) cs"
  using normalizeCond_eval [of "AndC cs" ctx] by (simp add: flattenAnd_def)

lemma Or_eval: "list_all plainCond cs \<Longrightarrow> evalCond ctx (Or cs) = list_ex (evalCond ctx) cs"
  using normalizeCond_eval [of "OrC cs" ctx] by (simp add: flattenOr_def)

lemma Not_eval: "plainCond c \<Longrightarrow> evalCond ctx (Not c) = (\<not> evalCond ctx c)"
  using normalizeCond_eval [of "NotC c" ctx] by (simp add: simplifyNot_def)

lemma plain_And: "list_all plainCond cs \<Longrightarrow> plainCond (And cs)"
  using plain_normalizeCond [of "AndC cs"] by (simp add: flattenAnd_def)

lemma plain_Or: "list_all plainCond cs \<Longrightarrow> plainCond (Or cs)"
  using plain_normalizeCond [of "OrC cs"] by (simp add: flattenOr_def)

lemma plain_Not: "plainCond c \<Longrightarrow> plainCond (Not c)"
  using plain_normalizeCond [of "NotC c"] by (simp add: simplifyNot_def)

section \<open>Normal forms\<close>

text \<open>
  What \<open>normalizeCond\<close> returns: conjunctions and disjunctions have at least two children, sorted by
  distinct keys, none of them constant or of the connective's own kind; a negation is of a variable, a
  conjunction or a disjunction.
\<close>

fun isConst :: "cond \<Rightarrow> bool" where
  "isConst TrueC = True"
| "isConst FalseC = True"
| "isConst _ = False"

fun isAnd :: "cond \<Rightarrow> bool" where
  "isAnd (AndC _) = True"
| "isAnd _ = False"

fun isOr :: "cond \<Rightarrow> bool" where
  "isOr (OrC _) = True"
| "isOr _ = False"

fun isNot :: "cond \<Rightarrow> bool" where
  "isNot (NotC _) = True"
| "isNot _ = False"

definition sortedChildren :: "cond list \<Rightarrow> bool" where
  "sortedChildren cs \<longleftrightarrow> 2 \<le> length cs \<and> sorted (map condKey cs) \<and> distinct (map condKey cs)"

fun normalCond :: "cond \<Rightarrow> bool" where
  "normalCond (AndC cs) = (sortedChildren cs \<and> list_all (\<lambda>c. normalCond c \<and> \<not> isConst c \<and> \<not> isAnd c) cs)"
| "normalCond (OrC cs) = (sortedChildren cs \<and> list_all (\<lambda>c. normalCond c \<and> \<not> isConst c \<and> \<not> isOr c) cs)"
| "normalCond (NotC c) = (normalCond c \<and> \<not> isConst c \<and> \<not> isNot c)"
| "normalCond _ = True"

lemma sortedChildren_unseen:
  "2 \<le> length (collectUnseen condKey [] ps) \<Longrightarrow> sortedChildren (sort_key condKey (collectUnseen condKey [] ps))"
  using distinct_keys_collectUnseen [of condKey "[]" ps]
  by (simp add: sortedChildren_def distinct_map)

lemma finishParts_normal:
  "list_all (\<lambda>c. normalCond c \<and> \<not> isConst c \<and> \<not> isAnd c) ps \<Longrightarrow> normalCond (finishParts TrueC AndC ps)"
  "list_all (\<lambda>c. normalCond c \<and> \<not> isConst c \<and> \<not> isOr c) ps \<Longrightarrow> normalCond (finishParts FalseC OrC ps)"
proof -
  note sub = set_collectUnseen_subset [of condKey "[]" ps]
  show "list_all (\<lambda>c. normalCond c \<and> \<not> isConst c \<and> \<not> isAnd c) ps \<Longrightarrow> normalCond (finishParts TrueC AndC ps)"
    by (cases ps rule: finishParts_cases [of _ TrueC AndC])
       (use sub in \<open>auto simp: list_all_iff sortedChildren_unseen\<close>)
  show "list_all (\<lambda>c. normalCond c \<and> \<not> isConst c \<and> \<not> isOr c) ps \<Longrightarrow> normalCond (finishParts FalseC OrC ps)"
    by (cases ps rule: finishParts_cases [of _ FalseC OrC])
       (use sub in \<open>auto simp: list_all_iff sortedChildren_unseen\<close>)
qed

lemma andParts_normal:
  "andParts cs = Some ps \<Longrightarrow> list_all normalCond cs \<Longrightarrow> list_all (\<lambda>c. normalCond c \<and> \<not> isConst c \<and> \<not> isAnd c) ps"
  by (induction cs arbitrary: ps rule: andParts.induct) auto

lemma orParts_normal:
  "orParts cs = Some ps \<Longrightarrow> list_all normalCond cs \<Longrightarrow> list_all (\<lambda>c. normalCond c \<and> \<not> isConst c \<and> \<not> isOr c) ps"
  by (induction cs arbitrary: ps rule: orParts.induct) auto

lemma notNormalized_normal: "normalCond c \<Longrightarrow> normalCond (notNormalized c)"
  by (cases c rule: notNormalized.cases) auto

lemma normal_normalizeCond [simp]: "normalCond (normalizeCond c)"
proof (induction c rule: normalizeCond.induct)
  case (1 cs)
  then have "list_all normalCond (map normalizeCond cs)" by (simp add: list_all_iff)
  then show ?case
    by (auto simp: flattenAndNormalized_def split: option.split intro: finishParts_normal andParts_normal)
next
  case (2 cs)
  then have "list_all normalCond (map normalizeCond cs)" by (simp add: list_all_iff)
  then show ?case
    by (auto simp: flattenOrNormalized_def split: option.split intro: finishParts_normal orParts_normal)
qed (auto intro: notNormalized_normal)

lemma finishParts_sorted: "sortedChildren cs \<Longrightarrow> finishParts unit wrap cs = wrap cs"
  by (cases cs rule: finishParts_cases [of _ unit wrap])
     (auto simp: sortedChildren_def collectUnseen_distinct_id sort_key_sorted)

lemma andParts_id: "list_all (\<lambda>c. \<not> isConst c \<and> \<not> isAnd c) cs \<Longrightarrow> andParts cs = Some cs"
  by (induction cs rule: andParts.induct) auto

lemma orParts_id: "list_all (\<lambda>c. \<not> isConst c \<and> \<not> isOr c) cs \<Longrightarrow> orParts cs = Some cs"
  by (induction cs rule: orParts.induct) auto

lemma normalizeCond_normal: "normalCond c \<Longrightarrow> normalizeCond c = c"
proof (induction c rule: normalCond.induct)
  case (1 cs)
  then have "map normalizeCond cs = cs" "list_all (\<lambda>c. \<not> isConst c \<and> \<not> isAnd c) cs"
    by (auto simp: list_all_iff intro: map_idI)
  then show ?case using 1 by (simp add: flattenAndNormalized_def andParts_id finishParts_sorted)
next
  case (2 cs)
  then have "map normalizeCond cs = cs" "list_all (\<lambda>c. \<not> isConst c \<and> \<not> isOr c) cs"
    by (auto simp: list_all_iff intro: map_idI)
  then show ?case using 2 by (simp add: flattenOrNormalized_def orParts_id finishParts_sorted)
next
  case (3 c)
  then show ?case by (cases c) auto
qed auto

section \<open>Simplification and expansion preserve meaning\<close>

lemma isNegation_eval:
  assumes "isNegation a b" "plainCond a" "plainCond b"
  shows "evalCond ctx a = (\<not> evalCond ctx b)"
proof -
  let ?a = "normalizeCond a" and ?b = "normalizeCond b"
  have plain: "plainCond ?a" "plainCond ?b" using assms by (simp_all add: plain_normalizeCond)
  consider n where "?a = NotC n" "condKey n = condKey ?b" | n where "?b = NotC n" "condKey n = condKey ?a"
    using assms(1) unfolding isNegation_def Let_def equalCond_def by (auto split: cond.splits if_splits)
  then have "evalCond ctx ?a = (\<not> evalCond ctx ?b)"
  proof cases
    case 1
    then have "n = ?b" using plain by (simp add: condKey_inject)
    with 1 show ?thesis by simp
  next
    case 2
    then have "n = ?a" using plain by (simp add: condKey_inject)
    with 2 show ?thesis by simp
  qed
  then show ?thesis using assms by (simp add: normalizeCond_eval)
qed

lemma anyPairE:
  assumes "anyPair P xs"
  obtains x y where "x \<in> set xs" "y \<in> set xs" "P x y"
  using assms by (induction xs) (auto simp: list_ex_iff)

lemma negationPair:
  assumes "anyPair (\<lambda>ci cj. isNegation (normalizeCond ci) (normalizeCond cj)) cs" "list_all plainCond cs"
  obtains a b where "a \<in> set cs" "b \<in> set cs" "evalCond ctx a = (\<not> evalCond ctx b)"
proof -
  obtain a b where ab: "a \<in> set cs" "b \<in> set cs" "isNegation (normalizeCond a) (normalizeCond b)"
    using assms(1) by (rule anyPairE)
  then have "evalCond ctx (normalizeCond a) = (\<not> evalCond ctx (normalizeCond b))"
    using assms(2) by (intro isNegation_eval) (auto simp: list_all_iff plain_normalizeCond)
  then show thesis using that ab assms(2) by (auto simp: list_all_iff normalizeCond_eval)
qed

lemma allNegated_eval:
  assumes "allNegated children cs" "list_all plainCond children" "list_all plainCond cs" "x \<in> set children"
  obtains y where "y \<in> set cs" "evalCond ctx x = (\<not> evalCond ctx y)"
  using assms isNegation_eval unfolding allNegated_def list_all_iff list_ex_iff by blast

lemma simplifyAnd_eval:
  assumes "list_all plainCond cs"
  shows "evalCond ctx (simplifyAnd cs) = list_all (evalCond ctx) cs"
proof (cases "anyPair (\<lambda>ci cj. isNegation (normalizeCond ci) (normalizeCond cj)) cs")
  case True
  then obtain a b where "a \<in> set cs" "b \<in> set cs" "evalCond ctx a = (\<not> evalCond ctx b)"
    using assms by (rule negationPair)
  then show ?thesis using True by (auto simp: simplifyAnd_def list_all_iff)
next
  case no_pair: False
  show ?thesis
  proof (cases "list_ex (\<lambda>ci. case ci of OrC children \<Rightarrow> allNegated children cs | _ \<Rightarrow> False) cs")
    case True
    then obtain ci where "ci \<in> set cs" "case ci of OrC children \<Rightarrow> allNegated children cs | _ \<Rightarrow> False"
      by (auto simp only: list_ex_iff)
    then obtain children where c: "OrC children \<in> set cs" "allNegated children cs"
      by - (cases ci; auto)
    have plain: "list_all plainCond children" using c(1) assms by (auto simp: list_all_iff)
    have "\<not> list_all (evalCond ctx) cs"
    proof
      assume all: "list_all (evalCond ctx) cs"
      then have "evalCond ctx (OrC children)" using c(1) unfolding list_all_iff by blast
      then obtain x where "x \<in> set children" "evalCond ctx x" by (auto simp: list_ex_iff)
      then show False using allNegated_eval [OF c(2) plain assms] all by (metis list_all_iff)
    qed
    then show ?thesis using True by (simp add: simplifyAnd_def)
  qed (use no_pair in \<open>simp add: simplifyAnd_def\<close>)
qed

lemma simplifyOr_eval:
  assumes "list_all plainCond cs"
  shows "evalCond ctx (simplifyOr cs) = list_ex (evalCond ctx) cs"
proof (cases "anyPair (\<lambda>ci cj. isNegation (normalizeCond ci) (normalizeCond cj)) cs")
  case True
  then obtain a b where "a \<in> set cs" "b \<in> set cs" "evalCond ctx a = (\<not> evalCond ctx b)"
    using assms by (rule negationPair)
  then show ?thesis using True by (auto simp: simplifyOr_def list_ex_iff)
next
  case no_pair: False
  show ?thesis
  proof (cases "list_ex (\<lambda>ci. case ci of AndC children \<Rightarrow> allNegated children cs | _ \<Rightarrow> False) cs")
    case True
    then obtain ci where "ci \<in> set cs" "case ci of AndC children \<Rightarrow> allNegated children cs | _ \<Rightarrow> False"
      by (auto simp only: list_ex_iff)
    then obtain children where c: "AndC children \<in> set cs" "allNegated children cs"
      by - (cases ci; auto)
    have plain: "list_all plainCond children" using c(1) assms by (auto simp: list_all_iff)
    have "list_ex (evalCond ctx) cs"
    proof (cases "list_all (evalCond ctx) children")
      case True
      then show ?thesis using c(1) by (force simp: list_ex_iff)
    next
      case False
      then obtain x where "x \<in> set children" "\<not> evalCond ctx x" by (auto simp: list_all_iff)
      then show ?thesis using allNegated_eval [OF c(2) plain assms] by (metis list_ex_iff)
    qed
    then show ?thesis using True by (simp add: simplifyOr_def)
  qed (use no_pair in \<open>simp add: simplifyOr_def\<close>)
qed

lemma plain_simplify:
  "list_all plainCond cs \<Longrightarrow> plainCond (simplifyAnd cs)"
  "list_all plainCond cs \<Longrightarrow> plainCond (simplifyOr cs)"
  by (simp_all add: simplifyAnd_def simplifyOr_def)

lemma simplify_last_step:
  assumes "plainCond n"
  shows "plainCond (case n of FalseC \<Rightarrow> n | AndC ac \<Rightarrow> simplifyAnd ac | _ \<Rightarrow> n)"
    and "evalCond ctx (case n of FalseC \<Rightarrow> n | AndC ac \<Rightarrow> simplifyAnd ac | _ \<Rightarrow> n) = evalCond ctx n"
    and "plainCond (case n of TrueC \<Rightarrow> n | OrC ac \<Rightarrow> simplifyOr ac | _ \<Rightarrow> n)"
    and "evalCond ctx (case n of TrueC \<Rightarrow> n | OrC ac \<Rightarrow> simplifyOr ac | _ \<Rightarrow> n) = evalCond ctx n"
  using assms by (cases n; simp add: simplifyAnd_eval simplifyOr_eval plain_simplify)+

lemma SimplifyCond_plain_eval:
  "plainCond c \<Longrightarrow> plainCond (SimplifyCond c) \<and> evalCond ctx (SimplifyCond c) = evalCond ctx c"
proof (induction c rule: SimplifyCond.induct)
  case (1 c)
  have plain: "plainCond (normalizeCond c)" using 1 by (simp add: plain_normalizeCond)
  show ?case
  proof (cases "normalizeCond c")
    case (AndC cs)
    have IH: "plainCond (SimplifyCond x) \<and> evalCond ctx (SimplifyCond x) = evalCond ctx x" if "x \<in> set cs" for x
      using 1 AndC that plain by (simp add: list_all_iff)
    let ?m = "AndC (map SimplifyCond cs)"
    have m: "plainCond ?m" "evalCond ctx ?m = evalCond ctx c"
      using IH AndC normalizeCond_eval [OF "1.prems", of ctx] by (auto simp: list_all_iff)
    have n: "plainCond (normalizeCond ?m)" "evalCond ctx (normalizeCond ?m) = evalCond ctx c"
      using m by (simp_all only: plain_normalizeCond normalizeCond_eval)
    have "SimplifyCond c = (case normalizeCond ?m of FalseC \<Rightarrow> normalizeCond ?m | AndC ac \<Rightarrow> simplifyAnd ac | _ \<Rightarrow> normalizeCond ?m)"
      by (subst SimplifyCond.simps) (simp add: AndC Let_def del: normalizeCond.simps)
    then show ?thesis using n by (simp only: simplify_last_step simp_thms)
  next
    case (OrC cs)
    have IH: "plainCond (SimplifyCond x) \<and> evalCond ctx (SimplifyCond x) = evalCond ctx x" if "x \<in> set cs" for x
      using 1 OrC that plain by (simp add: list_all_iff)
    let ?m = "OrC (map SimplifyCond cs)"
    have m: "plainCond ?m" "evalCond ctx ?m = evalCond ctx c"
      using IH OrC normalizeCond_eval [OF "1.prems", of ctx] by (auto simp: list_all_iff list_ex_iff)
    have n: "plainCond (normalizeCond ?m)" "evalCond ctx (normalizeCond ?m) = evalCond ctx c"
      using m by (simp_all only: plain_normalizeCond normalizeCond_eval)
    have "SimplifyCond c = (case normalizeCond ?m of TrueC \<Rightarrow> normalizeCond ?m | OrC ac \<Rightarrow> simplifyOr ac | _ \<Rightarrow> normalizeCond ?m)"
      by (subst SimplifyCond.simps) (simp add: OrC Let_def del: normalizeCond.simps)
    then show ?thesis using n by (simp only: simplify_last_step simp_thms)
  qed (use 1 plain normalizeCond_eval [OF "1.prems", of ctx] in \<open>simp_all add: SimplifyCond.simps [of c]\<close>)
qed

lemmas plain_SimplifyCond = SimplifyCond_plain_eval [THEN conjunct1]
  and SimplifyCond_eval = SimplifyCond_plain_eval [THEN conjunct2]

section \<open>Expanding link variables\<close>

text \<open>
  \<open>ExpandLinkVars\<close> makes the end nodes of a link explicit, so that the result can be evaluated
  without the link map. The end nodes of the links must themselves have plain names.
\<close>

definition plainLinks :: "(link_id \<rightharpoonup> link) \<Rightarrow> bool" where
  "plainLinks m \<longleftrightarrow> (\<forall>n l. m n = Some l \<longrightarrow> plainName (linkA l) \<and> plainName (linkB l))"

definition withLinks :: "fail_context \<Rightarrow> (link_id \<rightharpoonup> link) \<Rightarrow> fail_context" where
  "withLinks ctx m = ctx\<lparr>LinksByName := m\<rparr>"

lemma LinkFailed_expand:
  assumes "m' \<subseteq>\<^sub>m m"
  shows "LinkFailed (withLinks ctx m) name \<longleftrightarrow>
     LinkFailed (withLinks ctx m') name
     \<or> (\<exists>l. m name = Some l \<and> (NodeFailed (withLinks ctx m) (linkA l) \<or> NodeFailed (withLinks ctx m) (linkB l)))"
proof (cases "m' name")
  case (Some l)
  moreover have "m name = Some l" using assms Some by (metis map_le_def domI)
  ultimately show ?thesis by (auto simp: LinkFailed_def NodeFailed_def withLinks_def)
qed (auto simp: LinkFailed_def NodeFailed_def withLinks_def split: option.splits)

lemma NodeFailed_withLinks [simp]: "NodeFailed (withLinks ctx m) n = NodeFailed ctx n"
  by (simp add: NodeFailed_def withLinks_def)

lemma ExpandLinkVars_within:
  "plainCond c \<Longrightarrow> plainLinks m \<Longrightarrow> m' \<subseteq>\<^sub>m m \<Longrightarrow> plainCond (ExpandLinkVars c m)
     \<and> evalCond (withLinks ctx m') (ExpandLinkVars c m) = evalCond (withLinks ctx m) c"
proof (induction c m rule: ExpandLinkVars.induct)
  case (1 c m)
  have plain: "plainCond (normalizeCond c)" using 1 by (simp add: plain_normalizeCond)
  have norm: "evalCond (withLinks ctx m) c = evalCond (withLinks ctx m) (normalizeCond c)"
    using 1 by (simp add: normalizeCond_eval)
  note step = ExpandLinkVars.simps [of c m]
  note failed = LinkFailed_expand [OF "1.prems"(3), of ctx]
  show ?case
  proof (cases "normalizeCond c")
    case (VarC kind name)
    show ?thesis
    proof (cases "kind = CondVarLink \<and> m name \<noteq> None")
      case True
      then obtain l where l: "m name = Some l" "kind = CondVarLink" by auto
      have names: "list_all plainCond [VarC kind name, NodeVar (linkA l), NodeVar (linkB l)]"
        using VarC plain "1.prems"(2) [unfolded plainLinks_def, rule_format, OF l(1)] by (simp add: NodeVar_def)
      show ?thesis
        using norm step names by (simp add: VarC l And_eval plain_And failed [of name] NodeVar_def)
    next
      case False
      then show ?thesis
        using plain norm step by (cases kind) (auto simp: VarC failed [of name] split: option.splits)
    qed
  next
    case (AndC cs)
    then have "list_all plainCond (map (\<lambda>x. ExpandLinkVars x m) cs)"
      using 1 plain by (simp add: list_all_iff)
    then show ?thesis
      using 1 AndC plain norm step by (simp add: And_eval plain_And list_all_iff)
  next
    case (OrC cs)
    then have "list_all plainCond (map (\<lambda>x. ExpandLinkVars x m) cs)"
      using 1 plain by (simp add: list_all_iff)
    then show ?thesis
      using 1 OrC plain norm step by (simp add: Or_eval plain_Or list_all_iff list_ex_iff)
  next
    case (NotC x)
    then show ?thesis using 1 plain norm step by (simp add: Not_eval plain_Not)
  qed (use plain norm step in simp_all)
qed

lemmas ExpandLinkVars_plain_eval = ExpandLinkVars_within [OF _ _ map_le_empty]

section \<open>What a condition denotes\<close>

text \<open>
  A condition over the links \<open>m\<close> denotes a property of failure sets when it evaluates to that
  property both with the link map at hand, as the simulation evaluates it, and with none or part of
  it, as the solvers do.
\<close>

definition denotes :: "(link_id \<rightharpoonup> link) \<Rightarrow> cond \<Rightarrow> (fail_set \<Rightarrow> bool) \<Rightarrow> bool" where
  "denotes m c P \<longleftrightarrow> plainCond c \<and> (\<forall>F m'. m' \<subseteq>\<^sub>m m \<longrightarrow> evalCond \<lparr>Failures = F, LinksByName = m'\<rparr> c = P F)"

lemma denotes_eval: "denotes m c P \<Longrightarrow> evalCond \<lparr>Failures = F, LinksByName = m\<rparr> c = P F"
  by (simp add: denotes_def)

lemma denotes_cong: "denotes m c P \<Longrightarrow> (\<And>F. P F = Q F) \<Longrightarrow> denotes m c Q"
  by (simp add: denotes_def)

lemma denotes_const [intro]: "denotes m TrueC (\<lambda>_. True)" "denotes m FalseC (\<lambda>_. False)"
  by (simp_all add: denotes_def)

lemma denotes_NodeVar: "plainName n \<Longrightarrow> denotes m (NodeVar n) (\<lambda>F. Nodes F n \<noteq> Some True)"
  by (simp add: denotes_def NodeVar_def NodeFailed_def)

lemma denotes_Not: "denotes m c P \<Longrightarrow> denotes m (Not c) (\<lambda>F. \<not> P F)"
  by (simp add: denotes_def plain_Not Not_eval)

lemma denotes_And:
  "list_all2 (denotes m) cs Ps \<Longrightarrow> denotes m (And cs) (\<lambda>F. list_all (\<lambda>P. P F) Ps)"
proof -
  assume cs: "list_all2 (denotes m) cs Ps"
  then have plain: "list_all plainCond cs"
    by (induction rule: list_all2_induct) (simp_all add: denotes_def)
  have "list_all (evalCond \<lparr>Failures = F, LinksByName = m'\<rparr>) cs = list_all (\<lambda>P. P F) Ps" if "m' \<subseteq>\<^sub>m m" for F m'
    using cs by (induction rule: list_all2_induct) (simp_all add: denotes_def that)
  then show ?thesis using plain by (simp add: denotes_def plain_And And_eval)
qed

lemma denotes_Or:
  "list_all2 (denotes m) cs Ps \<Longrightarrow> denotes m (Or cs) (\<lambda>F. list_ex (\<lambda>P. P F) Ps)"
proof -
  assume cs: "list_all2 (denotes m) cs Ps"
  then have plain: "list_all plainCond cs"
    by (induction rule: list_all2_induct) (simp_all add: denotes_def)
  have "list_ex (evalCond \<lparr>Failures = F, LinksByName = m'\<rparr>) cs = list_ex (\<lambda>P. P F) Ps" if "m' \<subseteq>\<^sub>m m" for F m'
    using cs by (induction rule: list_all2_induct) (simp_all add: denotes_def that)
  then show ?thesis using plain by (simp add: denotes_def plain_Or Or_eval)
qed

lemma denotes_Or_map:
  "(\<And>x. x \<in> set xs \<Longrightarrow> denotes m (f x) (\<lambda>F. P x F)) \<Longrightarrow> denotes m (Or (map f xs)) (\<lambda>F. \<exists>x \<in> set xs. P x F)"
proof -
  assume "\<And>x. x \<in> set xs \<Longrightarrow> denotes m (f x) (\<lambda>F. P x F)"
  then have "list_all2 (denotes m) (map f xs) (map (\<lambda>x F. P x F) xs)"
    by (simp add: list.rel_map list_all2_same)
  from denotes_Or [OF this] show ?thesis by (rule denotes_cong) (auto simp: list_ex_iff)
qed

lemma denotes_And2: "denotes m a P \<Longrightarrow> denotes m b Q \<Longrightarrow> denotes m (And [a, b]) (\<lambda>F. P F \<and> Q F)"
  using denotes_And [of m "[a, b]" "[P, Q]"] by simp

lemma denotes_ExpandLinkVars:
  assumes "plainCond c" "plainLinks m"
  shows "denotes m (ExpandLinkVars c m) (\<lambda>F. evalCond \<lparr>Failures = F, LinksByName = m\<rparr> c)"
proof -
  have "plainCond (ExpandLinkVars c m)" using ExpandLinkVars_plain_eval [OF assms] by blast
  then show ?thesis
    using ExpandLinkVars_within [OF assms, of _ "\<lparr>Failures = F, LinksByName = m\<rparr>" for F]
    by (simp add: denotes_def withLinks_def)
qed

section \<open>Properties\<close>

text \<open>
  C29 (keys are faithful). The string keys by which conditions are deduplicated, sorted and compared
  identify conditions: two conditions over plain names have equal keys only if they are equal.
\<close>

theorem condKey_identifies:
  assumes "plainCond c" "plainCond d"
  shows "condKey c = condKey d \<longleftrightarrow> c = d"
  using assms by (rule condKey_inject)

theorem condKey_identifies_witness:
  "condKey (AndC [LinkVar ''a-b'', NotC (NodeVar ''r1'')]) \<noteq> condKey (AndC [NotC (NodeVar ''r1''), LinkVar ''a-b''])"
  by (subst condKey_identifies) (simp_all add: LinkVar_def NodeVar_def plainName_def)

text \<open>
  C11 (normalisation). Normalising a condition keeps its truth value under every failure context,
  yields the normal form (flattened, sorted by distinct keys, no constants inside, no double
  negation), and does nothing on a second application.
\<close>

theorem normalizeCond_canonical:
  assumes "plainCond c"
  shows "evalCond ctx (normalizeCond c) = evalCond ctx c
    \<and> normalCond (normalizeCond c) \<and> normalizeCond (normalizeCond c) = normalizeCond c"
  using assms by (simp add: normalizeCond_eval normalizeCond_normal)

theorem normalizeCond_canonical_witness:
  "\<forall>ctx. evalCond ctx (normalizeCond (AndC [NotC (NotC (LinkVar ''a-b'')), AndC [TrueC, LinkVar ''a-b'']]))
     = (\<not> LinkFailed ctx ''a-b'')"
  using normalizeCond_canonical [of "AndC [NotC (NotC (LinkVar ''a-b'')), AndC [TrueC, LinkVar ''a-b'']]"]
  by (simp add: LinkVar_def plainName_def)

text \<open>
  C15 (simplification). The deeper checks of \<open>SimplifyCond\<close>, which replace contradictory
  conjunctions by false and exhaustive disjunctions by true, never change the truth value.
\<close>

theorem SimplifyCond_sound:
  assumes "plainCond c"
  shows "evalCond ctx (SimplifyCond c) = evalCond ctx c"
  using assms by (rule SimplifyCond_eval)

theorem SimplifyCond_sound_witness:
  "\<forall>ctx. \<not> evalCond ctx (SimplifyCond (AndC [OrC [LinkVar ''a'', LinkVar ''b''], NotC (LinkVar ''a''), NotC (LinkVar ''b'')]))"
  by (subst SimplifyCond_sound) (simp_all add: LinkVar_def plainName_def)

text \<open>
  C17 (expanding link variables). A link is usable when neither it nor one of its end nodes is down.
  The expanded condition says so without the link map: its value under the bare failure set is the
  value of the original condition with the link map at hand.
\<close>

theorem ExpandLinkVars_sound:
  assumes "plainCond c" "plainLinks m"
  shows "evalCond (withLinks ctx Map.empty) (ExpandLinkVars c m) = evalCond (withLinks ctx m) c"
  using ExpandLinkVars_plain_eval [OF assms] by blast

theorem ExpandLinkVars_sound_witness:
  "\<exists>m ctx. plainLinks m
     \<and> \<not> evalCond (withLinks ctx Map.empty) (ExpandLinkVars (LinkVar ''a-b'') m)
     \<and> evalCond (withLinks ctx Map.empty) (LinkVar ''a-b'')"
proof -
  define m where "m = [''a-b'' \<mapsto> zeroLink\<lparr>linkA := ''a'', linkB := ''b''\<rparr>]"
  define ctx where "ctx = \<lparr>Failures = NewSet [] [''a''], LinksByName = m\<rparr>"
  have m: "plainLinks m" by (simp add: plainLinks_def m_def plainName_def)
  have "\<not> evalCond (withLinks ctx m) (LinkVar ''a-b'')"
    by (simp add: LinkVar_def LinkFailed_def withLinks_def NewSet_lookup ctx_def m_def)
  then have "\<not> evalCond (withLinks ctx Map.empty) (ExpandLinkVars (LinkVar ''a-b'') m)"
    using ExpandLinkVars_sound [OF _ m, of "LinkVar ''a-b''" ctx] by (simp add: LinkVar_def plainName_def)
  moreover have "evalCond (withLinks ctx Map.empty) (LinkVar ''a-b'')"
    by (simp add: LinkVar_def LinkFailed_def withLinks_def NewSet_lookup ctx_def)
  ultimately show ?thesis using m by blast
qed

end
