(* ===== verification/Prune.thy ===== *)
theory Prune
  imports Condition
begin

text \<open>
  \<open>internal/domain/routing/bgp/prune.go\<close>: when the propagation of a route stops because its
  condition is impossible or needs too many failures.
\<close>

datatype prune_result = PruneNone | PruneMoreThanKFailures | PruneImpossibleCondition

definition CheckPrune :: "cond \<Rightarrow> int \<Rightarrow> prune_result" where
  "CheckPrune cond maxFailures =
     (if maxFailures < 0 then PruneNone
      else (let simplified = SimplifyCond cond
            in if condKey simplified = condKey FalseC then PruneImpossibleCondition
               else if maxFailures < int (NegatedLinkCount simplified) then PruneMoreThanKFailures
               else PruneNone))"

text \<open>Conditions that need failures but offer no choice: no disjunction at the top of the conjunction.\<close>

fun choiceFree :: "cond \<Rightarrow> bool" where
  "choiceFree (OrC _) = False"
| "choiceFree (AndC cs) = list_all (\<lambda>c. \<not> isOr c) cs"
| "choiceFree _ = True"

fun negatedLink :: "cond \<Rightarrow> string option" where
  "negatedLink (NotC (VarC CondVarLink name)) = Some name"
| "negatedLink _ = None"

lemma negatedLink_SomeD: "negatedLink c = Some n \<Longrightarrow> c = NotC (VarC CondVarLink n)"
  by (induction c rule: negatedLink.induct) auto

lemma NegatedLinkCount_literal:
  "normalCond c \<Longrightarrow> \<not> isAnd c \<Longrightarrow> \<not> isOr c \<Longrightarrow> NegatedLinkCount c = (case negatedLink c of None \<Rightarrow> 0 | Some _ \<Rightarrow> 1)"
  by (subst NegatedLinkCount.simps)
     (auto simp: normalizeCond_normal split: cond.split cond_kind.split; cases c rule: negatedLink.cases; simp)

lemma set_map_filter: "n \<in> set (List.map_filter f xs) \<longleftrightarrow> (\<exists>x \<in> set xs. f x = Some n)"
  by (induction xs) (auto simp: map_filter_simps split: option.split)

lemma distinct_negatedLinks:
  assumes "distinct (map condKey cs)"
  shows "distinct (List.map_filter negatedLink cs)"
  using assms
proof (induction cs)
  case (Cons c cs)
  show ?case
  proof (cases "negatedLink c")
    case (Some n)
    have "n \<notin> set (List.map_filter negatedLink cs)"
      using Cons.prems negatedLink_SomeD [OF Some] by (force simp: set_map_filter dest!: negatedLink_SomeD)
    then show ?thesis using Cons Some by (simp add: map_filter_simps)
  qed (use Cons in \<open>simp add: map_filter_simps\<close>)
qed (simp add: map_filter_simps)

lemma sum_literals:
  "list_all (\<lambda>c. normalCond c \<and> \<not> isAnd c \<and> \<not> isOr c) cs \<Longrightarrow>
     sum_list (map NegatedLinkCount cs) = length (List.map_filter negatedLink cs)"
  by (induction cs) (auto simp: NegatedLinkCount_literal map_filter_simps split: option.split)

text \<open>The links such a condition requires to be down, one for each counted literal.\<close>

lemma NegatedLinkCount_links:
  assumes "choiceFree (normalizeCond c)"
  obtains ns where "distinct ns" "length ns = NegatedLinkCount c"
    "\<And>ctx n. evalCond ctx (normalizeCond c) \<Longrightarrow> n \<in> set ns \<Longrightarrow> LinkFailed ctx n"
proof (cases "normalizeCond c")
  case (AndC cs)
  have normal: "normalCond (AndC cs)" using AndC normal_normalizeCond [of c] by simp
  let ?ns = "List.map_filter negatedLink cs"
  have "NegatedLinkCount c = sum_list (map NegatedLinkCount cs)"
    by (subst NegatedLinkCount.simps) (simp add: AndC)
  also have "\<dots> = length ?ns"
    using normal assms by (intro sum_literals) (auto simp: AndC list_all_iff)
  finally have len: "length ?ns = NegatedLinkCount c" by simp
  have "LinkFailed ctx n" if "evalCond ctx (normalizeCond c)" "n \<in> set ?ns" for ctx n
    using that by (auto simp: AndC set_map_filter list_all_iff dest!: negatedLink_SomeD)
  moreover have "distinct ?ns" using normal by (simp add: distinct_negatedLinks sortedChildren_def)
  ultimately show thesis using that len by blast
next
  case (NotC d)
  show thesis
  proof (cases "negatedLink (NotC d)")
    case None
    then have "NegatedLinkCount c = 0"
      by (subst NegatedLinkCount.simps) (auto simp: NotC split: cond.split cond_kind.split)
    then show thesis using that [of "[]"] by simp
  next
    case (Some n)
    then have d: "d = VarC CondVarLink n" by (auto dest: negatedLink_SomeD)
    then have "NegatedLinkCount c = 1" by (subst NegatedLinkCount.simps) (simp add: NotC)
    then show thesis using that [of "[n]"] by (simp add: NotC d)
  qed
qed (use that [of "[]"] assms in \<open>simp_all add: NegatedLinkCount.simps [of c]\<close>)

section \<open>Alternatives of single link failures\<close>

abbreviation linkDowns :: "string list \<Rightarrow> cond list" where
  "linkDowns ns \<equiv> map (\<lambda>n. NotC (LinkVar n)) ns"

abbreviation sortedDowns :: "string list \<Rightarrow> cond list" where
  "sortedDowns ns \<equiv> sort_key condKey (linkDowns ns)"

lemma linkDowns_plain:
  assumes "list_all plainName ns"
  shows "plainCond (OrC (sortedDowns ns))"
  using assms by (auto simp: list_all_iff LinkVar_def)

lemma linkDowns_distinct:
  assumes "distinct ns" "list_all plainName ns"
  shows "distinct (map condKey (linkDowns ns))"
proof -
  have "list_all plainCond (linkDowns ns)" using assms(2) by (auto simp: list_all_iff LinkVar_def)
  then have "inj_on condKey (set (linkDowns ns))" by (rule inj_on_condKey)
  moreover have "distinct (linkDowns ns)" using assms(1) by (auto simp: distinct_map LinkVar_def intro: inj_onI)
  ultimately show ?thesis by (simp only: distinct_map)
qed

lemma sortedDowns_normal:
  assumes "distinct ns" "list_all plainName ns" "2 \<le> length ns"
  shows "normalCond (OrC (sortedDowns ns))"
proof -
  have "distinct (map condKey (sortedDowns ns))"
    using linkDowns_distinct [OF assms(1,2)] unfolding distinct_map [of condKey] by simp
  then have "sortedChildren (sortedDowns ns)" using assms(3) by (simp add: sortedChildren_def)
  then show ?thesis by (auto simp: list_all_iff LinkVar_def)
qed

lemma normalizeCond_linkDowns:
  assumes "distinct ns" "list_all plainName ns" "2 \<le> length ns"
  shows "normalizeCond (OrC (linkDowns ns)) = OrC (sortedDowns ns)"
proof -
  have "map normalizeCond (linkDowns ns) = linkDowns ns" by (simp add: LinkVar_def)
  moreover have "orParts (linkDowns ns) = Some (linkDowns ns)"
    by (intro orParts_id) (simp add: list_all_iff)
  moreover have "finishParts FalseC OrC (linkDowns ns) = OrC (sortedDowns ns)"
    using linkDowns_distinct [OF assms(1,2)] assms(3)
    by (cases "linkDowns ns" rule: finishParts_cases [of _ FalseC OrC]) (auto simp: collectUnseen_distinct_id)
  ultimately show ?thesis
    by (simp only: normalizeCond.simps(2) flattenOrNormalized_def option.case)
qed

lemma no_negation_of_linkDowns: "\<not> isNegation (NotC (LinkVar a)) (NotC (LinkVar b))"
  by (simp add: isNegation_def equalCond_def LinkVar_def)

lemma SimplifyCond_linkDowns:
  assumes "distinct ns" "list_all plainName ns" "2 \<le> length ns"
  shows "SimplifyCond (OrC (linkDowns ns)) = OrC (sortedDowns ns)"
proof -
  have literal: "SimplifyCond (NotC (LinkVar n)) = NotC (LinkVar n)" for n
    by (subst SimplifyCond.simps) (simp add: LinkVar_def)
  have literals: "\<exists>n. c = NotC (LinkVar n)" if "c \<in> set (sortedDowns ns)" for c using that by auto
  then have same: "map SimplifyCond (sortedDowns ns) = sortedDowns ns" using literal by (intro map_idI) force
  have "\<not> anyPair (\<lambda>ci cj. isNegation (normalizeCond ci) (normalizeCond cj)) (sortedDowns ns)"
    using literals no_negation_of_linkDowns by (auto elim!: anyPairE simp: LinkVar_def)
  moreover have "\<not> list_ex (\<lambda>ci. case ci of AndC children \<Rightarrow> allNegated children (sortedDowns ns) | _ \<Rightarrow> False) (sortedDowns ns)"
    by (auto simp: list_ex_iff)
  ultimately have "simplifyOr (sortedDowns ns) = OrC (sortedDowns ns)" by (simp add: simplifyOr_def)
  moreover have "normalizeCond (OrC (sortedDowns ns)) = OrC (sortedDowns ns)"
    using sortedDowns_normal [OF assms] by (rule normalizeCond_normal)
  ultimately show ?thesis
    by (subst SimplifyCond.simps) (simp only: normalizeCond_linkDowns [OF assms] cond.case same Let_def)
qed

lemma NegatedLinkCount_linkDowns:
  assumes "distinct ns" "list_all plainName ns" "2 \<le> length ns"
  shows "NegatedLinkCount (OrC (sortedDowns ns)) = length ns"
proof -
  have normal: "normalizeCond (OrC (sortedDowns ns)) = OrC (sortedDowns ns)"
    using sortedDowns_normal [OF assms] by (rule normalizeCond_normal)
  have one: "NegatedLinkCount (NotC (LinkVar n)) = 1" for n
    by (subst NegatedLinkCount.simps) (simp add: LinkVar_def)
  have "NegatedLinkCount (OrC (sortedDowns ns)) = sum_list (map NegatedLinkCount (sortedDowns ns))"
    by (subst NegatedLinkCount.simps) (simp only: normal cond.case)
  also have "map NegatedLinkCount (sortedDowns ns) = map (\<lambda>_. 1) (sortedDowns ns)"
    using one by (intro map_cong) auto
  finally show ?thesis by (simp add: sum_list_triv)
qed

section \<open>Properties\<close>

text \<open>
  C24 (pruning impossible routes). A route is pruned as impossible only when its condition is false in
  every failure context.
\<close>

theorem CheckPrune_impossible_sound:
  assumes "plainCond c" "CheckPrune c maxFailures = PruneImpossibleCondition"
  shows "\<not> evalCond ctx c"
proof -
  have "condKey (SimplifyCond c) = condKey FalseC"
    using assms(2) by (auto simp: CheckPrune_def Let_def split: if_splits)
  then have "SimplifyCond c = FalseC"
    using assms(1) plain_SimplifyCond condKey_inject [of "SimplifyCond c" FalseC] by fastforce
  then show ?thesis using SimplifyCond_eval [OF assms(1), of ctx] by simp
qed

theorem CheckPrune_impossible_sound_witness:
  "\<forall>ctx. \<not> evalCond ctx (AndC [LinkVar ''a'', NotC (LinkVar ''a'')])"
proof (rule allI, rule CheckPrune_impossible_sound [where maxFailures = 2])
  show "CheckPrune (AndC [LinkVar ''a'', NotC (LinkVar ''a'')]) 2 = PruneImpossibleCondition"
    by code_simp
qed (simp add: LinkVar_def plainName_def)

text \<open>
  C26 (pruning beyond the failure budget). When the simplified condition leaves no choice (no
  disjunction at its top), a route is pruned for needing too many failures only if every context in
  which its condition holds has more than \<open>maxFailures\<close> distinct links down.
\<close>

theorem CheckPrune_budget_sound:
  assumes "plainCond c" "CheckPrune c maxFailures = PruneMoreThanKFailures"
    and "choiceFree (normalizeCond (SimplifyCond c))" "evalCond ctx c"
  shows "\<exists>ns. distinct ns \<and> maxFailures < int (length ns) \<and> list_all (LinkFailed ctx) ns"
proof -
  have "maxFailures < int (NegatedLinkCount (SimplifyCond c))"
    using assms(2) by (auto simp: CheckPrune_def Let_def split: if_splits)
  moreover have "evalCond ctx (normalizeCond (SimplifyCond c))"
    using assms by (simp add: normalizeCond_eval SimplifyCond_eval plain_SimplifyCond)
  ultimately show ?thesis
    using NegatedLinkCount_links [OF assms(3)] by (metis list_all_iff)
qed

theorem CheckPrune_budget_sound_witness:
  "\<exists>ns. distinct ns \<and> (1::int) < int (length ns)
     \<and> list_all (LinkFailed \<lparr>Failures = NewSet [''a'', ''b''] [], LinksByName = Map.empty\<rparr>) ns"
proof (rule CheckPrune_budget_sound)
  let ?c = "AndC [NotC (LinkVar ''a''), NotC (LinkVar ''b'')]"
  show "CheckPrune ?c 1 = PruneMoreThanKFailures" by code_simp
  show "choiceFree (normalizeCond (SimplifyCond ?c))" by code_simp
  show "evalCond \<lparr>Failures = NewSet [''a'', ''b''] [], LinksByName = Map.empty\<rparr> ?c"
    by (simp add: LinkVar_def LinkFailed_def NewSet_lookup)
qed (simp add: LinkVar_def plainName_def)

text \<open>
  C40 (the count is not a lower bound across alternatives). \<open>NegatedLinkCount\<close> adds up the branches
  of a disjunction, although one of them suffices: the condition that one of at least two links is down
  is pruned under every budget from one failure up to one less than the number of links, although each
  of these links failing alone, which the budget allows, makes it true.
\<close>

theorem CheckPrune_disjunction_prunes_live_route:
  assumes "distinct ns" "list_all plainName ns" "1 \<le> maxFailures" "maxFailures < int (length ns)"
  shows "CheckPrune (OrC (map (\<lambda>n. NotC (LinkVar n)) ns)) maxFailures = PruneMoreThanKFailures
   \<and> (\<forall>n \<in> set ns. evalCond \<lparr>Failures = NewSet [n] [], LinksByName = m\<rparr> (OrC (map (\<lambda>n. NotC (LinkVar n)) ns)))"
proof
  have two: "2 \<le> length ns" using assms(3,4) by linarith
  note simplified = SimplifyCond_linkDowns [OF assms(1,2) two]
  show "CheckPrune (OrC (linkDowns ns)) maxFailures = PruneMoreThanKFailures"
    using assms(3,4) condKey_inject [OF linkDowns_plain [OF assms(2)], of FalseC]
      NegatedLinkCount_linkDowns [OF assms(1,2) two]
    unfolding CheckPrune_def simplified Let_def by simp
  show "\<forall>n \<in> set ns. evalCond \<lparr>Failures = NewSet [n] [], LinksByName = m\<rparr> (OrC (linkDowns ns))"
    by (auto simp: LinkVar_def LinkFailed_def NewSet_lookup list_ex_iff)
qed

theorem CheckPrune_disjunction_prunes_live_route_witness:
  "CheckPrune (OrC (map (\<lambda>n. NotC (LinkVar n)) [''a'', ''b''])) 1 = PruneMoreThanKFailures"
  using CheckPrune_disjunction_prunes_live_route [of "[''a'', ''b'']" 1 Map.empty] by (simp add: plainName_def)

end
