(* ===== verification/Symbolic.thy ===== *)
theory Symbolic
  imports Condition
begin

text \<open>
  \<open>internal/domain/symbolic/expr.go\<close>: the boolean expressions handed to a solver. \<open>Expr\<close> is
  an exported struct whose \<open>Kind\<close> and \<open>VarKind\<close> are strings, so unlike \<open>cond\<close> it has
  ill-formed values (a negation without a child, an unknown kind), which every function treats
  somehow. \<open>BoolExpr\<close> of \<open>condition.go\<close> is here too, since it ties the two together.
\<close>

section \<open>Expressions\<close>

datatype expr =
  Expr (exprKind: string) (exprVarKind: string) (exprName: string) (exprChildren: "expr list")

abbreviation (input) KindTrue :: string where "KindTrue \<equiv> ''true''"
abbreviation (input) KindFalse :: string where "KindFalse \<equiv> ''false''"
abbreviation (input) KindVar :: string where "KindVar \<equiv> ''var''"
abbreviation (input) KindAnd :: string where "KindAnd \<equiv> ''and''"
abbreviation (input) KindOr :: string where "KindOr \<equiv> ''or''"
abbreviation (input) KindNot :: string where "KindNot \<equiv> ''not''"

definition exprTrue :: expr where "exprTrue = Expr KindTrue [] [] []"
definition exprFalse :: expr where "exprFalse = Expr KindFalse [] [] []"

definition exprVar :: "string \<Rightarrow> string \<Rightarrow> expr" where
  "exprVar kind name = Expr KindVar kind name []"

definition exprLinkVar :: "string \<Rightarrow> expr" where "exprLinkVar name = exprVar ''link'' name"
definition exprNodeVar :: "string \<Rightarrow> expr" where "exprNodeVar name = exprVar ''node'' name"

fun exprKey :: "expr \<Rightarrow> string" where
  "exprKey (Expr kind varKind name children) =
     (if kind = KindTrue \<or> kind = KindFalse then kind
      else if kind = KindVar then ''var:'' @ varKind @ '':'' @ name
      else if kind = KindNot then
        (case children of [] \<Rightarrow> ''not()'' | child # _ \<Rightarrow> ''not('' @ exprKey child @ '')'')
      else if kind = KindAnd \<or> kind = KindOr then kind @ ''('' @ join '','' (map exprKey children) @ '')''
      else kind)"

fun exprString :: "expr \<Rightarrow> string" where
  "exprString (Expr kind varKind name children) =
     (if kind = KindTrue \<or> kind = KindFalse then kind
      else if kind = KindVar then varKind @ '':'' @ name
      else if kind = KindNot then
        (case children of [] \<Rightarrow> ''!(true)'' | child # _ \<Rightarrow> ''!('' @ exprString child @ '')'')
      else if kind = KindAnd \<or> kind = KindOr then
        ''('' @ join (if kind = KindOr then '' || '' else '' && '') (map exprString children) @ '')''
      else kind)"

section \<open>Normalisation\<close>

text \<open>The loops have the shape of \<open>flattenAnd\<close> and \<open>flattenOr\<close>, see \<open>Condition\<close>.\<close>

fun exprAndParts :: "expr list \<Rightarrow> expr list option" where
  "exprAndParts [] = Some []"
| "exprAndParts (x # xs) =
     (if exprKind x = KindTrue then exprAndParts xs
      else if exprKind x = KindFalse then None
      else if exprKind x = KindAnd then map_option ((@) (exprChildren x)) (exprAndParts xs)
      else map_option ((#) x) (exprAndParts xs))"

fun exprOrParts :: "expr list \<Rightarrow> expr list option" where
  "exprOrParts [] = Some []"
| "exprOrParts (x # xs) =
     (if exprKind x = KindTrue then None
      else if exprKind x = KindFalse then exprOrParts xs
      else if exprKind x = KindOr then map_option ((@) (exprChildren x)) (exprOrParts xs)
      else map_option ((#) x) (exprOrParts xs))"

definition finishExpr :: "expr \<Rightarrow> string \<Rightarrow> expr list \<Rightarrow> expr" where
  "finishExpr unit kind parts =
     (case collectUnseen exprKey [] parts of
        [] \<Rightarrow> unit
      | [x] \<Rightarrow> x
      | out \<Rightarrow> Expr kind [] [] (sort_key exprKey out))"

definition exprAndNormalized :: "expr list \<Rightarrow> expr" where
  "exprAndNormalized xs =
     (case exprAndParts xs of None \<Rightarrow> exprFalse | Some parts \<Rightarrow> finishExpr exprTrue KindAnd parts)"

definition exprOrNormalized :: "expr list \<Rightarrow> expr" where
  "exprOrNormalized xs =
     (case exprOrParts xs of None \<Rightarrow> exprTrue | Some parts \<Rightarrow> finishExpr exprFalse KindOr parts)"

text \<open>\<open>x.Children[0]\<close> of a normalised negation, which the code reads without a check.\<close>

definition exprNotNormalized :: "expr \<Rightarrow> expr" where
  "exprNotNormalized x =
     (if exprKind x = KindTrue then exprFalse
      else if exprKind x = KindFalse then exprTrue
      else if exprKind x = KindNot then hd (exprChildren x)
      else Expr KindNot [] [] [x])"

fun exprNormalize :: "expr \<Rightarrow> expr" where
  "exprNormalize (Expr kind varKind name children) =
     (if kind = KindAnd then exprAndNormalized (map exprNormalize children)
      else if kind = KindOr then exprOrNormalized (map exprNormalize children)
      else if kind = KindNot then
        (case children of [] \<Rightarrow> exprTrue | child # _ \<Rightarrow> exprNotNormalized (exprNormalize child))
      else Expr kind varKind name children)"

definition exprAnd :: "expr list \<Rightarrow> expr" where
  "exprAnd xs = exprAndNormalized (map exprNormalize xs)"

definition exprOr :: "expr list \<Rightarrow> expr" where
  "exprOr xs = exprOrNormalized (map exprNormalize xs)"

definition exprNot :: "expr \<Rightarrow> expr" where
  "exprNot x = exprNotNormalized (exprNormalize x)"

section \<open>From conditions to expressions\<close>

function BoolExpr :: "cond \<Rightarrow> expr" where
  "BoolExpr c =
     (case normalizeCond c of
        TrueC \<Rightarrow> exprTrue
      | FalseC \<Rightarrow> exprFalse
      | VarC kind name \<Rightarrow>
          (case kind of CondVarNode \<Rightarrow> exprNodeVar name | CondVarLink \<Rightarrow> exprLinkVar name)
      | AndC cs \<Rightarrow> exprAnd (map BoolExpr cs)
      | OrC cs \<Rightarrow> exprOr (map BoolExpr cs)
      | NotC x \<Rightarrow> exprNot (BoolExpr x))"
  by pat_completeness auto
termination
  by (relation "measure size") (auto dest: size_normalized_child)

declare BoolExpr.simps [simp del]

text \<open>The structural embedding of conditions into expressions.\<close>

fun toExpr :: "cond \<Rightarrow> expr" where
  "toExpr TrueC = exprTrue"
| "toExpr FalseC = exprFalse"
| "toExpr (VarC CondVarLink name) = exprLinkVar name"
| "toExpr (VarC CondVarNode name) = exprNodeVar name"
| "toExpr (AndC cs) = Expr KindAnd [] [] (map toExpr cs)"
| "toExpr (OrC cs) = Expr KindOr [] [] (map toExpr cs)"
| "toExpr (NotC c) = Expr KindNot [] [] [toExpr c]"

lemmas expr_consts = exprTrue_def exprFalse_def exprVar_def exprLinkVar_def exprNodeVar_def

lemma exprKey_toExpr [simp]: "exprKey (toExpr c) = condKey c"
  by (induction c rule: toExpr.induct)
     (simp_all add: expr_consts joinCondKey_def cong: map_cong)

lemma exprString_toExpr [simp]: "exprString (toExpr c) = condString c"
  by (induction c rule: toExpr.induct)
     (simp_all add: expr_consts joinCond_def cong: map_cong)

lemma collectUnseen_map:
  "collectUnseen key seen (map f xs) = map f (collectUnseen (\<lambda>x. key (f x)) seen xs)"
  by (induction xs arbitrary: seen) auto

lemma sort_key_map: "sort_key key (map f xs) = map f (sort_key (\<lambda>x. key (f x)) xs)"
proof -
  have "insort_key key (f x) (map f ys) = map f (insort_key (\<lambda>x. key (f x)) x ys)" for x ys
    by (induction ys) auto
  then show ?thesis by (induction xs) auto
qed

lemma toExpr_VarC: "toExpr (VarC k name) = Expr KindVar (condKindString k) name []"
  by (cases k) (simp_all add: expr_consts)

lemma exprAndParts_toExpr: "exprAndParts (map toExpr cs) = map_option (map toExpr) (andParts cs)"
proof (induction cs)
  case (Cons c cs)
  then show ?case
    by (cases c) (simp_all add: toExpr_VarC expr_consts option.map_comp comp_def del: toExpr.simps(3,4))
qed simp

lemma exprOrParts_toExpr: "exprOrParts (map toExpr cs) = map_option (map toExpr) (orParts cs)"
proof (induction cs)
  case (Cons c cs)
  then show ?case
    by (cases c) (simp_all add: toExpr_VarC expr_consts option.map_comp comp_def del: toExpr.simps(3,4))
qed simp

lemma finishExpr_toExpr:
  assumes "toExpr u = unit" "\<And>xs. toExpr (wrap xs) = Expr kind [] [] (map toExpr xs)"
  shows "finishExpr unit kind (map toExpr ps) = toExpr (finishParts u wrap ps)"
proof -
  have sorted: "sort_key exprKey (map toExpr xs) = map toExpr (sort_key condKey xs)" for xs
    by (simp add: sort_key_map)
  show ?thesis
  proof (cases "collectUnseen condKey [] ps")
    case (Cons a t)
    then show ?thesis using sorted [of "a # t"]
      by (cases t) (simp_all add: finishExpr_def finishParts_def collectUnseen_map assms del: sort_key_simps)
  qed (simp add: finishExpr_def finishParts_def collectUnseen_map assms)
qed

lemma exprNot_toExpr: "exprNotNormalized (toExpr c) = toExpr (notNormalized c)"
  by (cases c) (simp_all add: exprNotNormalized_def toExpr_VarC exprTrue_def exprFalse_def del: toExpr.simps(3,4))

lemma exprAndNormalized_toExpr: "exprAndNormalized (map toExpr cs) = toExpr (flattenAndNormalized cs)"
  by (simp add: exprAndNormalized_def flattenAndNormalized_def exprAndParts_toExpr finishExpr_toExpr
      split: option.split)

lemma exprOrNormalized_toExpr: "exprOrNormalized (map toExpr cs) = toExpr (flattenOrNormalized cs)"
  by (simp add: exprOrNormalized_def flattenOrNormalized_def exprOrParts_toExpr finishExpr_toExpr
      split: option.split)

lemma exprNormalize_toExpr: "exprNormalize (toExpr c) = toExpr (normalizeCond c)"
proof (induction c rule: normalizeCond.induct)
  case (1 cs)
  then have "map exprNormalize (map toExpr cs) = map toExpr (map normalizeCond cs)" by simp
  then show ?case by (simp add: exprAndNormalized_toExpr del: map_map)
next
  case (2 cs)
  then have "map exprNormalize (map toExpr cs) = map toExpr (map normalizeCond cs)" by simp
  then show ?case by (simp add: exprOrNormalized_toExpr del: map_map)
qed (simp_all add: exprNot_toExpr exprTrue_def exprFalse_def toExpr_VarC del: toExpr.simps(3,4))

lemma BoolExpr_toExpr: "BoolExpr c = toExpr (normalizeCond c)"
proof (induction c rule: BoolExpr.induct)
  case (1 c)
  have normal: "normalCond (normalizeCond c)" by simp
  show ?case
  proof (cases "normalizeCond c")
    case (AndC cs)
    have IH: "BoolExpr x = toExpr x" if "x \<in> set cs" for x
      using 1(1) [OF AndC that] normal that by (simp add: AndC list_all_iff normalizeCond_normal)
    have "exprAnd (map BoolExpr cs) = exprNormalize (toExpr (AndC cs))"
      using IH by (simp add: exprAnd_def cong: map_cong)
    then show ?thesis
      using normalizeCond_normal [OF normal]
      by (subst BoolExpr.simps) (simp only: AndC cond.case exprNormalize_toExpr)
  next
    case (OrC cs)
    have IH: "BoolExpr x = toExpr x" if "x \<in> set cs" for x
      using 1(2) [OF OrC that] normal that by (simp add: OrC list_all_iff normalizeCond_normal)
    have "exprOr (map BoolExpr cs) = exprNormalize (toExpr (OrC cs))"
      using IH by (simp add: exprOr_def cong: map_cong)
    then show ?thesis
      using normalizeCond_normal [OF normal]
      by (subst BoolExpr.simps) (simp only: OrC cond.case exprNormalize_toExpr)
  next
    case (NotC x)
    have "BoolExpr x = toExpr x"
      using 1(3) [OF NotC] normal by (simp add: NotC normalizeCond_normal)
    then have "exprNot (BoolExpr x) = exprNormalize (toExpr (NotC x))"
      by (simp add: exprNot_def)
    then show ?thesis
      using normalizeCond_normal [OF normal]
      by (subst BoolExpr.simps) (simp only: NotC cond.case exprNormalize_toExpr)
  next
    case (VarC k name)
    then show ?thesis by (subst BoolExpr.simps) (cases k; simp)
  qed (subst BoolExpr.simps, simp)+
qed

end
