(* ===== verification/Solver.thy ===== *)
theory Solver
  imports Symbolic
begin

text \<open>
  \<open>internal/domain/solver/solver.go\<close>, the enumerating backend
  \<open>internal/adapter/solver/enumerate/backend.go\<close> and the fallback of
  \<open>internal/adapter/solver/default.go\<close>. A backend is asked for at most \<open>MaxFailures\<close>
  elements whose failure makes a goal true. The Z3 backend is a C binding: it is a parameter.
\<close>

section \<open>Problems and answers\<close>

record failure_problem =
  spElements :: "failure_element list"
  spMaxFailures :: int
  spGoal :: expr

record solver_answer =
  Sat :: bool
  ansFailures :: "failure_element list"
  ansBackend :: string

type_synonym 'err backend = "failure_problem \<Rightarrow> 'err + solver_answer"

definition FailureStrings :: "solver_answer \<Rightarrow> string list" where
  "FailureStrings a = map elementString (ansFailures a)"

section \<open>The enumerating backend\<close>

text \<open>The closure \<open>eval\<close> over the map of failed variable names.\<close>

fun evalExpr :: "(string \<Rightarrow> bool) \<Rightarrow> expr \<Rightarrow> bool" where
  "evalExpr failed (Expr kind varKind name children) =
     (if kind = KindTrue then True
      else if kind = KindFalse then False
      else if kind = KindVar then \<not> failed (varKind @ '':'' @ name)
      else if kind = KindAnd then list_all (evalExpr failed) children
      else if kind = KindOr then list_ex (evalExpr failed) children
      else if kind = KindNot then (case children of [] \<Rightarrow> False | child # _ \<Rightarrow> \<not> evalExpr failed child)
      else True)"

definition evalSymbolicGoal :: "expr \<Rightarrow> failure_element list \<Rightarrow> bool" where
  "evalSymbolicGoal goal failures = evalExpr (\<lambda>v. v \<in> set (map elementString failures)) goal"

text \<open>\<open>findCombo\<close> has the text of \<open>FindElementCombo\<close>.\<close>

definition findCombo ::
    "'e list \<Rightarrow> int \<Rightarrow> nat \<Rightarrow> 'e list \<Rightarrow> ('e list \<Rightarrow> 's \<Rightarrow> bool \<times> 's) \<Rightarrow> 's \<Rightarrow> bool \<times> 's" where
  "findCombo elements want start cur fn s = FindElementCombo elements want start cur fn s"

text \<open>The loop over \<open>k\<close>; \<open>out\<close> is the variable the closure writes.\<close>

function solveLoop :: "failure_problem \<Rightarrow> int \<Rightarrow> solver_answer" where
  "solveLoop p k =
     (if k \<le> spMaxFailures p
      then (case findCombo (spElements p) k 0 []
                   (\<lambda>combo out. if evalSymbolicGoal (spGoal p) combo then (True, combo) else (False, out)) [] of
              (True, out) \<Rightarrow> \<lparr>Sat = True, ansFailures = out, ansBackend = ''enumerating-symbolic''\<rparr>
            | (False, _) \<Rightarrow> solveLoop p (k + 1))
      else \<lparr>Sat = False, ansFailures = [], ansBackend = ''enumerating-symbolic''\<rparr>)"
  by pat_completeness auto
termination
  by (relation "measure (\<lambda>(p, k). nat (spMaxFailures p + 1 - k))") auto

declare solveLoop.simps [simp del]

definition SolveSymbolic :: "'err backend" where
  "SolveSymbolic p = Inr (solveLoop p 0)"

definition fallbackSolve :: "'err backend \<Rightarrow> 'err backend \<Rightarrow> 'err backend" where
  "fallbackSolve primary fallback p =
     (case primary p of Inr ans \<Rightarrow> Inr ans | Inl _ \<Rightarrow> fallback p)"

section \<open>The contract of a backend\<close>

definition goalUnder :: "expr \<Rightarrow> failure_element set \<Rightarrow> bool" where
  "goalUnder goal F \<longleftrightarrow> evalExpr (\<lambda>v. v \<in> elementString ` F) goal"

definition solves :: "failure_problem \<Rightarrow> failure_element set \<Rightarrow> bool" where
  "solves p F \<longleftrightarrow> F \<subseteq> set (spElements p) \<and> int (card F) \<le> spMaxFailures p \<and> goalUnder (spGoal p) F"

locale solver_backend =
  fixes solve :: "'err backend"
  assumes sat_sound: "solve p = Inr ans \<Longrightarrow> Sat ans \<Longrightarrow> solves p (set (ansFailures ans))"
    and unsat_complete: "solve p = Inr ans \<Longrightarrow> \<not> Sat ans \<Longrightarrow> \<not> solves p F"
begin

lemma answer_exact: "solve p = Inr ans \<Longrightarrow> Sat ans \<longleftrightarrow> (\<exists>F. solves p F)"
  using sat_sound unsat_complete by blast

lemma answers_agree: "solve p = Inr ans \<Longrightarrow> (\<And>F. solves q F \<longleftrightarrow> solves p F) \<Longrightarrow> solve q = Inr ans' \<Longrightarrow> Sat ans' = Sat ans"
  using answer_exact by simp

end

locale total_backend = solver_backend +
  assumes answers: "\<exists>ans. solve p = Inr ans"
begin

lemma decides: "\<exists>ans. solve p = Inr ans \<and> (Sat ans \<longleftrightarrow> (\<exists>F. solves p F))"
  using answers answer_exact by blast

end

section \<open>Correctness of the enumeration\<close>

lemma goalUnder_set: "evalSymbolicGoal goal c = goalUnder goal (set c)"
  by (simp add: evalSymbolicGoal_def goalUnder_def)

lemma findCombo_find:
  assumes "0 \<le> k"
  shows "findCombo es k 0 [] (\<lambda>combo out. if P combo then (True, combo) else (False, out)) s =
    (case List.find P (combos (nat k) es) of None \<Rightarrow> (False, s) | Some c \<Rightarrow> (True, c))"
proof -
  have "findCombo es k 0 [] fn s = firstHit fn (combos (nat k) es) s" for fn :: "'a list \<Rightarrow> 'a list \<Rightarrow> bool \<times> 'a list"
    unfolding findCombo_def using assms
    by (subst FindElement_firstHit(1) [of k "[]" "nat k"]) (simp_all add: map_idI)
  then show ?thesis by (simp add: firstHit_None [where f = "\<lambda>c. c"])
qed

lemma subseq_subset: "subseq c xs \<Longrightarrow> set c \<subseteq> set xs"
  by (auto dest: list_emb_set)

text \<open>No combination of fewer than \<open>k\<close> elements is a solution: the invariant of the loop.\<close>

lemma solveLoop_spec:
  assumes "0 \<le> k" "\<And>F. solves p F \<Longrightarrow> k \<le> int (card F)"
  shows "(Sat (solveLoop p k) \<longrightarrow>
            subseq (ansFailures (solveLoop p k)) (spElements p)
            \<and> solves p (set (ansFailures (solveLoop p k)))
            \<and> int (length (ansFailures (solveLoop p k))) \<le> spMaxFailures p
            \<and> (\<forall>F. solves p F \<longrightarrow> length (ansFailures (solveLoop p k)) \<le> card F))
       \<and> (\<not> Sat (solveLoop p k) \<longrightarrow> (\<forall>F. \<not> solves p F))"
  using assms
proof (induction p k rule: solveLoop.induct)
  case (1 p k)
  let ?find = "List.find (evalSymbolicGoal (spGoal p)) (combos (nat k) (spElements p))"
  show ?case
  proof (cases "k \<le> spMaxFailures p")
    case False
    then have "\<not> solves p F" for F using "1.prems"(2) [of F] by (auto simp: solves_def)
    then show ?thesis using False by (simp add: solveLoop.simps [of p k])
  next
    case le: True
    show ?thesis
    proof (cases ?find)
      case (Some c)
      then have c: "subseq c (spElements p)" "length c = nat k" "goalUnder (spGoal p) (set c)"
        using find_SomeD [OF Some] by (auto simp: set_combos goalUnder_set)
      have "card (set c) \<le> nat k" using card_length [of c] c(2) by simp
      then have "solves p (set c)"
        using c le "1.prems"(1) subseq_subset [OF c(1)] by (auto simp: solves_def)
      then show ?thesis
        using le Some "1.prems" c by (simp add: solveLoop.simps [of p k] findCombo_find) force
    next
      case None
      have "k + 1 \<le> int (card F)" if F: "solves p F" for F
      proof -
        obtain c where c: "subseq c (spElements p)" "set c = F" "length c = card F"
          using subseq_of_subset F unfolding solves_def by blast
        have "int (card F) \<noteq> k"
          using None c F by (auto simp: find_None_iff set_combos goalUnder_set solves_def)
        then show ?thesis using "1.prems"(2) [OF F] by simp
      qed
      moreover have "solveLoop p k = solveLoop p (k + 1)"
        using le None "1.prems"(1) by (simp add: solveLoop.simps [of p k] findCombo_find)
      ultimately show ?thesis
        using "1.IH" le None "1.prems"(1) by (simp add: findCombo_find) blast
    qed
  qed
qed

interpretation enumerate: total_backend "SolveSymbolic :: 'err backend"
proof unfold_locales
  fix p and ans and F
  have spec: "(Sat (solveLoop p 0) \<longrightarrow> solves p (set (ansFailures (solveLoop p 0))))
      \<and> (\<not> Sat (solveLoop p 0) \<longrightarrow> (\<forall>F. \<not> solves p F))"
    using solveLoop_spec [of 0 p] by simp
  show "solves p (set (ansFailures ans))" if "(SolveSymbolic p :: 'err + _) = Inr ans" "Sat ans"
    using spec that by (simp add: SolveSymbolic_def)
  show "\<not> solves p F" if "(SolveSymbolic p :: 'err + _) = Inr ans" "\<not> Sat ans"
    using spec that by (simp add: SolveSymbolic_def)
  show "\<exists>ans. (SolveSymbolic p :: 'err + _) = Inr ans" by (simp add: SolveSymbolic_def)
qed

text \<open>The fallback combination keeps the contract and never fails.\<close>

lemma fallback_contract:
  assumes "solver_backend primary" "total_backend fallback"
  shows "total_backend (fallbackSolve primary fallback)"
proof -
  note p = assms(1) [unfolded solver_backend_def]
  note f = assms(2) [unfolded total_backend_def total_backend_axioms_def solver_backend_def]
  show ?thesis
    unfolding total_backend_def total_backend_axioms_def solver_backend_def fallbackSolve_def
    using p f by (auto split: sum.splits)
qed

section \<open>Conditions and their expressions agree\<close>

definition properElements :: "failure_element list \<Rightarrow> bool" where
  "properElements es \<longleftrightarrow> list_all (\<lambda>e. feKind e = FailureLink \<or> feKind e = FailureNode) es"

lemma elementString_eq:
  "properElements es \<Longrightarrow> ''link:'' @ n \<in> set (map elementString es) \<longleftrightarrow> \<lparr>feKind = FailureLink, feName = n\<rparr> \<in> set es"
  "properElements es \<Longrightarrow> ''node:'' @ n \<in> set (map elementString es) \<longleftrightarrow> \<lparr>feKind = FailureNode, feName = n\<rparr> \<in> set es"
  by (induction es) (auto simp: properElements_def elementString_def element_eq_iff)

lemma evalSymbolicGoal_toExpr:
  assumes "properElements es"
  shows "evalSymbolicGoal (toExpr c) es = evalCond \<lparr>Failures = SetFromElements es, LinksByName = Map.empty\<rparr> c"
proof -
  let ?f = "\<lambda>v. v \<in> set (map elementString es)"
  have "evalExpr ?f (toExpr c) = evalCond \<lparr>Failures = SetFromElements es, LinksByName = Map.empty\<rparr> c"
  proof (induction c rule: toExpr.induct)
    case (3 name)
    then show ?case using elementString_eq(1) [OF assms, of name]
      by (simp add: expr_consts LinkFailed_def SetFromElements_lookup)
  next
    case (4 name)
    then show ?case using elementString_eq(2) [OF assms, of name]
      by (simp add: expr_consts NodeFailed_def SetFromElements_lookup)
  qed (auto simp: expr_consts list_all_iff list_ex_iff)
  then show ?thesis by (simp add: evalSymbolicGoal_def)
qed

lemma evalSymbolicGoal_BoolExpr:
  assumes "plainCond c" "properElements es"
  shows "evalSymbolicGoal (BoolExpr c) es = evalCond \<lparr>Failures = SetFromElements es, LinksByName = Map.empty\<rparr> c"
  using assms by (simp add: BoolExpr_toExpr evalSymbolicGoal_toExpr normalizeCond_eval)

lemma properElements_SearchElements: "properElements (SearchElements topo opts)"
  by (auto simp: properElements_def SearchElements_def Let_def list_all_iff)

lemma properElements_subseq: "properElements es \<Longrightarrow> subseq c es \<Longrightarrow> properElements c"
  using subseq_subset by (fastforce simp: properElements_def list_all_iff)

text \<open>What a backend is asked, as combinations of the elements of a search.\<close>

lemma solves_combinations:
  assumes "plainCond c" "properElements els"
    and p: "p = \<lparr>spElements = els, spMaxFailures = n, spGoal = BoolExpr c\<rparr>"
  shows "(\<exists>F. solves p F) \<longleftrightarrow> (\<exists>es. subseq es els \<and> int (length es) \<le> n
    \<and> evalCond \<lparr>Failures = SetFromElements es, LinksByName = Map.empty\<rparr> c)"
proof
  assume "\<exists>F. solves p F"
  then obtain F where F: "solves p F" ..
  then obtain es where es: "subseq es els" "set es = F" "length es = card F"
    using subseq_of_subset [of F els] by (auto simp: solves_def p)
  moreover have "evalSymbolicGoal (BoolExpr c) es" using F es(2) by (simp add: solves_def p goalUnder_set)
  ultimately show "\<exists>es. subseq es els \<and> int (length es) \<le> n
      \<and> evalCond \<lparr>Failures = SetFromElements es, LinksByName = Map.empty\<rparr> c"
    using F evalSymbolicGoal_BoolExpr [OF assms(1) properElements_subseq [OF assms(2) es(1)]] by (auto simp: solves_def p)
next
  assume "\<exists>es. subseq es els \<and> int (length es) \<le> n
      \<and> evalCond \<lparr>Failures = SetFromElements es, LinksByName = Map.empty\<rparr> c"
  then obtain es where es: "subseq es els" "int (length es) \<le> n"
      "evalCond \<lparr>Failures = SetFromElements es, LinksByName = Map.empty\<rparr> c" by blast
  then have "solves p (set es)"
    using evalSymbolicGoal_BoolExpr [OF assms(1) properElements_subseq [OF assms(2) es(1)]]
      subseq_subset [OF es(1)] card_length [of es] by (auto simp: solves_def p goalUnder_set [symmetric])
  then show "\<exists>F. solves p F" ..
qed

lemma solves_elements:
  assumes "solves p (set es)" "plainCond c" "properElements (spElements p)" "spGoal p = BoolExpr c"
  shows "evalCond \<lparr>Failures = SetFromElements es, LinksByName = Map.empty\<rparr> c"
proof -
  have "properElements es" using assms(1,3) by (auto simp: solves_def properElements_def list_all_iff)
  then show ?thesis using assms evalSymbolicGoal_BoolExpr [of c es] by (simp add: solves_def goalUnder_set)
qed

section \<open>Properties\<close>

text \<open>
  C9 (the enumerating backend). It always returns an answer; the answer is satisfiable exactly when
  some set of at most \<open>MaxFailures\<close> elements makes the goal true, and then it is such a set, in
  the order of the elements, and no smaller set is one.
\<close>

theorem SolveSymbolic_exact_minimal:
  "case (SolveSymbolic p :: 'err + solver_answer) of Inl e \<Rightarrow> False | Inr ans \<Rightarrow>
     (Sat ans \<longleftrightarrow> (\<exists>F. solves p F))
     \<and> (Sat ans \<longrightarrow> subseq (ansFailures ans) (spElements p) \<and> solves p (set (ansFailures ans))
          \<and> (\<forall>F. solves p F \<longrightarrow> length (ansFailures ans) \<le> card F))"
  using solveLoop_spec [of 0 p] by (auto simp: SolveSymbolic_def)

theorem SolveSymbolic_exact_minimal_witness:
  "\<exists>ans. (SolveSymbolic \<lparr>spElements = [\<lparr>feKind = ''link'', feName = ''a''\<rparr>, \<lparr>feKind = ''link'', feName = ''b''\<rparr>],
       spMaxFailures = 2, spGoal = exprNot (exprLinkVar ''b'')\<rparr> :: unit + _) = Inr ans
     \<and> Sat ans \<and> length (ansFailures ans) \<le> 1"
proof -
  let ?p = "\<lparr>spElements = [\<lparr>feKind = ''link'', feName = ''a''\<rparr>, \<lparr>feKind = ''link'', feName = ''b''\<rparr>],
       spMaxFailures = 2, spGoal = exprNot (exprLinkVar ''b'')\<rparr>"
  let ?F = "{\<lparr>feKind = ''link'', feName = ''b''\<rparr>}"
  have F: "solves ?p ?F"
    by (simp add: solves_def goalUnder_def exprNot_def exprNotNormalized_def expr_consts elementString_def)
  obtain ans where ans: "(SolveSymbolic ?p :: unit + _) = Inr ans"
    by (simp add: SolveSymbolic_def)
  then have "Sat ans" "\<forall>F. solves ?p F \<longrightarrow> length (ansFailures ans) \<le> card F"
    using SolveSymbolic_exact_minimal [of ?p, where ?'err = unit] F by auto
  then have "length (ansFailures ans) \<le> 1" using F by fastforce
  with ans \<open>Sat ans\<close> show ?thesis by blast
qed

text \<open>
  C33 (falling back). With a primary backend that is right whenever it answers (it may fail), the
  default backend always answers, and its answer is satisfiable exactly when a solution exists.
\<close>

theorem fallbackSolve_exact:
  assumes "solver_backend primary"
  shows "\<exists>ans. fallbackSolve primary SolveSymbolic p = Inr ans \<and> (Sat ans \<longleftrightarrow> (\<exists>F. solves p F))"
  using fallback_contract [OF assms enumerate.total_backend_axioms] by (rule total_backend.decides)

theorem fallbackSolve_exact_witness:
  "\<exists>ans. fallbackSolve (\<lambda>p. if spMaxFailures p < 1 then SolveSymbolic p else Inl ''unknown'') SolveSymbolic
      \<lparr>spElements = [], spMaxFailures = 1, spGoal = exprFalse\<rparr> = Inr ans \<and> \<not> Sat ans"
proof -
  let ?primary = "\<lambda>p. if spMaxFailures p < 1 then SolveSymbolic p else Inl ''unknown''"
  have "solver_backend ?primary"
    by unfold_locales (auto split: if_splits intro: enumerate.sat_sound dest: enumerate.unsat_complete)
  from fallbackSolve_exact [OF this, of "\<lparr>spElements = [], spMaxFailures = 1, spGoal = exprFalse\<rparr>"]
  show ?thesis by (simp add: solves_def goalUnder_def exprFalse_def)
qed

end
