(* ===== verification/Device_Profile.thy ===== *)
theory Device_Profile
  imports Topology
begin

text \<open>
  \<open>device_profile.go\<close> and \<open>interface_resolver.go\<close>: what differs between device kinds. The
  registry \<open>deviceProfiles\<close> is a map from kinds to profiles behind a mutex, so its operations are
  atomic; registering returns the function that restores the old entry. A profile's interface part
  depends on the kind alone.
\<close>

section \<open>Interface names\<close>

definition uniqueStrings :: "string list \<Rightarrow> string list" where
  "uniqueStrings xs = collectUnseen id [[]] xs"

text \<open>The aliases of \<open>interfaceProfile.InterfaceAliases\<close>, in the order they are tried.\<close>

definition InterfaceAliases :: "device_kind \<Rightarrow> string \<Rightarrow> string list" where
  "InterfaceAliases kind name =
     (let names = uniqueStrings [name];
          (base, hasUnit) = cutSuffix name ''.0'';
          names = (if hasUnit then uniqueStrings (names @ [base]) else names)
      in if kind = KindCEOS then
           (if hasPrefix name ''eth'' then uniqueStrings (names @ [''Ethernet'' @ trimPrefix name ''eth'']) else names)
         else if kind = KindSRLinux then
           (if hasPrefix name ''lo'' \<and> hasUnit then uniqueStrings (names @ [base])
            else if hasPrefix name ''lo'' then uniqueStrings (names @ [name @ ''.0''])
            else if hasPrefix name ''e1-'' then
              (let port = trimPrefix name ''e1-''
               in uniqueStrings (names @ [''ethernet-1/'' @ port, ''ethernet-1/'' @ port @ ''.0'']))
            else if hasPrefix name ''ethernet-1/'' then
              (if hasUnit then uniqueStrings (names @ [base]) else uniqueStrings (names @ [name @ ''.0'']))
            else names)
         else names)"

definition EquivalentInterfaceName :: "device_kind \<Rightarrow> string \<Rightarrow> string \<Rightarrow> bool" where
  "EquivalentInterfaceName kind a b =
     list_ex (\<lambda>alias. alias \<in> set (InterfaceAliases kind a)) (InterfaceAliases kind b)"

definition CanonicalInterfaceName :: "device_kind \<Rightarrow> string \<Rightarrow> string" where
  "CanonicalInterfaceName kind raw =
     (let name = (case cutSuffix raw ''.0'' of (base, ok) \<Rightarrow> if ok then base else raw)
      in if kind = KindCEOS then
           (if hasPrefix name ''eth'' then ''Ethernet'' @ trimPrefix name ''eth'' else name)
         else if kind = KindSRLinux then
           (if hasPrefix name ''e1-'' then ''ethernet-1/'' @ trimPrefix name ''e1-'' else name)
         else name)"

definition isKnownManagementInterface :: "string \<Rightarrow> bool" where
  "isKnownManagementInterface name \<longleftrightarrow>
     equalFold name ''eth0'' \<or> equalFold name ''mgmt0'' \<or> equalFold name ''Management1'' \<or> equalFold name ''mgmt''"

definition IsManagementInterface :: "device_kind \<Rightarrow> iface list \<Rightarrow> string \<Rightarrow> bool" where
  "IsManagementInterface kind interfaces name =
     (if name = [] then False
      else if isKnownManagementInterface name then True
      else (case List.find (\<lambda>i. EquivalentInterfaceName kind (ifName i) name) interfaces of
              Some i \<Rightarrow> hasPrefix (toLower (ifName i)) ''mgmt''
            | None \<Rightarrow> False))"

definition IsLoopbackInterface :: "string \<Rightarrow> bool" where
  "IsLoopbackInterface raw =
     (let name = toLower (trimSpace raw)
      in name = ''lo'' \<or> hasPrefix name ''lo'' \<or> hasPrefix name ''loopback'')"

section \<open>Profiles and their registry\<close>

record live_profile =
  lpSupported :: bool
  lpBGPRIBCollector :: string
  lpRouteTableCollector :: string
  lpFIBCollector :: string
  lpRequireASN :: bool

record config_profile =
  cpKind :: device_kind
  cpParse :: bool
  cpOSPF :: bool
  cpRouteMap :: bool
  cpOSPFVRFFromIface :: bool
  cpRouteMapVendor :: string

record device_profile =
  dpKind :: device_kind
  dpACLDefault :: string
  dpHideLoopbackConnected :: bool
  dpLive :: live_profile
  dpConfig :: config_profile

definition DefaultACLAction :: "device_profile \<Rightarrow> string \<Rightarrow> string" where
  "DefaultACLAction p fallback = (if dpACLDefault p \<noteq> [] then dpACLDefault p else fallback)"

definition ExpectedFIBRouteVisible :: "device_profile \<Rightarrow> string \<Rightarrow> string \<Rightarrow> bool" where
  "ExpectedFIBRouteVisible p source class =
     (if dpHideLoopbackConnected p \<and> source = RouteSourceConnected \<and> class = ''loopback'' then False else True)"

definition SupportsBGPRIBCollection :: "live_profile \<Rightarrow> bool" where
  "SupportsBGPRIBCollection p \<longleftrightarrow> lpSupported p \<or> lpBGPRIBCollector p \<noteq> []"

definition SupportsRouteTableCollection :: "live_profile \<Rightarrow> bool" where
  "SupportsRouteTableCollection p \<longleftrightarrow> lpSupported p \<or> lpRouteTableCollector p \<noteq> []"

definition SupportsFIBCollection :: "live_profile \<Rightarrow> bool" where
  "SupportsFIBCollection p \<longleftrightarrow> lpSupported p \<or> lpFIBCollector p \<noteq> []"

definition BGPRIBCollector :: "live_profile \<Rightarrow> string \<times> bool" where
  "BGPRIBCollector p = (if lpBGPRIBCollector p = [] then ([], lpSupported p) else (lpBGPRIBCollector p, True))"

definition RouteTableCollector :: "live_profile \<Rightarrow> string \<times> bool" where
  "RouteTableCollector p = (if lpRouteTableCollector p = [] then ([], lpSupported p) else (lpRouteTableCollector p, True))"

definition FIBCollector :: "live_profile \<Rightarrow> string \<times> bool" where
  "FIBCollector p = (if lpFIBCollector p = [] then ([], lpSupported p) else (lpFIBCollector p, True))"

definition ShouldCollectBGP :: "live_profile \<Rightarrow> node \<Rightarrow> bool" where
  "ShouldCollectBGP p n =
     (if \<not> SupportsBGPRIBCollection p then False
      else if lpRequireASN p \<and> nodeASN n = 0 then False
      else True)"

definition OSPFInterfaceVRF :: "config_profile \<Rightarrow> iface list \<Rightarrow> string \<Rightarrow> network_instance" where
  "OSPFInterfaceVRF p interfaces name =
     (if \<not> cpOSPFVRFFromIface p then NetworkInstanceDefault
      else (case List.find (\<lambda>i. EquivalentInterfaceName (cpKind p) (ifName i) name) interfaces of
              Some i \<Rightarrow> NormalizeNetworkInstance (ifVRF i)
            | None \<Rightarrow> NetworkInstanceDefault))"

definition RouteMapVendorName :: "config_profile \<Rightarrow> string" where
  "RouteMapVendorName p = (if cpRouteMapVendor p \<noteq> [] then cpRouteMapVendor p else cpKind p)"

type_synonym profile_registry = "device_kind \<rightharpoonup> device_profile"

definition collectors :: "device_kind \<Rightarrow> bool \<Rightarrow> live_profile" where
  "collectors kind needASN = \<lparr>lpSupported = False, lpBGPRIBCollector = kind, lpRouteTableCollector = kind,
     lpFIBCollector = kind, lpRequireASN = needASN\<rparr>"

definition builtinProfiles :: profile_registry where
  "builtinProfiles =
     [KindFRR \<mapsto> \<lparr>dpKind = KindFRR, dpACLDefault = [], dpHideLoopbackConnected = False,
        dpLive = collectors ''frr'' False,
        dpConfig = \<lparr>cpKind = KindFRR, cpParse = True, cpOSPF = True, cpRouteMap = True,
          cpOSPFVRFFromIface = True, cpRouteMapVendor = ''FRR''\<rparr>\<rparr>,
      KindCEOS \<mapsto> \<lparr>dpKind = KindCEOS, dpACLDefault = ACLDefaultDeny, dpHideLoopbackConnected = False,
        dpLive = collectors ''ceos'' True,
        dpConfig = \<lparr>cpKind = KindCEOS, cpParse = True, cpOSPF = True, cpRouteMap = True,
          cpOSPFVRFFromIface = False, cpRouteMapVendor = ''cEOS''\<rparr>\<rparr>,
      KindSRLinux \<mapsto> \<lparr>dpKind = KindSRLinux, dpACLDefault = ACLDefaultDeny, dpHideLoopbackConnected = True,
        dpLive = collectors ''srlinux'' True,
        dpConfig = \<lparr>cpKind = KindSRLinux, cpParse = True, cpOSPF = False, cpRouteMap = False,
          cpOSPFVRFFromIface = False, cpRouteMapVendor = ''SR Linux''\<rparr>\<rparr>]"

definition ProfileFor :: "profile_registry \<Rightarrow> device_kind \<Rightarrow> device_profile" where
  "ProfileFor registry kind =
     (case registry kind of
        Some p \<Rightarrow> p
      | None \<Rightarrow> \<lparr>dpKind = kind, dpACLDefault = [], dpHideLoopbackConnected = False,
          dpLive = \<lparr>lpSupported = False, lpBGPRIBCollector = [], lpRouteTableCollector = [],
            lpFIBCollector = [], lpRequireASN = False\<rparr>,
          dpConfig = \<lparr>cpKind = kind, cpParse = False, cpOSPF = False, cpRouteMap = False,
            cpOSPFVRFFromIface = False, cpRouteMapVendor = kind\<rparr>\<rparr>)"

text \<open>The new registry and the function that undoes the registration in a later registry.\<close>

definition RegisterDeviceProfile ::
    "profile_registry \<Rightarrow> device_profile \<Rightarrow> profile_registry \<times> (profile_registry \<Rightarrow> profile_registry)" where
  "RegisterDeviceProfile registry p =
     (let kind = dpKind p; old = registry kind
      in (registry(kind \<mapsto> p), \<lambda>later. later(kind := old)))"

definition RegisteredDeviceKinds :: "profile_registry \<Rightarrow> device_kind list" where
  "RegisteredDeviceKinds registry = sorted_list_of_set (dom registry)"

section \<open>Resolving an interface\<close>

record interface_ref =
  refNode :: node_id
  refLink :: link_id
  refClabName :: string
  refConfigName :: string
  refAddress :: ipprefix

definition zeroRef :: interface_ref where
  "zeroRef = \<lparr>refNode = [], refLink = [], refClabName = [], refConfigName = [], refAddress = zeroPrefix\<rparr>"

text \<open>The two nested loops: the first interface named by the first alias that names one.\<close>

fun firstByAlias :: "string list \<Rightarrow> iface list \<Rightarrow> iface option" where
  "firstByAlias [] interfaces = None"
| "firstByAlias (alias # aliases) interfaces =
     (case List.find (\<lambda>i. ifName i = alias) interfaces of
        Some i \<Rightarrow> Some i
      | None \<Rightarrow> firstByAlias aliases interfaces)"

definition InterfaceAddress :: "device_kind \<Rightarrow> iface list \<Rightarrow> string \<Rightarrow> ipprefix \<times> bool" where
  "InterfaceAddress kind interfaces name =
     (case firstByAlias (InterfaceAliases kind name) interfaces of
        Some i \<Rightarrow> (case parsePrefix (ifAddress i) of Some p \<Rightarrow> (p, True) | None \<Rightarrow> (zeroPrefix, False))
      | None \<Rightarrow> (zeroPrefix, False))"

definition ResolveInterface :: "node \<Rightarrow> link_id \<Rightarrow> string \<Rightarrow> interface_ref option" where
  "ResolveInterface n link clabName =
     (case firstByAlias (InterfaceAliases (nodeKind n) clabName) (nodeInterfaces n) of
        None \<Rightarrow> None
      | Some i \<Rightarrow>
          (case parsePrefix (ifAddress i) of
             None \<Rightarrow> None
           | Some p \<Rightarrow> Some \<lparr>refNode = nodeName n, refLink = link, refClabName = clabName,
                             refConfigName = ifName i, refAddress = p\<rparr>))"

section \<open>Lemmas\<close>

lemma set_uniqueStrings: "set (uniqueStrings xs) = set xs - {[]}"
  using keys_collectUnseen [of id "[[]]" xs] by (simp add: uniqueStrings_def)

lemma name_in_aliases: "name \<noteq> [] \<Longrightarrow> name \<in> set (InterfaceAliases kind name)"
  unfolding InterfaceAliases_def Let_def
  by (cases "cutSuffix name ''.0''")
     (simp only: prod.case if_distrib [of set] if_distrib [of "(\<in>) name"] set_uniqueStrings set_append;
      simp)

lemma EquivalentInterfaceName_refl: "name \<noteq> [] \<Longrightarrow> EquivalentInterfaceName kind name name"
  using name_in_aliases by (auto simp: EquivalentInterfaceName_def list_ex_iff)

lemma EquivalentInterfaceName_sym: "EquivalentInterfaceName kind a b \<Longrightarrow> EquivalentInterfaceName kind b a"
  by (auto simp: EquivalentInterfaceName_def list_ex_iff)

lemma firstByAlias_SomeD:
  "firstByAlias aliases interfaces = Some i \<Longrightarrow> i \<in> set interfaces \<and> ifName i \<in> set aliases"
  by (induction aliases) (auto split: option.splits dest: find_SomeD)

lemma firstByAlias_None: "firstByAlias aliases interfaces = None \<longleftrightarrow> (\<forall>i \<in> set interfaces. ifName i \<notin> set aliases)"
  by (induction aliases) (auto simp: find_None_iff split: option.splits dest: find_SomeD)

lemma ResolveInterface_SomeD:
  "ResolveInterface n l name = Some ref \<Longrightarrow>
     \<exists>i \<in> set (nodeInterfaces n). ifName i \<in> set (InterfaceAliases (nodeKind n) name)
       \<and> refConfigName ref = ifName i \<and> parsePrefix (ifAddress i) = Some (refAddress ref) \<and> refNode ref = nodeName n"
  by (auto simp: ResolveInterface_def split: option.splits dest: firstByAlias_SomeD)

end
