(* ===== verification/Topology_Index.thy ===== *)
theory Topology_Index
  imports Device_Profile "HOL-Library.AList"
begin

text \<open>
  \<open>topology_index.go\<close>: the lookup tables built once from a topology. \<open>Adj\<close> is a total
  function, since reading a missing key of the Go map gives the empty slice; \<open>OriginsByPrefix\<close>
  is an association list, because \<open>OriginForIP\<close> iterates over it. The receivers are non-nil
  indexes: the \<open>nil\<close> guards of the methods return the same as a failed lookup.
\<close>

section \<open>The index\<close>

record adj_edge =
  adjTo :: node_id
  adjLink :: link

type_synonym endpoint_pair = "node_id \<times> node_id"

definition NewEndpointPair :: "string \<Rightarrow> string \<Rightarrow> endpoint_pair" where
  "NewEndpointPair a b = (if b < a then (b, a) else (a, b))"

record topology_index =
  idxTopology :: topology
  idxNodes :: "node_id \<rightharpoonup> node"
  idxLinks :: "link_id \<rightharpoonup> link"
  idxAdj :: "node_id \<Rightarrow> adj_edge list"
  idxEndpoints :: "endpoint_pair \<rightharpoonup> link"
  idxOrigins :: "(string \<times> node_id) list"
  idxInstances :: "node_id \<rightharpoonup> network_instance list"

datatype index_error =
    DuplicateNode string
  | DuplicateLink string
  | UnknownLinkNode string string
  | DuplicateEndpoints endpoint_pair string string

definition indexNode :: "topology_index \<Rightarrow> node \<Rightarrow> index_error + topology_index" where
  "indexNode idx n =
     (if idxNodes idx (nodeName n) \<noteq> None then Inl (DuplicateNode (nodeName n))
      else Inr (idx\<lparr>idxNodes := (idxNodes idx)(nodeName n \<mapsto> n),
                    idxInstances := (idxInstances idx)(nodeName n \<mapsto> networkInstanceIDsForNode n),
                    idxOrigins := foldl (\<lambda>os p. AList.update (prefixString p) (nodeName n) os)
                                    (idxOrigins idx) (nodePrefixes n)\<rparr>))"

definition appendAdj :: "node_id \<Rightarrow> adj_edge \<Rightarrow> topology_index \<Rightarrow> topology_index" where
  "appendAdj n e idx = idx\<lparr>idxAdj := (idxAdj idx)(n := idxAdj idx n @ [e])\<rparr>"

definition indexLink :: "topology_index \<Rightarrow> link \<Rightarrow> index_error + topology_index" where
  "indexLink idx l =
     (if idxLinks idx (linkName l) \<noteq> None then Inl (DuplicateLink (linkName l))
      else if idxNodes idx (linkA l) = None then Inl (UnknownLinkNode (linkName l) (linkA l))
      else if idxNodes idx (linkB l) = None then Inl (UnknownLinkNode (linkName l) (linkB l))
      else (let pair = NewEndpointPair (linkA l) (linkB l)
            in case idxEndpoints idx pair of
                 Some existing \<Rightarrow> Inl (DuplicateEndpoints pair (linkName existing) (linkName l))
               | None \<Rightarrow>
                   Inr (appendAdj (linkB l) \<lparr>adjTo = linkA l, adjLink = l\<rparr>
                         (appendAdj (linkA l) \<lparr>adjTo = linkB l, adjLink = l\<rparr>
                           (idx\<lparr>idxLinks := (idxLinks idx)(linkName l \<mapsto> l),
                                idxEndpoints := (idxEndpoints idx)(pair \<mapsto> l)\<rparr>)))))"

definition adjLess :: "adj_edge \<Rightarrow> adj_edge \<Rightarrow> bool" where
  "adjLess x y =
     (if linkCost (adjLink x) = linkCost (adjLink y) then adjTo x < adjTo y
      else linkCost (adjLink x) < linkCost (adjLink y))"

definition emptyIndex :: "topology \<Rightarrow> topology_index" where
  "emptyIndex topo = \<lparr>idxTopology = topo, idxNodes = Map.empty, idxLinks = Map.empty,
     idxAdj = (\<lambda>_. []), idxEndpoints = Map.empty, idxOrigins = [], idxInstances = Map.empty\<rparr>"

definition sortAdj :: "topology_index \<Rightarrow> topology_index" where
  "sortAdj idx = idx\<lparr>idxAdj := (\<lambda>n. sortSlice adjLess (idxAdj idx n))\<rparr>"

definition BuildTopologyIndex :: "topology \<Rightarrow> index_error + topology_index" where
  "BuildTopologyIndex topo =
     (case foldE indexNode (emptyIndex topo) (topoNodes topo) of
        Inl e \<Rightarrow> Inl e
      | Inr idx \<Rightarrow>
          (case foldE indexLink idx (topoLinks topo) of
             Inl e \<Rightarrow> Inl e
           | Inr idx' \<Rightarrow> Inr (sortAdj idx')))"

section \<open>Lookups\<close>

definition LinkBetween :: "topology_index \<Rightarrow> string \<Rightarrow> string \<Rightarrow> link option" where
  "LinkBetween idx a b = idxEndpoints idx (NewEndpointPair a b)"

definition InterfaceOnLink :: "topology_index \<Rightarrow> string \<Rightarrow> string \<Rightarrow> interface_ref option" where
  "InterfaceOnLink idx n name =
     (case idxLinks idx name of
        None \<Rightarrow> None
      | Some l \<Rightarrow>
          if linkA l = n then
            (case idxNodes idx n of None \<Rightarrow> None | Some v \<Rightarrow> ResolveInterface v (linkName l) (linkAIntf l))
          else if linkB l = n then
            (case idxNodes idx n of None \<Rightarrow> None | Some v \<Rightarrow> ResolveInterface v (linkName l) (linkBIntf l))
          else None)"

definition InterfaceToPeer :: "topology_index \<Rightarrow> string \<Rightarrow> string \<Rightarrow> interface_ref option" where
  "InterfaceToPeer idx n peer =
     (case LinkBetween idx n peer of None \<Rightarrow> None | Some l \<Rightarrow> InterfaceOnLink idx n (linkName l))"

definition AddressOnLink :: "topology_index \<Rightarrow> string \<Rightarrow> string \<Rightarrow> ipaddr option" where
  "AddressOnLink idx n peer = map_option (\<lambda>ref. pfxAddr (refAddress ref)) (InterfaceToPeer idx n peer)"

definition PeerInterfaceToNode :: "topology_index \<Rightarrow> string \<Rightarrow> string \<Rightarrow> interface_ref option" where
  "PeerInterfaceToNode idx n peer = InterfaceToPeer idx peer n"

definition PeerAddress :: "topology_index \<Rightarrow> string \<Rightarrow> string \<Rightarrow> ipaddr option" where
  "PeerAddress idx n peer = map_option (\<lambda>ref. pfxAddr (refAddress ref)) (PeerInterfaceToNode idx n peer)"

definition PeerAddressOnLink :: "topology_index \<Rightarrow> string \<Rightarrow> string \<Rightarrow> ipaddr option" where
  "PeerAddressOnLink idx n peer = PeerAddress idx n peer"

definition isServiceNode :: "node \<Rightarrow> bool" where
  "isServiceNode n =
     (let role = toLower (trimSpace (nodeRole n)) in role = ''customer'' \<or> role = ''service'' \<or> role = ''host'')"

abbreviation (input) ConnectedRouteClassLink :: string where "ConnectedRouteClassLink \<equiv> ''link''"
abbreviation (input) ConnectedRouteClassLoopback :: string where "ConnectedRouteClassLoopback \<equiv> ''loopback''"
abbreviation (input) ConnectedRouteClassService :: string where "ConnectedRouteClassService \<equiv> ''service''"
abbreviation (input) ConnectedRouteClassHost :: string where "ConnectedRouteClassHost \<equiv> ''host''"

definition ConnectedClass :: "topology_index \<Rightarrow> string \<Rightarrow> iface \<Rightarrow> prefix \<Rightarrow> string" where
  "ConnectedClass idx nname i p =
     (let ofNode = (case idxNodes idx nname of
            None \<Rightarrow> None
          | Some n \<Rightarrow>
              if list_ex (\<lambda>e. EquivalentInterfaceName (nodeKind n)
                    (if linkB (adjLink e) = nname then linkBIntf (adjLink e) else linkAIntf (adjLink e)) (ifName i))
                  (idxAdj idx nname)
              then Some ConnectedRouteClassLink
              else if isServiceNode n \<and> IsLoopbackInterface (ifName i) then Some ConnectedRouteClassService
              else None)
      in case ofNode of
           Some c \<Rightarrow> c
         | None \<Rightarrow>
             if IsLoopbackInterface (ifName i) then ConnectedRouteClassLoopback
             else if pfxBits p = prefixBitLen p then ConnectedRouteClassHost
             else ConnectedRouteClassService)"

text \<open>The loop of \<open>ConnectedClassForRoute\<close> over the interfaces of the node.\<close>

fun classLoop :: "topology_index \<Rightarrow> string \<Rightarrow> node \<Rightarrow> prefix \<Rightarrow> string \<Rightarrow> iface list \<Rightarrow> string" where
  "classLoop idx nname n want ifn [] = []"
| "classLoop idx nname n want ifn (c # cs) =
     (if ifn \<noteq> [] \<and> \<not> EquivalentInterfaceName (nodeKind n) (ifName c) ifn then classLoop idx nname n want ifn cs
      else (case parsePrefix (ifAddress c) of
              None \<Rightarrow> classLoop idx nname n want ifn cs
            | Some pfx \<Rightarrow>
                (let candidate = PrefixFromNetIP (pfxMasked pfx)
                 in if prefixString candidate = prefixString want
                    then ConnectedClass idx nname c candidate
                    else if ifn \<noteq> [] \<and> EquivalentInterfaceName (nodeKind n) (ifName c) ifn
                    then (if pfxBits want = prefixBitLen want then ConnectedRouteClassHost else [])
                    else classLoop idx nname n want ifn cs)))"

definition ConnectedClassForRoute :: "topology_index \<Rightarrow> string \<Rightarrow> string \<Rightarrow> string \<Rightarrow> string" where
  "ConnectedClassForRoute idx nname raw ifn =
     (case idxNodes idx nname of
        None \<Rightarrow> []
      | Some n \<Rightarrow>
          (case ParsePrefix raw of
             None \<Rightarrow> []
           | Some want \<Rightarrow> classLoop idx nname n want ifn (nodeInterfaces n)))"

definition PathCost :: "topology_index \<Rightarrow> string list \<Rightarrow> int" where
  "PathCost idx links =
     foldl (\<lambda>cost name. case idxLinks idx name of Some l \<Rightarrow> goInt (cost + linkCost l) | None \<Rightarrow> cost) 0 links"

definition OriginForPrefix :: "topology_index \<Rightarrow> string \<Rightarrow> string option" where
  "OriginForPrefix idx raw =
     (case ParsePrefix raw of None \<Rightarrow> None | Some want \<Rightarrow> map_of (idxOrigins idx) (prefixString want))"

text \<open>One turn of the loop of \<open>OriginForIP\<close>: the best node and prefix so far.\<close>

definition originStep :: "ipaddr \<Rightarrow> node_id \<times> prefix \<Rightarrow> string \<times> node_id \<Rightarrow> node_id \<times> prefix" where
  "originStep ip best entry =
     (case ParsePrefix (fst entry) of
        None \<Rightarrow> best
      | Some pfx \<Rightarrow>
          if \<not> pfxContains pfx ip then best
          else if fst best = [] \<or> pfxBits (snd best) < pfxBits pfx then (snd entry, pfx)
          else best)"

definition OriginForIP :: "topology_index \<Rightarrow> string \<Rightarrow> string \<times> prefix \<times> bool" where
  "OriginForIP idx raw =
     (case parseAddr raw of
        None \<Rightarrow> ([], zeroPrefix, False)
      | Some ip \<Rightarrow>
          (let (bestNode, bestPrefix) = foldl (originStep ip) ([], zeroPrefix) (idxOrigins idx)
           in (bestNode, bestPrefix, bestNode \<noteq> [])))"

section \<open>What building the index establishes\<close>

lemma NewEndpointPair_eq:
  "NewEndpointPair a b = NewEndpointPair c d \<longleftrightarrow> a = c \<and> b = d \<or> a = d \<and> b = c"
  by (auto simp: NewEndpointPair_def)

definition linkPair :: "link \<Rightarrow> endpoint_pair" where
  "linkPair l = NewEndpointPair (linkA l) (linkB l)"

definition adjEdges :: "node_id \<Rightarrow> link list \<Rightarrow> adj_edge set" where
  "adjEdges n ls =
     {\<lparr>adjTo = linkB l, adjLink = l\<rparr> |l. l \<in> set ls \<and> linkA l = n}
     \<union> {\<lparr>adjTo = linkA l, adjLink = l\<rparr> |l. l \<in> set ls \<and> linkB l = n}"

text \<open>The topologies \<open>BuildTopologyIndex\<close> accepts.\<close>

definition indexable :: "topology \<Rightarrow> bool" where
  "indexable topo \<longleftrightarrow>
     distinct (map nodeName (topoNodes topo)) \<and> distinct (map linkName (topoLinks topo))
     \<and> distinct (map linkPair (topoLinks topo))
     \<and> list_all (\<lambda>l. linkA l \<in> nodeName ` set (topoNodes topo) \<and> linkB l \<in> nodeName ` set (topoNodes topo))
         (topoLinks topo)"

definition nodesIndexed :: "node list \<Rightarrow> topology_index \<Rightarrow> bool" where
  "nodesIndexed ns idx \<longleftrightarrow> distinct (map nodeName ns)
     \<and> (\<forall>k v. idxNodes idx k = Some v \<longleftrightarrow> v \<in> set ns \<and> nodeName v = k)"

definition linksIndexed :: "link list \<Rightarrow> topology_index \<Rightarrow> bool" where
  "linksIndexed ls idx \<longleftrightarrow> distinct (map linkName ls) \<and> distinct (map linkPair ls)
     \<and> (\<forall>k l. idxLinks idx k = Some l \<longleftrightarrow> l \<in> set ls \<and> linkName l = k)
     \<and> (\<forall>q l. idxEndpoints idx q = Some l \<longleftrightarrow> l \<in> set ls \<and> linkPair l = q)
     \<and> (\<forall>n. set (idxAdj idx n) = adjEdges n ls)
     \<and> (\<forall>l \<in> set ls. idxNodes idx (linkA l) \<noteq> None \<and> idxNodes idx (linkB l) \<noteq> None)"

lemma indexNode_step:
  assumes "nodesIndexed ys idx"
  shows "case indexNode idx n of
      Inl e \<Rightarrow> nodeName n \<in> nodeName ` set ys
    | Inr idx' \<Rightarrow> nodesIndexed (ys @ [n]) idx' \<and> idxLinks idx' = idxLinks idx
        \<and> idxEndpoints idx' = idxEndpoints idx \<and> idxAdj idx' = idxAdj idx"
  using assms
  by (auto simp: nodesIndexed_def indexNode_def intro: rev_image_eqI)

lemma indexNodes:
  "case foldE indexNode (emptyIndex topo) ns of
     Inl e \<Rightarrow> \<not> distinct (map nodeName ns)
   | Inr idx \<Rightarrow> nodesIndexed ns idx \<and> linksIndexed [] idx"
proof (rule foldE_rule [where I = "\<lambda>ys idx. nodesIndexed ys idx \<and> linksIndexed [] idx"])
  show "nodesIndexed [] (emptyIndex topo) \<and> linksIndexed [] (emptyIndex topo)"
    by (simp add: nodesIndexed_def linksIndexed_def emptyIndex_def adjEdges_def)
  fix ys x zs idx
  assume "ns = ys @ x # zs" "nodesIndexed ys idx \<and> linksIndexed [] idx"
  then show "case indexNode idx x of Inl e \<Rightarrow> \<not> distinct (map nodeName ns)
      | Inr idx' \<Rightarrow> nodesIndexed (ys @ [x]) idx' \<and> linksIndexed [] idx'"
    using indexNode_step [of ys idx x]
    by (auto simp: linksIndexed_def split: sum.splits)
qed

lemma adjEdges_snoc:
  "adjEdges n (ls @ [l]) = adjEdges n ls
     \<union> (if linkA l = n then {\<lparr>adjTo = linkB l, adjLink = l\<rparr>} else {})
     \<union> (if linkB l = n then {\<lparr>adjTo = linkA l, adjLink = l\<rparr>} else {})"
  by (auto simp: adjEdges_def)

lemma indexLink_step:
  assumes "linksIndexed ys idx"
  shows "case indexLink idx l of
      Inl e \<Rightarrow> linkName l \<in> linkName ` set ys \<or> linkPair l \<in> linkPair ` set ys
        \<or> idxNodes idx (linkA l) = None \<or> idxNodes idx (linkB l) = None
    | Inr idx' \<Rightarrow> linksIndexed (ys @ [l]) idx' \<and> idxNodes idx' = idxNodes idx"
proof (cases "indexLink idx l")
  case (Inl e)
  have ends: "linkPair l \<in> linkPair ` set ys" if "idxEndpoints idx (linkPair l) = Some x" for x
    using that assms unfolding linksIndexed_def by (metis image_eqI)
  have names: "linkName l \<in> linkName ` set ys" if "idxLinks idx (linkName l) = Some x" for x
    using that assms unfolding linksIndexed_def by (metis image_eqI)
  show ?thesis using Inl ends names
    by (auto simp: indexLink_def Let_def linkPair_def [symmetric] split: if_splits option.splits)
next
  case (Inr idx')
  have ok: "idxLinks idx (linkName l) = None" "idxEndpoints idx (linkPair l) = None"
      "idxNodes idx (linkA l) \<noteq> None" "idxNodes idx (linkB l) \<noteq> None"
    using Inr by (auto simp: indexLink_def Let_def linkPair_def split: if_splits option.splits)
  have indexed: "idxLinks idx (linkName y) = Some y" "idxEndpoints idx (linkPair y) = Some y" if "y \<in> set ys" for y
    using assms that unfolding linksIndexed_def by blast+
  have fresh: "linkName l \<notin> linkName ` set ys" "linkPair l \<notin> linkPair ` set ys"
  proof -
    show "linkName l \<notin> linkName ` set ys" using ok(1) indexed(1) by auto
    show "linkPair l \<notin> linkPair ` set ys"
    proof
      assume "linkPair l \<in> linkPair ` set ys"
      then obtain y where "y \<in> set ys" "linkPair l = linkPair y" ..
      then show False using ok(2) indexed(2) by simp
    qed
  qed
  have other: "linkName y \<noteq> linkName l" "linkPair y \<noteq> linkPair l" if "y \<in> set ys" for y
    using fresh that by (metis image_eqI)+
  have idx': "idxLinks idx' = (idxLinks idx)(linkName l \<mapsto> l)"
      "idxEndpoints idx' = (idxEndpoints idx)(linkPair l \<mapsto> l)" "idxNodes idx' = idxNodes idx"
      "\<And>n. set (idxAdj idx' n) = set (idxAdj idx n)
         \<union> (if linkA l = n then {\<lparr>adjTo = linkB l, adjLink = l\<rparr>} else {})
         \<union> (if linkB l = n then {\<lparr>adjTo = linkA l, adjLink = l\<rparr>} else {})"
    using Inr ok by (auto simp: indexLink_def Let_def linkPair_def appendAdj_def)
  have "linksIndexed (ys @ [l]) idx'"
    unfolding linksIndexed_def
    using assms fresh ok by (auto simp: linksIndexed_def idx' adjEdges_snoc dest: other)
  then show ?thesis using Inr idx'(3) by simp
qed

lemma indexLinks:
  assumes "linksIndexed [] idx"
  shows "case foldE indexLink idx ls of
     Inl e \<Rightarrow> \<not> distinct (map linkName ls) \<or> \<not> distinct (map linkPair ls)
        \<or> (\<exists>l \<in> set ls. idxNodes idx (linkA l) = None \<or> idxNodes idx (linkB l) = None)
   | Inr idx' \<Rightarrow> linksIndexed ls idx' \<and> idxNodes idx' = idxNodes idx"
proof (rule foldE_rule [where I = "\<lambda>ys t. linksIndexed ys t \<and> idxNodes t = idxNodes idx"])
  show "linksIndexed [] idx \<and> idxNodes idx = idxNodes idx" using assms by simp
  fix ys x zs t
  assume "ls = ys @ x # zs" "linksIndexed ys t \<and> idxNodes t = idxNodes idx"
  then show "case indexLink t x of
       Inl e \<Rightarrow> \<not> distinct (map linkName ls) \<or> \<not> distinct (map linkPair ls)
          \<or> (\<exists>l \<in> set ls. idxNodes idx (linkA l) = None \<or> idxNodes idx (linkB l) = None)
     | Inr t' \<Rightarrow> linksIndexed (ys @ [x]) t' \<and> idxNodes t' = idxNodes idx"
    using indexLink_step [of ys t x] by (auto split: sum.splits)
qed

interpretation adj_order: less_closure adjLess
  by unfold_locales (auto simp: adjLess_def split: if_splits)

lemma BuildTopologyIndex_spec:
  "case BuildTopologyIndex topo of
     Inl e \<Rightarrow> \<not> indexable topo
   | Inr idx \<Rightarrow> indexable topo \<and> nodesIndexed (topoNodes topo) idx \<and> linksIndexed (topoLinks topo) idx
       \<and> (\<forall>n. sorted_wrt (\<lambda>x y. \<not> adjLess y x) (idxAdj idx n))"
proof (cases "foldE indexNode (emptyIndex topo) (topoNodes topo)")
  case (Inl e)
  then show ?thesis
    using indexNodes [where topo = topo and ns = "topoNodes topo"] by (simp add: BuildTopologyIndex_def indexable_def)
next
  case nodes: (Inr idx)
  then have idx: "nodesIndexed (topoNodes topo) idx" "linksIndexed [] idx"
    using indexNodes [where topo = topo and ns = "topoNodes topo"] by simp_all
  then have known: "idxNodes idx k = None \<longleftrightarrow> k \<notin> nodeName ` set (topoNodes topo)" for k
    unfolding nodesIndexed_def by (metis image_iff not_None_eq)
  show ?thesis
  proof (cases "foldE indexLink idx (topoLinks topo)")
    case (Inl e)
    then have "\<not> indexable topo"
      using indexLinks [OF idx(2), of "topoLinks topo"] known
      by (auto simp: indexable_def list_all_iff)
    then show ?thesis using Inl nodes by (simp add: BuildTopologyIndex_def)
  next
    case (Inr idx')
    then have idx': "linksIndexed (topoLinks topo) idx'" "idxNodes idx' = idxNodes idx"
      using indexLinks [OF idx(2), of "topoLinks topo"] by simp_all
    moreover have "indexable topo"
      using idx(1) idx' known by (auto simp: indexable_def nodesIndexed_def linksIndexed_def list_all_iff)
    moreover have "linksIndexed (topoLinks topo) (sortAdj idx')" "nodesIndexed (topoNodes topo) (sortAdj idx')"
      using idx idx' by (simp_all add: linksIndexed_def nodesIndexed_def sortAdj_def)
    ultimately show ?thesis using Inr nodes
      by (simp add: BuildTopologyIndex_def sortAdj_def adj_order.sorted_sortSlice)
  qed
qed

lemma built_topology: "BuildTopologyIndex topo = Inr idx \<Longrightarrow> idxTopology idx = topo"
proof -
  assume built: "BuildTopologyIndex topo = Inr idx"
  have node: "indexNode idx n = Inr idx' \<Longrightarrow> idxTopology idx' = idxTopology idx" for idx n idx'
    by (auto simp: indexNode_def split: if_splits)
  have link: "indexLink idx l = Inr idx' \<Longrightarrow> idxTopology idx' = idxTopology idx" for idx l idx'
    by (auto simp: indexLink_def appendAdj_def Let_def split: if_splits option.splits)
  have nodes: "foldE indexNode idx ns = Inr idx' \<Longrightarrow> idxTopology idx' = idxTopology idx" for idx ns idx'
    by (induction ns arbitrary: idx) (auto dest: node split: sum.splits)
  have links: "foldE indexLink idx ls = Inr idx' \<Longrightarrow> idxTopology idx' = idxTopology idx" for idx ls idx'
    by (induction ls arbitrary: idx) (auto dest: link split: sum.splits)
  show ?thesis
    using built nodes links by (auto simp: BuildTopologyIndex_def emptyIndex_def sortAdj_def split: sum.splits)
qed

section \<open>The longest matching origin\<close>

lemma originStep_cases:
  "originStep ip best entry = best
   \<or> (\<exists>pfx. ParsePrefix (fst entry) = Some pfx \<and> pfxContains pfx ip \<and> originStep ip best entry = (snd entry, pfx))"
  by (auto simp: originStep_def split: option.splits)

text \<open>
  The loop's invariant: nothing found and nothing matching so far, or the best entry matches and no
  matching entry is longer.
\<close>

lemma originLoop:
  assumes "\<forall>e \<in> set entries. snd e \<noteq> []"
  shows "case foldl (originStep ip) ([], zeroPrefix) entries of
    (n, p) \<Rightarrow>
      (n = [] \<longrightarrow> (\<forall>e \<in> set entries. \<forall>q. ParsePrefix (fst e) = Some q \<longrightarrow> \<not> pfxContains q ip))
      \<and> (n \<noteq> [] \<longrightarrow> pfxContains p ip \<and> (\<exists>e \<in> set entries. ParsePrefix (fst e) = Some p \<and> snd e = n)
          \<and> (\<forall>e \<in> set entries. \<forall>q. ParsePrefix (fst e) = Some q \<longrightarrow> pfxContains q ip \<longrightarrow> pfxBits q \<le> pfxBits p))"
  using assms
proof (induction entries rule: rev_induct)
  case (snoc e es)
  obtain n p where best: "foldl (originStep ip) ([], zeroPrefix) es = (n, p)"
    by (cases "foldl (originStep ip) ([], zeroPrefix) es")
  show ?case
  proof (cases "ParsePrefix (fst e)")
    case None
    then show ?thesis using snoc best by (auto simp: originStep_def)
  next
    case (Some q)
    have step: "originStep ip (n, p) e =
        (if pfxContains q ip \<and> (n = [] \<or> pfxBits p < pfxBits q) then (snd e, q) else (n, p))"
      by (simp add: originStep_def Some)
    have IH: "n = [] \<longrightarrow> (\<forall>e \<in> set es. \<forall>q. ParsePrefix (fst e) = Some q \<longrightarrow> \<not> pfxContains q ip)"
        "n \<noteq> [] \<longrightarrow> pfxContains p ip \<and> (\<exists>e \<in> set es. ParsePrefix (fst e) = Some p \<and> snd e = n)
          \<and> (\<forall>e \<in> set es. \<forall>q. ParsePrefix (fst e) = Some q \<longrightarrow> pfxContains q ip \<longrightarrow> pfxBits q \<le> pfxBits p)"
      using snoc best by simp_all
    show ?thesis
    proof (cases "pfxContains q ip \<and> (n = [] \<or> pfxBits p < pfxBits q)")
      case True
      then show ?thesis using IH snoc.prems Some by (force simp: best step)
    next
      case False
      then show ?thesis using IH Some by (auto simp: best step)
    qed
  qed
qed simp

section \<open>Properties\<close>

text \<open>
  C20 (building the index). The index is built exactly for topologies with distinct node names, link
  names and link end points whose links end at known nodes; every other topology is an error. The
  index then finds exactly the nodes and links of the topology by name, the link between two nodes in
  either order, and lists at each node the links that end there, by cost and neighbour.
\<close>

theorem BuildTopologyIndex_exact:
  "case BuildTopologyIndex topo of
     Inl e \<Rightarrow> \<not> indexable topo
   | Inr idx \<Rightarrow> indexable topo
       \<and> (\<forall>k v. idxNodes idx k = Some v \<longleftrightarrow> v \<in> set (topoNodes topo) \<and> nodeName v = k)
       \<and> (\<forall>k l. idxLinks idx k = Some l \<longleftrightarrow> l \<in> set (topoLinks topo) \<and> linkName l = k)
       \<and> (\<forall>a b l. LinkBetween idx a b = Some l \<longleftrightarrow> l \<in> set (topoLinks topo)
            \<and> (linkA l = a \<and> linkB l = b \<or> linkA l = b \<and> linkB l = a))
       \<and> (\<forall>n. set (idxAdj idx n) = adjEdges n (topoLinks topo)
            \<and> sorted_wrt (\<lambda>x y. \<not> adjLess y x) (idxAdj idx n))"
proof (cases "BuildTopologyIndex topo")
  case (Inl e)
  then show ?thesis using BuildTopologyIndex_spec [of topo] by simp
next
  case (Inr idx)
  then have spec: "indexable topo" "nodesIndexed (topoNodes topo) idx" "linksIndexed (topoLinks topo) idx"
      "\<forall>n. sorted_wrt (\<lambda>x y. \<not> adjLess y x) (idxAdj idx n)"
    using BuildTopologyIndex_spec [of topo] by simp_all
  have "LinkBetween idx a b = Some l \<longleftrightarrow> l \<in> set (topoLinks topo) \<and> linkPair l = NewEndpointPair a b" for a b l
    using spec(3) unfolding linksIndexed_def LinkBetween_def by blast
  then show ?thesis using Inr spec
    by (simp add: nodesIndexed_def linksIndexed_def linkPair_def NewEndpointPair_eq)
qed

text \<open>
  C30 (the origin of an address). The loop over the map of originated prefixes, whose order is not
  fixed, ends with the longest prefix that contains the address: it finds a node exactly when some
  origin contains the address, and no origin that contains it is longer than the one found.
\<close>

theorem OriginForIP_longest_match:
  assumes "parseAddr raw = Some ip" "\<forall>e \<in> set (idxOrigins idx). snd e \<noteq> []"
    and "OriginForIP idx raw = (n, p, found)"
  shows "(found \<longleftrightarrow> (\<exists>e \<in> set (idxOrigins idx). \<exists>q. ParsePrefix (fst e) = Some q \<and> pfxContains q ip))
    \<and> (found \<longrightarrow> pfxContains p ip \<and> (\<exists>e \<in> set (idxOrigins idx). ParsePrefix (fst e) = Some p \<and> snd e = n)
        \<and> (\<forall>e \<in> set (idxOrigins idx). \<forall>q. ParsePrefix (fst e) = Some q \<longrightarrow> pfxContains q ip \<longrightarrow> pfxBits q \<le> pfxBits p))"
proof -
  have "foldl (originStep ip) ([], zeroPrefix) (idxOrigins idx) = (n, p)" "found = (n \<noteq> [])"
    using assms(1,3) by (auto simp: OriginForIP_def Let_def split: prod.splits)
  then show ?thesis using originLoop [OF assms(2), of ip] by auto
qed

theorem OriginForIP_longest_match_witness:
  "\<exists>idx n p. OriginForIP idx ''10.1.2.3'' = (n, p, True) \<and> pfxBits p = 16"
proof -
  define idx where "idx = (emptyIndex \<lparr>topoName = [], topoManagementSubnet = [], topoNodes = [],
      topoLinks = [], topoACLs = [], topoACLBindings = []\<rparr>)
      \<lparr>idxOrigins := [(prefixString (IPPrefix (IPv4 0x0A010000) 16), ''r2''),
                      (prefixString (IPPrefix (IPv4 0x0A000000) 8), ''r1'')]\<rparr>"
  have parse: "ParsePrefix (prefixString (IPPrefix (IPv4 0x0A010000) 16)) = Some (IPPrefix (IPv4 0x0A010000) 16)"
      "ParsePrefix (prefixString (IPPrefix (IPv4 0x0A000000) 8)) = Some (IPPrefix (IPv4 0x0A000000) 8)"
    by (simp_all add: ParsePrefix_def prefixString_def parsePrefix_pfxStr prefix_eval)
  have ip: "parseAddr ''10.1.2.3'' = Some (IPv4 0x0A010203)"
    by (simp add: parseAddr_def parse4_def parseOctet_def plainNumber_def isDigit_def digitVal_def
        decVal_def word4_def)
  obtain n p found where res: "OriginForIP idx ''10.1.2.3'' = (n, p, found)"
    by (cases "OriginForIP idx ''10.1.2.3''")
  have "found" "pfxBits p = 16"
    using OriginForIP_longest_match [OF ip _ res] by (auto simp: idx_def parse)
  then have "OriginForIP idx ''10.1.2.3'' = (n, p, True)" using res by simp
  with \<open>pfxBits p = 16\<close> show ?thesis by blast
qed

end
