(* ===== verification/Validate.thy ===== *)
theory Validate
  imports Topology_Index
begin

text \<open>
  \<open>validate.go\<close>: the checks on a topology before it is simulated. Every check returns the
  first error it meets, in the order of the loops; the result is an \<open>option\<close>, \<open>None\<close> for
  Go's \<open>nil\<close> error. The text of an error wrapped by \<open>%w\<close> is left out of the arguments.
\<close>

section \<open>Checks in sequence\<close>

fun firstError :: "'e option list \<Rightarrow> 'e option" where
  "firstError [] = None"
| "firstError (c # cs) = (case c of Some e \<Rightarrow> Some e | None \<Rightarrow> firstError cs)"

definition failIf :: "bool \<Rightarrow> 'e \<Rightarrow> 'e option" where
  "failIf b e = (if b then Some e else None)"

text \<open>
  The loops that keep a map of the keys seen so far: \<open>check\<close> gets these keys and the element,
  \<open>keys\<close> lists what the element adds.
\<close>

fun checkSeen :: "('k list \<Rightarrow> 'a \<Rightarrow> 'e option) \<Rightarrow> ('a \<Rightarrow> 'k list) \<Rightarrow> 'k list \<Rightarrow> 'a list \<Rightarrow> 'e option" where
  "checkSeen check keys seen [] = None"
| "checkSeen check keys seen (x # xs) =
     (case check seen x of Some e \<Rightarrow> Some e | None \<Rightarrow> checkSeen check keys (keys x @ seen) xs)"

section \<open>Helpers\<close>

definition hasInterface :: "node \<Rightarrow> string \<Rightarrow> bool" where
  "hasInterface n name = list_ex (\<lambda>i. EquivalentInterfaceName (nodeKind n) (ifName i) name) (nodeInterfaces n)"

definition addressIs :: "string \<Rightarrow> string \<Rightarrow> bool" where
  "addressIs raw addr = (case parsePrefix raw of None \<Rightarrow> False | Some p \<Rightarrow> addrStr (pfxAddr p) = addr)"

definition nodeOwnsAddress :: "node \<Rightarrow> string \<Rightarrow> bool" where
  "nodeOwnsAddress n addr \<longleftrightarrow>
     list_ex (\<lambda>i. addressIs (ifAddress i) addr) (nodeInterfaces n)
     \<or> (nodeLoopback n \<noteq> [] \<and> addressIs (nodeLoopback n) addr)"

definition neighborLabel :: "bgp_neighbor \<Rightarrow> string" where
  "neighborLabel n =
     (if nbAddress n \<noteq> [] then nbAddress n else if nbPeerNode n \<noteq> [] then nbPeerNode n else ''<unnamed>'')"

section \<open>Policies, neighbours and access lists\<close>

definition validatePrefixList :: "node \<Rightarrow> string list \<Rightarrow> prefix_list \<Rightarrow> go_error option" where
  "validatePrefixList n seen pl = firstError
     [failIf (plName pl = []) (Errorf ''node %s prefix-list name is required'' [nodeName n]),
      failIf (plName pl \<in> set seen) (Errorf ''node %s has duplicate prefix-list %s'' [nodeName n, plName pl]),
      checkSeen (\<lambda>seqs r. firstError
          [failIf (plSeq r \<in> set seqs) (Errorf ''node %s prefix-list %s has duplicate seq %d'' [nodeName n, plName pl, itoa (plSeq r)]),
           failIf (plAction r \<noteq> ''permit'' \<and> plAction r \<noteq> ''deny'')
             (Errorf ''node %s prefix-list %s rule %d has invalid action %s'' [nodeName n, plName pl, itoa (plSeq r), plAction r])])
        (\<lambda>r. [plSeq r]) [] (plRules pl)]"

definition missingRef :: "string \<Rightarrow> string list \<Rightarrow> bool" where
  "missingRef name known \<longleftrightarrow> name \<noteq> [] \<and> name \<notin> set known"

definition validatePolicy :: "node \<Rightarrow> string list \<Rightarrow> route_policy \<Rightarrow> go_error option" where
  "validatePolicy n seen rp =
     (let prefixLists = map plName (nodePrefixLists n);
          asPathLists = map slName (nodeASPathLists n);
          communityLists = map slName (nodeCommunityLists n)
      in firstError
     [failIf (rpName rp = []) (Errorf ''node %s route policy name is required'' [nodeName n]),
      failIf (rpName rp \<in> set seen) (Errorf ''node %s has duplicate route policy %s'' [nodeName n, rpName rp]),
      checkSeen (\<lambda>seqs r. firstError
          [failIf (rpSeq r \<in> set seqs) (Errorf ''node %s route policy %s has duplicate seq %d'' [nodeName n, rpName rp, itoa (rpSeq r)]),
           failIf (rpAction r \<noteq> ''permit'' \<and> rpAction r \<noteq> ''deny'')
             (Errorf ''node %s route policy %s rule %d has invalid action %s'' [nodeName n, rpName rp, itoa (rpSeq r), rpAction r]),
           failIf (missingRef (MatchPrefixList r) prefixLists)
             (Errorf ''node %s route policy %s rule %d references missing prefix-list %s'' [nodeName n, rpName rp, itoa (rpSeq r), MatchPrefixList r]),
           failIf (missingRef (MatchNextHopPrefixList r) prefixLists)
             (Errorf ''node %s route policy %s rule %d references missing next-hop prefix-list %s'' [nodeName n, rpName rp, itoa (rpSeq r), MatchNextHopPrefixList r]),
           failIf (missingRef (MatchASPathList r) asPathLists)
             (Errorf ''node %s route policy %s rule %d references missing as-path list %s'' [nodeName n, rpName rp, itoa (rpSeq r), MatchASPathList r]),
           failIf (missingRef (MatchCommunityList r) communityLists)
             (Errorf ''node %s route policy %s rule %d references missing community-list %s'' [nodeName n, rpName rp, itoa (rpSeq r), MatchCommunityList r])])
        (\<lambda>r. [rpSeq r]) [] (rpRules rp)])"

definition validateRoutePolicyReferences :: "node \<Rightarrow> go_error option" where
  "validateRoutePolicyReferences n = firstError
     [checkSeen (validatePrefixList n) (\<lambda>pl. [plName pl]) [] (nodePrefixLists n),
      checkSeen (validatePolicy n) (\<lambda>rp. [rpName rp]) [] (nodeRoutePolicies n),
      firstError (map (\<lambda>nb. firstError
          [failIf (missingRef (nbImportPolicy nb) (map rpName (nodeRoutePolicies n)))
             (Errorf ''node %s neighbor %s import route policy %s not found'' [nodeName n, nbAddress nb, nbImportPolicy nb]),
           failIf (missingRef (nbExportPolicy nb) (map rpName (nodeRoutePolicies n)))
             (Errorf ''node %s neighbor %s export route policy %s not found'' [nodeName n, nbAddress nb, nbExportPolicy nb])])
        (nodeNeighbors n))]"

text \<open>
  One map of address keys and one of peer keys: the first component tells them apart. \<open>nodes\<close> is
  the map of the nodes by name.
\<close>

definition neighborKeys :: "bgp_neighbor \<Rightarrow> (bool \<times> string) list" where
  "neighborKeys nb =
     (let vrf = NormalizeNetworkInstance (nbNetworkInstance nb)
      in (if nbAddress nb \<noteq> [] then [(True, vrf @ ''|'' @ nbAddress nb)] else [])
         @ (if nbPeerNode nb \<noteq> [] then [(False, vrf @ ''|'' @ nbPeerNode nb)] else []))"

definition validateNeighbor ::
    "(string \<rightharpoonup> node) \<Rightarrow> node \<Rightarrow> (bool \<times> string) list \<Rightarrow> bgp_neighbor \<Rightarrow> go_error option" where
  "validateNeighbor nodes n seen nb =
     (let vrf = NormalizeNetworkInstance (nbNetworkInstance nb)
      in firstError
     [(if nbAddress nb \<noteq> [] then firstError
         [failIf (parseAddr (nbAddress nb) = None) (Errorf ''node %s neighbor %s has invalid address: %w'' [nodeName n, nbAddress nb]),
          failIf ((True, vrf @ ''|'' @ nbAddress nb) \<in> set seen) (Errorf ''node %s has duplicate neighbor address %s'' [nodeName n, nbAddress nb])]
       else None),
      (if nbPeerNode nb \<noteq> [] then
         (case nodes (nbPeerNode nb) of
            None \<Rightarrow> Some (Errorf ''node %s neighbor %s references unknown peer node %s'' [nodeName n, neighborLabel nb, nbPeerNode nb])
          | Some peer \<Rightarrow> firstError
              [failIf ((False, vrf @ ''|'' @ nbPeerNode nb) \<in> set seen) (Errorf ''node %s has duplicate neighbor peer node %s'' [nodeName n, nbPeerNode nb]),
               failIf (nbAddress nb \<noteq> [] \<and> \<not> nodeOwnsAddress peer (nbAddress nb))
                 (Errorf ''node %s neighbor %s address is not on peer node %s'' [nodeName n, nbAddress nb, nbPeerNode nb])])
       else None),
      failIf (nbActivated nb \<and> nbRemoteAS nb = 0) (Errorf ''node %s neighbor %s is activated with remote_as 0'' [nodeName n, neighborLabel nb])])"

definition validateBGPNeighborReferences :: "node \<Rightarrow> (string \<rightharpoonup> node) \<Rightarrow> go_error option" where
  "validateBGPNeighborReferences n nodes =
     checkSeen (validateNeighbor nodes n) neighborKeys [] (nodeNeighbors n)"

definition validateACL :: "acl \<Rightarrow> go_error option" where
  "validateACL a = firstError
     [failIf (aclName a = []) (Errorf ''acl name is required'' []),
      failIf (aclDefaultAction a \<noteq> ACLDefaultPermit \<and> aclDefaultAction a \<noteq> ACLDefaultDeny)
        (Errorf ''acl %s has invalid default action %s'' [aclName a, aclDefaultAction a]),
      checkSeen (\<lambda>seqs r. firstError
          [failIf (ruleSeq r \<in> set seqs) (Errorf ''acl %s has duplicate seq %d'' [aclName a, itoa (ruleSeq r)]),
           failIf (ruleAction r \<noteq> ACLPermit \<and> ruleAction r \<noteq> ACLDeny)
             (Errorf ''acl %s rule %d has invalid action %s'' [aclName a, itoa (ruleSeq r), ruleAction r]),
           failIf (Protocol (ruleMatch r) \<notin> set [[], ''icmp'', ''tcp'', ''udp''])
             (Errorf ''acl %s rule %d has invalid protocol %s'' [aclName a, itoa (ruleSeq r), Protocol (ruleMatch r)])])
        (\<lambda>r. [ruleSeq r]) [] (aclRules a)]"

section \<open>The whole topology\<close>

text \<open>\<open>nodes[l.A]\<close> of a Go map: the zero node when the key is missing.\<close>

definition nodeAt :: "(string \<rightharpoonup> node) \<Rightarrow> string \<Rightarrow> node" where
  "nodeAt nodes name = (case nodes name of Some n \<Rightarrow> n | None \<Rightarrow> zeroNode)"

definition validateNode :: "(string \<rightharpoonup> node) \<Rightarrow> node \<Rightarrow> go_error option" where
  "validateNode nodes n = firstError
     [failIf (list_ex prefixIsZero (nodePrefixes n)) (Errorf ''node %s has invalid empty prefix'' [nodeName n]),
      failIf (nodeLoopback n \<noteq> [] \<and> parsePrefix (nodeLoopback n) = None) (Errorf ''node %s loopback %s: %w'' [nodeName n, nodeLoopback n]),
      validateRoutePolicyReferences n,
      validateBGPNeighborReferences n nodes]"

definition validateLink :: "(string \<rightharpoonup> node) \<Rightarrow> link \<Rightarrow> go_error option" where
  "validateLink nodes l = firstError
     [failIf (linkName l = [] \<or> linkA l = [] \<or> linkB l = []) (Errorf ''link must have name, a, and b'' []),
      failIf (nodes (linkA l) = None \<or> nodes (linkB l) = None) (Errorf ''link %s references unknown node %s-%s'' [linkName l, linkA l, linkB l]),
      failIf (linkCost l \<le> 0) (Errorf ''link %s cost must be positive'' [linkName l]),
      failIf (parsePrefix (linkSubnet l) = None) (Errorf ''link %s subnet %s: %w'' [linkName l, linkSubnet l]),
      failIf (linkAIntf l \<noteq> [] \<and> \<not> hasInterface (nodeAt nodes (linkA l)) (linkAIntf l))
        (Errorf ''link %s references unknown interface %s on node %s'' [linkName l, linkAIntf l, linkA l]),
      failIf (linkBIntf l \<noteq> [] \<and> \<not> hasInterface (nodeAt nodes (linkB l)) (linkBIntf l))
        (Errorf ''link %s references unknown interface %s on node %s'' [linkName l, linkBIntf l, linkB l])]"

definition validateBinding :: "(string \<rightharpoonup> node) \<Rightarrow> acl_binding \<Rightarrow> go_error option" where
  "validateBinding nodes b = firstError
     [failIf (nodes (bindNode b) = None) (Errorf ''acl binding %s references unknown node %s'' [bindACLName b, bindNode b]),
      failIf (bindInterface b \<noteq> [] \<and> \<not> hasInterface (nodeAt nodes (bindNode b)) (bindInterface b))
        (Errorf ''acl binding %s references unknown interface %s on node %s'' [bindACLName b, bindInterface b, bindNode b]),
      failIf (bindDirection b \<noteq> ''ingress'' \<and> bindDirection b \<noteq> ''egress'')
        (Errorf ''acl binding %s has invalid direction %s'' [bindACLName b, bindDirection b])]"

definition Validate :: "topology \<Rightarrow> go_error option" where
  "Validate t =
     (let nodes = map_of (map (\<lambda>n. (nodeName n, n)) (topoNodes t))
      in firstError
     [checkSeen (\<lambda>seen n. firstError
          [failIf (nodeName n = []) (Errorf ''node name is required'' []),
           failIf (nodeName n \<in> set seen) (Errorf ''duplicate node %q'' [nodeName n])])
        (\<lambda>n. [nodeName n]) [] (topoNodes t),
      firstError (map (validateNode nodes) (topoNodes t)),
      firstError (map (validateLink nodes) (topoLinks t)),
      firstError (map (\<lambda>a. firstError
          [failIf (nodes (aclNode a) = None) (Errorf ''acl %s references unknown node %s'' [aclName a, aclNode a]), validateACL a]) (topoACLs t)),
      firstError (map (validateBinding nodes) (topoACLBindings t))])"

section \<open>What validation accepts\<close>

lemma firstError_None [simp]: "firstError cs = None \<longleftrightarrow> (\<forall>c \<in> set cs. c = None)"
  by (induction cs) (auto split: option.splits)

declare firstError.simps [simp del]

lemma failIf_None [simp]: "failIf b e = None \<longleftrightarrow> \<not> b"
  by (simp add: failIf_def)

text \<open>A loop whose check is a duplicate test and a test of the element alone.\<close>

lemma checkSeen_None:
  assumes "\<And>seen x. check seen x = None \<longleftrightarrow> set (keys x) \<inter> set seen = {} \<and> ok x"
    and "\<And>x. distinct (keys x)"
  shows "checkSeen check keys seen xs = None \<longleftrightarrow>
     (\<forall>x \<in> set xs. ok x) \<and> distinct (concat (map keys xs)) \<and> set (concat (map keys xs)) \<inter> set seen = {}"
proof (induction xs arbitrary: seen)
  case (Cons x xs)
  have "checkSeen check keys seen (x # xs) = None \<longleftrightarrow>
      check seen x = None \<and> checkSeen check keys (keys x @ seen) xs = None"
    by (auto split: option.splits)
  then show ?case using assms by (auto simp: Cons.IH)
qed simp

lemma checkSeen_key_None:
  assumes "\<And>seen x. check seen x = None \<longleftrightarrow> key x \<notin> set seen \<and> ok x"
  shows "checkSeen check (\<lambda>x. [key x]) [] xs = None \<longleftrightarrow> (\<forall>x \<in> set xs. ok x) \<and> distinct (map key xs)"
  by (subst checkSeen_None [where ok = ok]) (simp_all add: assms)

text \<open>The conditions on a topology, stated without loops.\<close>

definition validAction :: "string \<Rightarrow> bool" where
  "validAction a \<longleftrightarrow> a = ''permit'' \<or> a = ''deny''"

definition validPrefixLists :: "node \<Rightarrow> bool" where
  "validPrefixLists n \<longleftrightarrow> distinct (map plName (nodePrefixLists n))
     \<and> (\<forall>pl \<in> set (nodePrefixLists n). plName pl \<noteq> [] \<and> distinct (map plSeq (plRules pl))
          \<and> (\<forall>r \<in> set (plRules pl). validAction (plAction r)))"

definition validPolicies :: "node \<Rightarrow> bool" where
  "validPolicies n \<longleftrightarrow> distinct (map rpName (nodeRoutePolicies n))
     \<and> (\<forall>rp \<in> set (nodeRoutePolicies n). rpName rp \<noteq> [] \<and> distinct (map rpSeq (rpRules rp))
          \<and> (\<forall>r \<in> set (rpRules rp). validAction (rpAction r)
               \<and> \<not> missingRef (MatchPrefixList r) (map plName (nodePrefixLists n))
               \<and> \<not> missingRef (MatchNextHopPrefixList r) (map plName (nodePrefixLists n))
               \<and> \<not> missingRef (MatchASPathList r) (map slName (nodeASPathLists n))
               \<and> \<not> missingRef (MatchCommunityList r) (map slName (nodeCommunityLists n))))
     \<and> (\<forall>nb \<in> set (nodeNeighbors n). \<not> missingRef (nbImportPolicy nb) (map rpName (nodeRoutePolicies n))
          \<and> \<not> missingRef (nbExportPolicy nb) (map rpName (nodeRoutePolicies n)))"

definition validNeighbor :: "(string \<rightharpoonup> node) \<Rightarrow> bgp_neighbor \<Rightarrow> bool" where
  "validNeighbor nodes nb \<longleftrightarrow>
     (nbAddress nb = [] \<or> (\<exists>ip. parseAddr (nbAddress nb) = Some ip))
     \<and> (nbPeerNode nb = [] \<or> (\<exists>peer. nodes (nbPeerNode nb) = Some peer
          \<and> (nbAddress nb = [] \<or> nodeOwnsAddress peer (nbAddress nb))))
     \<and> (nbActivated nb \<longrightarrow> nbRemoteAS nb \<noteq> 0)"

definition validACL :: "acl \<Rightarrow> bool" where
  "validACL a \<longleftrightarrow> aclName a \<noteq> [] \<and> validAction (aclDefaultAction a) \<and> distinct (map ruleSeq (aclRules a))
     \<and> (\<forall>r \<in> set (aclRules a). validAction (ruleAction r)
          \<and> Protocol (ruleMatch r) \<in> {[], ''icmp'', ''tcp'', ''udp''})"

definition validNode :: "(string \<rightharpoonup> node) \<Rightarrow> node \<Rightarrow> bool" where
  "validNode nodes n \<longleftrightarrow> (\<forall>p \<in> set (nodePrefixes n). pfxIsValid p)
     \<and> (nodeLoopback n = [] \<or> (\<exists>p. parsePrefix (nodeLoopback n) = Some p))
     \<and> validPrefixLists n \<and> validPolicies n
     \<and> distinct (concat (map neighborKeys (nodeNeighbors n)))
     \<and> (\<forall>nb \<in> set (nodeNeighbors n). validNeighbor nodes nb)"

definition validLink :: "(string \<rightharpoonup> node) \<Rightarrow> link \<Rightarrow> bool" where
  "validLink nodes l \<longleftrightarrow> linkName l \<noteq> [] \<and> linkA l \<noteq> [] \<and> linkB l \<noteq> [] \<and> 0 < linkCost l
     \<and> (\<exists>p. parsePrefix (linkSubnet l) = Some p)
     \<and> (\<exists>a. nodes (linkA l) = Some a \<and> (linkAIntf l = [] \<or> hasInterface a (linkAIntf l)))
     \<and> (\<exists>b. nodes (linkB l) = Some b \<and> (linkBIntf l = [] \<or> hasInterface b (linkBIntf l)))"

definition validBinding :: "(string \<rightharpoonup> node) \<Rightarrow> acl_binding \<Rightarrow> bool" where
  "validBinding nodes b \<longleftrightarrow>
     (\<exists>n. nodes (bindNode b) = Some n \<and> (bindInterface b = [] \<or> hasInterface n (bindInterface b)))
     \<and> (bindDirection b = ''ingress'' \<or> bindDirection b = ''egress'')"

definition validTopology :: "topology \<Rightarrow> bool" where
  "validTopology t \<longleftrightarrow>
     (let nodes = map_of (map (\<lambda>n. (nodeName n, n)) (topoNodes t))
      in distinct (map nodeName (topoNodes t)) \<and> (\<forall>n \<in> set (topoNodes t). nodeName n \<noteq> [])
       \<and> (\<forall>n \<in> set (topoNodes t). validNode nodes n)
       \<and> (\<forall>l \<in> set (topoLinks t). validLink nodes l)
       \<and> (\<forall>a \<in> set (topoACLs t). (\<exists>n. nodes (aclNode a) = Some n) \<and> validACL a)
       \<and> (\<forall>b \<in> set (topoACLBindings t). validBinding nodes b))"

lemma validatePrefixList_None:
  "validatePrefixList n seen pl = None \<longleftrightarrow>
     plName pl \<notin> set seen \<and> plName pl \<noteq> [] \<and> distinct (map plSeq (plRules pl))
     \<and> (\<forall>r \<in> set (plRules pl). validAction (plAction r))"
  unfolding validatePrefixList_def
  by (simp add: checkSeen_key_None [where ok = "\<lambda>r. validAction (plAction r)"] validAction_def) blast

lemma validatePolicy_None:
  "validatePolicy n seen rp = None \<longleftrightarrow>
     rpName rp \<notin> set seen \<and> rpName rp \<noteq> [] \<and> distinct (map rpSeq (rpRules rp))
     \<and> (\<forall>r \<in> set (rpRules rp). validAction (rpAction r)
               \<and> \<not> missingRef (MatchPrefixList r) (map plName (nodePrefixLists n))
               \<and> \<not> missingRef (MatchNextHopPrefixList r) (map plName (nodePrefixLists n))
               \<and> \<not> missingRef (MatchASPathList r) (map slName (nodeASPathLists n))
               \<and> \<not> missingRef (MatchCommunityList r) (map slName (nodeCommunityLists n)))"
    (is "_ \<longleftrightarrow> _ \<and> _ \<and> _ \<and> (\<forall>r \<in> _. ?ok r)")
  unfolding validatePolicy_def
  by (simp add: Let_def checkSeen_key_None [where ok = "?ok"] validAction_def) blast

lemma validateRoutePolicyReferences_None:
  "validateRoutePolicyReferences n = None \<longleftrightarrow> validPrefixLists n \<and> validPolicies n"
  unfolding validateRoutePolicyReferences_def validPrefixLists_def validPolicies_def
  by (simp add: checkSeen_key_None [OF validatePrefixList_None] checkSeen_key_None [OF validatePolicy_None]) blast

lemma distinct_neighborKeys: "distinct (neighborKeys nb)"
  by (simp add: neighborKeys_def Let_def)

lemma validateNeighbor_None:
  "validateNeighbor nodes n seen nb = None \<longleftrightarrow>
     set (neighborKeys nb) \<inter> set seen = {} \<and> validNeighbor nodes nb"
  unfolding validateNeighbor_def validNeighbor_def neighborKeys_def Let_def
  by (cases "nodes (nbPeerNode nb)"; cases "nbAddress nb = []"; cases "nbPeerNode nb = []") auto

lemma validateBGPNeighborReferences_None:
  "validateBGPNeighborReferences n nodes = None \<longleftrightarrow>
     distinct (concat (map neighborKeys (nodeNeighbors n))) \<and> (\<forall>nb \<in> set (nodeNeighbors n). validNeighbor nodes nb)"
  unfolding validateBGPNeighborReferences_def
  by (simp add: checkSeen_None [OF validateNeighbor_None distinct_neighborKeys]) blast

lemma validateACL_None: "validateACL a = None \<longleftrightarrow> validACL a"
  unfolding validateACL_def validACL_def
  by (simp add: checkSeen_key_None [where ok = "\<lambda>r. validAction (ruleAction r)
        \<and> Protocol (ruleMatch r) \<in> {[], ''icmp'', ''tcp'', ''udp''}"] validAction_def) blast

lemma validateNode_None: "validateNode nodes n = None \<longleftrightarrow> validNode nodes n"
  by (auto simp: validateNode_def validNode_def list_ex_iff prefixIsZero_def
      validateRoutePolicyReferences_None validateBGPNeighborReferences_None)

lemma validateLink_None: "validateLink nodes l = None \<longleftrightarrow> validLink nodes l"
  by (cases "nodes (linkA l)"; cases "nodes (linkB l)")
     (auto simp: validateLink_def validLink_def nodeAt_def)

lemma validateBinding_None: "validateBinding nodes b = None \<longleftrightarrow> validBinding nodes b"
  by (cases "nodes (bindNode b)") (auto simp: validateBinding_def validBinding_def nodeAt_def)

section \<open>Properties\<close>

text \<open>
  C28 (validation). The loops of \<open>Validate\<close> accept exactly the topologies that satisfy the
  conditions of \<open>validTopology\<close>: names present and unique, references between nodes, links,
  interfaces, lists, policies and access lists resolved, costs positive, actions and protocols known.
\<close>

theorem Validate_exact: "Validate t = None \<longleftrightarrow> validTopology t"
proof -
  have names: "checkSeen (\<lambda>seen n. firstError
        [failIf (nodeName n = []) (Errorf ''node name is required'' []),
         failIf (nodeName n \<in> set seen) (Errorf ''duplicate node %q'' [nodeName n])])
        (\<lambda>n. [nodeName n]) [] (topoNodes t) = None
      \<longleftrightarrow> (\<forall>n \<in> set (topoNodes t). nodeName n \<noteq> []) \<and> distinct (map nodeName (topoNodes t))"
    by (rule checkSeen_key_None) auto
  show ?thesis
    unfolding Validate_def validTopology_def Let_def
    by (auto simp: names validateNode_None validateLink_None validateBinding_None validateACL_None)
qed

end
