(* ===== verification/ACL.thy ===== *)
theory ACL
  imports Validate Condition
begin

text \<open>
  \<open>internal/domain/device/behavior.go\<close>: evaluating the access lists bound to an interface. The
  comparison closure of \<open>sort.SliceStable\<close> reads \<open>i < j\<close> for rules with equal sequence
  numbers; the library always passes the later position first, so there it is false: \<open>ruleLess\<close>.
\<close>

section \<open>Decisions\<close>

record packet_message =
  pmNode :: string
  pmSpec :: packet_spec

record policy_decision =
  pdPolicyName :: string
  pdACLName :: string
  pdRuleSeq :: int
  pdAction :: string
  pdDenied :: bool
  pdCond :: cond
  pdReason :: string
  pdDefaultAction :: string
  pdSource :: config_source

definition decisionCond :: "bool \<Rightarrow> cond" where
  "decisionCond denied = (if denied then TrueC else FalseC)"

definition NormalizedSpec :: "packet_message \<Rightarrow> packet_spec" where
  "NormalizedSpec p = WithNormalizedPorts (pmSpec p)"

definition InterfaceMatches :: "device_kind \<Rightarrow> string \<Rightarrow> string \<Rightarrow> bool" where
  "InterfaceMatches kind policyInterface packetInterface =
     EquivalentInterfaceName kind policyInterface packetInterface"

definition prefixSetIsAny :: "prefix_set \<Rightarrow> bool" where
  "prefixSetIsAny s = (case s of ExactPrefixSet p \<Rightarrow> prefixString p = ''0.0.0.0/0'' | _ \<Rightarrow> False)"

definition prefixSetMatches :: "prefix_set \<Rightarrow> prefix_set option \<Rightarrow> bool" where
  "prefixSetMatches m packet =
     (case packet of None \<Rightarrow> prefixSetIsAny m | Some p \<Rightarrow> AddressSpaceOverlaps m p)"

definition aclRuleMatches :: "acl_rule \<Rightarrow> packet_spec \<Rightarrow> bool" where
  "aclRuleMatches rule rawSpec =
     (let m = WithNormalizedPorts (ruleMatch rule); spec = WithNormalizedPorts rawSpec
      in if Protocol m \<noteq> [] \<and> \<not> equalFold (Protocol m) (Protocol spec) then False
         else if (case SrcSet m of None \<Rightarrow> False | Some s \<Rightarrow> \<not> prefixSetMatches s (SrcSet spec)) then False
         else if (case DstSet m of None \<Rightarrow> False | Some s \<Rightarrow> \<not> prefixSetMatches s (DstSet spec)) then False
         else if (case SrcPort m of None \<Rightarrow> False | Some s \<Rightarrow> \<not> portOverlaps s (SrcPort spec)) then False
         else if (case DstPort m of None \<Rightarrow> False | Some s \<Rightarrow> \<not> portOverlaps s (DstPort spec)) then False
         else True)"

definition ruleLess :: "acl_rule \<Rightarrow> acl_rule \<Rightarrow> bool" where
  "ruleLess a b =
     (if ruleSeq a = ruleSeq b then False
      else if ruleSeq a = 0 then False
      else if ruleSeq b = 0 then True
      else ruleSeq a < ruleSeq b)"

definition effectiveDefault :: "profile_registry \<Rightarrow> node \<Rightarrow> acl \<Rightarrow> string" where
  "effectiveDefault registry device a =
     (if aclDefaultAction a = [] then DefaultACLAction (ProfileFor registry (nodeKind device)) ACLDefaultPermit
      else aclDefaultAction a)"

definition evaluateACL ::
    "profile_registry \<Rightarrow> node \<Rightarrow> acl \<Rightarrow> acl_binding \<Rightarrow> packet_spec \<Rightarrow> policy_decision" where
  "evaluateACL registry device a binding spec =
     (case List.find (\<lambda>rule. aclRuleMatches rule spec) (sortSlice ruleLess (aclRules a)) of
        Some rule \<Rightarrow>
          (let denied = (ruleAction rule = ACLDeny)
           in \<lparr>pdPolicyName = aclName a, pdACLName = aclName a, pdRuleSeq = ruleSeq rule,
               pdAction = ruleAction rule, pdDenied = denied, pdCond = decisionCond denied,
               pdReason = (if denied then ''denied by acl '' else ''permitted by acl '') @ aclName a,
               pdDefaultAction = [], pdSource = ruleSource rule\<rparr>)
      | None \<Rightarrow>
          (let defaultAction = effectiveDefault registry device a; denied = (defaultAction = ACLDefaultDeny)
           in \<lparr>pdPolicyName = aclName a, pdACLName = aclName a, pdRuleSeq = 0,
               pdAction = defaultAction, pdDenied = denied, pdCond = decisionCond denied,
               pdReason = (if denied then ''default deny by acl '' else ''default permit by acl '') @ aclName a,
               pdDefaultAction = defaultAction, pdSource = bindSource binding\<rparr>))"

definition aclByName :: "acl list \<Rightarrow> string \<Rightarrow> string \<Rightarrow> acl option" where
  "aclByName acls n name = List.find (\<lambda>a. aclNode a = n \<and> aclName a = name) acls"

definition noDecision :: policy_decision where
  "noDecision = \<lparr>pdPolicyName = [], pdACLName = [], pdRuleSeq = 0, pdAction = [], pdDenied = False,
     pdCond = FalseC, pdReason = [], pdDefaultAction = [], pdSource = zeroSource\<rparr>"

text \<open>The loop over the bindings: the first that applies and whose list exists decides.\<close>

fun evaluateBindings ::
    "profile_registry \<Rightarrow> node \<Rightarrow> packet_spec \<Rightarrow> string \<Rightarrow> string \<Rightarrow> acl list \<Rightarrow> acl_binding list \<Rightarrow> policy_decision" where
  "evaluateBindings registry device spec iface stage acls [] = noDecision"
| "evaluateBindings registry device spec iface stage acls (b # bs) =
     (if bindNode b \<noteq> nodeName device \<or> bindDirection b \<noteq> stage then
        evaluateBindings registry device spec iface stage acls bs
      else if bindInterface b \<noteq> [] \<and> \<not> InterfaceMatches (nodeKind device) (bindInterface b) iface then
        evaluateBindings registry device spec iface stage acls bs
      else (case aclByName acls (nodeName device) (bindACLName b) of
              None \<Rightarrow> evaluateBindings registry device spec iface stage acls bs
            | Some a \<Rightarrow> evaluateACL registry device a b spec))"

definition EvaluateDataACL ::
    "profile_registry \<Rightarrow> node \<Rightarrow> packet_message \<Rightarrow> string \<Rightarrow> acl list \<Rightarrow> acl_binding list \<Rightarrow> policy_decision" where
  "EvaluateDataACL registry device pkt stage acls bindings =
     (let spec = NormalizedSpec pkt;
          iface = (if stage = ''egress'' then EgressInterface spec else IngressInterface spec)
      in evaluateBindings registry device spec iface stage acls bindings)"

section \<open>First match in the order of sequence numbers\<close>

interpretation rule_order: less_closure ruleLess
  by unfold_locales (auto simp: ruleLess_def split: if_splits)

lemma WithNormalizedPorts_simps [simp]:
  "SrcSet (WithNormalizedPorts s) = SrcSet s" "DstSet (WithNormalizedPorts s) = DstSet s"
  "Protocol (WithNormalizedPorts s) = Protocol s"
  "SrcPort (WithNormalizedPorts s) = Some (NormalizePortSet (SrcPort s))"
  "DstPort (WithNormalizedPorts s) = Some (NormalizePortSet (DstPort s))"
  by (simp_all add: WithNormalizedPorts_def)

text \<open>Specifications whose sets are well formed, and the packets they describe.\<close>

definition specOK :: "packet_spec \<Rightarrow> bool" where
  "specOK s \<longleftrightarrow> (\<forall>x. SrcSet s = Some x \<longrightarrow> prefixSetOK x) \<and> (\<forall>x. DstSet s = Some x \<longrightarrow> prefixSetOK x)
     \<and> portSetOK (NormalizePortSet (SrcPort s)) \<and> portSetOK (NormalizePortSet (DstPort s))"

definition describes :: "packet_spec \<Rightarrow> ipaddr \<Rightarrow> ipaddr \<Rightarrow> int \<Rightarrow> int \<Rightarrow> bool" where
  "describes s src dst sport dport \<longleftrightarrow>
     (\<forall>x. SrcSet s = Some x \<longrightarrow> ContainsAddr x src) \<and> (\<forall>x. DstSet s = Some x \<longrightarrow> ContainsAddr x dst)
     \<and> portContains (NormalizePortSet (SrcPort s)) sport \<and> portContains (NormalizePortSet (DstPort s)) dport"

text \<open>Sets that put no restriction on an address the packet specification does not name.\<close>

definition unrestricted :: "prefix_set option \<Rightarrow> bool" where
  "unrestricted m = (case m of None \<Rightarrow> True | Some (ExactPrefixSet p) \<Rightarrow> prefixString p = ''0.0.0.0/0'' | Some _ \<Rightarrow> False)"

lemma any_string:
  assumes "isV4Prefix p"
  shows "prefixString p = ''0.0.0.0/0'' \<longleftrightarrow> p = IPPrefix (IPv4 0) 0"
proof -
  have "pfxStr (IPPrefix (IPv4 0) (int 0)) = ''0.0.0.0/0''"
    by (subst pfxStr_v4) (simp_all add: string4_def octets4_def natStr.simps [of 0] digitChar_def char_of_def bit_0)
  moreover have "isV4Prefix (IPPrefix (IPv4 0) 0)" by (simp add: isV4Prefix_OK prefix_eval)
  ultimately show ?thesis using assms pfxStr_inject_v4 [of p "IPPrefix (IPv4 0) 0"]
    by (cases p rule: isV4Prefix.cases) (auto simp: prefixString_def prefix_eval)
qed

lemma prefixSetMatches_iff:
  assumes "\<forall>x. m = Some x \<longrightarrow> prefixSetOK x" "\<forall>x. packet = Some x \<longrightarrow> prefixSetOK x"
  shows "(case m of None \<Rightarrow> False | Some x \<Rightarrow> \<not> prefixSetMatches x packet) \<longleftrightarrow>
         \<not> ((packet \<noteq> None \<or> unrestricted m)
            \<and> (\<exists>a. (\<forall>x. m = Some x \<longrightarrow> ContainsAddr x a) \<and> (\<forall>x. packet = Some x \<longrightarrow> ContainsAddr x a)))"
proof (cases m)
  case None
  then show ?thesis using assms(2) ContainsAddr_nonempty by (cases packet) (auto simp: unrestricted_def)
next
  case m: (Some x)
  then obtain a where "ContainsAddr x a" using assms(1) ContainsAddr_nonempty by blast
  then show ?thesis using assms m
    by (cases packet) (auto simp: prefixSetMatches_def prefixSetIsAny_def unrestricted_def AddressSpaceOverlaps_decides split: prefix_set.splits)
qed

section \<open>Properties\<close>

text \<open>
  Which rule decides. \<open>evaluateACL\<close> applies the first matching rule in the order of sequence
  numbers, rules without a number (0) last and in the order they are written: every matching rule
  written before it comes later in that order, every matching rule written after it does not come
  earlier. When no rule matches, the list's default action decides, or that of the device kind.
\<close>

lemma evaluateACL_first_match:
  "(\<exists>pre rule post. aclRules a = pre @ rule # post \<and> aclRuleMatches rule spec
      \<and> \<not> (\<exists>r \<in> set pre. aclRuleMatches r spec \<and> \<not> ruleLess rule r)
      \<and> \<not> (\<exists>r \<in> set post. aclRuleMatches r spec \<and> ruleLess r rule)
      \<and> pdRuleSeq (evaluateACL registry device a binding spec) = ruleSeq rule
      \<and> pdAction (evaluateACL registry device a binding spec) = ruleAction rule
      \<and> pdDenied (evaluateACL registry device a binding spec) = (ruleAction rule = ACLDeny)
      \<and> pdSource (evaluateACL registry device a binding spec) = ruleSource rule)
   \<or> (list_all (\<lambda>r. aclRuleMatches r spec = False) (aclRules a)
      \<and> pdAction (evaluateACL registry device a binding spec) = effectiveDefault registry device a
      \<and> pdDenied (evaluateACL registry device a binding spec) = (effectiveDefault registry device a = ACLDefaultDeny))"
proof (cases "List.find (\<lambda>rule. aclRuleMatches rule spec) (sortSlice ruleLess (aclRules a))")
  case None
  then have "list_all (\<lambda>r. aclRuleMatches r spec = False) (aclRules a)"
    by (simp add: find_None_iff list_all_iff)
  moreover have "pdAction (evaluateACL registry device a binding spec) = effectiveDefault registry device a"
      "pdDenied (evaluateACL registry device a binding spec) = (effectiveDefault registry device a = ACLDefaultDeny)"
    by (simp_all add: evaluateACL_def None Let_def)
  ultimately show ?thesis by blast
next
  case (Some rule)
  from rule_order.find_sortSlice [OF Some]
  obtain pre post where "aclRules a = pre @ rule # post" "aclRuleMatches rule spec"
      "\<not> (\<exists>r \<in> set pre. aclRuleMatches r spec \<and> \<not> ruleLess rule r)"
      "\<not> (\<exists>r \<in> set post. aclRuleMatches r spec \<and> ruleLess r rule)" by blast
  moreover have "pdRuleSeq (evaluateACL registry device a binding spec) = ruleSeq rule"
      "pdAction (evaluateACL registry device a binding spec) = ruleAction rule"
      "pdDenied (evaluateACL registry device a binding spec) = (ruleAction rule = ACLDeny)"
      "pdSource (evaluateACL registry device a binding spec) = ruleSource rule"
    by (simp_all add: evaluateACL_def Some Let_def)
  ultimately show ?thesis by blast
qed

text \<open>
  C27 (when a rule matches). For well-formed sets, a rule matches a packet specification exactly when its
  protocol agrees, some packet, that is a source, a destination and two ports, is described by both, and
  the rule restricts no address that the specification leaves open: where the specification names no
  source (or destination), the rule has to name none either, or 0.0.0.0/0. The specifications that the
  program builds for its traces name no source, so a rule with any other source never matches them.
\<close>

theorem aclRuleMatches_common_packet:
  assumes "specOK (ruleMatch rule)" "specOK spec"
  shows "aclRuleMatches rule spec \<longleftrightarrow>
    (Protocol (ruleMatch rule) = [] \<or> equalFold (Protocol (ruleMatch rule)) (Protocol spec))
    \<and> (SrcSet spec \<noteq> None \<or> unrestricted (SrcSet (ruleMatch rule)))
    \<and> (DstSet spec \<noteq> None \<or> unrestricted (DstSet (ruleMatch rule)))
    \<and> (\<exists>src dst sport dport. describes (ruleMatch rule) src dst sport dport \<and> describes spec src dst sport dport)"
proof -
  let ?m = "ruleMatch rule"
  have ok: "\<forall>x. SrcSet ?m = Some x \<longrightarrow> prefixSetOK x" "\<forall>x. DstSet ?m = Some x \<longrightarrow> prefixSetOK x"
    "\<forall>x. SrcSet spec = Some x \<longrightarrow> prefixSetOK x" "\<forall>x. DstSet spec = Some x \<longrightarrow> prefixSetOK x"
    using assms by (simp_all add: specOK_def)
  note src = prefixSetMatches_iff [OF ok(1,3)] and dst = prefixSetMatches_iff [OF ok(2,4)]
  have ports: "portOverlaps (NormalizePortSet x) (Some (NormalizePortSet y)) \<longleftrightarrow>
      (\<exists>port. portContains (NormalizePortSet x) port \<and> portContains (NormalizePortSet y) port)"
    if "portSetOK (NormalizePortSet x)" "portSetOK (NormalizePortSet y)" for x y
    using that by (rule portOverlaps_iff)
  have sp: "portOverlaps (NormalizePortSet (SrcPort ?m)) (Some (NormalizePortSet (SrcPort spec))) \<longleftrightarrow>
      (\<exists>port. portContains (NormalizePortSet (SrcPort ?m)) port \<and> portContains (NormalizePortSet (SrcPort spec)) port)"
    using assms by (intro ports) (simp_all add: specOK_def)
  have dp: "portOverlaps (NormalizePortSet (DstPort ?m)) (Some (NormalizePortSet (DstPort spec))) \<longleftrightarrow>
      (\<exists>port. portContains (NormalizePortSet (DstPort ?m)) port \<and> portContains (NormalizePortSet (DstPort spec)) port)"
    using assms by (intro ports) (simp_all add: specOK_def)
  show ?thesis
    unfolding aclRuleMatches_def Let_def WithNormalizedPorts_simps src dst option.case sp dp describes_def by (auto; blast)
qed

theorem aclRuleMatches_common_packet_witness:
  "\<exists>permit deny spec. aclRuleMatches permit spec \<and> \<not> aclRuleMatches deny spec \<and> SrcSet spec = None
     \<and> (\<exists>src dst sport dport. describes (ruleMatch deny) src dst sport dport \<and> describes spec src dst sport dport)"
proof -
  define m where "m s = \<lparr>SrcSet = s, DstSet = Some (ExactPrefixSet (IPPrefix (IPv4 0x0A000000) 8)),
      Protocol = ''tcp'', SrcPort = None, DstPort = Some (PortRangeSet 80 90),
      IngressInterface = [], EgressInterface = []\<rparr>" for s
  define rule where "rule s = \<lparr>ruleSeq = 10, ruleAction = ''deny'', ruleMatch = m s, ruleSource = zeroSource\<rparr>" for s
  define spec where "spec = \<lparr>SrcSet = None, DstSet = Some (ExactPrefixSet (IPPrefix (IPv4 0x0A010000) 16)),
      Protocol = ''TCP'', SrcPort = None, DstPort = Some (ExactPortSet 80), IngressInterface = [], EgressInterface = []\<rparr>"
  let ?src = "Some (ExactPrefixSet (IPPrefix (IPv4 0xC0A80100) 24))"
  have ok: "specOK (ruleMatch (rule None))" "specOK (ruleMatch (rule ?src))" "specOK spec"
    by (simp_all add: specOK_def rule_def m_def spec_def NormalizePortSet_def prefix_eval)
  have described: "describes (ruleMatch (rule s)) (IPv4 0xC0A80101) (IPv4 0x0A010001) 1 80"
      "describes spec (IPv4 0xC0A80101) (IPv4 0x0A010001) 1 80" if "s = None \<or> s = ?src" for s
    using that by (auto simp: describes_def rule_def m_def spec_def NormalizePortSet_def ExactContainsAddr_def prefix_eval)
  have "equalFold ''tcp'' ''TCP''" by code_simp
  then have proto: "equalFold (Protocol (ruleMatch (rule s))) (Protocol spec)" for s by (simp add: rule_def m_def spec_def)
  have open_sets: "SrcSet spec = None" "DstSet spec \<noteq> None" "unrestricted (SrcSet (ruleMatch (rule None)))"
    by (simp_all add: spec_def rule_def m_def unrestricted_def)
  have "prefixString (IPPrefix (IPv4 0xC0A80100) 24) \<noteq> ''0.0.0.0/0''" using any_string [of "IPPrefix (IPv4 0xC0A80100) 24"] by (simp add: prefix_eval isV4Prefix_OK)
  then have "\<not> unrestricted (SrcSet (ruleMatch (rule ?src)))" by (simp add: rule_def m_def unrestricted_def)
  then have "\<not> aclRuleMatches (rule ?src) spec"
    using aclRuleMatches_common_packet [OF ok(2,3)] open_sets by blast
  moreover have "aclRuleMatches (rule None) spec"
    using aclRuleMatches_common_packet [OF ok(1,3)] open_sets proto described [of None] by blast
  ultimately show ?thesis using described [of ?src] open_sets(1) by blast
qed

end
