(* ===== verification/Route.thy ===== *)
theory Route
  imports Condition
begin

text \<open>
  \<open>internal/domain/routing/route/route.go\<close> and \<open>bgp/decision.go\<close>: the control-plane route
  candidate. The struct \<open>NLRI\<close> wraps one prefix; a \<open>failure.Cond\<close> field that may be
  \<open>nil\<close> is a \<open>cond option\<close>.
\<close>

record bgp_attributes =
  atASPath :: "asn list"
  atCommunities :: "string list"
  atOriginCode :: string
  atOriginatorID :: string
  atClusterList :: "string list"
  atLocalPref :: int
  atMED :: int
  atWeight :: int
  atLearnedIBGP :: bool
  atInvalid :: bool

record provenance =
  pvOriginNode :: string
  pvFromNode :: string
  pvPathNodes :: "string list"
  pvPathLinks :: "string list"

record next_hop =
  nhNode :: string
  nhAddr :: string

record rib_entry =
  rbPrefix :: prefix
  rbAttrs :: bgp_attributes
  rbProvenance :: provenance
  rbNextHop :: next_hop
  rbSourceKind :: string
  rbRouteSource :: configured_route
  rbIGPCost :: int
  rbAggregateContributors :: "string list"
  rbBaseCond :: "cond option"
  rbCondition :: "cond option"
  rbSelectedCond :: "cond option"
  rbRacing :: bool

definition nextHopValid :: "next_hop \<Rightarrow> bool" where
  "nextHopValid h \<longleftrightarrow> nhNode h \<noteq> [] \<or> nhAddr h \<noteq> []"

definition normalizeAttrs :: "bgp_attributes \<Rightarrow> bgp_attributes" where
  "normalizeAttrs a = a\<lparr>atOriginCode :=
     (if atOriginCode a = [] then BGPOriginIGP else NormalizeBGPOriginCode (atOriginCode a))\<rparr>"

definition normalizeSource :: "string \<Rightarrow> prefix \<Rightarrow> configured_route \<Rightarrow> configured_route" where
  "normalizeSource kind p s =
     s\<lparr>crKind := (if crKind s = [] then kind else crKind s),
       crNetworkInstance := (if crNetworkInstance s = [] then NetworkInstanceDefault else crNetworkInstance s),
       crPrefix := (if prefixIsZero (crPrefix s) then p else crPrefix s)\<rparr>"

definition Normalize :: "rib_entry \<Rightarrow> rib_entry" where
  "Normalize r =
     (let kind = (if rbSourceKind r = [] then RouteSourceBGP else rbSourceKind r)
      in r\<lparr>rbAttrs := normalizeAttrs (rbAttrs r), rbSourceKind := kind,
           rbRouteSource := normalizeSource kind (rbPrefix r) (rbRouteSource r)\<rparr>)"

definition OriginCodeRank :: "string \<Rightarrow> int" where
  "OriginCodeRank origin =
     (let s = NormalizeBGPOriginCode origin
      in if s = BGPOriginIGP then 0 else if s = BGPOriginEGP then 1
         else if s = BGPOriginIncomplete then 2 else 3)"

definition NeighboringAS :: "asn list \<Rightarrow> asn" where
  "NeighboringAS path = (case path of [] \<Rightarrow> 0 | a # _ \<Rightarrow> a)"

section \<open>Zero values\<close>

definition zeroAttrs :: bgp_attributes where
  "zeroAttrs = \<lparr>atASPath = [], atCommunities = [], atOriginCode = [], atOriginatorID = [],
     atClusterList = [], atLocalPref = 0, atMED = 0, atWeight = 0, atLearnedIBGP = False, atInvalid = False\<rparr>"

definition zeroConfiguredRoute :: configured_route where
  "zeroConfiguredRoute = \<lparr>crNode = [], crNetworkInstance = [], crAFI = [], crPrefix = zeroPrefix,
     crNextHop = [], crInterface = [], crKind = [], crConnectedClass = [], crAdminDistance = 0,
     crMetric = 0, crMetricType = 0, crOSPFRouteType = [], crSummaryOnly = False, crSource = zeroSource\<rparr>"

definition zeroRIBEntry :: rib_entry where
  "zeroRIBEntry = \<lparr>rbPrefix = zeroPrefix, rbAttrs = zeroAttrs,
     rbProvenance = \<lparr>pvOriginNode = [], pvFromNode = [], pvPathNodes = [], pvPathLinks = []\<rparr>,
     rbNextHop = \<lparr>nhNode = [], nhAddr = []\<rparr>, rbSourceKind = [], rbRouteSource = zeroConfiguredRoute,
     rbIGPCost = 0, rbAggregateContributors = [], rbBaseCond = None, rbCondition = None,
     rbSelectedCond = None, rbRacing = False\<rparr>"

section \<open>Lemmas\<close>

lemma lowerChar_idem [simp]: "lowerChar (lowerChar c) = lowerChar c"
proof -
  have "of_char (char_of (n + 32) :: char) = n + 32" if "n \<le> 90" for n :: nat
    using that by simp
  then show ?thesis by (auto simp: lowerChar_def Let_def)
qed

lemma isSpace_lowerChar [simp]: "isSpace (lowerChar c) = isSpace c"
proof -
  have "of_char (char_of (n + 32) :: char) = n + 32" if "n \<le> 90" for n :: nat
    using that by simp
  then show ?thesis by (auto simp: lowerChar_def isSpace_def Let_def)
qed

lemma dropWhile_idem: "dropWhile P (dropWhile P xs) = dropWhile P xs"
  by (induction xs) auto

lemma rev_dropWhile_no_head:
  "xs = [] \<or> \<not> P (hd xs) \<Longrightarrow> dropWhile P (rev (dropWhile P (rev xs))) = rev (dropWhile P (rev xs))"
proof -
  assume hd: "xs = [] \<or> \<not> P (hd xs)"
  obtain ys where ys: "xs = rev (dropWhile P (rev xs)) @ ys"
    by (metis rev_append rev_rev_ident takeWhile_dropWhile_id)
  show ?thesis
  proof (cases "rev (dropWhile P (rev xs))")
    case (Cons z zs)
    then have "hd xs = z" "xs \<noteq> []" using ys by (metis append_Cons list.sel(1), metis append_is_Nil_conv list.distinct(1))
    then show ?thesis using hd Cons by simp
  next
    case Nil
    show ?thesis by (simp only: Nil dropWhile.simps)
  qed
qed

lemma hd_dropWhile_not: "dropWhile P xs = [] \<or> \<not> P (hd (dropWhile P xs))"
  by (induction xs) auto

lemma trimSpace_idem [simp]: "trimSpace (trimSpace s) = trimSpace s"
  unfolding trimSpace_def
  by (simp add: rev_dropWhile_no_head [OF hd_dropWhile_not] dropWhile_idem)

lemma dropWhile_isSpace_lower: "dropWhile isSpace (map lowerChar s) = map lowerChar (dropWhile isSpace s)"
  by (induction s) auto

lemma trimSpace_toLower: "trimSpace (toLower s) = toLower (trimSpace s)"
  by (simp add: trimSpace_def toLower_def dropWhile_isSpace_lower rev_map)

lemma toLower_idem [simp]: "toLower (toLower s) = toLower s"
  by (simp add: toLower_def)

lemma NormalizeBGPOriginCode_idem [simp]:
  "NormalizeBGPOriginCode (NormalizeBGPOriginCode origin) = NormalizeBGPOriginCode origin"
proof -
  have fixed: "toLower (trimSpace BGPOriginIGP) = BGPOriginIGP" "toLower (trimSpace BGPOriginEGP) = BGPOriginEGP"
      "toLower (trimSpace BGPOriginIncomplete) = BGPOriginIncomplete"
    by code_simp+
  show ?thesis
    by (simp add: NormalizeBGPOriginCode_def Let_def fixed trimSpace_toLower)
qed

lemma NormalizeBGPOriginCode_nonempty [simp]: "NormalizeBGPOriginCode origin \<noteq> []"
  by (simp add: NormalizeBGPOriginCode_def Let_def)

lemma NormalizeBGPOriginCode_IGP [simp]: "NormalizeBGPOriginCode BGPOriginIGP = BGPOriginIGP"
  by code_simp

lemma normalizeAttrs_idem [simp]: "normalizeAttrs (normalizeAttrs a) = normalizeAttrs a"
  by (simp add: normalizeAttrs_def)

lemma normalizeSource_idem [simp]: "normalizeSource kind p (normalizeSource kind p s) = normalizeSource kind p s"
  by (simp add: normalizeSource_def)

lemma Normalize_idem [simp]: "Normalize (Normalize r) = Normalize r"
  by (simp add: Normalize_def Let_def)

lemma Normalize_simps [simp]:
  "rbPrefix (Normalize r) = rbPrefix r" "rbProvenance (Normalize r) = rbProvenance r"
  "rbNextHop (Normalize r) = rbNextHop r" "rbIGPCost (Normalize r) = rbIGPCost r"
  "rbCondition (Normalize r) = rbCondition r" "rbBaseCond (Normalize r) = rbBaseCond r"
  "rbSelectedCond (Normalize r) = rbSelectedCond r" "rbRacing (Normalize r) = rbRacing r"
  "rbAggregateContributors (Normalize r) = rbAggregateContributors r"
  "atInvalid (rbAttrs (Normalize r)) = atInvalid (rbAttrs r)"
  "atASPath (rbAttrs (Normalize r)) = atASPath (rbAttrs r)"
  "atLocalPref (rbAttrs (Normalize r)) = atLocalPref (rbAttrs r)"
  "atLearnedIBGP (rbAttrs (Normalize r)) = atLearnedIBGP (rbAttrs r)"
  "atMED (rbAttrs (Normalize r)) = atMED (rbAttrs r)"
  "atWeight (rbAttrs (Normalize r)) = atWeight (rbAttrs r)"
  "atCommunities (rbAttrs (Normalize r)) = atCommunities (rbAttrs r)"
  "atClusterList (rbAttrs (Normalize r)) = atClusterList (rbAttrs r)"
  "atOriginatorID (rbAttrs (Normalize r)) = atOriginatorID (rbAttrs r)"
  by (simp_all add: Normalize_def normalizeAttrs_def Let_def)

end
