(* ===== verification/Decision.thy ===== *)
theory Decision
  imports Route "HOL-Library.Product_Lexorder"
begin

text \<open>
  \<open>internal/domain/routing/bgp/process.go\<close>: the BGP decision process, and what a session does
  to a route on export and import. The interface \<open>DecisionProcess\<close> has three implementers, the
  constructors of \<open>decision_process\<close>; \<open>nil\<close> stands for the default process.
\<close>

section \<open>Options and processes\<close>

record decision_options =
  AlwaysCompareMED :: bool
  DeterministicMED :: bool
  CompareRouterID :: bool
  PreferLowerRouterID :: bool
  Multipath :: bool

definition DefaultDecisionOptions :: decision_options where
  "DefaultDecisionOptions = \<lparr>AlwaysCompareMED = False, DeterministicMED = False, CompareRouterID = False,
     PreferLowerRouterID = True, Multipath = False\<rparr>"

datatype decision_process =
    DefaultDecisionProcess decision_options
  | FRRDecisionProcess decision_options
  | NeverEquivalentDecisionProcess decision_options

definition DefaultProcess :: decision_process where
  "DefaultProcess = DefaultDecisionProcess DefaultDecisionOptions"

fun Options :: "decision_process \<Rightarrow> decision_options" where
  "Options (DefaultDecisionProcess opts) = opts"
| "Options (FRRDecisionProcess opts) = opts"
| "Options (NeverEquivalentDecisionProcess opts) = opts"

section \<open>Comparing routes\<close>

text \<open>
  \<open>net.ParseIP\<close> gives 16 bytes, an IPv4 address in its mapped form; \<open>To4\<close> recognises the
  mapped form. Comparing bytes from the left is comparing the numbers.
\<close>

definition parseIP :: "string \<Rightarrow> (128 word) option" where
  "parseIP s =
     (case parseAddr s of
        Some (IPv4 w) \<Rightarrow> Some (push_bit 32 65535 OR ucast w)
      | Some (IPv6 w z) \<Rightarrow> if z = [] then Some w else None
      | _ \<Rightarrow> None)"

definition to4 :: "128 word \<Rightarrow> (32 word) option" where
  "to4 ip = (if drop_bit 32 ip = 65535 then Some (ucast ip) else None)"

definition ipCompare :: "128 word \<Rightarrow> 128 word \<Rightarrow> bool" where
  "ipCompare a b = (case (to4 a, to4 b) of (Some x, Some y) \<Rightarrow> x < y | _ \<Rightarrow> a < b)"

definition ipLess :: "string \<Rightarrow> string \<Rightarrow> bool" where
  "ipLess a b =
     (case (parseIP a, parseIP b) of (Some ipA, Some ipB) \<Rightarrow> ipCompare ipA ipB | _ \<Rightarrow> a < b)"

definition nextHopIGPCost :: "rib_entry \<Rightarrow> int" where
  "nextHopIGPCost r = rbIGPCost r"

definition shouldCompareMED :: "rib_entry \<Rightarrow> rib_entry \<Rightarrow> decision_options \<Rightarrow> bool" where
  "shouldCompareMED a b opts =
     (if DeterministicMED opts then NeighboringAS (atASPath (rbAttrs a)) = NeighboringAS (atASPath (rbAttrs b))
      else if AlwaysCompareMED opts then True
      else NeighboringAS (atASPath (rbAttrs a)) = NeighboringAS (atASPath (rbAttrs b)))"

definition ospfRouteTypeRank :: "string \<Rightarrow> int" where
  "ospfRouteTypeRank t =
     (if t = [] \<or> t = ''intra-area'' then 0
      else if t = ''inter-area'' then 1
      else if t = ''external-type-1'' then 2
      else if t = ''external-type-2'' then 3
      else 4)"

definition pathTie :: "rib_entry \<Rightarrow> rib_entry \<Rightarrow> bool \<Rightarrow> bool" where
  "pathTie a b reverse =
     (if reverse then join '','' (pvPathNodes (rbProvenance b)) < join '','' (pvPathNodes (rbProvenance a))
      else join '','' (pvPathNodes (rbProvenance a)) < join '','' (pvPathNodes (rbProvenance b)))"

definition lessOSPF :: "rib_entry \<Rightarrow> rib_entry \<Rightarrow> bool \<Rightarrow> bool" where
  "lessOSPF a b reversePathTie =
     (let ra = ospfRouteTypeRank (crOSPFRouteType (rbRouteSource a));
          rb = ospfRouteTypeRank (crOSPFRouteType (rbRouteSource b))
      in if ra \<noteq> rb then ra < rb
         else if crMetric (rbRouteSource a) \<noteq> crMetric (rbRouteSource b)
           then crMetric (rbRouteSource a) < crMetric (rbRouteSource b)
         else if length (pvPathLinks (rbProvenance a)) \<noteq> length (pvPathLinks (rbProvenance b))
           then length (pvPathLinks (rbProvenance a)) < length (pvPathLinks (rbProvenance b))
         else pathTie a b reversePathTie)"

definition lessBGP :: "node \<Rightarrow> rib_entry \<Rightarrow> rib_entry \<Rightarrow> decision_options \<Rightarrow> bool \<Rightarrow> bool" where
  "lessBGP receiver a b opts reversePathTie =
     (let aa = rbAttrs a; ba = rbAttrs b; ap = rbProvenance a; bp = rbProvenance b
      in if atWeight aa \<noteq> atWeight ba then atWeight ba < atWeight aa
         else if atLocalPref aa \<noteq> atLocalPref ba then atLocalPref ba < atLocalPref aa
         else if pvOriginNode ap = nodeName receiver \<or> pvOriginNode bp = nodeName receiver
           then pvOriginNode ap = nodeName receiver
         else if length (atASPath aa) \<noteq> length (atASPath ba) then length (atASPath aa) < length (atASPath ba)
         else if OriginCodeRank (atOriginCode aa) \<noteq> OriginCodeRank (atOriginCode ba)
           then OriginCodeRank (atOriginCode aa) < OriginCodeRank (atOriginCode ba)
         else if shouldCompareMED a b opts \<and> atMED aa \<noteq> atMED ba then atMED aa < atMED ba
         else if (\<not> atLearnedIBGP aa) \<noteq> (\<not> atLearnedIBGP ba) then \<not> atLearnedIBGP aa
         else if nextHopIGPCost a \<noteq> nextHopIGPCost b then nextHopIGPCost a < nextHopIGPCost b
         else if length (atClusterList aa) \<noteq> length (atClusterList ba)
           then length (atClusterList aa) < length (atClusterList ba)
         else if atOriginatorID aa \<noteq> [] \<and> atOriginatorID ba \<noteq> [] \<and> atOriginatorID aa \<noteq> atOriginatorID ba
           then (if PreferLowerRouterID opts then ipLess (atOriginatorID aa) (atOriginatorID ba)
                 else ipLess (atOriginatorID ba) (atOriginatorID aa))
         else if CompareRouterID opts \<and> pvFromNode ap \<noteq> pvFromNode bp
           then (if PreferLowerRouterID opts then pvFromNode ap < pvFromNode bp
                 else pvFromNode bp < pvFromNode ap)
         else if length (pvPathLinks ap) \<noteq> length (pvPathLinks bp)
           then length (pvPathLinks ap) < length (pvPathLinks bp)
         else pathTie a b reversePathTie)"

definition lessRoute :: "node \<Rightarrow> rib_entry \<Rightarrow> rib_entry \<Rightarrow> decision_options \<Rightarrow> bool \<Rightarrow> bool" where
  "lessRoute receiver rawA rawB opts reversePathTie =
     (let a = Normalize rawA; b = Normalize rawB
      in if rbSourceKind a = RouteSourceOSPF \<and> rbSourceKind b = RouteSourceOSPF
         then lessOSPF a b reversePathTie
         else lessBGP receiver a b opts reversePathTie)"

fun Less :: "decision_process \<Rightarrow> node \<Rightarrow> rib_entry \<Rightarrow> rib_entry \<Rightarrow> bool" where
  "Less (DefaultDecisionProcess opts) receiver a b = lessRoute receiver a b opts False"
| "Less (FRRDecisionProcess opts) receiver a b = lessRoute receiver a b opts True"
| "Less (NeverEquivalentDecisionProcess opts) receiver a b = lessRoute receiver a b opts False"

definition equivalentRoutes :: "decision_options \<Rightarrow> node \<Rightarrow> rib_entry \<Rightarrow> rib_entry \<Rightarrow> bool" where
  "equivalentRoutes opts receiver rawA rawB =
     (let a = Normalize rawA; b = Normalize rawB; aa = rbAttrs a; ba = rbAttrs b
      in if rbSourceKind a = RouteSourceOSPF \<or> rbSourceKind b = RouteSourceOSPF then
           rbSourceKind a = rbSourceKind b
           \<and> crOSPFRouteType (rbRouteSource a) = crOSPFRouteType (rbRouteSource b)
           \<and> crMetric (rbRouteSource a) = crMetric (rbRouteSource b)
         else if atWeight aa \<noteq> atWeight ba then False
         else if atLocalPref aa \<noteq> atLocalPref ba then False
         else if (pvOriginNode (rbProvenance a) = nodeName receiver) \<noteq> (pvOriginNode (rbProvenance b) = nodeName receiver) then False
         else if length (atASPath aa) \<noteq> length (atASPath ba) then False
         else if OriginCodeRank (atOriginCode aa) \<noteq> OriginCodeRank (atOriginCode ba) then False
         else if shouldCompareMED a b opts \<and> atMED aa \<noteq> atMED ba then False
         else if nextHopIGPCost a \<noteq> nextHopIGPCost b then False
         else atLearnedIBGP aa = atLearnedIBGP ba)"

fun Equivalent :: "decision_process \<Rightarrow> node \<Rightarrow> rib_entry \<Rightarrow> rib_entry \<Rightarrow> bool" where
  "Equivalent (DefaultDecisionProcess opts) receiver a b = equivalentRoutes opts receiver a b"
| "Equivalent (FRRDecisionProcess opts) receiver a b = equivalentRoutes opts receiver a b"
| "Equivalent (NeverEquivalentDecisionProcess opts) receiver a b = False"

definition processOrDefault :: "decision_process option \<Rightarrow> decision_process" where
  "processOrDefault decision = (case decision of None \<Rightarrow> DefaultProcess | Some d \<Rightarrow> d)"

definition SelectRoutes :: "decision_process option \<Rightarrow> node \<Rightarrow> rib_entry list \<Rightarrow> rib_entry list" where
  "SelectRoutes decision device routes = sortSlice (Less (processOrDefault decision) device) routes"

definition EquivalentInstalledRoute ::
    "decision_process option \<Rightarrow> node \<Rightarrow> rib_entry list \<Rightarrow> rib_entry \<Rightarrow> bool" where
  "EquivalentInstalledRoute decision n installed r =
     list_ex (\<lambda>existing. Equivalent (processOrDefault decision) n existing r) installed"

section \<open>Export and import\<close>

definition zeroNeighbor :: bgp_neighbor where
  "zeroNeighbor = \<lparr>nbNetworkInstance = [], nbAddress = [], nbRemoteAS = 0, nbActivated = False, nbNextHopSelf = False,
     nbPeerNode = [], nbImportPolicy = [], nbExportPolicy = []\<rparr>"

record route_decision =
  rdRoute :: rib_entry
  rdAccept :: bool
  rdReason :: string

definition ContainsASN :: "asn list \<Rightarrow> asn \<Rightarrow> bool" where
  "ContainsASN xs x = list_ex (\<lambda>v. v = x) xs"

definition PrependASN :: "asn \<Rightarrow> asn list \<Rightarrow> asn list" where
  "PrependASN a path = a # path"

definition ExportRoute :: "node \<Rightarrow> node \<Rightarrow> bgp_neighbor \<Rightarrow> rib_entry \<Rightarrow> route_decision" where
  "ExportRoute from to session raw =
     (let r = Normalize raw; isIBGP = (nodeASN from = nodeASN to)
      in if isIBGP \<and> atLearnedIBGP (rbAttrs r)
         then \<lparr>rdRoute = r, rdAccept = False, rdReason = ''ibgp readvertisement''\<rparr>
         else (let attrs = (rbAttrs r)
                     \<lparr>atASPath := (if \<not> isIBGP then PrependASN (nodeASN from) (atASPath (rbAttrs r))
                                  else atASPath (rbAttrs r)),
                      atLearnedIBGP := isIBGP\<rparr>;
                   hop = (if \<not> isIBGP \<or> nbNextHopSelf session \<or> \<not> nextHopValid (rbNextHop r)
                          then \<lparr>nhNode = nodeName from, nhAddr = []\<rparr> else rbNextHop r)
               in \<lparr>rdRoute = Normalize (r\<lparr>rbAttrs := attrs, rbNextHop := hop\<rparr>), rdAccept = True, rdReason = []\<rparr>))"

definition ImportRoute :: "node \<Rightarrow> node \<Rightarrow> bgp_neighbor \<Rightarrow> rib_entry \<Rightarrow> route_decision" where
  "ImportRoute to from session raw =
     (let r = Normalize raw
      in if ContainsASN (atASPath (rbAttrs r)) (nodeASN to)
         then \<lparr>rdRoute = r, rdAccept = False, rdReason = ''as loop''\<rparr>
         else (let out = (if nodeASN from \<noteq> nodeASN to then r\<lparr>rbAttrs := (rbAttrs r)\<lparr>atLocalPref := 0\<rparr>\<rparr> else r)
               in \<lparr>rdRoute = Normalize out, rdAccept = True, rdReason = []\<rparr>))"

definition ImportRouteKeepASLoop :: "node \<Rightarrow> node \<Rightarrow> bgp_neighbor \<Rightarrow> rib_entry \<Rightarrow> route_decision" where
  "ImportRouteKeepASLoop to from session raw =
     (let r = Normalize raw
      in if ContainsASN (atASPath (rbAttrs r)) (nodeASN to)
         then \<lparr>rdRoute = r\<lparr>rbAttrs := (rbAttrs r)\<lparr>atInvalid := True\<rparr>\<rparr>, rdAccept = True, rdReason = ''as loop''\<rparr>
         else ImportRoute to from session r)"

section \<open>When the comparison is an order\<close>

text \<open>
  The criteria of \<open>lessBGP\<close> as a chain of strict weak orders. The chain and the code agree on
  routes whose MEDs are comparable, that carry no originator identifier, and of which at most one
  originates at the receiver.
\<close>

definition isLocal :: "node \<Rightarrow> rib_entry \<Rightarrow> bool" where
  "isLocal receiver r \<longleftrightarrow> pvOriginNode (rbProvenance r) = nodeName receiver"

definition joinedPath :: "rib_entry \<Rightarrow> string" where
  "joinedPath r = join '','' (pvPathNodes (rbProvenance r))"

definition tieLess :: "bool \<Rightarrow> rib_entry \<Rightarrow> rib_entry \<Rightarrow> bool" where
  "tieLess reverse = (if reverse then (\<lambda>a b. joinedPath b < joinedPath a) else (\<lambda>a b. joinedPath a < joinedPath b))"

definition routerLess :: "decision_options \<Rightarrow> rib_entry \<Rightarrow> rib_entry \<Rightarrow> bool" where
  "routerLess opts =
     (if \<not> CompareRouterID opts then (\<lambda>a b. False)
      else if PreferLowerRouterID opts
      then (\<lambda>a b. pvFromNode (rbProvenance a) < pvFromNode (rbProvenance b))
      else (\<lambda>a b. pvFromNode (rbProvenance b) < pvFromNode (rbProvenance a)))"

definition bestLess :: "node \<Rightarrow> decision_options \<Rightarrow> bool \<Rightarrow> rib_entry \<Rightarrow> rib_entry \<Rightarrow> bool" where
  "bestLess receiver opts reverse =
     thenLess (\<lambda>a b. atWeight (rbAttrs b) < atWeight (rbAttrs a))
    (thenLess (\<lambda>a b. atLocalPref (rbAttrs b) < atLocalPref (rbAttrs a))
    (thenLess (\<lambda>a b. (\<not> isLocal receiver a) < (\<not> isLocal receiver b))
    (thenLess (\<lambda>a b. length (atASPath (rbAttrs a)) < length (atASPath (rbAttrs b)))
    (thenLess (\<lambda>a b. OriginCodeRank (atOriginCode (rbAttrs (Normalize a))) < OriginCodeRank (atOriginCode (rbAttrs (Normalize b))))
    (thenLess (\<lambda>a b. atMED (rbAttrs a) < atMED (rbAttrs b))
    (thenLess (\<lambda>a b. atLearnedIBGP (rbAttrs a) < atLearnedIBGP (rbAttrs b))
    (thenLess (\<lambda>a b. rbIGPCost a < rbIGPCost b)
    (thenLess (\<lambda>a b. length (atClusterList (rbAttrs a)) < length (atClusterList (rbAttrs b)))
    (thenLess (routerLess opts)
    (thenLess (\<lambda>a b. length (pvPathLinks (rbProvenance a)) < length (pvPathLinks (rbProvenance b)))
      (tieLess reverse)))))))))))"

lemma less_closure_tie: "less_closure (tieLess reverse)"
  by (cases reverse) (simp_all add: tieLess_def less_closure_key less_closure_key_desc)

lemma less_closure_router: "less_closure (routerLess opts)"
proof -
  have "less_closure (\<lambda>a b :: rib_entry. False)" by unfold_locales auto
  then show ?thesis by (simp add: routerLess_def less_closure_key less_closure_key_desc)
qed

interpretation best_order: less_closure "bestLess receiver opts reverse"
  unfolding bestLess_def
  by (intro less_closure_then less_closure_router less_closure_tie less_closure_key less_closure_key_desc)

definition comparableRoutes :: "decision_options \<Rightarrow> node \<Rightarrow> rib_entry list \<Rightarrow> bool" where
  "comparableRoutes opts receiver rs \<longleftrightarrow>
     distinct rs
     \<and> (\<forall>r \<in> set rs. rbSourceKind (Normalize r) \<noteq> RouteSourceOSPF \<and> atOriginatorID (rbAttrs r) = [])
     \<and> (\<forall>a \<in> set rs. \<forall>b \<in> set rs. shouldCompareMED a b opts)
     \<and> (\<forall>a \<in> set rs. \<forall>b \<in> set rs. isLocal receiver a \<longrightarrow> isLocal receiver b \<longrightarrow> a = b)"

lemma routerLess_if:
  "thenLess (routerLess opts) lt a b =
     (if CompareRouterID opts \<and> pvFromNode (rbProvenance a) \<noteq> pvFromNode (rbProvenance b)
      then (if PreferLowerRouterID opts then pvFromNode (rbProvenance a) < pvFromNode (rbProvenance b)
            else pvFromNode (rbProvenance b) < pvFromNode (rbProvenance a))
      else lt a b)"
  by (auto simp: routerLess_def thenLess_def)

lemma shouldCompareMED_Normalize [simp]: "shouldCompareMED (Normalize a) (Normalize b) opts = shouldCompareMED a b opts"
  by (simp add: shouldCompareMED_def)

lemma lessRoute_bestLess:
  assumes "comparableRoutes opts receiver rs" "a \<in> set rs" "b \<in> set rs" "a \<noteq> b"
  shows "lessRoute receiver a b opts reverse = bestLess receiver opts reverse a b"
proof -
  have kind: "rbSourceKind (Normalize a) \<noteq> RouteSourceOSPF" "atOriginatorID (rbAttrs a) = []"
      and med: "shouldCompareMED a b opts" and local: "\<not> (isLocal receiver a \<and> isLocal receiver b)"
    using assms unfolding comparableRoutes_def by blast+
  have "lessRoute receiver a b opts reverse = lessBGP receiver (Normalize a) (Normalize b) opts reverse"
    using kind(1) by (simp add: lessRoute_def Let_def)
  also have "\<dots> = bestLess receiver opts reverse a b"
    unfolding lessBGP_def bestLess_def thenLess_key routerLess_if Let_def
    apply (simp only: kind(2) Normalize_simps simp_thms if_False shouldCompareMED_Normalize med)
    apply (intro if_cong)
    using local by (auto simp: isLocal_def nextHopIGPCost_def pathTie_def tieLess_def joinedPath_def)
  finally show ?thesis .
qed

lemma Less_lessRoute: "\<exists>reverse. \<forall>receiver a b. Less d receiver a b = lessRoute receiver a b (Options d) reverse"
  by (cases d) auto

lemma SelectRoutes_best:
  assumes "comparableRoutes (Options d) device rs"
  shows "\<exists>reverse. sorted_wrt (\<lambda>a b. \<not> bestLess device (Options d) reverse b a) (SelectRoutes (Some d) device rs)"
proof -
  obtain reverse where less: "Less d device a b = lessRoute device a b (Options d) reverse" for a b
    using Less_lessRoute by blast
  have agree: "Less d device a b = bestLess device (Options d) reverse a b"
    if "a \<in> set rs" "b \<in> set rs" "a \<noteq> b" for a b
    using lessRoute_bestLess [OF assms that] less by simp
  have dist: "distinct rs" using assms by (simp add: comparableRoutes_def)
  let ?out = "sortSlice (bestLess device (Options d) reverse) rs"
  have out: "SelectRoutes (Some d) device rs = ?out"
    unfolding SelectRoutes_def processOrDefault_def option.case
    by (rule sortSlice_cong_distinct [OF dist agree])
  show ?thesis unfolding out using best_order.sorted_sortSlice by blast
qed

section \<open>Properties\<close>

lemma mset_SelectRoutes: "mset (SelectRoutes d device rs) = mset rs"
  by (simp add: SelectRoutes_def)

text \<open>
  The rank of a route for a receiver, best first: what operators know as the BGP decision process. Each
  entry is compared only when all before it are equal.
\<close>

definition bgpRank :: "node \<Rightarrow> rib_entry \<Rightarrow> int list" where
  "bgpRank receiver r =
     [- atWeight (rbAttrs r),
      - atLocalPref (rbAttrs r),
      (if pvOriginNode (rbProvenance r) = nodeName receiver then 0 else 1),
      int (length (atASPath (rbAttrs r))),
      OriginCodeRank (atOriginCode (rbAttrs (Normalize r))),
      atMED (rbAttrs r),
      (if atLearnedIBGP (rbAttrs r) then 1 else 0),
      rbIGPCost r,
      int (length (atClusterList (rbAttrs r)))]"

lemma bestLess_rank: "\<not> bestLess receiver opts reverse b a \<Longrightarrow> bgpRank receiver a \<le> bgpRank receiver b"
  by (auto simp: bestLess_def thenLess_def bgpRank_def isLocal_def)

text \<open>
  C23 (the best route). For distinct routes without an originator identifier, none of them from OSPF, at
  most one of them originated by the receiver, and with MEDs that may all be compared (always, or
  because their neighbouring AS is the same), \<open>SelectRoutes\<close> returns the same routes in ascending order
  of their rank: highest weight, then highest local preference, then local origin, shortest AS path,
  lowest origin code, lowest MED, external before internal, lowest IGP cost, shortest cluster list.
\<close>

theorem SelectRoutes_sorted:
  assumes "comparableRoutes (Options d) device rs"
  shows "mset (SelectRoutes (Some d) device rs) = mset rs
     \<and> sorted (map (bgpRank device) (SelectRoutes (Some d) device rs))"
proof -
  obtain reverse where "sorted_wrt (\<lambda>a b. \<not> bestLess device (Options d) reverse b a) (SelectRoutes (Some d) device rs)"
    using SelectRoutes_best [OF assms] ..
  then have "sorted_wrt (\<lambda>a b. bgpRank device a \<le> bgpRank device b) (SelectRoutes (Some d) device rs)"
    by (rule sorted_wrt_mono_rel [rotated]) (rule bestLess_rank)
  then show ?thesis using mset_SelectRoutes by (simp add: sorted_map)
qed

theorem SelectRoutes_sorted_witness:
  "let route = (\<lambda>from pref path. zeroRIBEntry\<lparr>rbAttrs := zeroAttrs\<lparr>atASPath := path, atLocalPref := pref\<rparr>,
       rbProvenance := \<lparr>pvOriginNode = ''o'', pvFromNode = from, pvPathNodes = [''o'', from], pvPathLinks = []\<rparr>\<rparr>);
     rs = [route ''n1'' 100 [7], route ''n2'' 200 [7, 8, 9], route ''n3'' 200 [7, 8]];
     out = SelectRoutes (Some DefaultProcess) (zeroNode\<lparr>nodeName := ''d''\<rparr>) rs
   in mset out = mset rs
      \<and> sorted (map (bgpRank (zeroNode\<lparr>nodeName := ''d''\<rparr>)) out)
      \<and> map (\<lambda>r. pvFromNode (rbProvenance r)) out = [''n3'', ''n2'', ''n1'']"
proof -
  define route where "route = (\<lambda>from pref path. zeroRIBEntry\<lparr>rbAttrs := zeroAttrs\<lparr>atASPath := path, atLocalPref := pref\<rparr>,
       rbProvenance := \<lparr>pvOriginNode = ''o'', pvFromNode = from, pvPathNodes = [''o'', from], pvPathLinks = []\<rparr>\<rparr>)"
  let ?rs = "[route ''n1'' 100 [7], route ''n2'' 200 [7, 8, 9], route ''n3'' 200 [7, 8]]"
  have "comparableRoutes (Options DefaultProcess) (zeroNode\<lparr>nodeName := ''d''\<rparr>) ?rs"
    unfolding route_def by code_simp
  moreover have "map (\<lambda>r. pvFromNode (rbProvenance r)) (SelectRoutes (Some DefaultProcess) (zeroNode\<lparr>nodeName := ''d''\<rparr>) ?rs)
      = [''n3'', ''n2'', ''n1'']"
    unfolding route_def by code_simp
  ultimately show ?thesis
    unfolding Let_def route_def using SelectRoutes_sorted by blast
qed

definition localTie :: "node \<Rightarrow> rib_entry \<Rightarrow> rib_entry \<Rightarrow> bool" where
  "localTie receiver a b \<longleftrightarrow>
     isLocal receiver a \<and> isLocal receiver b
     \<and> rbSourceKind (Normalize a) \<noteq> RouteSourceOSPF
     \<and> atWeight (rbAttrs a) = atWeight (rbAttrs b)
     \<and> atLocalPref (rbAttrs (Normalize a)) = atLocalPref (rbAttrs (Normalize b))"

lemma localTie_Less: "localTie receiver a b \<Longrightarrow> Less d receiver a b"
  by (cases d) (simp_all add: localTie_def isLocal_def lessRoute_def lessBGP_def Let_def)

text \<open>
  C39 (two local origins). Two routes the receiver itself originates, equal in weight and local
  preference, are each ranked before the other, so \<open>SelectRoutes\<close> reverses the pair whatever its
  order: the best of the two is the one that was listed last.
\<close>

theorem SelectRoutes_local_pair_reversed:
  assumes "localTie receiver a b" "localTie receiver b a"
  shows "SelectRoutes (Some d) receiver [a, b] = [b, a] \<and> SelectRoutes (Some d) receiver [b, a] = [a, b]"
  using localTie_Less [OF assms(1)] localTie_Less [OF assms(2)]
  by (simp add: SelectRoutes_def processOrDefault_def sortSlice_def)

theorem SelectRoutes_local_pair_reversed_witness:
  "let r = zeroRIBEntry\<lparr>rbProvenance := \<lparr>pvOriginNode = ''d'', pvFromNode = ''d'', pvPathNodes = [''d''], pvPathLinks = []\<rparr>\<rparr>;
       a = r\<lparr>rbSourceKind := ''static''\<rparr>; b = r\<lparr>rbSourceKind := ''connected''\<rparr>
   in SelectRoutes (Some DefaultProcess) (zeroNode\<lparr>nodeName := ''d''\<rparr>) [a, b] = [b, a] \<and> a \<noteq> b"
proof -
  define r where "r = zeroRIBEntry\<lparr>rbProvenance := \<lparr>pvOriginNode = ''d'', pvFromNode = ''d'', pvPathNodes = [''d''], pvPathLinks = []\<rparr>\<rparr>"
  let ?n = "zeroNode\<lparr>nodeName := ''d''\<rparr>" and ?a = "r\<lparr>rbSourceKind := ''static''\<rparr>" and ?b = "r\<lparr>rbSourceKind := ''connected''\<rparr>"
  have "localTie ?n ?a ?b" "localTie ?n ?b ?a" unfolding r_def by code_simp+
  then have "SelectRoutes (Some DefaultProcess) ?n [?a, ?b] = [?b, ?a]"
    using SelectRoutes_local_pair_reversed by blast
  moreover have "?a \<noteq> ?b" unfolding r_def by code_simp
  ultimately show ?thesis by (simp add: Let_def r_def)
qed

text \<open>A route travels one session: the sender's export, then the receiver's import.\<close>

definition bgpHop :: "node \<Rightarrow> node \<Rightarrow> bgp_neighbor \<Rightarrow> bgp_neighbor \<Rightarrow> rib_entry \<Rightarrow> rib_entry option" where
  "bgpHop from to outSession inSession r =
     (let e = ExportRoute from to outSession r
      in if \<not> rdAccept e then None
         else (let i = ImportRoute to from inSession (rdRoute e) in if rdAccept i then Some (rdRoute i) else None))"

definition loopFree :: "node \<Rightarrow> rib_entry \<Rightarrow> bool" where
  "loopFree n r \<longleftrightarrow> distinct (atASPath (rbAttrs r)) \<and> nodeASN n \<notin> set (atASPath (rbAttrs r))"

lemma ContainsASN_set [simp]: "ContainsASN xs x \<longleftrightarrow> x \<in> set xs"
  by (auto simp: ContainsASN_def list_ex_iff)

text \<open>
  C21 (one BGP session). On a session between different autonomous systems the route arrives exactly
  when the receiver's number is neither the sender's nor on the path; its path then grows by the
  sender's number and its local preference is reset to 0. Inside one autonomous system it arrives
  exactly when it was not learned there already and the path does not hold the number; path and
  local preference are kept. Either way a path that repeats no autonomous system still repeats
  none at the receiver.
\<close>

theorem bgpHop_exact:
  "(nodeASN from \<noteq> nodeASN to \<longrightarrow>
     (case bgpHop from to outS inS r of
        None \<Rightarrow> nodeASN to \<in> set (atASPath (rbAttrs r))
      | Some r' \<Rightarrow> nodeASN to \<notin> set (atASPath (rbAttrs r))
          \<and> atASPath (rbAttrs r') = nodeASN from # atASPath (rbAttrs r)
          \<and> atLocalPref (rbAttrs r') = 0
          \<and> \<not> atLearnedIBGP (rbAttrs r') \<and> rbNextHop r' = \<lparr>nhNode = nodeName from, nhAddr = []\<rparr>
          \<and> (loopFree from r \<longrightarrow> loopFree to r')))
   \<and> (nodeASN from = nodeASN to \<longrightarrow>
     (case bgpHop from to outS inS r of
        None \<Rightarrow> atLearnedIBGP (rbAttrs r) \<or> nodeASN to \<in> set (atASPath (rbAttrs r))
      | Some r' \<Rightarrow> \<not> atLearnedIBGP (rbAttrs r) \<and> nodeASN to \<notin> set (atASPath (rbAttrs r))
          \<and> atASPath (rbAttrs r') = atASPath (rbAttrs r)
          \<and> atLocalPref (rbAttrs r') = atLocalPref (rbAttrs (Normalize r))
          \<and> atLearnedIBGP (rbAttrs r')
          \<and> (loopFree from r \<longrightarrow> loopFree to r')))"
  by (auto simp: bgpHop_def ExportRoute_def ImportRoute_def PrependASN_def loopFree_def Let_def
      split: if_splits)

theorem bgpHop_exact_witness:
  "let from = zeroNode\<lparr>nodeName := ''a'', nodeASN := 1\<rparr>; to = zeroNode\<lparr>nodeName := ''b'', nodeASN := 2\<rparr>;
       r = zeroRIBEntry\<lparr>rbAttrs := zeroAttrs\<lparr>atASPath := [3], atLocalPref := 50\<rparr>\<rparr>
   in \<exists>r'. bgpHop from to zeroNeighbor zeroNeighbor r = Some r' \<and> atASPath (rbAttrs r') = [1, 3]
        \<and> atLocalPref (rbAttrs r') = 0 \<and> loopFree to r'"
proof -
  define sender to' r where "sender = zeroNode\<lparr>nodeName := ''a'', nodeASN := 1\<rparr>"
    and "to' = zeroNode\<lparr>nodeName := ''b'', nodeASN := 2\<rparr>"
    and "r = zeroRIBEntry\<lparr>rbAttrs := zeroAttrs\<lparr>atASPath := [3], atLocalPref := 50\<rparr>\<rparr>"
  have asn: "nodeASN sender = 1" "nodeASN to' = 2" "atASPath (rbAttrs r) = [3]"
    by (simp_all add: sender_def to'_def r_def)
  then have "loopFree sender r" by (simp add: loopFree_def)
  then have "\<exists>r'. bgpHop sender to' zeroNeighbor zeroNeighbor r = Some r' \<and> atASPath (rbAttrs r') = [1, 3]
        \<and> atLocalPref (rbAttrs r') = 0 \<and> loopFree to' r'"
    using bgpHop_exact [where ?from = sender and ?to = to' and ?outS = zeroNeighbor and ?inS = zeroNeighbor and ?r = r] asn by (auto split: option.splits)
  then show ?thesis unfolding Let_def sender_def to'_def r_def .
qed

end
