(* ===== verification/Behavior.thy ===== *)
theory Behavior
  imports ACL Decision
begin

text \<open>
  \<open>internal/domain/device/{behavior,bgp_behavior,frr,ceos,srlinux}.go\<close> and the registry
  \<open>internal/engine/controlplane/registry.go\<close>: what each vendor changes in the base behaviour. The
  interface \<open>DeviceBehavior\<close> has four implementers in the program, the constructors of
  \<open>device_behavior\<close>; the registry is passed as an argument, its lock makes each access atomic.
\<close>

section \<open>Behaviours\<close>

datatype device_behavior =
    BaseBehavior device_kind "decision_process option"
  | CEOSBehavior
  | FRRBehavior
  | SRLinuxBehavior

record control_message =
  cmFrom :: string
  cmTo :: string
  cmPrefix :: string
  cmRoute :: rib_entry

definition NewGenericBehavior :: "device_kind \<Rightarrow> device_behavior" where
  "NewGenericBehavior kind = BaseBehavior kind (Some DefaultProcess)"

fun behaviorKind :: "device_behavior \<Rightarrow> device_kind" where
  "behaviorKind (BaseBehavior kind decision) = kind"
| "behaviorKind CEOSBehavior = KindCEOS"
| "behaviorKind FRRBehavior = KindFRR"
| "behaviorKind SRLinuxBehavior = KindSRLinux"

text \<open>The decision process each constructor installs; a base behaviour without one has the default.\<close>

fun DecisionProcess :: "device_behavior \<Rightarrow> decision_process" where
  "DecisionProcess (BaseBehavior kind decision) = (case decision of None \<Rightarrow> DefaultProcess | Some d \<Rightarrow> d)"
| "DecisionProcess CEOSBehavior = NeverEquivalentDecisionProcess DefaultDecisionOptions"
| "DecisionProcess FRRBehavior = FRRDecisionProcess DefaultDecisionOptions"
| "DecisionProcess SRLinuxBehavior = NeverEquivalentDecisionProcess DefaultDecisionOptions"

definition DecisionOptions :: "device_behavior \<Rightarrow> decision_options" where
  "DecisionOptions b = Options (DecisionProcess b)"

definition behaviorProfile :: "profile_registry \<Rightarrow> device_behavior \<Rightarrow> device_profile" where
  "behaviorProfile profiles b = ProfileFor profiles (behaviorKind b)"

definition CheckControlIngress :: "device_behavior \<Rightarrow> node \<Rightarrow> control_message \<Rightarrow> bool" where
  "CheckControlIngress b n msg = True"

definition CheckControlEgress :: "device_behavior \<Rightarrow> node \<Rightarrow> control_message \<Rightarrow> bool" where
  "CheckControlEgress b n msg = True"

definition behaviorSelectRoutes :: "device_behavior \<Rightarrow> node \<Rightarrow> rib_entry list \<Rightarrow> rib_entry list" where
  "behaviorSelectRoutes b n routes = SelectRoutes (Some (DecisionProcess b)) n routes"

definition behaviorExportRoute :: "device_behavior \<Rightarrow> node \<Rightarrow> node \<Rightarrow> bgp_neighbor \<Rightarrow> rib_entry \<Rightarrow> route_decision" where
  "behaviorExportRoute b sender receiver session r = ExportRoute sender receiver session r"

fun behaviorImportRoute :: "device_behavior \<Rightarrow> node \<Rightarrow> node \<Rightarrow> bgp_neighbor \<Rightarrow> rib_entry \<Rightarrow> route_decision" where
  "behaviorImportRoute SRLinuxBehavior receiver sender session r = ImportRouteKeepASLoop receiver sender session r"
| "behaviorImportRoute b receiver sender session r = ImportRoute receiver sender session r"

definition baseRouteValidForRIB :: "node \<Rightarrow> rib_entry \<Rightarrow> bool" where
  "baseRouteValidForRIB n r \<longleftrightarrow> \<not> atInvalid (rbAttrs (Normalize r))"

definition ceosRouteValidForRIB :: "node \<Rightarrow> rib_entry \<Rightarrow> bool" where
  "ceosRouteValidForRIB n raw =
     (let r = Normalize raw
      in if \<not> baseRouteValidForRIB n r then False
         else if rbSourceKind r \<noteq> RouteSourceBGP then True
         else nhNode (rbNextHop r) = [] \<or> nhNode (rbNextHop r) = pvFromNode (rbProvenance r))"

fun RouteValidForRIB :: "device_behavior \<Rightarrow> node \<Rightarrow> rib_entry \<Rightarrow> bool" where
  "RouteValidForRIB CEOSBehavior n r = ceosRouteValidForRIB n r"
| "RouteValidForRIB b n r = baseRouteValidForRIB n r"

text \<open>
  \<open>RouteEligibleForAdvertisement\<close> and \<open>RouteInstallableInFIB\<close> of the base behaviour call its own
  \<open>RouteValidForRIB\<close>: embedding a struct in Go does not override the calls inside it, so the extra
  check of cEOS does not apply to them.
\<close>

definition RouteEligibleForAdvertisement :: "device_behavior \<Rightarrow> node \<Rightarrow> rib_entry \<Rightarrow> bool" where
  "RouteEligibleForAdvertisement b n r = baseRouteValidForRIB n r"

fun RouteInstallableInFIB :: "device_behavior \<Rightarrow> node \<Rightarrow> rib_entry list \<Rightarrow> rib_entry \<Rightarrow> bool" where
  "RouteInstallableInFIB FRRBehavior n installed r \<longleftrightarrow>
     baseRouteValidForRIB n r \<and> \<not> EquivalentInstalledRoute (Some (DecisionProcess FRRBehavior)) n installed r"
| "RouteInstallableInFIB b n installed r \<longleftrightarrow> baseRouteValidForRIB n r"

section \<open>The registry\<close>

type_synonym behavior_registry = "device_kind \<rightharpoonup> device_behavior"

definition builtinBehaviors :: behavior_registry where
  "builtinBehaviors = [KindFRR \<mapsto> FRRBehavior, KindCEOS \<mapsto> CEOSBehavior, KindSRLinux \<mapsto> SRLinuxBehavior]"

definition BehaviorFor :: "behavior_registry \<Rightarrow> device_kind \<Rightarrow> device_behavior" where
  "BehaviorFor registry kind = (case registry kind of Some b \<Rightarrow> b | None \<Rightarrow> NewGenericBehavior kind)"

text \<open>Registering returns the function that puts the old behaviour back.\<close>

definition RegisterBehavior ::
    "behavior_registry \<Rightarrow> device_kind \<Rightarrow> device_behavior \<Rightarrow> behavior_registry \<times> (behavior_registry \<Rightarrow> behavior_registry)" where
  "RegisterBehavior registry kind b =
     (registry(kind \<mapsto> b), \<lambda>later. later(kind := registry kind))"

section \<open>Lemmas\<close>

lemma RegisterBehavior_undo: "snd (RegisterBehavior registry kind b) (fst (RegisterBehavior registry kind b)) = registry"
  by (simp add: RegisterBehavior_def)

lemma baseRouteValidForRIB_Normalize [simp]: "baseRouteValidForRIB n (Normalize r) = baseRouteValidForRIB n r"
  by (simp add: baseRouteValidForRIB_def)

lemma RouteValidForRIB_base: "RouteValidForRIB b n r \<Longrightarrow> baseRouteValidForRIB n r"
  by (cases b) (auto simp: ceosRouteValidForRIB_def Let_def split: if_splits)

lemma RouteInstallableInFIB_base: "RouteInstallableInFIB b n installed r \<Longrightarrow> baseRouteValidForRIB n r"
  by (cases b) auto

text \<open>Neither export nor import touches where the route comes from or its failure conditions.\<close>

definition sameRoute :: "rib_entry \<Rightarrow> rib_entry \<Rightarrow> bool" where
  "sameRoute r r' \<longleftrightarrow>
     rbPrefix r' = rbPrefix r \<and> rbProvenance r' = rbProvenance r \<and> rbSourceKind r' = rbSourceKind (Normalize r)
     \<and> rbRouteSource r' = rbRouteSource (Normalize r) \<and> rbBaseCond r' = rbBaseCond r
     \<and> rbCondition r' = rbCondition r \<and> rbSelectedCond r' = rbSelectedCond r \<and> Normalize r' = r'"

lemma Normalize_kind_source:
  "rbSourceKind (Normalize r) = (if rbSourceKind r = [] then RouteSourceBGP else rbSourceKind r)"
  "rbRouteSource (Normalize r) =
     normalizeSource (if rbSourceKind r = [] then RouteSourceBGP else rbSourceKind r) (rbPrefix r) (rbRouteSource r)"
  by (simp_all add: Normalize_def Let_def)

lemma Normalize_fixed: "Normalize (Normalize r\<lparr>rbAttrs := a, rbNextHop := h\<rparr>) = (Normalize r)\<lparr>rbAttrs := normalizeAttrs a, rbNextHop := h\<rparr>"
  by (simp add: Normalize_def Let_def)

lemma sameRoute_trans: "sameRoute r r' \<Longrightarrow> sameRoute r' r'' \<Longrightarrow> sameRoute r r''"
  by (auto simp: sameRoute_def)

lemma sameRoute_ExportRoute: "sameRoute r (rdRoute (ExportRoute sender receiver session r))"
  by (simp add: sameRoute_def ExportRoute_def Let_def Normalize_kind_source)

lemma sameRoute_ImportRoute: "sameRoute r (rdRoute (ImportRoute receiver sender session r))"
  by (simp add: sameRoute_def ImportRoute_def Let_def Normalize_kind_source)

lemma normalizeAttrs_Invalid: "normalizeAttrs (a\<lparr>atInvalid := v\<rparr>) = (normalizeAttrs a)\<lparr>atInvalid := v\<rparr>"
  by (simp add: normalizeAttrs_def)

lemma sameRoute_ImportRouteKeepASLoop: "sameRoute r (rdRoute (ImportRouteKeepASLoop receiver sender session r))"
proof -
  have "rdRoute (ImportRoute receiver sender session (Normalize r)) = rdRoute (ImportRoute receiver sender session r)"
    by (simp add: ImportRoute_def Let_def)
  moreover have "Normalize ((Normalize r)\<lparr>rbAttrs := (rbAttrs (Normalize r))\<lparr>atInvalid := True\<rparr>\<rparr>)
      = (Normalize r)\<lparr>rbAttrs := (rbAttrs (Normalize r))\<lparr>atInvalid := True\<rparr>\<rparr>"
    by (simp add: Normalize_def Let_def normalizeAttrs_Invalid)
  ultimately show ?thesis using sameRoute_ImportRoute [of r]
    by (simp add: ImportRouteKeepASLoop_def Let_def) (simp add: sameRoute_def Normalize_kind_source)
qed

lemma sameRoute_behaviorImportRoute: "sameRoute r (rdRoute (behaviorImportRoute b receiver sender session r))"
  by (cases b) (simp_all add: sameRoute_ImportRoute sameRoute_ImportRouteKeepASLoop)

lemma sameRoute_behaviorExportRoute: "sameRoute r (rdRoute (behaviorExportRoute b sender receiver session r))"
  by (simp add: behaviorExportRoute_def sameRoute_ExportRoute)

end
