(* ===== verification/Route_Policy.thy ===== *)
theory Route_Policy
  imports Behavior Topology_Index
begin

text \<open>
  \<open>internal/domain/routing/policy/route_policy.go\<close>, how a route map filters and rewrites a route,
  and \<open>internal/engine/controlplane/route_policy.go\<close>, the resolver it asks for next hops.
  \<open>regexp.MatchString\<close> is a parameter, \<open>None\<close> standing for a pattern that does not compile.
\<close>

section \<open>Lists a rule refers to\<close>

record policy_resolver =
  NextHopForPolicy :: "string \<Rightarrow> string \<Rightarrow> rib_entry \<Rightarrow> string"
  NextHopForSet :: "string \<Rightarrow> string \<Rightarrow> next_hop"

type_synonym regexp_match = "string \<Rightarrow> string \<Rightarrow> bool option"

definition RoutePolicyByName :: "node \<Rightarrow> string \<Rightarrow> route_policy option" where
  "RoutePolicyByName n name = List.find (\<lambda>policy. rpName policy = name) (nodeRoutePolicies n)"

definition prefixListRuleMatches :: "prefix_list_rule \<Rightarrow> prefix \<Rightarrow> bool" where
  "prefixListRuleMatches rule want =
     (case plMatch rule of
        Some s \<Rightarrow> MatchesNLRI (Some s) want
      | None \<Rightarrow> (case NewPrefixSet (plPrefix rule) (plGe rule) (plLe rule) of
                   Inl err \<Rightarrow> False
                 | Inr s \<Rightarrow> MatchesNLRI (Some s) want))"

definition PrefixListPermitsPrefix :: "node \<Rightarrow> string \<Rightarrow> ipprefix \<Rightarrow> bool" where
  "PrefixListPermitsPrefix n name want =
     (let p = PrefixFromNetIP want
      in case List.find (\<lambda>l. plName l = name) (nodePrefixLists n) of
           None \<Rightarrow> False
         | Some l \<Rightarrow> (case List.find (\<lambda>rule. prefixListRuleMatches rule p) (plRules l) of
                        None \<Rightarrow> False
                      | Some rule \<Rightarrow> equalFold (plAction rule) ''permit''))"

definition PrefixListPermitsAddress :: "node \<Rightarrow> string \<Rightarrow> string \<Rightarrow> bool" where
  "PrefixListPermitsAddress n name addr =
     (if addr = [] then False
      else case parseAddr addr of
             None \<Rightarrow> False
           | Some ip \<Rightarrow> PrefixListPermitsPrefix n name (prefixFrom ip (addrBitLen ip)))"

definition ASPathListPermits :: "regexp_match \<Rightarrow> node \<Rightarrow> string \<Rightarrow> asn list \<Rightarrow> bool" where
  "ASPathListPermits matchString n name asPath =
     (let path = FormatASPath asPath
      in case List.find (\<lambda>l. slName l = name) (nodeASPathLists n) of
           None \<Rightarrow> False
         | Some l \<Rightarrow> (case List.find (\<lambda>rule. matchString (slPattern rule) path = Some True) (slRules l) of
                        None \<Rightarrow> False
                      | Some rule \<Rightarrow> equalFold (slAction rule) ''permit''))"

text \<open>
  The maps \<open>allowed\<close> and \<open>denied\<close> hold the patterns of the permit rules and of the others;
  \<open>len(allowed)\<close> counts distinct patterns.
\<close>

definition allowedPatterns :: "string_list \<Rightarrow> string list" where
  "allowedPatterns l = remdups (map slPattern (filter (\<lambda>r. equalFold (slAction r) ''permit'') (slRules l)))"

definition deniedPatterns :: "string_list \<Rightarrow> string list" where
  "deniedPatterns l = remdups (map slPattern (filter (\<lambda>r. \<not> equalFold (slAction r) ''permit'') (slRules l)))"

fun communityLoop :: "string list \<Rightarrow> string list \<Rightarrow> string list \<Rightarrow> bool" where
  "communityLoop allowed denied [] = False"
| "communityLoop allowed denied (c # cs) =
     (if c \<in> set denied then False
      else if c \<in> set allowed then True
      else communityLoop allowed denied cs)"

definition CommunityListPermits :: "node \<Rightarrow> string \<Rightarrow> string list \<Rightarrow> bool \<Rightarrow> bool" where
  "CommunityListPermits n name communities exact =
     (case List.find (\<lambda>l. slName l = name) (nodeCommunityLists n) of
        None \<Rightarrow> False
      | Some l \<Rightarrow>
          (let allowed = allowedPatterns l; denied = deniedPatterns l
           in if exact
              then length communities = length allowed
                   \<and> list_all (\<lambda>c. c \<in> set allowed \<and> c \<notin> set denied) communities
              else communityLoop allowed denied communities))"

fun appendUnseen :: "string list \<Rightarrow> string list \<Rightarrow> string list" where
  "appendUnseen out [] = out"
| "appendUnseen out (x # ys) = appendUnseen (if x \<in> set out then out else out @ [x]) ys"

definition appendUniqueStrings :: "string list \<Rightarrow> string list \<Rightarrow> string list" where
  "appendUniqueStrings xs ys = appendUnseen xs ys"

section \<open>Applying a policy\<close>

definition RoutePolicyRuleMatches ::
    "regexp_match \<Rightarrow> policy_resolver \<Rightarrow> node \<Rightarrow> string \<Rightarrow> route_policy_rule \<Rightarrow> rib_entry \<Rightarrow> bool" where
  "RoutePolicyRuleMatches matchString resolver n peerName rule raw =
     (let r = Normalize raw
      in if MatchPrefixList rule \<noteq> [] \<and> \<not> PrefixListPermitsPrefix n (MatchPrefixList rule) (rbPrefix r) then False
         else if MatchNextHopPrefixList rule \<noteq> []
              \<and> \<not> PrefixListPermitsAddress n (MatchNextHopPrefixList rule) (NextHopForPolicy resolver (nodeName n) peerName r)
           then False
         else if MatchASPathList rule \<noteq> [] \<and> \<not> ASPathListPermits matchString n (MatchASPathList rule) (atASPath (rbAttrs r))
           then False
         else if MatchCommunityList rule \<noteq> []
              \<and> \<not> CommunityListPermits n (MatchCommunityList rule) (atCommunities (rbAttrs r)) (MatchCommunityExact rule)
           then False
         else True)"

text \<open>The assignments of the loop body in the order of the code.\<close>

definition setAttrs :: "route_policy_rule \<Rightarrow> bgp_attributes \<Rightarrow> bgp_attributes" where
  "setAttrs rule a0 =
     (let a1 = (case SetLocalPref rule of None \<Rightarrow> a0 | Some v \<Rightarrow> a0\<lparr>atLocalPref := v\<rparr>);
          a2 = (case SetLocalPrefDelta rule of None \<Rightarrow> a1
                | Some d \<Rightarrow> a1\<lparr>atLocalPref := goInt (DefaultLocalPref (atLocalPref a1) + d)\<rparr>);
          a3 = (case SetMED rule of None \<Rightarrow> a2 | Some v \<Rightarrow> a2\<lparr>atMED := v\<rparr>);
          a4 = (case SetMEDDelta rule of None \<Rightarrow> a3 | Some d \<Rightarrow> a3\<lparr>atMED := goInt (atMED a3 + d)\<rparr>);
          a5 = (if SetASPathPrepend rule \<noteq> [] then a4\<lparr>atASPath := SetASPathPrepend rule @ atASPath a4\<rparr> else a4);
          a6 = (if SetCommunities rule \<noteq> []
                then a5\<lparr>atCommunities := sort (if SetCommunityAdditive rule
                          then appendUniqueStrings (atCommunities a5) (SetCommunities rule)
                          else SetCommunities rule)\<rparr>
                else a5)
      in if SetOriginCode rule \<noteq> [] then a6\<lparr>atOriginCode := NormalizeBGPOriginCode (SetOriginCode rule)\<rparr> else a6)"

definition setNextHop :: "policy_resolver \<Rightarrow> node \<Rightarrow> route_policy_rule \<Rightarrow> next_hop \<Rightarrow> next_hop" where
  "setNextHop resolver n rule h =
     (if SetNextHop rule \<noteq> [] then NextHopForSet resolver (nodeName n) (SetNextHop rule)
      else if SetNextHopSelf rule then \<lparr>nhNode = nodeName n, nhAddr = []\<rparr> else h)"

definition applyRule :: "policy_resolver \<Rightarrow> node \<Rightarrow> route_policy_rule \<Rightarrow> rib_entry \<Rightarrow> route_decision" where
  "applyRule resolver n rule r =
     (if equalFold (rpAction rule) ''deny'' then \<lparr>rdRoute = r, rdAccept = False, rdReason = ''route-map deny''\<rparr>
      else \<lparr>rdRoute = Normalize (r\<lparr>rbAttrs := setAttrs rule (rbAttrs r), rbNextHop := setNextHop resolver n rule (rbNextHop r)\<rparr>),
            rdAccept = True, rdReason = []\<rparr>)"

definition ApplyRoutePolicy ::
    "regexp_match \<Rightarrow> policy_resolver \<Rightarrow> node \<Rightarrow> string \<Rightarrow> string \<Rightarrow> rib_entry \<Rightarrow> route_decision" where
  "ApplyRoutePolicy matchString resolver n peerName policyName raw =
     (let r = Normalize raw
      in if policyName = [] then \<lparr>rdRoute = r, rdAccept = True, rdReason = []\<rparr>
         else case RoutePolicyByName n policyName of
                None \<Rightarrow> \<lparr>rdRoute = r, rdAccept = True, rdReason = []\<rparr>
              | Some policy \<Rightarrow>
                  (case List.find (\<lambda>rule. RoutePolicyRuleMatches matchString resolver n peerName rule r) (rpRules policy) of
                     None \<Rightarrow> \<lparr>rdRoute = r, rdAccept = False, rdReason = ''route-map implicit deny''\<rparr>
                   | Some rule \<Rightarrow> applyRule resolver n rule r))"

section \<open>The engine's resolver\<close>

definition peerAddress :: "topology_index \<Rightarrow> string \<Rightarrow> string \<Rightarrow> string" where
  "peerAddress idx n peer =
     (if peer = [] then []
      else case PeerAddress idx n peer of Some addr \<Rightarrow> addrStr addr | None \<Rightarrow> peer)"

text \<open>The loop over consecutive nodes of the path.\<close>

fun pathPeerAddress :: "topology_index \<Rightarrow> string \<Rightarrow> string list \<Rightarrow> string" where
  "pathPeerAddress idx nextHop (x # y # rest) =
     (if x = nextHop \<and> peerAddress idx y nextHop \<noteq> nextHop then peerAddress idx y nextHop
      else pathPeerAddress idx nextHop (y # rest))"
| "pathPeerAddress idx nextHop _ = nextHop"

definition routeNextHopForPolicy :: "topology_index \<Rightarrow> string \<Rightarrow> string \<Rightarrow> rib_entry \<Rightarrow> string" where
  "routeNextHopForPolicy idx n peerName raw =
     (let r = Normalize raw;
          nextHop = (if nhNode (rbNextHop r) = [] then nhAddr (rbNextHop r) else nhNode (rbNextHop r))
      in if nextHop = [] then []
         else if nextHop = n \<and> peerName \<noteq> [] then peerAddress idx peerName n
         else if peerAddress idx n nextHop \<noteq> nextHop then peerAddress idx n nextHop
         else pathPeerAddress idx nextHop (pvPathNodes (rbProvenance r)))"

definition routeNextHopForSet :: "topology_index \<Rightarrow> string \<Rightarrow> string \<Rightarrow> next_hop" where
  "routeNextHopForSet idx n nextHop =
     (if nextHop = [] then \<lparr>nhNode = [], nhAddr = nextHop\<rparr>
      else case List.find (\<lambda>adj. map_option addrStr (PeerAddress idx n (adjTo adj)) = Some nextHop) (idxAdj idx n) of
             Some adj \<Rightarrow> \<lparr>nhNode = adjTo adj, nhAddr = nextHop\<rparr>
           | None \<Rightarrow> \<lparr>nhNode = [], nhAddr = nextHop\<rparr>)"

definition routePolicyResolver :: "topology_index \<Rightarrow> policy_resolver" where
  "routePolicyResolver idx = \<lparr>NextHopForPolicy = routeNextHopForPolicy idx, NextHopForSet = routeNextHopForSet idx\<rparr>"

section \<open>What a policy keeps\<close>

definition sameOrigin :: "rib_entry \<Rightarrow> rib_entry \<Rightarrow> bool" where
  "sameOrigin r r' \<longleftrightarrow>
     sameRoute r r' \<and> rbRacing r' = rbRacing r
     \<and> atInvalid (rbAttrs r') = atInvalid (rbAttrs r)"

lemma sameOrigin_Normalize [simp]: "sameOrigin r (Normalize r)"
  by (simp add: sameOrigin_def sameRoute_def Normalize_kind_source)

lemma setAttrs_invalid [simp]: "atInvalid (setAttrs rule a) = atInvalid a"
  by (simp add: setAttrs_def Let_def split: option.split)

lemma sameOrigin_applyRule: "sameOrigin r (rdRoute (applyRule resolver n rule (Normalize r)))"
  by (simp add: applyRule_def sameOrigin_def sameRoute_def Normalize_kind_source)

lemma ApplyRoutePolicy_sameOrigin: "sameOrigin r (rdRoute (ApplyRoutePolicy matchString resolver n peerName policyName r))"
  using sameOrigin_applyRule by (auto simp: ApplyRoutePolicy_def Let_def split: option.split)

lemma first_Cons:
  "(\<exists>pre d post. c # cs = pre @ d # post \<and> P d \<and> set pre \<inter> S = {}) \<longleftrightarrow>
     P c \<or> c \<notin> S \<and> (\<exists>pre d post. cs = pre @ d # post \<and> P d \<and> set pre \<inter> S = {})" (is "?L \<longleftrightarrow> ?R")
proof
  assume ?L
  then obtain pre d post where d: "c # cs = pre @ d # post" "P d" "set pre \<inter> S = {}" by blast
  then show ?R by (cases pre) auto
next
  assume ?R
  then show ?L
  proof
    assume "P c"
    then have "c # cs = [] @ c # cs \<and> P c \<and> set [] \<inter> S = {}" by simp
    then show ?L by blast
  next
    assume "c \<notin> S \<and> (\<exists>pre d post. cs = pre @ d # post \<and> P d \<and> set pre \<inter> S = {})"
    then obtain pre d post where "c \<notin> S" "cs = pre @ d # post" "P d" "set pre \<inter> S = {}" by blast
    then have "c # cs = (c # pre) @ d # post \<and> P d \<and> set (c # pre) \<inter> S = {}" by simp
    then show ?L by blast
  qed
qed

lemma appendUnseen_set: "set (appendUnseen out xs) = set out \<union> set xs"
  by (induction xs arbitrary: out) auto

lemma appendUnseen_distinct: "distinct out \<Longrightarrow> distinct (appendUnseen out xs)"
  by (induction xs arbitrary: out) auto

section \<open>Properties\<close>

text \<open>
  What the rewriting of a rule amounts to, attribute by attribute: a value that is set replaces the old
  one before a difference is added, sums wrap around like a Go \<open>int\<close>, a local preference of zero counts
  as 100 when a difference is added to it, communities are added once each or replaced, and sorted.
\<close>

definition delta :: "int option \<Rightarrow> int \<Rightarrow> int" where
  "delta d v = (case d of None \<Rightarrow> v | Some x \<Rightarrow> goInt (v + x))"

definition rewritten :: "route_policy_rule \<Rightarrow> bgp_attributes \<Rightarrow> bgp_attributes \<Rightarrow> bool" where
  "rewritten rule a b \<longleftrightarrow>
     atLocalPref b = (let v = (case SetLocalPref rule of None \<Rightarrow> atLocalPref a | Some v \<Rightarrow> v)
                      in if SetLocalPrefDelta rule = None then v else delta (SetLocalPrefDelta rule) (if v = 0 then 100 else v))
     \<and> atMED b = delta (SetMEDDelta rule) (case SetMED rule of None \<Rightarrow> atMED a | Some v \<Rightarrow> v)
     \<and> atASPath b = SetASPathPrepend rule @ atASPath a
     \<and> (if SetCommunities rule = [] then atCommunities b = atCommunities a
        else sorted (atCommunities b)
          \<and> mset (atCommunities b) = (if SetCommunityAdditive rule
              then mset (atCommunities a) + mset_set (set (SetCommunities rule) - set (atCommunities a))
              else mset (SetCommunities rule)))
     \<and> atOriginCode b = (if SetOriginCode rule = [] then atOriginCode a else NormalizeBGPOriginCode (SetOriginCode rule))
     \<and> atOriginatorID b = atOriginatorID a \<and> atClusterList b = atClusterList a \<and> atWeight b = atWeight a
     \<and> atLearnedIBGP b = atLearnedIBGP a \<and> atInvalid b = atInvalid a"

lemma mset_appendUnseen: "mset (appendUnseen out xs) = mset out + mset_set (set xs - set out)"
proof (induction xs arbitrary: out)
  case (Cons x xs)
  show ?case
  proof (cases "x \<in> set out")
    case True
    then show ?thesis using Cons by (simp add: insert_Diff_if)
  next
    case False
    then have "set (x # xs) - set out = insert x (set xs - set (out @ [x]))" by auto
    then have "mset_set (set (x # xs) - set out) = {#x#} + mset_set (set xs - set (out @ [x]))" by (simp add: mset_set.insert)
    then show ?thesis using Cons [of "out @ [x]"] False by simp
  qed
qed simp

lemma setAttrs_simps:
  "atOriginatorID (setAttrs rule a) = atOriginatorID a" "atClusterList (setAttrs rule a) = atClusterList a"
  "atWeight (setAttrs rule a) = atWeight a" "atLearnedIBGP (setAttrs rule a) = atLearnedIBGP a"
  "atASPath (setAttrs rule a) = SetASPathPrepend rule @ atASPath a"
  "atMED (setAttrs rule a) = delta (SetMEDDelta rule) (case SetMED rule of None \<Rightarrow> atMED a | Some v \<Rightarrow> v)"
  "atOriginCode (setAttrs rule a) = (if SetOriginCode rule = [] then atOriginCode a else NormalizeBGPOriginCode (SetOriginCode rule))"
  "atCommunities (setAttrs rule a) = (if SetCommunities rule = [] then atCommunities a
     else sort (if SetCommunityAdditive rule then appendUniqueStrings (atCommunities a) (SetCommunities rule) else SetCommunities rule))"
  by (auto simp: setAttrs_def Let_def delta_def split: option.splits)

lemma setAttrs_localPref:
  "atLocalPref (setAttrs rule a) = (let v = (case SetLocalPref rule of None \<Rightarrow> atLocalPref a | Some v \<Rightarrow> v)
     in if SetLocalPrefDelta rule = None then v else delta (SetLocalPrefDelta rule) (if v = 0 then 100 else v))"
  by (auto simp: setAttrs_def Let_def delta_def DefaultLocalPref_def split: option.splits)

lemma normalizeAttrs_simps:
  "atLocalPref (normalizeAttrs a) = atLocalPref a" "atMED (normalizeAttrs a) = atMED a" "atASPath (normalizeAttrs a) = atASPath a"
  "atCommunities (normalizeAttrs a) = atCommunities a" "atOriginatorID (normalizeAttrs a) = atOriginatorID a"
  "atClusterList (normalizeAttrs a) = atClusterList a" "atWeight (normalizeAttrs a) = atWeight a"
  "atLearnedIBGP (normalizeAttrs a) = atLearnedIBGP a" "atInvalid (normalizeAttrs a) = atInvalid a"
  by (simp_all add: normalizeAttrs_def)

lemma normalized_origin:
  assumes "c = NormalizeBGPOriginCode d"
  shows "(if c = [] then BGPOriginIGP else NormalizeBGPOriginCode c) = c"
  using assms by simp

lemma rewritten_setAttrs:
  assumes "normalizeAttrs a = a"
  shows "rewritten rule a (normalizeAttrs (setAttrs rule a))"
proof -
  have code: "(if atOriginCode a = [] then BGPOriginIGP else NormalizeBGPOriginCode (atOriginCode a)) = atOriginCode a"
    using arg_cong [OF assms, of atOriginCode] by (simp add: normalizeAttrs_def)
  have "atOriginCode (normalizeAttrs (setAttrs rule a))
      = (if SetOriginCode rule = [] then atOriginCode a else NormalizeBGPOriginCode (SetOriginCode rule))"
    using code normalized_origin [OF refl, of "SetOriginCode rule"]
    by (cases "SetOriginCode rule = []") (simp_all add: normalizeAttrs_def setAttrs_simps split: if_splits)
  then show ?thesis
    unfolding rewritten_def normalizeAttrs_simps setAttrs_localPref
    by (simp add: setAttrs_simps mset_appendUnseen appendUniqueStrings_def)
qed

lemma applyRule_keeps:
  "(rdRoute (applyRule resolver n rule (Normalize r)))\<lparr>rbAttrs := rbAttrs (Normalize r), rbNextHop := rbNextHop (Normalize r)\<rparr> = Normalize r"
  by (simp add: applyRule_def Normalize_fixed)

lemma applyRule_rewrites:
  assumes "\<not> equalFold (rpAction rule) ''deny''"
  shows "rewritten rule (rbAttrs (Normalize r)) (rbAttrs (rdRoute (applyRule resolver n rule (Normalize r))))
      \<and> rdAccept (applyRule resolver n rule (Normalize r)) \<and> rdReason (applyRule resolver n rule (Normalize r)) = []
      \<and> rbNextHop (rdRoute (applyRule resolver n rule (Normalize r))) = setNextHop resolver n rule (rbNextHop r)"
proof -
  have attrs: "rbAttrs (Normalize x) = normalizeAttrs (rbAttrs x)" for x by (simp add: Normalize_def Let_def)
  have "normalizeAttrs (rbAttrs (Normalize r)) = rbAttrs (Normalize r)" using attrs [of "Normalize r"] by simp
  from rewritten_setAttrs [OF this, of rule] show ?thesis using assms by (simp add: applyRule_def attrs)
qed

text \<open>
  C19 (route maps). Whatever a route map does, only attributes and next hop can change. A route map
  that is not named or not defined accepts the normalised route as it is; without a matching rule it is
  rejected. Otherwise the first rule that matches decides: a deny rejects the route as it is, any other
  action accepts it with exactly the attributes and the next hop that the settings of the rule ask for.
\<close>

theorem ApplyRoutePolicy_decides:
  "let out = ApplyRoutePolicy matchString resolver n peerName policyName r;
       matches = (\<lambda>rule. RoutePolicyRuleMatches matchString resolver n peerName rule r)
   in (rdRoute out)\<lparr>rbAttrs := rbAttrs (Normalize r), rbNextHop := rbNextHop (Normalize r)\<rparr> = Normalize r
    \<and> (case (if policyName = [] then None else RoutePolicyByName n policyName) of
        None \<Rightarrow> out = \<lparr>rdRoute = Normalize r, rdAccept = True, rdReason = []\<rparr>
      | Some policy \<Rightarrow>
          if list_ex matches (rpRules policy)
          then \<exists>pre rule post. rpRules policy = pre @ rule # post \<and> list_all (\<lambda>p. matches p = False) pre \<and> matches rule
            \<and> (if equalFold (rpAction rule) ''deny'' then out = \<lparr>rdRoute = Normalize r, rdAccept = False, rdReason = ''route-map deny''\<rparr>
               else rdAccept out \<and> rdReason out = [] \<and> rewritten rule (rbAttrs (Normalize r)) (rbAttrs (rdRoute out))
                 \<and> rbNextHop (rdRoute out) =
                    (if SetNextHop rule \<noteq> [] then NextHopForSet resolver (nodeName n) (SetNextHop rule)
                     else if SetNextHopSelf rule then \<lparr>nhNode = nodeName n, nhAddr = []\<rparr> else rbNextHop r))
          else out = \<lparr>rdRoute = Normalize r, rdAccept = False, rdReason = ''route-map implicit deny''\<rparr>)"
proof -
  let ?P = "\<lambda>rule. RoutePolicyRuleMatches matchString resolver n peerName rule r"
  let ?out = "ApplyRoutePolicy matchString resolver n peerName policyName r"
  let ?policy = "if policyName = [] then None else RoutePolicyByName n policyName"
  have norm: "RoutePolicyRuleMatches matchString resolver n peerName rule (Normalize r)
      = RoutePolicyRuleMatches matchString resolver n peerName rule r" for rule
    by (simp add: RoutePolicyRuleMatches_def Let_def)
  have out: "?out = (case ?policy of None \<Rightarrow> \<lparr>rdRoute = Normalize r, rdAccept = True, rdReason = []\<rparr>
      | Some policy \<Rightarrow> (case List.find ?P (rpRules policy) of
          None \<Rightarrow> \<lparr>rdRoute = Normalize r, rdAccept = False, rdReason = ''route-map implicit deny''\<rparr>
        | Some rule \<Rightarrow> applyRule resolver n rule (Normalize r)))"
    unfolding ApplyRoutePolicy_def Let_def norm by simp
  have rule: "(rdRoute (applyRule resolver n rule (Normalize r)))\<lparr>rbAttrs := rbAttrs (Normalize r), rbNextHop := rbNextHop (Normalize r)\<rparr> = Normalize r"
    for rule by (rule applyRule_keeps)
  have accept: "rewritten rule (rbAttrs (Normalize r)) (rbAttrs (rdRoute (applyRule resolver n rule (Normalize r))))
      \<and> rdAccept (applyRule resolver n rule (Normalize r)) \<and> rdReason (applyRule resolver n rule (Normalize r)) = []
      \<and> rbNextHop (rdRoute (applyRule resolver n rule (Normalize r))) = setNextHop resolver n rule (rbNextHop r)"
    if "\<not> equalFold (rpAction rule) ''deny''" for rule using applyRule_rewrites [OF that] .
  have first: "\<exists>pre post. rules = pre @ rule # post \<and> list_all (\<lambda>p. ?P p = False) pre \<and> ?P rule" if "List.find ?P rules = Some rule" for rules rule
    using find_split [OF that] by (auto simp: list_all_iff)
  show ?thesis unfolding Let_def
  proof (intro conjI)
    show "(rdRoute ?out)\<lparr>rbAttrs := rbAttrs (Normalize r), rbNextHop := rbNextHop (Normalize r)\<rparr> = Normalize r"
      unfolding out using rule by (auto split: option.split)
  next
    show "case ?policy of None \<Rightarrow> ?out = \<lparr>rdRoute = Normalize r, rdAccept = True, rdReason = []\<rparr>
      | Some policy \<Rightarrow> if list_ex ?P (rpRules policy)
          then \<exists>pre rule post. rpRules policy = pre @ rule # post \<and> list_all (\<lambda>p. ?P p = False) pre \<and> ?P rule
            \<and> (if equalFold (rpAction rule) ''deny'' then ?out = \<lparr>rdRoute = Normalize r, rdAccept = False, rdReason = ''route-map deny''\<rparr>
               else rdAccept ?out \<and> rdReason ?out = [] \<and> rewritten rule (rbAttrs (Normalize r)) (rbAttrs (rdRoute ?out))
                 \<and> rbNextHop (rdRoute ?out) =
                    (if SetNextHop rule \<noteq> [] then NextHopForSet resolver (nodeName n) (SetNextHop rule)
                     else if SetNextHopSelf rule then \<lparr>nhNode = nodeName n, nhAddr = []\<rparr> else rbNextHop r))
          else ?out = \<lparr>rdRoute = Normalize r, rdAccept = False, rdReason = ''route-map implicit deny''\<rparr>"
    proof (cases ?policy)
      case None
      then show ?thesis by (simp add: out del: option.split)
    next
      case (Some policy)
      show ?thesis
      proof (cases "List.find ?P (rpRules policy)")
        case None
        then have "\<not> list_ex ?P (rpRules policy)" by (simp add: find_None_iff list_ex_iff)
        then show ?thesis using None Some by (simp add: out)
      next
        case found: (Some rule)
        have o: "?out = applyRule resolver n rule (Normalize r)" unfolding out Some by (simp add: found)
        obtain pre post where split: "rpRules policy = pre @ rule # post" "list_all (\<lambda>p. ?P p = False) pre" "?P rule"
          using first [OF found] by blast
        have "if equalFold (rpAction rule) ''deny'' then ?out = \<lparr>rdRoute = Normalize r, rdAccept = False, rdReason = ''route-map deny''\<rparr>
               else rdAccept ?out \<and> rdReason ?out = [] \<and> rewritten rule (rbAttrs (Normalize r)) (rbAttrs (rdRoute ?out))
                 \<and> rbNextHop (rdRoute ?out) =
                    (if SetNextHop rule \<noteq> [] then NextHopForSet resolver (nodeName n) (SetNextHop rule)
                     else if SetNextHopSelf rule then \<lparr>nhNode = nodeName n, nhAddr = []\<rparr> else rbNextHop r)"
          unfolding o using accept [of rule] by (simp add: setNextHop_def) (simp add: applyRule_def)
        moreover have "list_ex ?P (rpRules policy)" using split by simp
        ultimately show ?thesis unfolding Some option.case if_P [OF \<open>list_ex ?P (rpRules policy)\<close>] using split by blast
      qed
    qed
  qed
qed

text \<open>
  Community lists. Matching exactly holds when every community of the route is permitted and not
  denied and there are as many communities, repetitions counted, as permitted patterns. Otherwise
  the first community of the route that any rule names decides, and a denial wins over a permission.
\<close>

lemma CommunityListPermits_exact:
  "(CommunityListPermits n name cs True \<longleftrightarrow>
      (\<exists>l. List.find (\<lambda>l. slName l = name) (nodeCommunityLists n) = Some l
         \<and> length cs = card (set (allowedPatterns l))
         \<and> set cs \<subseteq> set (allowedPatterns l) - set (deniedPatterns l)))
   \<and> (CommunityListPermits n name cs False \<longleftrightarrow>
      (\<exists>l pre c post. List.find (\<lambda>l. slName l = name) (nodeCommunityLists n) = Some l
         \<and> cs = pre @ c # post \<and> c \<in> set (allowedPatterns l) - set (deniedPatterns l)
         \<and> set pre \<inter> (set (allowedPatterns l) \<union> set (deniedPatterns l)) = {}))"
proof -
  have len: "length (allowedPatterns l) = card (set (allowedPatterns l))" for l
    by (simp add: allowedPatterns_def length_remdups_card_conv)
  have loop: "communityLoop as ds cs \<longleftrightarrow>
      (\<exists>pre c post. cs = pre @ c # post \<and> c \<in> set as - set ds \<and> set pre \<inter> (set as \<union> set ds) = {})" for as ds
  proof (induction cs)
    case (Cons c cs)
    have "communityLoop as ds (c # cs) \<longleftrightarrow>
        c \<in> set as - set ds \<or> c \<notin> set as \<union> set ds \<and> communityLoop as ds cs" by auto
    then show ?case unfolding Cons
      by (subst first_Cons [of c cs "\<lambda>d. d \<in> set as - set ds" "set as \<union> set ds"]) simp
  qed simp
  show ?thesis
    by (auto simp: CommunityListPermits_def Let_def len loop list_all_iff split: option.split)
qed

end
