(* ===== verification/Propagation.thy ===== *)
theory Propagation
  imports Route_Policy Behavior Prune
begin

text \<open>
  \<open>internal/domain/routing/bgp/propagate.go\<close>: how a BGP route spreads over the sessions. The
  struct of callbacks \<open>PropagationContext\<close> is a record of functions; what the callbacks read and
  write (the routing tables of the engine) is the state \<open>'s\<close>. \<open>WalkRoute\<close> calls itself on every
  route it installs, so the model bounds the depth by fuel.
\<close>

section \<open>Conditions that may be nil\<close>

datatype walk_error = OutOfFuel | NilCondition | EmptyPath | BadPrefixString string

text \<open>
  \<open>failure.And\<close> looks at its arguments from the left and stops at the first false one; a \<open>nil\<close>
  it meets before panics.
\<close>

definition AndNil :: "cond option list \<Rightarrow> walk_error + cond" where
  "AndNil cs =
     (let known = map the (takeWhile (\<lambda>c. c \<noteq> None) cs)
      in if length known = length cs \<or> andParts (map normalizeCond known) = None then Inr (And known)
         else Inl NilCondition)"

section \<open>The context\<close>

record 's propagation_context =
  pcAdjacencies :: "node_id \<Rightarrow> adj_edge list"
  pcNode :: "string \<Rightarrow> node option"
  pcBGPSession :: "string \<Rightarrow> string \<Rightarrow> network_instance \<Rightarrow> bgp_neighbor option"
  pcExportRoute :: "node \<Rightarrow> node \<Rightarrow> bgp_neighbor \<Rightarrow> rib_entry \<Rightarrow> route_decision"
  pcImportRoute :: "node \<Rightarrow> node \<Rightarrow> bgp_neighbor \<Rightarrow> rib_entry \<Rightarrow> route_decision"
  pcApplyRoutePolicy :: "node \<Rightarrow> string \<Rightarrow> string \<Rightarrow> rib_entry \<Rightarrow> route_decision"
  pcAddRIB :: "string \<Rightarrow> prefix \<Rightarrow> rib_entry \<Rightarrow> 's \<Rightarrow> 's"
  pcControlEgress :: "string \<Rightarrow> string \<Rightarrow> rib_entry \<Rightarrow> bool"
  pcControlIngress :: "string \<Rightarrow> string \<Rightarrow> rib_entry \<Rightarrow> bool"
  pcEligibleForAdvertisement :: "node \<Rightarrow> rib_entry \<Rightarrow> bool"
  pcAggregateSuppression :: "(node \<Rightarrow> rib_entry \<Rightarrow> 's \<Rightarrow> walk_error + rib_entry) option"
  pcPrune :: "(cond \<Rightarrow> bool) option"

definition containsString :: "string list \<Rightarrow> string \<Rightarrow> bool" where
  "containsString xs x = list_ex (\<lambda>v. v = x) xs"

section \<open>One adjacency\<close>

text \<open>The checks up to the import policy: \<open>None\<close> is \<open>continue\<close>.\<close>

definition importedAcross ::
    "'s propagation_context \<Rightarrow> rib_entry \<Rightarrow> string \<Rightarrow> node \<Rightarrow> string \<Rightarrow> 's \<Rightarrow> walk_error + (node \<times> rib_entry) option" where
  "importedAcross ctx r current curNode peer s =
     (case pcBGPSession ctx current peer (crNetworkInstance (rbRouteSource r)) of
        None \<Rightarrow> Inr None
      | Some session \<Rightarrow>
     (case pcNode ctx peer of
        None \<Rightarrow> Inr None
      | Some peerNode \<Rightarrow>
          if \<not> pcControlEgress ctx current peer r then Inr None
          else
     (case (case pcAggregateSuppression ctx of None \<Rightarrow> Inr r | Some f \<Rightarrow> f curNode r s) of
        Inl e \<Rightarrow> Inl e
      | Inr routeForExport \<Rightarrow>
          (let exported = pcExportRoute ctx curNode peerNode session routeForExport
           in if \<not> rdAccept exported then Inr None
              else
          (let exportPolicy = pcApplyRoutePolicy ctx curNode peer (nbExportPolicy session) (rdRoute exported)
           in if \<not> rdAccept exportPolicy then Inr None
              else if \<not> pcControlIngress ctx current peer (rdRoute exportPolicy) then Inr None
              else
          (case pcBGPSession ctx peer current (crNetworkInstance (rbRouteSource r)) of
             None \<Rightarrow> Inr None
           | Some receiverSession \<Rightarrow>
               (let imported = pcImportRoute ctx peerNode curNode receiverSession (rdRoute exportPolicy)
                in if \<not> rdAccept imported then Inr None
                   else
               (let importPolicy = pcApplyRoutePolicy ctx peerNode current (nbImportPolicy receiverSession) (rdRoute imported)
                in if \<not> rdAccept importPolicy then Inr None
                   else Inr (Some (peerNode, rdRoute importPolicy))))))))))"

text \<open>The loop check and the entry the neighbour gets.\<close>

definition installedEntry :: "rib_entry \<Rightarrow> string \<Rightarrow> adj_edge \<Rightarrow> rib_entry \<Rightarrow> cond \<Rightarrow> rib_entry" where
  "installedEntry r current adj imported nextCond =
     Normalize (imported
       \<lparr>rbRacing := rbRacing r,
        rbProvenance := (rbProvenance imported)
          \<lparr>pvFromNode := current,
           pvPathNodes := pvPathNodes (rbProvenance imported) @ [adjTo adj],
           pvPathLinks := pvPathLinks (rbProvenance imported) @ [linkName (adjLink adj)]\<rparr>,
        rbBaseCond := Some nextCond,
        rbCondition := Some nextCond,
        rbAttrs := (rbAttrs imported)\<lparr>atLocalPref := DefaultLocalPref (atLocalPref (rbAttrs imported))\<rparr>\<rparr>)"

definition nextEntry ::
    "'s propagation_context \<Rightarrow> rib_entry \<Rightarrow> string \<Rightarrow> node \<Rightarrow> adj_edge \<Rightarrow> 's \<Rightarrow> walk_error + (node \<times> rib_entry) option" where
  "nextEntry ctx r current curNode adj s =
     (let peer = adjTo adj
      in case importedAcross ctx r current curNode peer s of
           Inl e \<Rightarrow> Inl e
         | Inr None \<Rightarrow> Inr None
         | Inr (Some (peerNode, imported)) \<Rightarrow>
             if containsString (pvPathNodes (rbProvenance r)) peer \<and> \<not> atInvalid (rbAttrs imported) then Inr None
             else (case AndNil [rbCondition imported, Some (LinkVar (linkName (adjLink adj))), Some (NodeVar peer)] of
                     Inl e \<Rightarrow> Inl e
                   | Inr nextCond \<Rightarrow> Inr (Some (peerNode, installedEntry r current adj imported nextCond))))"

text \<open>Whether the walk goes on from the installed route.\<close>

definition continues :: "'s propagation_context \<Rightarrow> node \<Rightarrow> rib_entry \<Rightarrow> bool" where
  "continues ctx peerNode entry =
     (if \<not> rbRacing entry \<and> \<not> pcEligibleForAdvertisement ctx peerNode entry then False
      else case (pcPrune ctx, rbCondition entry) of
             (Some prune, Some c) \<Rightarrow> \<not> prune c
           | _ \<Rightarrow> True)"

definition walkEdge ::
    "(rib_entry \<Rightarrow> 's \<Rightarrow> walk_error + 's) \<Rightarrow> 's propagation_context \<Rightarrow> rib_entry \<Rightarrow> string \<Rightarrow> node
     \<Rightarrow> 's \<Rightarrow> adj_edge \<Rightarrow> walk_error + 's" where
  "walkEdge walk ctx r current curNode s adj =
     (case nextEntry ctx r current curNode adj s of
        Inl e \<Rightarrow> Inl e
      | Inr None \<Rightarrow> Inr s
      | Inr (Some (peerNode, entry)) \<Rightarrow>
          (let s' = pcAddRIB ctx (adjTo adj) (rbPrefix entry) entry s
           in if continues ctx peerNode entry then walk entry s' else Inr s'))"

section \<open>The walk\<close>

fun WalkRoute :: "nat \<Rightarrow> 's propagation_context \<Rightarrow> rib_entry \<Rightarrow> 's \<Rightarrow> walk_error + 's" where
  "WalkRoute 0 ctx raw s = Inl OutOfFuel"
| "WalkRoute (Suc fuel) ctx raw s =
     (let r = Normalize raw
      in if pvPathNodes (rbProvenance r) = [] then Inl EmptyPath
         else (let current = last (pvPathNodes (rbProvenance r))
               in case pcNode ctx current of
                    None \<Rightarrow> Inr s
                  | Some curNode \<Rightarrow>
                      foldE (walkEdge (WalkRoute fuel ctx) ctx r current curNode) s (pcAdjacencies ctx current)))"

declare WalkRoute.simps [simp del]

section \<open>What the walk relies on and keeps\<close>

lemma AndNil_Some: "AndNil (map Some cs) = Inr (And cs)"
proof -
  have "takeWhile (\<lambda>c. c \<noteq> None) (map Some cs) = map Some cs"
    by (simp add: takeWhile_eq_all_conv)
  then show ?thesis unfolding AndNil_def Let_def by (simp only: length_map map_map comp_def option.sel) simp
qed

lemma AndNil_three [simp]: "AndNil [Some a, Some b, Some c] = Inr (And [a, b, c])"
  using AndNil_Some [of "[a, b, c]"] by simp

text \<open>
  A route a node holds is grounded when its path leads over sessions' adjacencies to the node and
  its condition implies that every node and every link on that path is up.
\<close>

inductive walkPath :: "(node_id \<Rightarrow> adj_edge list) \<Rightarrow> string list \<Rightarrow> string list \<Rightarrow> bool" for adjacent where
  origin: "walkPath adjacent [n] []"
| hop: "walkPath adjacent ns ls \<Longrightarrow> adj \<in> set (adjacent (last ns))
    \<Longrightarrow> walkPath adjacent (ns @ [adjTo adj]) (ls @ [linkName (adjLink adj)])"

inductive_cases walkPath_NilE: "walkPath adjacent [] ls"

lemma walkPath_nonempty: "walkPath adjacent ns ls \<Longrightarrow> ns \<noteq> []"
  by (auto elim: walkPath.cases)

lemma walkPath_length: "walkPath adjacent ns ls \<Longrightarrow> length ns = Suc (length ls)"
  by (induction rule: walkPath.induct) auto

definition pathUp :: "fail_context \<Rightarrow> rib_entry \<Rightarrow> bool" where
  "pathUp ctx r \<longleftrightarrow>
     (\<forall>n \<in> set (pvPathNodes (rbProvenance r)). \<not> NodeFailed ctx n)
     \<and> (\<forall>l \<in> set (pvPathLinks (rbProvenance r)). \<not> LinkFailed ctx l)"

definition plainEntry :: "rib_entry \<Rightarrow> bool" where
  "plainEntry r \<longleftrightarrow>
     list_all (\<lambda>c. case c of None \<Rightarrow> True | Some c \<Rightarrow> plainCond c) [rbBaseCond r, rbCondition r, rbSelectedCond r]"

lemma plainEntry_simps [simp]:
  "plainEntry (Normalize r) = plainEntry r"
  by (simp add: plainEntry_def)

definition grounded :: "(node_id \<Rightarrow> adj_edge list) \<Rightarrow> string \<Rightarrow> rib_entry \<Rightarrow> bool" where
  "grounded adjacent n r \<longleftrightarrow>
     plainEntry r
     \<and> walkPath adjacent (pvPathNodes (rbProvenance r)) (pvPathLinks (rbProvenance r))
     \<and> last (pvPathNodes (rbProvenance r)) = n
     \<and> (\<exists>b. rbBaseCond r = Some b \<and> (\<forall>ctx. evalCond ctx b \<longrightarrow> pathUp ctx r))
     \<and> (\<exists>c. rbCondition r = Some c \<and> (\<forall>ctx. evalCond ctx c \<longrightarrow> pathUp ctx r))"

definition plainNet :: "(node_id \<Rightarrow> adj_edge list) \<Rightarrow> bool" where
  "plainNet adjacent \<longleftrightarrow> (\<forall>n. \<forall>adj \<in> set (adjacent n). plainName (adjTo adj) \<and> plainName (linkName (adjLink adj)))"

lemma grounded_Normalize [simp]: "grounded adjacent n (Normalize r) = grounded adjacent n r"
  by (simp add: grounded_def pathUp_def)

lemma grounded_nonempty: "grounded adjacent n r \<Longrightarrow> pvPathNodes (rbProvenance r) \<noteq> []"
  unfolding grounded_def using walkPath_nonempty by blast

text \<open>
  The laws of a context. \<open>holds s n r\<close> says that the tables \<open>s\<close> list the route \<open>r\<close> at the node
  \<open>n\<close>. Export, import and policies leave origin and condition alone, suppression only strengthens
  the condition, and \<open>AddRIB\<close> adds nothing but the given route.
\<close>

definition strengthens :: "rib_entry \<Rightarrow> rib_entry \<Rightarrow> bool" where
  "strengthens r r' \<longleftrightarrow> rbProvenance r' = rbProvenance r
     \<and> (plainEntry r \<longrightarrow> plainEntry r') \<and> rbSelectedCond r' = rbSelectedCond r
     \<and> (\<forall>b. plainEntry r \<longrightarrow> rbBaseCond r = Some b
          \<longrightarrow> (\<exists>b'. rbBaseCond r' = Some b' \<and> (\<forall>ctx. evalCond ctx b' \<longrightarrow> evalCond ctx b)))
     \<and> (\<forall>c. plainEntry r \<longrightarrow> rbCondition r = Some c
          \<longrightarrow> (\<exists>c'. rbCondition r' = Some c' \<and> (\<forall>ctx. evalCond ctx c' \<longrightarrow> evalCond ctx c)))"

definition sameShape :: "rib_entry \<Rightarrow> rib_entry \<Rightarrow> bool" where
  "sameShape r r' \<longleftrightarrow> rbProvenance r' = rbProvenance r \<and> rbBaseCond r' = rbBaseCond r
     \<and> rbCondition r' = rbCondition r \<and> rbSelectedCond r' = rbSelectedCond r"

lemma sameShape_trans: "sameShape r r' \<Longrightarrow> sameShape r' r'' \<Longrightarrow> sameShape r r''"
  by (simp add: sameShape_def)

lemma sameShape_plain: "sameShape r r' \<Longrightarrow> plainEntry r' = plainEntry r"
  by (simp add: sameShape_def plainEntry_def)

lemma sameRoute_sameShape: "sameRoute r r' \<Longrightarrow> sameShape r r'"
  by (simp add: sameRoute_def sameShape_def)

lemma grounded_sameShape: "sameShape r r' \<Longrightarrow> grounded adjacent n r' = grounded adjacent n r"
  using sameShape_plain [of r r'] by (simp add: sameShape_def grounded_def pathUp_def)

text \<open>\<open>AddRIB\<close> rewrites nothing that the forwarding of a packet depends on.\<close>

definition sameEntry :: "rib_entry \<Rightarrow> rib_entry \<Rightarrow> bool" where
  "sameEntry r r' \<longleftrightarrow> sameShape r r' \<and> rbNextHop r' = rbNextHop r"

lemma sameEntry_Normalize [simp]: "sameEntry r (Normalize r)"
  by (simp add: sameEntry_def sameShape_def)

lemma strengthens_refl [simp]: "strengthens r r"
  by (auto simp: strengthens_def)

lemma strengthens_sameShape: "strengthens r a \<Longrightarrow> sameShape a b \<Longrightarrow> strengthens r b"
  using sameShape_plain [of a b] by (simp add: strengthens_def sameShape_def)

lemma grounded_strengthens: "strengthens r r' \<Longrightarrow> grounded adjacent n r \<Longrightarrow> grounded adjacent n r'"
  unfolding strengthens_def grounded_def pathUp_def by clarsimp

locale propagation =
  fixes ctx :: "'s propagation_context"
    and holds :: "'s \<Rightarrow> string \<Rightarrow> rib_entry \<Rightarrow> bool"
  assumes export_shape: "sameShape r (rdRoute (pcExportRoute ctx a b session r))"
    and import_shape: "sameShape r (rdRoute (pcImportRoute ctx a b session r))"
    and policy_shape: "sameShape r (rdRoute (pcApplyRoutePolicy ctx device peer name r))"
    and suppress_strengthens: "pcAggregateSuppression ctx = Some f \<Longrightarrow>
      (\<And>n e. holds s n e \<Longrightarrow> plainEntry e) \<Longrightarrow> f device r s = Inr r' \<Longrightarrow>
      rbBaseCond r \<noteq> None \<Longrightarrow> rbCondition r \<noteq> None \<Longrightarrow> strengthens r r'"
    and suppress_returns: "pcAggregateSuppression ctx = Some f \<Longrightarrow>
      rbBaseCond r \<noteq> None \<Longrightarrow> rbCondition r \<noteq> None \<Longrightarrow> \<exists>r'. f device r s = Inr r'"
    and eligible_valid: "pcEligibleForAdvertisement ctx device r \<Longrightarrow> \<not> atInvalid (rbAttrs r)"
    and addRIB_holds: "holds (pcAddRIB ctx n p r s) m r' \<Longrightarrow> holds s m r' \<or> m = n \<and> sameEntry r r'"
begin

definition plainTables :: "'s \<Rightarrow> bool" where
  "plainTables s \<longleftrightarrow> (\<forall>n r. holds s n r \<longrightarrow> plainEntry r)"

lemma importedAcross_strengthens:
  assumes "plainTables s" "grounded (pcAdjacencies ctx) current r"
    and "importedAcross ctx r current curNode peer s = Inr (Some (peerNode, imported))"
  shows "strengthens r imported"
proof -
  have shape: "strengthens r (rdRoute (pcApplyRoutePolicy ctx n2 p2 q2
      (rdRoute (pcImportRoute ctx n3 n4 s2 (rdRoute (pcApplyRoutePolicy ctx n1 p1 q1 (rdRoute (pcExportRoute ctx n5 n6 s1 a))))))))"
    if "strengthens r a" for a n1 p1 q1 n2 p2 q2 n3 n4 n5 n6 s1 s2
    by (rule strengthens_sameShape [OF that])
       (rule sameShape_trans [OF export_shape sameShape_trans [OF policy_shape sameShape_trans [OF import_shape policy_shape]]])
  have suppress: "strengthens r a" if "pcAggregateSuppression ctx = Some f" "f curNode r s = Inr a" for f a
    using suppress_strengthens [OF that(1) _ that(2)] assms(1,2) unfolding grounded_def plainTables_def by blast
  show ?thesis
    using assms(3) unfolding importedAcross_def Let_def
    by (auto split: option.splits if_splits sum.splits intro!: shape intro: suppress)
qed

lemma nextEntry_grounded:
  assumes "plainTables s" "plainNet (pcAdjacencies ctx)"
    and "nextEntry ctx r current curNode adj s = Inr (Some (peerNode, entry))"
    and "grounded (pcAdjacencies ctx) current r" "adj \<in> set (pcAdjacencies ctx current)"
  shows "grounded (pcAdjacencies ctx) (adjTo adj) entry"
proof -
  obtain imported c where imported: "importedAcross ctx r current curNode (adjTo adj) s = Inr (Some (peerNode, imported))"
    and c: "AndNil [rbCondition imported, Some (LinkVar (linkName (adjLink adj))), Some (NodeVar (adjTo adj))] = Inr c"
    and entry: "entry = installedEntry r current adj imported c"
    using assms(3) by (auto simp: nextEntry_def Let_def split: sum.splits option.splits prod.splits if_splits)
  have g: "grounded (pcAdjacencies ctx) current imported"
    by (rule grounded_strengthens [OF importedAcross_strengthens [OF assms(1,4) imported] assms(4)])
  then obtain d where d: "rbCondition imported = Some d" "\<And>x. evalCond x d \<Longrightarrow> pathUp x imported"
    unfolding grounded_def by blast
  have plain: "list_all plainCond [d, LinkVar (linkName (adjLink adj)), NodeVar (adjTo adj)]"
    using g d(1) assms(2,5) by (auto simp: grounded_def plainEntry_def plainNet_def LinkVar_def NodeVar_def)
  have c_eq: "c = And [d, LinkVar (linkName (adjLink adj)), NodeVar (adjTo adj)]"
    using c by (simp add: d(1))
  have up: "pathUp x entry" if "evalCond x c" for x
  proof -
    have "evalCond x d" "\<not> LinkFailed x (linkName (adjLink adj))" "\<not> NodeFailed x (adjTo adj)"
      using that And_eval [OF plain, of x] by (simp_all add: c_eq LinkVar_def NodeVar_def)
    then show ?thesis using d(2) [of x] by (auto simp: pathUp_def entry installedEntry_def)
  qed
  have "plainEntry entry"
    using g plain_And [OF plain] by (simp add: entry installedEntry_def c_eq plainEntry_def grounded_def)
  then show ?thesis
    using g up assms(5) unfolding grounded_def entry installedEntry_def
    by (auto intro: walkPath.hop)
qed

lemma nextEntry_returns:
  assumes "plainTables s" "grounded (pcAdjacencies ctx) current r"
  shows "\<exists>hop. nextEntry ctx r current curNode adj s = Inr hop"
proof -
  have full: "rbBaseCond r \<noteq> None" "rbCondition r \<noteq> None" using assms(2) by (auto simp: grounded_def)
  have "\<exists>hop. importedAcross ctx r current curNode (adjTo adj) s = Inr hop"
  proof (cases "pcAggregateSuppression ctx")
    case None
    then show ?thesis by (simp add: importedAcross_def Let_def split: option.split)
  next
    case (Some f)
    then obtain r' where "f curNode r s = Inr r'" using suppress_returns [OF Some full] by blast
    then show ?thesis using Some by (simp add: importedAcross_def Let_def split: option.split)
  qed
  then obtain hop where hop: "importedAcross ctx r current curNode (adjTo adj) s = Inr hop" by blast
  show ?thesis
  proof (cases hop)
    case (Some h)
    obtain peerNode imported where h: "h = (peerNode, imported)" by force
    then have "grounded (pcAdjacencies ctx) current imported"
      using grounded_strengthens [OF importedAcross_strengthens [OF assms(1,2)] assms(2)] hop Some by blast
    then obtain d where "rbCondition imported = Some d" by (auto simp: grounded_def)
    then show ?thesis by (simp add: nextEntry_def Let_def hop Some h)
  qed (simp add: nextEntry_def Let_def hop)
qed

lemma nextEntry_path:
  assumes "plainTables s" "grounded (pcAdjacencies ctx) current r"
    and "nextEntry ctx r current curNode adj s = Inr (Some (peerNode, entry))"
  shows "pvPathNodes (rbProvenance entry) = pvPathNodes (rbProvenance r) @ [adjTo adj]"
    and "rbRacing entry = rbRacing r" and "rbSelectedCond entry = rbSelectedCond r"
    and "pcNode ctx (adjTo adj) = Some peerNode"
    and "atInvalid (rbAttrs entry) \<or> adjTo adj \<notin> set (pvPathNodes (rbProvenance r))"
proof -
  obtain imported c where imported: "importedAcross ctx r current curNode (adjTo adj) s = Inr (Some (peerNode, imported))"
    and entry: "entry = installedEntry r current adj imported c"
    and loop: "\<not> (containsString (pvPathNodes (rbProvenance r)) (adjTo adj) \<and> \<not> atInvalid (rbAttrs imported))"
    using assms(3) by (auto simp: nextEntry_def Let_def split: sum.splits option.splits prod.splits if_splits)
  have "rbProvenance imported = rbProvenance r" "rbSelectedCond imported = rbSelectedCond r"
    using importedAcross_strengthens [OF assms(1,2) imported] by (simp_all add: strengthens_def)
  then show "pvPathNodes (rbProvenance entry) = pvPathNodes (rbProvenance r) @ [adjTo adj]" "rbRacing entry = rbRacing r"
      "rbSelectedCond entry = rbSelectedCond r"
      "atInvalid (rbAttrs entry) \<or> adjTo adj \<notin> set (pvPathNodes (rbProvenance r))"
    using loop by (auto simp: entry installedEntry_def containsString_def list_ex_iff Normalize_def Let_def normalizeAttrs_def)
  show "pcNode ctx (adjTo adj) = Some peerNode"
    using imported by (auto simp: importedAcross_def Let_def split: option.splits if_splits sum.splits)
qed

end

text \<open>
  What a walk keeps of the tables: every route a node holds satisfies \<open>held\<close>, provided that this is
  so for the grounded routes that satisfy \<open>start\<close>, and that the walk goes from such routes to such
  routes.
\<close>

locale walk_tables = propagation ctx holds
    for ctx :: "'s propagation_context" and holds :: "'s \<Rightarrow> string \<Rightarrow> rib_entry \<Rightarrow> bool" +
  fixes held :: "string \<Rightarrow> rib_entry \<Rightarrow> bool" and start :: "rib_entry \<Rightarrow> bool"
  assumes held_plain: "held n r \<Longrightarrow> plainEntry r"
    and grounded_held: "grounded (pcAdjacencies ctx) n r \<Longrightarrow> start r \<Longrightarrow> held n r"
    and start_sameEntry: "start r \<Longrightarrow> sameEntry r r' \<Longrightarrow> start r'"
    and start_next: "start r \<Longrightarrow> plainTables s \<Longrightarrow> grounded (pcAdjacencies ctx) current r \<Longrightarrow>
      pcNode ctx current = Some curNode \<Longrightarrow>
      nextEntry ctx r current curNode adj s = Inr (Some (peerNode, entry)) \<Longrightarrow> start entry"
begin

definition tables :: "'s \<Rightarrow> bool" where
  "tables s \<longleftrightarrow> (\<forall>n r. holds s n r \<longrightarrow> held n r)"

lemma tables_plain: "tables s \<Longrightarrow> plainTables s"
  using held_plain by (auto simp: tables_def plainTables_def)

lemma tables_addRIB:
  assumes "tables s" "grounded (pcAdjacencies ctx) n r" "start r"
  shows "tables (pcAddRIB ctx n p r s)"
  unfolding tables_def
proof (intro allI impI)
  fix m r' assume "holds (pcAddRIB ctx n p r s) m r'"
  then consider "holds s m r'" | "m = n" "sameEntry r r'" using addRIB_holds by blast
  then show "held m r'"
  proof cases
    case 2
    then show ?thesis using grounded_held [of n r'] grounded_sameShape [of r r'] start_sameEntry assms(2,3)
      by (simp add: sameEntry_def)
  qed (use assms(1) in \<open>simp add: tables_def\<close>)
qed

text \<open>A walk that is not a racing walk only goes on along paths that repeat no node.\<close>

lemma WalkRoute_returns:
  assumes net: "plainNet (pcAdjacencies ctx)" and fin: "finite N" "\<And>n x. pcNode ctx n = Some x \<Longrightarrow> n \<in> N"
  shows "tables s \<Longrightarrow> grounded (pcAdjacencies ctx) n r \<Longrightarrow> start r \<Longrightarrow> \<not> rbRacing r
    \<Longrightarrow> distinct (pvPathNodes (rbProvenance r)) \<Longrightarrow> set (pvPathNodes (rbProvenance r)) \<subseteq> N
    \<Longrightarrow> card N < fuel + length (pvPathNodes (rbProvenance r))
    \<Longrightarrow> \<exists>s'. WalkRoute fuel ctx r s = Inr s' \<and> tables s'"
proof (induction fuel arbitrary: n r s)
  case 0
  then have "length (pvPathNodes (rbProvenance r)) \<le> card N"
    using card_mono [OF fin(1)] distinct_card by metis
  then show ?case using 0 by simp
next
  case (Suc fuel)
  let ?r = "Normalize r" and ?cur = "last (pvPathNodes (rbProvenance r))" and ?path = "pvPathNodes (rbProvenance r)"
  have n: "?cur = n" and r: "grounded (pcAdjacencies ctx) ?cur ?r"
    using Suc.prems(2) grounded_Normalize [of _ n r] by (auto simp: grounded_def simp del: grounded_Normalize)
  show ?case
  proof (cases "pcNode ctx ?cur")
    case None
    then show ?thesis using Suc.prems grounded_nonempty [OF Suc.prems(2)] by (simp add: WalkRoute.simps Let_def)
  next
    case (Some curNode)
    note Some_node = Some
    have step: "\<exists>t'. walkEdge (WalkRoute fuel ctx) ctx ?r ?cur curNode t adj = Inr t' \<and> tables t'"
      if t: "tables t" and adj: "adj \<in> set (pcAdjacencies ctx ?cur)" for t adj
    proof -
      obtain hop where hop: "nextEntry ctx ?r ?cur curNode adj t = Inr hop" using nextEntry_returns [OF tables_plain [OF t] r] by blast
      show ?thesis
      proof (cases hop)
        case (Some h)
        obtain peerNode entry where h: "h = (peerNode, entry)" by force
        have nxt: "nextEntry ctx ?r ?cur curNode adj t = Inr (Some (peerNode, entry))" using hop Some h by simp
        note path = nextEntry_path [OF tables_plain [OF t] r nxt]
        have e: "grounded (pcAdjacencies ctx) (adjTo adj) entry" by (rule nextEntry_grounded [OF tables_plain [OF t] net nxt r adj])
        have "start ?r" by (rule start_sameEntry [OF Suc.prems(3)]) simp
        then have sel: "start entry" using start_next [OF _ tables_plain [OF t] r Some_node nxt] by blast
        have t': "tables (pcAddRIB ctx (adjTo adj) (rbPrefix entry) entry t)" by (rule tables_addRIB [OF t e sel])
        have "\<exists>s'. WalkRoute fuel ctx entry (pcAddRIB ctx (adjTo adj) (rbPrefix entry) entry t) = Inr s' \<and> tables s'"
          if go: "continues ctx peerNode entry"
        proof (rule Suc.IH [OF t' e sel])
          show racing: "\<not> rbRacing entry" using path(2) Suc.prems(4) by (simp add: Normalize_def Let_def)
          then have "pcEligibleForAdvertisement ctx peerNode entry"
            using go unfolding continues_def by (meson)
          then have fresh: "adjTo adj \<notin> set ?path" using eligible_valid path(5) by auto
          show "distinct (pvPathNodes (rbProvenance entry))" "set (pvPathNodes (rbProvenance entry)) \<subseteq> N"
            using Suc.prems(5,6) fresh fin(2) [OF path(4)] by (auto simp: path(1))
          show "card N < fuel + length (pvPathNodes (rbProvenance entry))" using Suc.prems(7) by (simp add: path(1))
        qed
        then show ?thesis using t' nxt by (simp add: walkEdge_def Let_def)
      qed (use hop t in \<open>simp add: walkEdge_def\<close>)
    qed
    have "case foldE (walkEdge (WalkRoute fuel ctx) ctx ?r ?cur curNode) s (pcAdjacencies ctx ?cur)
        of Inl _ \<Rightarrow> False | Inr t \<Rightarrow> tables t"
    proof (rule foldE_rule [where I = "\<lambda>_. tables"])
      fix ys x zs t assume "pcAdjacencies ctx ?cur = ys @ x # zs" "tables t"
      then show "case walkEdge (WalkRoute fuel ctx) ctx ?r ?cur curNode t x of Inl _ \<Rightarrow> False | Inr t' \<Rightarrow> tables t'"
        using step [of t x] by auto
    qed (rule Suc.prems(1))
    then show ?thesis using Some grounded_nonempty [OF r]
      by (simp add: WalkRoute.simps Let_def split: sum.splits)
  qed
qed

end

section \<open>Fuel\<close>

lemma foldE_more:
  "(\<And>s x y. f s x = y \<Longrightarrow> y \<noteq> Inl e \<Longrightarrow> g s x = y) \<Longrightarrow> foldE f s xs = y \<Longrightarrow> y \<noteq> Inl e \<Longrightarrow> foldE g s xs = y"
proof (induction xs arbitrary: s)
  case (Cons x xs)
  show ?case
  proof (cases "f s x")
    case (Inl d)
    then have y: "y = Inl d" using Cons.prems(2) by simp
    then have "g s x = Inl d" using Cons.prems(1) [OF Inl] Cons.prems(3) by simp
    then show ?thesis by (simp add: y)
  next
    case (Inr t)
    then have "g s x = Inr t" using Cons.prems(1) [OF Inr] by simp
    then show ?thesis using Cons.IH [OF Cons.prems(1), of t] Cons.prems(2,3) Inr by simp
  qed
qed simp

lemma WalkRoute_more_fuel:
  "WalkRoute fuel ctx r s = y \<Longrightarrow> y \<noteq> Inl OutOfFuel \<Longrightarrow> WalkRoute (fuel + k) ctx r s = y"
proof (induction fuel arbitrary: r s y)
  case (Suc fuel)
  have edge: "walkEdge (WalkRoute (fuel + k) ctx) ctx r' c n t adj = z"
    if "walkEdge (WalkRoute fuel ctx) ctx r' c n t adj = z" "z \<noteq> Inl OutOfFuel" for r' c n t adj z
    using that Suc.IH by (auto simp: walkEdge_def Let_def split: sum.splits option.splits if_splits)
  show ?case
    using Suc.prems foldE_more [of "walkEdge (WalkRoute fuel ctx) ctx (Normalize r) _ _" "OutOfFuel"
        "walkEdge (WalkRoute (fuel + k) ctx) ctx (Normalize r) _ _", OF edge]
    by (auto simp: WalkRoute.simps Let_def split: option.splits if_splits)
qed (simp add: WalkRoute.simps)

end
