(* ===== verification/Engine.thy ===== *)
theory Engine
  imports Propagation
begin

text \<open>
  \<open>internal/engine/controlplane/engine.go\<close>: the routing tables and how they are filled, selected
  and converged. The nested map \<open>e.rib[node][vrf][prefix]\<close> is an association list over triples in
  order of insertion; a missing bucket reads as the empty slice. Where the order of a \<open>range\<close>
  over the map can be seen, the order is an argument. What does not change during a run, the index,
  the behaviours, the regular expressions and the failure budget, is the record \<open>engine\<close>.
\<close>

section \<open>Tables\<close>

type_synonym rib_key = "node_id \<times> network_instance \<times> prefix"
type_synonym rib = "(rib_key \<times> rib_entry list) list"

record engine =
  engBehaviors :: behavior_registry
  engRegexp :: regexp_match
  engIdx :: topology_index
  engMaxFailures :: int

definition bucket :: "rib \<Rightarrow> rib_key \<Rightarrow> rib_entry list" where
  "bucket rib k = (case map_of rib k of None \<Rightarrow> [] | Some rs \<Rightarrow> rs)"

definition engineNode :: "engine \<Rightarrow> string \<Rightarrow> node" where
  "engineNode e n = (case idxNodes (engIdx e) n of None \<Rightarrow> zeroNode | Some x \<Rightarrow> x)"

definition routeKey :: "rib_entry \<Rightarrow> string" where
  "routeKey raw =
     (let r = Normalize raw
      in crNetworkInstance (rbRouteSource r) @ ''|'' @ prefixString (rbPrefix r) @ ''|'' @ rbSourceKind r @ ''|''
         @ crOSPFRouteType (rbRouteSource r) @ ''|'' @ pvOriginNode (rbProvenance r) @ ''|'' @ nhNode (rbNextHop r) @ ''|''
         @ crInterface (rbRouteSource r) @ ''|'' @ join ''>'' (pvPathNodes (rbProvenance r)) @ ''|''
         @ (if atInvalid (rbAttrs r) then ''invalid'' else ''valid''))"

definition withInstance :: "network_instance \<Rightarrow> rib_entry \<Rightarrow> rib_entry" where
  "withInstance vrf r = r\<lparr>rbRouteSource := (rbRouteSource r)\<lparr>crNetworkInstance := vrf\<rparr>\<rparr>"

text \<open>Where \<open>addRIB\<close> puts an entry, and the entry it puts there.\<close>

definition ribKey :: "string \<Rightarrow> prefix \<Rightarrow> rib_entry \<Rightarrow> rib_key" where
  "ribKey n p r =
     (n, NormalizeNetworkInstance (crNetworkInstance (rbRouteSource (Normalize r))), if prefixIsZero p then rbPrefix r else p)"

definition storedEntry :: "rib_entry \<Rightarrow> rib_entry" where
  "storedEntry raw =
     (let r = Normalize raw in withInstance (NormalizeNetworkInstance (crNetworkInstance (rbRouteSource r))) r)"

definition addRIB :: "string \<Rightarrow> prefix \<Rightarrow> rib_entry \<Rightarrow> rib \<Rightarrow> rib" where
  "addRIB n p r rib =
     (let k = ribKey n p r; entry = storedEntry r; routes = bucket rib k
      in if list_ex (\<lambda>existing. routeKey existing = routeKey entry) routes then rib
         else AList.update k (routes @ [entry]) rib)"

definition normalizeConfiguredRoute :: "string \<Rightarrow> configured_route \<Rightarrow> configured_route" where
  "normalizeConfiguredRoute nname r =
     r\<lparr>crNode := nname,
       crNetworkInstance := (if crNetworkInstance r = [] then NetworkInstanceDefault else crNetworkInstance r),
       crAFI := (if crAFI r = [] then AFIIPv4 else crAFI r)\<rparr>"

section \<open>Local routes\<close>

definition bgpEnabled :: "node \<Rightarrow> bool" where
  "bgpEnabled n \<longleftrightarrow> nodeASN n \<noteq> 0 \<or> nodeNeighbors n \<noteq> [] \<or> nodeRedistribute n \<noteq> []"

definition connectedRoutes :: "engine \<Rightarrow> node \<Rightarrow> configured_route list" where
  "connectedRoutes e n =
     List.map_filter (\<lambda>i.
       case parsePrefix (ifAddress i) of
         None \<Rightarrow> None
       | Some pfx \<Rightarrow>
           (let p = PrefixFromNetIP (pfxMasked pfx)
            in Some (zeroConfiguredRoute\<lparr>crNode := nodeName n, crNetworkInstance := NormalizeNetworkInstance (ifVRF i),
                 crAFI := AFIIPv4, crPrefix := p, crInterface := ifName i, crKind := RouteSourceConnected,
                 crConnectedClass := ConnectedClass (engIdx e) (nodeName n) i p,
                 crAdminDistance := AdminDistanceConnected\<rparr>)))
       (nodeInterfaces n)"

definition interfaceVRF :: "node \<Rightarrow> string \<Rightarrow> network_instance" where
  "interfaceVRF n name =
     (case List.find (\<lambda>i. EquivalentInterfaceName (nodeKind n) (ifName i) name) (nodeInterfaces n) of
        Some i \<Rightarrow> NormalizeNetworkInstance (ifVRF i)
      | None \<Rightarrow> NetworkInstanceDefault)"

definition configuredRouteNextHop :: "engine \<Rightarrow> string \<Rightarrow> configured_route \<Rightarrow> next_hop" where
  "configuredRouteNextHop e n r =
     (if crNextHop r = [] then \<lparr>nhNode = [], nhAddr = []\<rparr>
      else (let wantVRF = NormalizeNetworkInstance (crNetworkInstance r);
                localNode = engineNode e n;
                resolves = (\<lambda>adj.
                  (case InterfaceToPeer (engIdx e) n (adjTo adj) of
                     None \<Rightarrow> False
                   | Some ref \<Rightarrow> interfaceVRF localNode (refConfigName ref) = wantVRF)
                  \<and> map_option addrStr (PeerAddress (engIdx e) n (adjTo adj)) = Some (crNextHop r))
            in case List.find resolves (idxAdj (engIdx e) n) of
                 Some adj \<Rightarrow> \<lparr>nhNode = adjTo adj, nhAddr = crNextHop r\<rparr>
               | None \<Rightarrow> \<lparr>nhNode = [], nhAddr = crNextHop r\<rparr>))"

definition originProvenance :: "string \<Rightarrow> provenance" where
  "originProvenance n = \<lparr>pvOriginNode = n, pvFromNode = [], pvPathNodes = [n], pvPathLinks = []\<rparr>"

definition configuredEntry :: "engine \<Rightarrow> node \<Rightarrow> configured_route \<Rightarrow> rib_entry" where
  "configuredEntry e n raw =
     (let r0 = normalizeConfiguredRoute (nodeName n) raw;
          r = (if crAdminDistance r0 = AdminDistanceConnected \<and> crKind r0 \<noteq> RouteSourceConnected
               then r0\<lparr>crAdminDistance := AdminDistanceStatic\<rparr> else r0);
          cond = NodeVar (nodeName n)
      in zeroRIBEntry\<lparr>rbPrefix := crPrefix r, rbAttrs := zeroAttrs\<lparr>atOriginCode := BGPOriginIncomplete\<rparr>,
           rbProvenance := originProvenance (nodeName n), rbNextHop := configuredRouteNextHop e (nodeName n) r,
           rbSourceKind := crKind r, rbRouteSource := r, rbBaseCond := Some cond, rbCondition := Some cond\<rparr>)"

definition installConfiguredRoute :: "engine \<Rightarrow> node \<Rightarrow> configured_route \<Rightarrow> rib \<Rightarrow> rib" where
  "installConfiguredRoute e n raw rib =
     (if prefixIsZero (crPrefix raw) then rib
      else addRIB (nodeName n) (crPrefix raw) (configuredEntry e n raw) rib)"

text \<open>The entry of a network statement, from \<open>prefixes:\<close> or from a route of kind BGP.\<close>

definition networkEntry :: "node \<Rightarrow> prefix \<Rightarrow> configured_route \<Rightarrow> rib_entry" where
  "networkEntry n p source =
     (let cond = NodeVar (nodeName n)
      in zeroRIBEntry\<lparr>rbPrefix := p,
           rbAttrs := zeroAttrs\<lparr>atOriginCode := BGPOriginIGP, atLocalPref := DefaultLocalPreference\<rparr>,
           rbProvenance := originProvenance (nodeName n), rbSourceKind := RouteSourceBGP, rbRouteSource := source,
           rbBaseCond := Some cond, rbCondition := Some cond\<rparr>)"

definition prefixSource :: "node \<Rightarrow> prefix \<Rightarrow> configured_route" where
  "prefixSource n p = zeroConfiguredRoute\<lparr>crNode := nodeName n, crNetworkInstance := NetworkInstanceDefault,
     crAFI := AFIIPv4, crPrefix := p, crKind := RouteSourceBGP, crAdminDistance := AdminDistanceBGP\<rparr>"

definition bgpRouteFromConfiguredRoute :: "node \<Rightarrow> configured_route \<Rightarrow> rib_entry" where
  "bgpRouteFromConfiguredRoute n r =
     (let cond = NodeVar (nodeName n)
      in Normalize (zeroRIBEntry\<lparr>rbPrefix := crPrefix r,
           rbAttrs := zeroAttrs\<lparr>atOriginCode := BGPOriginIncomplete, atLocalPref := DefaultLocalPreference\<rparr>,
           rbProvenance := originProvenance (nodeName n), rbSourceKind := RouteSourceBGP,
           rbRouteSource := zeroConfiguredRoute\<lparr>crNode := nodeName n,
             crNetworkInstance := NormalizeNetworkInstance (crNetworkInstance r), crAFI := AFIIPv4,
             crPrefix := crPrefix r, crKind := RouteSourceBGP, crSource := crSource r,
             crAdminDistance := AdminDistanceBGP\<rparr>,
           rbBaseCond := Some cond, rbCondition := Some cond\<rparr>))"

definition redistributionCandidates :: "engine \<Rightarrow> node \<Rightarrow> string \<Rightarrow> configured_route list" where
  "redistributionCandidates e n kind =
     (if kind = RouteSourceConnected then connectedRoutes e n else [])
     @ (if kind = RouteSourceStatic
        then filter (\<lambda>r. crKind r = RouteSourceStatic \<or> crKind r = RouteSourceBlackhole) (nodeRoutes n) else [])"

text \<open>One pass of the inner loop: the entry that is added and propagated, if any.\<close>

definition redistributedEntry :: "engine \<Rightarrow> node \<Rightarrow> bgp_redistribution \<Rightarrow> configured_route \<Rightarrow> rib_entry option" where
  "redistributedEntry e n redist r =
     (if NormalizeNetworkInstance (crNetworkInstance r) \<noteq> NormalizeNetworkInstance (rdNetworkInstance redist) then None
      else (let entry = bgpRouteFromConfiguredRoute n r
            in if rdRouteMap redist = [] then Some entry
               else (let d = ApplyRoutePolicy (engRegexp e) (routePolicyResolver (engIdx e)) n [] (rdRouteMap redist) entry
                     in if rdAccept d then Some (rdRoute d) else None)))"

definition redistributedRoutes :: "engine \<Rightarrow> node \<Rightarrow> rib \<Rightarrow> rib_entry list \<times> rib" where
  "redistributedRoutes e n rib =
     (let out = concat (map (\<lambda>redist. List.map_filter (redistributedEntry e n redist)
                              (redistributionCandidates e n (rdKind redist))) (nodeRedistribute n))
      in (out, fold (\<lambda>entry. addRIB (nodeName n) (rbPrefix entry) entry) out rib))"

section \<open>Aggregates\<close>

definition isMoreSpecificWithin :: "prefix \<Rightarrow> prefix \<Rightarrow> bool" where
  "isMoreSpecificWithin candidate aggregate =
     (if prefixIsZero candidate \<or> prefixIsZero aggregate then False
      else pfxBits aggregate < pfxBits candidate \<and> pfxContains aggregate (pfxAddr candidate))"

text \<open>
  The conditions and the contributed of the contributors. The buckets are read in the order of the
  table; \<open>failure.And\<close> sorts its arguments, and so are the prefixes.
\<close>

definition contributorCond :: "rib_entry \<Rightarrow> cond option" where
  "contributorCond raw =
     (let r = Normalize raw
      in if rbSourceKind r = RouteSourceAggregate then None
         else case rbSelectedCond r of None \<Rightarrow> rbCondition r | Some c \<Rightarrow> Some c)"

definition contributors :: "rib \<Rightarrow> string \<Rightarrow> network_instance \<Rightarrow> prefix \<Rightarrow> (string \<times> cond) list" where
  "contributors rib n vrf aggregate =
     concat (map (\<lambda>(k, routes).
         if fst k = n \<and> fst (snd k) = NormalizeNetworkInstance vrf \<and> isMoreSpecificWithin (snd (snd k)) aggregate
         then map (\<lambda>c. (prefixString (snd (snd k)), c)) (List.map_filter contributorCond routes) else []) rib)"

definition aggregateContributorCondVRF ::
    "rib \<Rightarrow> string \<Rightarrow> network_instance \<Rightarrow> prefix \<Rightarrow> (cond \<times> string list) option" where
  "aggregateContributorCondVRF rib n vrf aggregate =
     (let cs = contributors rib n vrf aggregate
      in if cs = [] then None else Some (And (map snd cs), sort (remdups (map fst cs))))"

definition aggregateContributorCond :: "rib \<Rightarrow> string \<Rightarrow> prefix \<Rightarrow> (cond \<times> string list) option" where
  "aggregateContributorCond rib n aggregate = aggregateContributorCondVRF rib n NetworkInstanceDefault aggregate"

definition excludeAggregate :: "cond \<Rightarrow> rib_entry \<Rightarrow> walk_error + rib_entry" where
  "excludeAggregate notAgg r =
     (if rbSourceKind (Normalize r) = RouteSourceAggregate then Inr r
      else case AndNil [rbBaseCond r, Some notAgg] of
             Inl err \<Rightarrow> Inl err
           | Inr base \<Rightarrow> (case AndNil [rbCondition r, Some notAgg] of
                            Inl err \<Rightarrow> Inl err
                          | Inr c \<Rightarrow> Inr (r\<lparr>rbBaseCond := Some base, rbCondition := Some c\<rparr>)))"

definition excludeInBucket :: "string \<Rightarrow> network_instance \<Rightarrow> cond \<Rightarrow> rib \<Rightarrow> string \<Rightarrow> walk_error + rib" where
  "excludeInBucket n vrf notAgg rib raw =
     (case ParsePrefix raw of
        None \<Rightarrow> Inl (BadPrefixString raw)
      | Some pfx \<Rightarrow>
          (case map_of rib (n, vrf, pfx) of
             None \<Rightarrow> Inr rib
           | Some routes \<Rightarrow>
               (case mapE (excludeAggregate notAgg) routes of
                  Inl err \<Rightarrow> Inl err
                | Inr routes' \<Rightarrow> Inr (AList.update (n, vrf, pfx) routes' rib))))"

definition aggregateEntry :: "node \<Rightarrow> configured_route \<Rightarrow> cond \<Rightarrow> string list \<Rightarrow> rib_entry" where
  "aggregateEntry n r cond contributed =
     Normalize (zeroRIBEntry\<lparr>rbPrefix := crPrefix r,
       rbAttrs := zeroAttrs\<lparr>atOriginCode := BGPOriginIGP, atLocalPref := DefaultLocalPreference\<rparr>,
       rbProvenance := originProvenance (nodeName n), rbSourceKind := RouteSourceAggregate, rbRouteSource := r,
       rbAggregateContributors := contributed, rbBaseCond := Some cond, rbCondition := Some cond\<rparr>)"

definition aggregateStep :: "node \<Rightarrow> rib_entry list \<times> rib \<Rightarrow> configured_route \<Rightarrow> walk_error + rib_entry list \<times> rib" where
  "aggregateStep n st raw =
     (if crKind raw \<noteq> RouteSourceAggregate \<or> prefixIsZero (crPrefix raw) then Inr st
      else (let r0 = normalizeConfiguredRoute (nodeName n) raw;
                r = (if crAdminDistance r0 = AdminDistanceConnected then r0\<lparr>crAdminDistance := AdminDistanceAggregate\<rparr> else r0)
            in case aggregateContributorCondVRF (snd st) (nodeName n) (crNetworkInstance r) (crPrefix r) of
                 None \<Rightarrow> Inr st
               | Some (cond, contributed) \<Rightarrow>
                   (case foldE (excludeInBucket (nodeName n) (NormalizeNetworkInstance (crNetworkInstance r)) (Not cond))
                           (snd st) contributed of
                      Inl err \<Rightarrow> Inl err
                    | Inr rib' \<Rightarrow> Inr (fst st @ [aggregateEntry n r cond contributed], rib'))))"

definition aggregateRoutes :: "node \<Rightarrow> rib \<Rightarrow> walk_error + rib_entry list \<times> rib" where
  "aggregateRoutes n rib = foldE (aggregateStep n) ([], rib) (nodeRoutes n)"

definition suppressStep :: "node \<Rightarrow> rib \<Rightarrow> rib_entry \<Rightarrow> configured_route \<Rightarrow> walk_error + rib_entry" where
  "suppressStep n rib r aggregate =
     (if crKind aggregate \<noteq> RouteSourceAggregate \<or> \<not> crSummaryOnly aggregate then Inr r
      else if \<not> isMoreSpecificWithin (rbPrefix r) (crPrefix aggregate) then Inr r
      else case aggregateContributorCond rib (nodeName n) (crPrefix aggregate) of
             None \<Rightarrow> Inr r
           | Some (cond, _) \<Rightarrow>
               (case AndNil [rbBaseCond r, Some (Not cond)] of
                  Inl err \<Rightarrow> Inl err
                | Inr base \<Rightarrow> (case AndNil [rbCondition r, Some (Not cond)] of
                                 Inl err \<Rightarrow> Inl err
                               | Inr c \<Rightarrow> Inr (r\<lparr>rbBaseCond := Some base, rbCondition := Some c\<rparr>))))"

definition applyAggregateSuppression :: "node \<Rightarrow> rib_entry \<Rightarrow> rib \<Rightarrow> walk_error + rib_entry" where
  "applyAggregateSuppression n r rib =
     (case foldE (suppressStep n rib) (Normalize r) (nodeRoutes n) of
        Inl err \<Rightarrow> Inl err
      | Inr r' \<Rightarrow> Inr (Normalize r'))"

section \<open>Sessions and the propagation context\<close>

definition bgpSession :: "engine \<Rightarrow> string \<Rightarrow> string \<Rightarrow> network_instance \<Rightarrow> bgp_neighbor option" where
  "bgpSession e a b raw =
     (case idxNodes (engIdx e) a of
        None \<Rightarrow> None
      | Some an \<Rightarrow>
          (let vrf = NormalizeNetworkInstance raw
           in List.find (\<lambda>peer. NormalizeNetworkInstance (nbNetworkInstance peer) = vrf
                \<and> nbPeerNode peer = b \<and> (nbActivated peer \<or> nbRemoteAS peer \<noteq> 0)) (nodeNeighbors an)))"

definition controlMessage :: "string \<Rightarrow> string \<Rightarrow> rib_entry \<Rightarrow> control_message" where
  "controlMessage sender receiver r =
     \<lparr>cmFrom = sender, cmTo = receiver, cmPrefix = prefixString (rbPrefix r), cmRoute = r\<rparr>"

definition pruneFunc :: "engine \<Rightarrow> (cond \<Rightarrow> bool) option" where
  "pruneFunc e =
     (if engMaxFailures e < 0 then None else Some (\<lambda>c. CheckPrune c (engMaxFailures e) \<noteq> PruneNone))"

definition bgpPropagationContext :: "engine \<Rightarrow> rib propagation_context" where
  "bgpPropagationContext e =
     \<lparr>pcAdjacencies = idxAdj (engIdx e),
      pcNode = idxNodes (engIdx e),
      pcBGPSession = bgpSession e,
      pcExportRoute = (\<lambda>sender receiver session r.
        behaviorExportRoute (BehaviorFor (engBehaviors e) (nodeKind sender)) sender receiver session r),
      pcImportRoute = (\<lambda>receiver sender session r.
        behaviorImportRoute (BehaviorFor (engBehaviors e) (nodeKind receiver)) receiver sender session r),
      pcApplyRoutePolicy = ApplyRoutePolicy (engRegexp e) (routePolicyResolver (engIdx e)),
      pcAddRIB = addRIB,
      pcControlEgress = (\<lambda>sender receiver r.
        CheckControlEgress (BehaviorFor (engBehaviors e) (nodeKind (engineNode e sender))) (engineNode e sender)
          (controlMessage sender receiver r)),
      pcControlIngress = (\<lambda>sender receiver r.
        CheckControlIngress (BehaviorFor (engBehaviors e) (nodeKind (engineNode e receiver))) (engineNode e receiver)
          (controlMessage sender receiver r)),
      pcEligibleForAdvertisement = (\<lambda>n r. RouteEligibleForAdvertisement (BehaviorFor (engBehaviors e) (nodeKind n)) n r),
      pcAggregateSuppression = Some applyAggregateSuppression,
      pcPrune = pruneFunc e\<rparr>"

definition walkBGP :: "nat \<Rightarrow> engine \<Rightarrow> rib_entry \<Rightarrow> rib \<Rightarrow> walk_error + rib" where
  "walkBGP fuel e r rib = WalkRoute fuel (bgpPropagationContext e) r rib"

section \<open>Selection\<close>

definition routeSelectionFamily :: "rib_entry \<Rightarrow> string" where
  "routeSelectionFamily raw =
     (let r = Normalize raw
      in if rbSourceKind r = RouteSourceBGP \<or> rbSourceKind r = RouteSourceAggregate then RouteSourceBGP
         else if rbSourceKind r = RouteSourceOSPF then RouteSourceOSPF else [])"

text \<open>\<open>failure.Or\<close> stops at the first true argument; a \<open>nil\<close> it meets before panics.\<close>

definition OrNil :: "cond option list \<Rightarrow> walk_error + cond" where
  "OrNil cs =
     (let known = map the (takeWhile (\<lambda>c. c \<noteq> None) cs)
      in if length known = length cs \<or> orParts (map normalizeCond known) = None then Inr (Or known)
         else Inl NilCondition)"

text \<open>The higher routes that count against a route: valid, of its family and not equivalent to it.\<close>

definition outranks :: "device_behavior \<Rightarrow> node \<Rightarrow> rib_entry \<Rightarrow> rib_entry \<Rightarrow> bool" where
  "outranks b n higher r \<longleftrightarrow>
     RouteValidForRIB b n higher \<and> routeSelectionFamily higher = routeSelectionFamily r
     \<and> \<not> Equivalent (DecisionProcess b) n higher r"

definition selectedCond :: "device_behavior \<Rightarrow> node \<Rightarrow> rib_entry list \<Rightarrow> rib_entry \<Rightarrow> walk_error + cond option" where
  "selectedCond b n higher r =
     (if \<not> RouteValidForRIB b n r then Inr (Some FalseC)
      else (let higherDistinct = map rbCondition (filter (\<lambda>h. outranks b n h r) higher)
            in if higherDistinct = [] then Inr (rbCondition r)
               else case OrNil higherDistinct of
                      Inl err \<Rightarrow> Inl err
                    | Inr c \<Rightarrow> (case AndNil [rbCondition r, Some (Not c)] of
                                  Inl err \<Rightarrow> Inl err
                                | Inr d \<Rightarrow> Inr (Some d))))"

fun selectLoop :: "device_behavior \<Rightarrow> node \<Rightarrow> rib_entry list \<Rightarrow> rib_entry list \<Rightarrow> walk_error + rib_entry list" where
  "selectLoop b n higher [] = Inr []"
| "selectLoop b n higher (r # rs) =
     (case selectedCond b n higher r of
        Inl err \<Rightarrow> Inl err
      | Inr c \<Rightarrow> (case selectLoop b n (higher @ [r]) rs of
                    Inl err \<Rightarrow> Inl err
                  | Inr out \<Rightarrow> Inr (r\<lparr>rbSelectedCond := c\<rparr> # out)))"

definition selectBucket :: "engine \<Rightarrow> rib_key \<Rightarrow> rib_entry list \<Rightarrow> walk_error + rib_entry list" where
  "selectBucket e k routes =
     (let n = engineNode e (fst k); b = BehaviorFor (engBehaviors e) (nodeKind n)
      in selectLoop b n [] (behaviorSelectRoutes b n routes))"

text \<open>Each bucket is read and written on its own, so the order of the buckets does not matter.\<close>

definition engineSelectRoutes :: "engine \<Rightarrow> rib \<Rightarrow> walk_error + rib" where
  "engineSelectRoutes e rib =
     mapE (\<lambda>(k, routes). case selectBucket e k routes of Inl err \<Rightarrow> Inl err | Inr out \<Rightarrow> Inr (k, out)) rib"

section \<open>Advertisement conditions\<close>

definition ParentRoute :: "rib \<Rightarrow> rib_entry \<Rightarrow> rib_entry option" where
  "ParentRoute rib raw =
     (let r = Normalize raw; nodes = pvPathNodes (rbProvenance r)
      in if pvFromNode (rbProvenance r) = [] \<or> length nodes < 2 then None
         else map_option Normalize
                (List.find (\<lambda>candidate. rbSourceKind (Normalize candidate) = rbSourceKind r
                   \<and> join ''>'' (pvPathNodes (rbProvenance (Normalize candidate))) = join ''>'' (butlast nodes))
                 (bucket rib (pvFromNode (rbProvenance r), crNetworkInstance (rbRouteSource r), rbPrefix r))))"

definition parentSelected :: "rib_entry \<Rightarrow> cond option" where
  "parentSelected parent =
     (let c = (if length (pvPathNodes (rbProvenance (Normalize parent))) = 1
                  \<and> (rbSourceKind parent = RouteSourceBGP \<or> rbSourceKind parent = RouteSourceAggregate)
               then rbCondition parent else rbSelectedCond parent)
      in case c of None \<Rightarrow> rbCondition parent | Some _ \<Rightarrow> c)"

definition baseCondition :: "rib_entry \<Rightarrow> cond option" where
  "baseCondition r = (case rbBaseCond r of None \<Rightarrow> rbCondition r | Some c \<Rightarrow> Some c)"

definition advertisedCond :: "rib \<Rightarrow> rib_entry \<Rightarrow> walk_error + cond option" where
  "advertisedCond rib r =
     (if rbSourceKind (Normalize r) = RouteSourceOSPF \<or> length (pvPathNodes (rbProvenance r)) \<le> 1 then Inr (baseCondition r)
      else case ParentRoute rib r of
             None \<Rightarrow> Inr (Some FalseC)
           | Some parent \<Rightarrow> (case AndNil [baseCondition r, parentSelected parent] of
                              Inl err \<Rightarrow> Inl err
                            | Inr c \<Rightarrow> Inr (Some c)))"

text \<open>\<open>routes[i].Condition == nil || routes[i].Condition.Key() != nextCond.Key()\<close>\<close>

definition condChanged :: "cond option \<Rightarrow> cond option \<Rightarrow> walk_error + bool" where
  "condChanged old new =
     (case old of
        None \<Rightarrow> Inr True
      | Some c \<Rightarrow> (case new of None \<Rightarrow> Inl NilCondition | Some d \<Rightarrow> Inr (condKey c \<noteq> condKey d)))"

definition setCondition :: "rib_key \<Rightarrow> nat \<Rightarrow> cond option \<Rightarrow> rib \<Rightarrow> rib" where
  "setCondition k i c rib =
     (let routes = bucket rib k in AList.update k (routes[i := (routes ! i)\<lparr>rbCondition := c\<rparr>]) rib)"

definition advertiseEntry :: "rib_key \<Rightarrow> rib \<times> bool \<Rightarrow> nat \<Rightarrow> walk_error + rib \<times> bool" where
  "advertiseEntry k st i =
     (let rib = fst st; r = bucket rib k ! i
      in case advertisedCond rib r of
           Inl err \<Rightarrow> Inl err
         | Inr new \<Rightarrow>
             if rbSourceKind (Normalize r) = RouteSourceOSPF then Inr (setCondition k i new rib, snd st)
             else (case condChanged (rbCondition r) new of
                     Inl err \<Rightarrow> Inl err
                   | Inr True \<Rightarrow> Inr (setCondition k i new rib, True)
                   | Inr False \<Rightarrow> Inr st))"

definition advertiseBucket :: "rib \<times> bool \<Rightarrow> rib_key \<Rightarrow> walk_error + rib \<times> bool" where
  "advertiseBucket st k = foldE (advertiseEntry k) st [0..<length (bucket (fst st) k)]"

text \<open>
  \<open>keys\<close> is the order of the \<open>range\<close> over the map. Entries are rewritten in place, so a parent
  met later in the pass is seen as it was before.
\<close>

definition ApplyAdvertisementConditions :: "rib_key list \<Rightarrow> rib \<Rightarrow> walk_error + rib \<times> bool" where
  "ApplyAdvertisementConditions keys rib = foldE advertiseBucket (rib, False) keys"

definition MaxRouteDepth :: "rib \<Rightarrow> nat" where
  "MaxRouteDepth rib =
     fold (\<lambda>(k, routes) d. fold (\<lambda>r d. max (length (pvPathNodes (rbProvenance r))) d) routes d) rib 0"

text \<open>The error leaves the tables as the last iteration made them.\<close>

datatype converge_error = NotConverged nat rib | WalkError walk_error

text \<open>\<open>orders i\<close> is the order of the map in iteration \<open>i\<close>.\<close>

fun convergeLoop ::
    "engine \<Rightarrow> (nat \<Rightarrow> rib_key list \<Rightarrow> rib_key list) \<Rightarrow> nat \<Rightarrow> nat \<Rightarrow> rib \<Rightarrow> converge_error + rib" where
  "convergeLoop e orders maxIterations 0 rib = Inl (NotConverged maxIterations rib)"
| "convergeLoop e orders maxIterations (Suc i) rib =
     (case ApplyAdvertisementConditions (orders i (map fst rib)) rib of
        Inl err \<Rightarrow> Inl (WalkError err)
      | Inr (rib', changed) \<Rightarrow>
          if \<not> changed then Inr rib'
          else (case engineSelectRoutes e rib' of
                  Inl err \<Rightarrow> Inl (WalkError err)
                | Inr rib'' \<Rightarrow> convergeLoop e orders maxIterations i rib''))"

definition ConvergeAdvertisementConditions ::
    "engine \<Rightarrow> (nat \<Rightarrow> rib_key list \<Rightarrow> rib_key list) \<Rightarrow> rib \<Rightarrow> converge_error + rib" where
  "ConvergeAdvertisementConditions e orders rib =
     (let maxIterations = max 1 (MaxRouteDepth rib + 1) in convergeLoop e orders maxIterations maxIterations rib)"

definition selectAndConverge ::
    "engine \<Rightarrow> (nat \<Rightarrow> rib_key list \<Rightarrow> rib_key list) \<Rightarrow> rib \<Rightarrow> converge_error + rib" where
  "selectAndConverge e orders rib =
     (case engineSelectRoutes e rib of
        Inl err \<Rightarrow> Inl (WalkError err)
      | Inr rib' \<Rightarrow> ConvergeAdvertisementConditions e orders rib')"

end
