(* ===== verification/Engine_Laws.thy ===== *)
theory Engine_Laws
  imports Engine
begin

text \<open>
  What the routing tables satisfy: route keys stay unique, BGP propagation returns and installs only
  grounded routes, and selection gives each route exactly the failures under which it is best.
\<close>

section \<open>Tables\<close>

definition ribHolds :: "rib \<Rightarrow> string \<Rightarrow> rib_entry \<Rightarrow> bool" where
  "ribHolds rib n r \<longleftrightarrow> (\<exists>(k, routes) \<in> set rib. fst k = n \<and> r \<in> set routes)"

definition ribOK :: "rib \<Rightarrow> bool" where
  "ribOK rib \<longleftrightarrow> distinct (map fst rib) \<and> list_all (\<lambda>(k, routes). distinct (map routeKey routes)) rib"

lemma set_update_subset: "set (AList.update k v xs) \<subseteq> insert (k, v) (set xs)"
  by (induction xs) auto

lemma bucket_update: "bucket (AList.update k rs rib) k' = (if k' = k then rs else bucket rib k')"
  by (simp add: bucket_def update_conv)

lemma bucket_holds: "r \<in> set (bucket rib k) \<Longrightarrow> ribHolds rib (fst k) r"
proof (cases "map_of rib k")
  case (Some routes)
  assume "r \<in> set (bucket rib k)"
  then show ?thesis using Some unfolding ribHolds_def by (intro bexI [OF _ map_of_SomeD [OF Some]]) (simp add: bucket_def)
qed (simp add: bucket_def)

lemma storedEntry_shape: "sameEntry r (storedEntry r)"
  by (simp add: storedEntry_def withInstance_def sameEntry_def sameShape_def Let_def)

lemma ribHolds_addRIB: "ribHolds (addRIB n p r rib) m r' \<Longrightarrow> ribHolds rib m r' \<or> m = n \<and> sameEntry r r'"
proof -
  assume holds: "ribHolds (addRIB n p r rib) m r'"
  show ?thesis
  proof (cases "addRIB n p r rib = rib")
    case False
    then have "addRIB n p r rib = AList.update (ribKey n p r) (bucket rib (ribKey n p r) @ [storedEntry r]) rib"
      by (simp add: addRIB_def Let_def split: if_splits)
    then obtain k routes where u: "(k, routes) \<in> set (AList.update (ribKey n p r) (bucket rib (ribKey n p r) @ [storedEntry r]) rib)"
        and kr: "fst k = m" "r' \<in> set routes"
      using holds unfolding ribHolds_def by auto
    have "(k, routes) \<in> insert (ribKey n p r, bucket rib (ribKey n p r) @ [storedEntry r]) (set rib)"
      by (rule subsetD [OF set_update_subset u])
    note kr = this kr
    have "fst (ribKey n p r) = n" by (simp add: ribKey_def)
    then show ?thesis using kr storedEntry_shape bucket_holds [of r' rib "ribKey n p r"]
      by (auto simp: ribHolds_def)
  qed (use holds in simp)
qed

lemma ribOK_bucket: "ribOK rib \<Longrightarrow> distinct (map routeKey (bucket rib k))"
  by (auto simp: ribOK_def bucket_def list_all_iff split: option.split dest: map_of_SomeD)

lemma ribOK_addRIB: "ribOK rib \<Longrightarrow> ribOK (addRIB n p r rib)"
proof -
  assume ok: "ribOK rib"
  let ?k = "ribKey n p r"
  show ?thesis
  proof (cases "list_ex (\<lambda>x. routeKey x = routeKey (storedEntry r)) (bucket rib ?k)")
    case False
    then have new: "distinct (map routeKey (bucket rib ?k @ [storedEntry r]))"
      using ribOK_bucket [OF ok] by (auto simp: list_ex_iff)
    have "distinct (map fst (AList.update ?k (bucket rib ?k @ [storedEntry r]) rib))"
      using ok by (simp add: ribOK_def distinct_update)
    moreover have "list_all (\<lambda>(k, routes). distinct (map routeKey routes)) (AList.update ?k (bucket rib ?k @ [storedEntry r]) rib)"
      unfolding list_all_iff
    proof
      fix x assume "x \<in> set (AList.update ?k (bucket rib ?k @ [storedEntry r]) rib)"
      then have "x \<in> insert (?k, bucket rib ?k @ [storedEntry r]) (set rib)" by (rule subsetD [OF set_update_subset])
      then show "case x of (k, routes) \<Rightarrow> distinct (map routeKey routes)"
        using ok new by (auto simp: ribOK_def list_all_iff)
    qed
    moreover have "addRIB n p r rib = AList.update ?k (bucket rib ?k @ [storedEntry r]) rib"
      using False by (simp add: addRIB_def Let_def)
    ultimately show ?thesis by (simp add: ribOK_def)
  qed (use ok in \<open>simp add: addRIB_def Let_def\<close>)
qed

section \<open>Suppression by an aggregate\<close>

lemma AndNil_two [simp]: "AndNil [Some a, Some b] = Inr (And [a, b])"
  using AndNil_Some [of "[a, b]"] by simp

definition plainRib :: "rib \<Rightarrow> bool" where
  "plainRib rib \<longleftrightarrow> (\<forall>n e. ribHolds rib n e \<longrightarrow> plainEntry e)"

lemma contributors_plain:
  assumes "plainRib rib"
  shows "list_all plainCond (map snd (contributors rib n vrf aggregate))"
proof -
  have "plainCond c" if "(k, routes) \<in> set rib" "r \<in> set routes" "contributorCond r = Some c" for k routes r c
  proof -
    have "ribHolds rib (fst k) r" using that(1,2) by (auto simp: ribHolds_def)
    then have "plainEntry r" using assms by (simp add: plainRib_def)
    then show ?thesis using that(3)
      by (auto simp: plainEntry_def contributorCond_def Let_def split: if_splits option.splits)
  qed
  then show ?thesis
    by (auto simp: list_all_iff contributors_def set_map_filter split: if_splits)
qed

lemma aggregateContributorCond_plain:
  assumes "plainRib rib" "aggregateContributorCondVRF rib n vrf p = Some (c, contributed)"
  shows "plainCond c"
  using assms(2) plain_And [OF contributors_plain [OF assms(1)]]
  by (auto simp: aggregateContributorCondVRF_def Let_def split: if_splits)

lemma strengthens_conjunct:
  assumes "plainCond d" "rbBaseCond r = Some base" "rbCondition r = Some c"
  shows "strengthens r (r\<lparr>rbBaseCond := Some (And [base, d]), rbCondition := Some (And [c, d])\<rparr>)"
  using assms plain_And [of "[base, d]"] plain_And [of "[c, d]"] And_eval [of "[c, d]"] And_eval [of "[base, d]"]
  by (auto simp: strengthens_def plainEntry_def)

lemma strengthens_trans: "strengthens r a \<Longrightarrow> strengthens a b \<Longrightarrow> strengthens r b"
  unfolding strengthens_def by metis

lemma suppressStep_returns:
  "rbBaseCond r = Some base \<Longrightarrow> rbCondition r = Some c \<Longrightarrow>
     \<exists>r' base' c'. suppressStep n rib r a = Inr r' \<and> rbBaseCond r' = Some base' \<and> rbCondition r' = Some c'"
  by (auto simp: suppressStep_def split: option.split)

lemma suppressStep_strengthens:
  assumes "plainRib rib" "suppressStep n rib r a = Inr r'"
    and full: "rbBaseCond r = Some base" "rbCondition r = Some c"
  shows "strengthens r r'"
proof (cases "aggregateContributorCond rib (nodeName n) (crPrefix a)")
  case (Some d)
  obtain d' contributed where d: "d = (d', contributed)" by force
  then have "plainCond d'"
    using aggregateContributorCond_plain [OF assms(1)] Some unfolding aggregateContributorCond_def by blast
  then show ?thesis
    using assms(2) strengthens_conjunct [OF plain_Not full, of d'] Some d full
    by (auto simp: suppressStep_def split: if_splits)
qed (use assms(2) in \<open>auto simp: suppressStep_def split: if_splits\<close>)

lemma applyAggregateSuppression_loop:
  assumes "rbBaseCond r \<noteq> None" "rbCondition r \<noteq> None"
  shows "\<exists>r'. foldE (suppressStep n rib) r as = Inr r'
    \<and> (plainRib rib \<longrightarrow> strengthens r r')"
  using assms
proof (induction as arbitrary: r)
  case (Cons a as)
  then obtain base c where full: "rbBaseCond r = Some base" "rbCondition r = Some c" by blast
  from suppressStep_returns [OF this] obtain r1 base' c' where
    r1: "suppressStep n rib r a = Inr r1" "rbBaseCond r1 = Some base'" "rbCondition r1 = Some c'" by blast
  from Cons.IH [of r1] r1(2,3) obtain r' where r': "foldE (suppressStep n rib) r1 as = Inr r'"
      "plainRib rib \<longrightarrow> strengthens r1 r'" by auto
  show ?case using r1(1) r' suppressStep_strengthens [OF _ r1(1) full] strengthens_trans by auto
qed simp

lemma suppression_of:
  assumes "rbBaseCond r \<noteq> None" "rbCondition r \<noteq> None"
  obtains a where "applyAggregateSuppression n r rib = Inr (Normalize a)" "plainRib rib \<longrightarrow> strengthens (Normalize r) a"
proof -
  have "rbBaseCond (Normalize r) \<noteq> None" "rbCondition (Normalize r) \<noteq> None" using assms by simp_all
  from applyAggregateSuppression_loop [OF this, of n rib "nodeRoutes n"] obtain a where
    "foldE (suppressStep n rib) (Normalize r) (nodeRoutes n) = Inr a" "plainRib rib \<longrightarrow> strengthens (Normalize r) a"
    by blast
  then show ?thesis using that by (simp add: applyAggregateSuppression_def)
qed

lemma strengthens_Normalize: "strengthens r a \<Longrightarrow> strengthens r (Normalize a)"
  using strengthens_sameShape [of r a "Normalize a"] by (simp add: sameShape_def)

lemma strengthens_of_Normalize: "strengthens (Normalize r) a \<Longrightarrow> strengthens r a"
  by (simp add: strengthens_def)

section \<open>Propagation on the engine's tables\<close>

interpretation bgp: propagation "bgpPropagationContext e" ribHolds for e
proof
  fix r a b session device peer name f r' s n p m
  show "sameShape r (rdRoute (pcExportRoute (bgpPropagationContext e) a b session r))"
    by (simp add: bgpPropagationContext_def sameRoute_sameShape sameRoute_behaviorExportRoute)
  show "sameShape r (rdRoute (pcImportRoute (bgpPropagationContext e) a b session r))"
    by (simp add: bgpPropagationContext_def sameRoute_sameShape sameRoute_behaviorImportRoute)
  show "sameShape r (rdRoute (pcApplyRoutePolicy (bgpPropagationContext e) device peer name r))"
    using ApplyRoutePolicy_sameOrigin
    by (auto simp: bgpPropagationContext_def sameOrigin_def intro: sameRoute_sameShape)
  show "ribHolds s m r' \<or> m = n \<and> sameEntry r r'"
    if "ribHolds (pcAddRIB (bgpPropagationContext e) n p r s) m r'"
    using ribHolds_addRIB that by (simp add: bgpPropagationContext_def)
  show "\<not> atInvalid (rbAttrs r)" if "pcEligibleForAdvertisement (bgpPropagationContext e) device r"
    using that by (simp add: bgpPropagationContext_def RouteEligibleForAdvertisement_def baseRouteValidForRIB_def)
  assume f: "pcAggregateSuppression (bgpPropagationContext e) = Some f"
  then have fdef: "f = applyAggregateSuppression" by (simp add: bgpPropagationContext_def)
  show "\<exists>r'. f device r s = Inr r'" if "rbBaseCond r \<noteq> None" "rbCondition r \<noteq> None"
    using suppression_of [OF that, of device s] by (simp add: fdef) blast
  show "strengthens r r'" if plain: "\<And>n e. ribHolds s n e \<Longrightarrow> plainEntry e" and r': "f device r s = Inr r'"
      and full: "rbBaseCond r \<noteq> None" "rbCondition r \<noteq> None"
  proof (rule suppression_of [OF full, of device s])
    fix a assume "applyAggregateSuppression device r s = Inr (Normalize a)" "plainRib s \<longrightarrow> strengthens (Normalize r) a"
    then show "strengthens r r'" using plain r' strengthens_Normalize [OF strengthens_of_Normalize]
      by (auto simp: fdef plainRib_def)
  qed
qed

interpretation bgp_walk: walk_tables "bgpPropagationContext e" ribHolds
    "grounded (idxAdj (engIdx e))" "\<lambda>_. True" for e
  by unfold_locales (simp_all add: grounded_def bgpPropagationContext_def)

section \<open>Properties of propagation\<close>

text \<open>
  C5 (BGP propagation). Started from a grounded route that is not part of a racing analysis, over
  tables whose routes are grounded, \<open>walkBGP\<close> returns, whatever policies and vendors the topology
  has, with a depth no greater than the number of nodes; and afterwards every route any node holds
  comes over a path of adjacent nodes and is conditioned on all nodes and links of that path.
\<close>

theorem walkBGP_returns_grounded:
  assumes "plainNet (idxAdj (engIdx e))" "finite (dom (idxNodes (engIdx e)))"
    and "\<forall>n r. ribHolds rib n r \<longrightarrow> grounded (idxAdj (engIdx e)) n r"
    and "grounded (idxAdj (engIdx e)) n r" "\<not> rbRacing r"
    and "distinct (pvPathNodes (rbProvenance r))" "set (pvPathNodes (rbProvenance r)) \<subseteq> dom (idxNodes (engIdx e))"
    and "card (dom (idxNodes (engIdx e))) < fuel + length (pvPathNodes (rbProvenance r))"
  shows "\<exists>rib'. walkBGP fuel e r rib = Inr rib'
    \<and> (\<forall>n r. ribHolds rib' n r \<longrightarrow> grounded (idxAdj (engIdx e)) n r)"
proof -
  have adj: "pcAdjacencies (bgpPropagationContext e) = idxAdj (engIdx e)"
    by (simp add: bgpPropagationContext_def)
  have node: "n \<in> dom (idxNodes (engIdx e))" if "pcNode (bgpPropagationContext e) n = Some x" for n x
    using that by (auto simp: bgpPropagationContext_def)
  have tables: "bgp_walk.tables e rib"
    using assms(3) by (simp add: bgp_walk.tables_def)
  have "\<exists>rib'. WalkRoute fuel (bgpPropagationContext e) r rib = Inr rib' \<and> bgp_walk.tables e rib'"
    by (rule bgp_walk.WalkRoute_returns [of e, unfolded adj, OF assms(1,2) _ tables assms(4) TrueI assms(5-8)])
       (auto simp: bgpPropagationContext_def)
  then obtain rib' where
    "WalkRoute fuel (bgpPropagationContext e) r rib = Inr rib'" "bgp_walk.tables e rib'" by blast
  then show ?thesis by (auto simp: walkBGP_def bgp_walk.tables_def)
qed

text \<open>Two autonomous systems on one link, with vendors \<open>ka\<close> and \<open>kb\<close>.\<close>

definition exampleNeighbor :: "string \<Rightarrow> bgp_neighbor" where
  "exampleNeighbor peer = zeroNeighbor\<lparr>nbPeerNode := peer, nbActivated := True\<rparr>"

definition exampleNode :: "string \<Rightarrow> device_kind \<Rightarrow> asn \<Rightarrow> string \<Rightarrow> node" where
  "exampleNode name kind asn peer =
     zeroNode\<lparr>nodeName := name, nodeKind := kind, nodeASN := asn, nodeNeighbors := [exampleNeighbor peer]\<rparr>"

definition exampleLink :: link where
  "exampleLink = zeroLink\<lparr>linkName := ''a-b'', linkA := ''a'', linkB := ''b''\<rparr>"

definition exampleIndex :: "device_kind \<Rightarrow> device_kind \<Rightarrow> topology_index" where
  "exampleIndex ka kb =
     \<lparr>idxTopology = \<lparr>topoName = [], topoManagementSubnet = [],
         topoNodes = [exampleNode ''a'' ka 1 ''b'', exampleNode ''b'' kb 2 ''a''], topoLinks = [exampleLink],
         topoACLs = [], topoACLBindings = []\<rparr>,
      idxNodes = [''a'' \<mapsto> exampleNode ''a'' ka 1 ''b'', ''b'' \<mapsto> exampleNode ''b'' kb 2 ''a''],
      idxLinks = [''a-b'' \<mapsto> exampleLink],
      idxAdj = (\<lambda>n. if n = ''a'' then [\<lparr>adjTo = ''b'', adjLink = exampleLink\<rparr>]
                    else if n = ''b'' then [\<lparr>adjTo = ''a'', adjLink = exampleLink\<rparr>] else []),
      idxEndpoints = Map.empty, idxOrigins = [], idxInstances = Map.empty\<rparr>"

definition exampleEngine :: "device_kind \<Rightarrow> device_kind \<Rightarrow> engine" where
  "exampleEngine ka kb = \<lparr>engBehaviors = builtinBehaviors, engRegexp = (\<lambda>p s. None),
     engIdx = exampleIndex ka kb, engMaxFailures = - 1\<rparr>"

definition examplePrefix :: prefix where
  "examplePrefix = IPPrefix (IPv4 0x0A000000) 8"

definition exampleRoute :: rib_entry where
  "exampleRoute = networkEntry (exampleNode ''a'' KindFRR 1 ''b'') examplePrefix
     (prefixSource (exampleNode ''a'' KindFRR 1 ''b'') examplePrefix)"

lemma plainNet_example: "plainNet (idxAdj (exampleIndex ka kb))"
  by (auto simp: plainNet_def exampleIndex_def exampleLink_def plainName_def zeroLink_def)

lemma exampleRoute_shape:
  "rbProvenance exampleRoute = originProvenance ''a''" "rbCondition exampleRoute = Some (NodeVar ''a'')"
  "rbBaseCond exampleRoute = Some (NodeVar ''a'')" "rbSelectedCond exampleRoute = None" "rbRacing exampleRoute = False"
  by (simp_all add: exampleRoute_def networkEntry_def exampleNode_def zeroRIBEntry_def Let_def)

lemma grounded_exampleRoute: "grounded adjacent ''a'' exampleRoute"
  by (auto simp: grounded_def exampleRoute_shape originProvenance_def plainEntry_def NodeVar_def plainName_def pathUp_def
      intro: walkPath.origin)

theorem walkBGP_returns_grounded_witness:
  "\<exists>rib'. walkBGP 2 (exampleEngine KindFRR KindCEOS) exampleRoute [] = Inr rib'
    \<and> (\<forall>n r. ribHolds rib' n r \<longrightarrow> grounded (idxAdj (exampleIndex KindFRR KindCEOS)) n r)"
proof -
  have idx: "engIdx (exampleEngine KindFRR KindCEOS) = exampleIndex KindFRR KindCEOS" by (simp add: exampleEngine_def)
  have dom: "dom (idxNodes (exampleIndex KindFRR KindCEOS)) = {''a'', ''b''}"
    by (auto simp: exampleIndex_def)
  show ?thesis
    using walkBGP_returns_grounded [of "exampleEngine KindFRR KindCEOS" "[]" "''a''" exampleRoute 2]
    by (simp add: idx dom plainNet_example grounded_exampleRoute exampleRoute_shape originProvenance_def ribHolds_def)
qed

end
