(* ===== verification/Engine_Selection.thy ===== *)
theory Engine_Selection
  imports Engine_Laws
begin

text \<open>
  Which failures a route is selected under. \<open>engineSelectRoutes\<close> turns the ranking of a bucket into
  conditions; this theory shows what these conditions mean and what follows for aggregates.
\<close>

section \<open>Conditions of entries\<close>

definition condOK :: "rib_entry \<Rightarrow> bool" where
  "condOK r \<longleftrightarrow> (case rbCondition r of None \<Rightarrow> False | Some c \<Rightarrow> plainCond c)"

definition condHolds :: "fail_context \<Rightarrow> rib_entry \<Rightarrow> bool" where
  "condHolds ctx r \<longleftrightarrow> (case rbCondition r of None \<Rightarrow> False | Some c \<Rightarrow> evalCond ctx c)"

definition selHolds :: "fail_context \<Rightarrow> rib_entry \<Rightarrow> bool" where
  "selHolds ctx r \<longleftrightarrow> (case rbSelectedCond r of None \<Rightarrow> False | Some c \<Rightarrow> evalCond ctx c)"

lemma condOK_split: "list_all condOK rs \<Longrightarrow> \<exists>cs. map rbCondition rs = map Some cs \<and> list_all plainCond cs"
proof (induction rs)
  case (Cons r rs)
  then obtain cs where "map rbCondition rs = map Some cs" "list_all plainCond cs" by auto
  moreover obtain c where "rbCondition r = Some c" "plainCond c"
    using Cons.prems by (auto simp: condOK_def split: option.splits)
  ultimately have "map rbCondition (r # rs) = map Some (c # cs) \<and> list_all plainCond (c # cs)" by simp
  then show ?case by blast
qed simp

lemma OrNil_Some: "OrNil (map Some cs) = Inr (Or cs)"
proof -
  have "takeWhile (\<lambda>c. c \<noteq> None) (map Some cs) = map Some cs"
    by (simp add: takeWhile_eq_all_conv)
  then show ?thesis unfolding OrNil_def Let_def by (simp only: length_map map_map comp_def option.sel) simp
qed

lemma Or_condHolds:
  assumes "map rbCondition rs = map Some cs" "list_all plainCond cs"
  shows "evalCond ctx (Or cs) \<longleftrightarrow> (\<exists>r \<in> set rs. condHolds ctx r)"
proof -
  have "evalCond ctx (Or cs) \<longleftrightarrow> (\<exists>x \<in> set (map Some cs). evalCond ctx (the x))"
    using Or_eval [OF assms(2)] by (simp add: list_ex_iff)
  also have "\<dots> \<longleftrightarrow> (\<exists>r \<in> set rs. \<exists>c. rbCondition r = Some c \<and> evalCond ctx c)"
  proof -
    have "\<exists>c. rbCondition r = Some c" if "r \<in> set rs" for r
    proof -
      have "rbCondition r \<in> set (map Some cs)" using that assms(1) by (metis image_eqI set_map)
      then show ?thesis by auto
    qed
    then show ?thesis unfolding assms(1) [symmetric] by force
  qed
  finally show ?thesis by (auto simp: condHolds_def split: option.split)
qed

lemma selectedCond_eval:
  assumes "list_all condOK higher" "condOK r"
  shows "\<exists>c. selectedCond b n higher r = Inr (Some c) \<and> plainCond c
    \<and> (\<forall>ctx. evalCond ctx c \<longleftrightarrow> RouteValidForRIB b n r \<and> condHolds ctx r
          \<and> (\<forall>h \<in> set higher. outranks b n h r \<longrightarrow> \<not> condHolds ctx h))"
proof (cases "RouteValidForRIB b n r")
  case True
  let ?hs = "filter (\<lambda>h. outranks b n h r) higher"
  obtain c where c: "rbCondition r = Some c" "plainCond c"
    using assms(2) by (auto simp: condOK_def split: option.splits)
  have "list_all condOK ?hs" using assms(1) by (simp add: list_all_iff)
  from condOK_split [OF this] obtain cs where cs: "map rbCondition ?hs = map Some cs" "list_all plainCond cs" by blast
  note any = Or_condHolds [OF cs]
  show ?thesis
  proof (cases "?hs = []")
    case True
    then have "\<not> (h \<in> set higher \<and> outranks b n h r)" for h
      by (auto simp: filter_empty_conv)
    then show ?thesis using \<open>RouteValidForRIB b n r\<close> c True
      by (auto simp: selectedCond_def condHolds_def)
  next
    case False
    have plain: "plainCond (Not (Or cs))" "plainCond (Or cs)" using cs(2) plain_Or plain_Not by blast+
    have "cs \<noteq> []" using cs(1) False by auto
    then have "selectedCond b n higher r = Inr (Some (And [c, Not (Or cs)]))"
      using \<open>RouteValidForRIB b n r\<close> False c(1) by (simp add: selectedCond_def Let_def cs(1) OrNil_Some)
    moreover have "evalCond ctx (And [c, Not (Or cs)]) \<longleftrightarrow> evalCond ctx c \<and> \<not> (\<exists>h \<in> set ?hs. condHolds ctx h)" for ctx
      using And_eval [of "[c, Not (Or cs)]"] Not_eval [OF plain(2)] any c(2) plain by simp
    moreover have "plainCond (And [c, Not (Or cs)])" using plain_And [of "[c, Not (Or cs)]"] c(2) plain by simp
    ultimately show ?thesis using \<open>RouteValidForRIB b n r\<close> c(1) by (auto simp: condHolds_def)
  qed
qed (auto simp: selectedCond_def)

section \<open>The selected condition does not influence the ranking\<close>

lemma Normalize_selected: "Normalize (r\<lparr>rbSelectedCond := c\<rparr>) = (Normalize r)\<lparr>rbSelectedCond := c\<rparr>"
  by (simp add: Normalize_def Let_def)

lemma selected_simps [simp]:
  "RouteValidForRIB b n (r\<lparr>rbSelectedCond := c\<rparr>) = RouteValidForRIB b n r"
  "routeSelectionFamily (r\<lparr>rbSelectedCond := c\<rparr>) = routeSelectionFamily r"
  "condHolds ctx (r\<lparr>rbSelectedCond := c\<rparr>) = condHolds ctx r"
  "condOK (r\<lparr>rbSelectedCond := c\<rparr>) = condOK r"
  by (cases b; simp add: ceosRouteValidForRIB_def baseRouteValidForRIB_def Normalize_selected Let_def)
     (simp_all add: routeSelectionFamily_def condHolds_def condOK_def Normalize_selected Let_def)

lemma Equivalent_selected [simp]:
  "Equivalent d n (r\<lparr>rbSelectedCond := c\<rparr>) s = Equivalent d n r s"
  "Equivalent d n r (s\<lparr>rbSelectedCond := c\<rparr>) = Equivalent d n r s"
  by (cases d; simp add: equivalentRoutes_def Normalize_selected Let_def shouldCompareMED_def nextHopIGPCost_def)+

lemma outranks_selected [simp]:
  "outranks b n (r\<lparr>rbSelectedCond := c\<rparr>) s = outranks b n r s"
  "outranks b n r (s\<lparr>rbSelectedCond := c\<rparr>) = outranks b n r s"
  by (simp_all add: outranks_def)

definition unselected :: "rib_entry \<Rightarrow> rib_entry" where
  "unselected r = r\<lparr>rbSelectedCond := None\<rparr>"

lemma unselected_eq: "unselected a = unselected b \<Longrightarrow> \<exists>c. a = b\<lparr>rbSelectedCond := c\<rparr>"
  by (metis (no_types, lifting) rib_entry.surjective rib_entry.update_convs(11) unselected_def)

section \<open>One bucket\<close>

lemma selectLoop_eval:
  "list_all condOK higher \<Longrightarrow> list_all condOK rs \<Longrightarrow>
   \<exists>out. selectLoop b n higher rs = Inr out \<and> map unselected out = map unselected rs
     \<and> list_all plainEntry out = list_all plainEntry (map unselected rs)
     \<and> (\<forall>ctx i. i < length rs \<longrightarrow> (selHolds ctx (out ! i) \<longleftrightarrow> RouteValidForRIB b n (rs ! i) \<and> condHolds ctx (rs ! i)
          \<and> (\<forall>h \<in> set higher \<union> set (take i rs). outranks b n h (rs ! i) \<longrightarrow> \<not> condHolds ctx h)))"
proof (induction rs arbitrary: higher)
  case (Cons r rs)
  then obtain c where c: "selectedCond b n higher r = Inr (Some c)" "plainCond c"
      "\<And>ctx. evalCond ctx c \<longleftrightarrow> RouteValidForRIB b n r \<and> condHolds ctx r
          \<and> (\<forall>h \<in> set higher. outranks b n h r \<longrightarrow> \<not> condHolds ctx h)"
    using selectedCond_eval [of higher r b n] by auto
  from Cons.IH [of "higher @ [r]"] Cons.prems obtain out where
    out: "selectLoop b n (higher @ [r]) rs = Inr out" "map unselected out = map unselected rs"
      "list_all plainEntry out = list_all plainEntry (map unselected rs)"
      "\<And>ctx i. i < length rs \<Longrightarrow> selHolds ctx (out ! i) \<longleftrightarrow> RouteValidForRIB b n (rs ! i) \<and> condHolds ctx (rs ! i)
          \<and> (\<forall>h \<in> set (higher @ [r]) \<union> set (take i rs). outranks b n h (rs ! i) \<longrightarrow> \<not> condHolds ctx h)"
    by auto
  let ?out = "r\<lparr>rbSelectedCond := Some c\<rparr> # out"
  have "selectLoop b n higher (r # rs) = Inr ?out" by (simp add: c(1) out(1))
  moreover have "map unselected ?out = map unselected (r # rs)" by (simp add: out(2) unselected_def)
  moreover have "list_all plainEntry ?out = list_all plainEntry (map unselected (r # rs))"
    using c(2) out(3) by (simp add: plainEntry_def unselected_def)
  moreover have "selHolds ctx (?out ! i) \<longleftrightarrow> RouteValidForRIB b n ((r # rs) ! i) \<and> condHolds ctx ((r # rs) ! i)
          \<and> (\<forall>h \<in> set higher \<union> set (take i (r # rs)). outranks b n h ((r # rs) ! i) \<longrightarrow> \<not> condHolds ctx h)"
    if "i < length (r # rs)" for ctx i
    using that c(3) out(4) by (cases i) (auto simp: selHolds_def)
  ultimately show ?case by blast
qed simp

lemma condOK_SelectRoutes: "list_all condOK routes \<Longrightarrow> list_all condOK (SelectRoutes d n routes)"
  using mset_SelectRoutes [of d n routes] by (metis list_all_iff set_mset_mset)

text \<open>
  C8 (what selection means). When every route of a bucket has a condition, \<open>SelectRoutes\<close> succeeds,
  keeps the routes, ordered by the decision process, and gives each the condition under which the
  vendor holds it valid, it is available, and no route listed before it that is valid, of the same
  protocol family and not equivalent to it is available.
\<close>

theorem selectBucket_exact:
  assumes "list_all condOK routes"
    and "n = engineNode e (fst k)" "b = BehaviorFor (engBehaviors e) (nodeKind n)"
  shows "\<exists>out. selectBucket e k routes = Inr out
    \<and> map unselected out = map unselected (SelectRoutes (Some (DecisionProcess b)) n routes)
    \<and> (\<forall>ctx. \<forall>i < length out. selHolds ctx (out ! i) \<longleftrightarrow>
         RouteValidForRIB b n (out ! i) \<and> condHolds ctx (out ! i)
         \<and> (\<forall>j < i. outranks b n (out ! j) (out ! i) \<longrightarrow> \<not> condHolds ctx (out ! j)))"
proof -
  let ?rs = "behaviorSelectRoutes b n routes"
  have ok: "list_all condOK ?rs" using condOK_SelectRoutes [OF assms(1)] by (simp add: behaviorSelectRoutes_def)
  obtain out where out: "selectLoop b n [] ?rs = Inr out" "map unselected out = map unselected ?rs"
      "\<And>ctx i. i < length ?rs \<Longrightarrow> selHolds ctx (out ! i) \<longleftrightarrow> RouteValidForRIB b n (?rs ! i) \<and> condHolds ctx (?rs ! i)
          \<and> (\<forall>h \<in> set (take i ?rs). outranks b n h (?rs ! i) \<longrightarrow> \<not> condHolds ctx h)"
    using selectLoop_eval [OF _ ok, of "[]" b n] by auto
  have len: "length out = length ?rs" using arg_cong [OF out(2), of length] by simp
  have same: "\<exists>c. out ! i = (?rs ! i)\<lparr>rbSelectedCond := c\<rparr>" if "i < length out" for i
    using arg_cong [OF out(2), of "\<lambda>xs. xs ! i"] that len by (auto intro: unselected_eq)
  have "selHolds ctx (out ! i) \<longleftrightarrow> RouteValidForRIB b n (out ! i) \<and> condHolds ctx (out ! i)
         \<and> (\<forall>j < i. outranks b n (out ! j) (out ! i) \<longrightarrow> \<not> condHolds ctx (out ! j))" if i: "i < length out" for ctx i
  proof -
    obtain c where c: "out ! i = (?rs ! i)\<lparr>rbSelectedCond := c\<rparr>" using same [OF i] by blast
    have "(\<forall>h \<in> set (take i ?rs). outranks b n h (?rs ! i) \<longrightarrow> \<not> condHolds ctx h) \<longleftrightarrow>
        (\<forall>j < i. outranks b n (?rs ! j) (?rs ! i) \<longrightarrow> \<not> condHolds ctx (?rs ! j))"
      using i len by (auto simp flip: nth_image [of i ?rs])
    also have "\<dots> \<longleftrightarrow> (\<forall>j < i. outranks b n (out ! j) (out ! i) \<longrightarrow> \<not> condHolds ctx (out ! j))"
    proof -
      have "outranks b n (out ! j) (out ! i) = outranks b n (?rs ! j) (?rs ! i) \<and> condHolds ctx (out ! j) = condHolds ctx (?rs ! j)"
        if j: "j < i" for j
      proof -
        obtain d where "out ! j = (?rs ! j)\<lparr>rbSelectedCond := d\<rparr>" using same [of j] j i by auto
        then show ?thesis by (simp add: c)
      qed
      then show ?thesis by blast
    qed
    finally show ?thesis using out(3) [of i ctx] i len by (simp add: c)
  qed
  then show ?thesis using out(1,2) assms(2,3) by (auto simp: selectBucket_def Let_def behaviorSelectRoutes_def)
qed

text \<open>Routes and their selected conditions of a bucket that has been selected.\<close>

definition selectedBucket :: "engine \<Rightarrow> string \<Rightarrow> rib_entry list \<Rightarrow> bool" where
  "selectedBucket e m out \<longleftrightarrow>
     (let n = engineNode e m; b = BehaviorFor (engBehaviors e) (nodeKind n)
      in \<forall>ctx. \<forall>i < length out. selHolds ctx (out ! i) \<longleftrightarrow>
           RouteValidForRIB b n (out ! i) \<and> condHolds ctx (out ! i)
           \<and> (\<forall>j < i. outranks b n (out ! j) (out ! i) \<longrightarrow> \<not> condHolds ctx (out ! j)))"

lemma selectBucket_selected:
  assumes "list_all condOK routes" "selectBucket e k routes = Inr out"
  shows "selectedBucket e (fst k) out"
  using selectBucket_exact [OF assms(1) refl refl, of e k] assms(2) unfolding selectedBucket_def Let_def by auto

text \<open>
  C10 (one best set of routes). Under every combination of failures, two routes of which the first
  outranks the second are never both selected; and when some valid route of a protocol family is
  available, some route of that family is selected.
\<close>

theorem selectBucket_partition:
  assumes "list_all condOK routes" "selectBucket e k routes = Inr out"
    and "n = engineNode e (fst k)" "b = BehaviorFor (engBehaviors e) (nodeKind n)"
  shows "(\<forall>ctx i j. i < j \<longrightarrow> j < length out \<longrightarrow> outranks b n (out ! i) (out ! j)
            \<longrightarrow> \<not> (selHolds ctx (out ! i) \<and> selHolds ctx (out ! j)))
    \<and> (\<forall>ctx. \<forall>r \<in> set out. RouteValidForRIB b n r \<and> condHolds ctx r
            \<longrightarrow> (\<exists>s \<in> set out. routeSelectionFamily s = routeSelectionFamily r \<and> selHolds ctx s))"
proof -
  have sel: "selHolds ctx (out ! i) \<longleftrightarrow> RouteValidForRIB b n (out ! i) \<and> condHolds ctx (out ! i)
           \<and> (\<forall>j < i. outranks b n (out ! j) (out ! i) \<longrightarrow> \<not> condHolds ctx (out ! j))" if "i < length out" for ctx i
    using selectBucket_selected [OF assms(1,2)] that assms(3,4) unfolding selectedBucket_def Let_def by blast
  have "\<exists>s \<in> set out. routeSelectionFamily s = routeSelectionFamily r \<and> selHolds ctx s"
    if r: "r \<in> set out" "RouteValidForRIB b n r" "condHolds ctx r" for ctx r
  proof -
    let ?P = "\<lambda>i. i < length out \<and> routeSelectionFamily (out ! i) = routeSelectionFamily r
        \<and> RouteValidForRIB b n (out ! i) \<and> condHolds ctx (out ! i)"
    define L where "L = (LEAST i. ?P i)"
    obtain i0 where "?P i0" using r by (auto simp: in_set_conv_nth)
    then have L: "?P L" unfolding L_def by (rule LeastI)
    have before: "\<not> condHolds ctx (out ! j)" if "j < L" "outranks b n (out ! j) (out ! L)" for j
    proof
      assume "condHolds ctx (out ! j)"
      then have "?P j" using that L by (simp add: outranks_def)
      then show False using not_less_Least [of j ?P] that(1) by (simp add: L_def)
    qed
    have "selHolds ctx (out ! L)" using L sel [of L ctx] before by simp
    then show ?thesis using L nth_mem by blast
  qed
  moreover have "\<not> (selHolds ctx (out ! i) \<and> selHolds ctx (out ! j))"
    if "i < j" "j < length out" "outranks b n (out ! i) (out ! j)" for ctx i j
    using sel [of i ctx] sel [of j ctx] that by auto
  ultimately show ?thesis by blast
qed

text \<open>A direct route to a prefix and one over the link, less preferred.\<close>

definition exampleBucket :: "rib_entry list" where
  "exampleBucket =
     [exampleRoute\<lparr>rbAttrs := zeroAttrs\<lparr>atLocalPref := 50\<rparr>, rbCondition := Some (LinkVar ''a-b''),
        rbProvenance := \<lparr>pvOriginNode = ''b'', pvFromNode = ''b'', pvPathNodes = [''b'', ''a''], pvPathLinks = [''a-b'']\<rparr>\<rparr>,
      exampleRoute]"

lemma condOK_exampleBucket: "list_all condOK exampleBucket"
  by (simp add: exampleBucket_def condOK_def exampleRoute_shape LinkVar_def NodeVar_def plainName_def)

theorem selectBucket_exact_witness:
  "\<exists>out. selectBucket (exampleEngine KindFRR KindFRR) (''a'', ''default'', examplePrefix) exampleBucket = Inr out
     \<and> length out = 2
     \<and> (\<forall>ctx. selHolds ctx (out ! 0) \<longleftrightarrow> RouteValidForRIB FRRBehavior (exampleNode ''a'' KindFRR 1 ''b'') (out ! 0) \<and> condHolds ctx (out ! 0))"
proof -
  have n: "engineNode (exampleEngine KindFRR KindFRR) ''a'' = exampleNode ''a'' KindFRR 1 ''b''"
    by (simp add: engineNode_def exampleEngine_def exampleIndex_def)
  have b: "BehaviorFor (engBehaviors (exampleEngine KindFRR KindFRR)) (nodeKind (exampleNode ''a'' KindFRR 1 ''b'')) = FRRBehavior"
    by (simp add: exampleEngine_def BehaviorFor_def builtinBehaviors_def exampleNode_def)
  obtain out where out: "selectBucket (exampleEngine KindFRR KindFRR) (''a'', ''default'', examplePrefix) exampleBucket = Inr out"
      "map unselected out = map unselected (SelectRoutes (Some (DecisionProcess FRRBehavior)) (exampleNode ''a'' KindFRR 1 ''b'') exampleBucket)"
      "\<forall>ctx. \<forall>i < length out. selHolds ctx (out ! i) \<longleftrightarrow>
         RouteValidForRIB FRRBehavior (exampleNode ''a'' KindFRR 1 ''b'') (out ! i) \<and> condHolds ctx (out ! i)
         \<and> (\<forall>j < i. outranks FRRBehavior (exampleNode ''a'' KindFRR 1 ''b'') (out ! j) (out ! i) \<longrightarrow> \<not> condHolds ctx (out ! j))"
    using selectBucket_exact [OF condOK_exampleBucket refl refl,
        of "exampleEngine KindFRR KindFRR" "(''a'', ''default'', examplePrefix)"] by (auto simp: n b)
  have "length out = length exampleBucket"
    using arg_cong [OF out(2), of length] by (simp add: SelectRoutes_def)
  then have "length out = 2" by (simp add: exampleBucket_def)
  then show ?thesis using out(1,3) by auto
qed

theorem selectBucket_partition_witness:
  "\<exists>out. selectBucket (exampleEngine KindFRR KindFRR) (''a'', ''default'', examplePrefix) exampleBucket = Inr out
     \<and> (\<forall>ctx. \<forall>r \<in> set out. RouteValidForRIB FRRBehavior (exampleNode ''a'' KindFRR 1 ''b'') r \<and> condHolds ctx r
            \<longrightarrow> (\<exists>s \<in> set out. routeSelectionFamily s = routeSelectionFamily r \<and> selHolds ctx s))"
proof -
  have n: "engineNode (exampleEngine KindFRR KindFRR) ''a'' = exampleNode ''a'' KindFRR 1 ''b''"
    by (simp add: engineNode_def exampleEngine_def exampleIndex_def)
  have b: "BehaviorFor (engBehaviors (exampleEngine KindFRR KindFRR)) (nodeKind (exampleNode ''a'' KindFRR 1 ''b'')) = FRRBehavior"
    by (simp add: exampleEngine_def BehaviorFor_def builtinBehaviors_def exampleNode_def)
  obtain out where out: "selectBucket (exampleEngine KindFRR KindFRR) (''a'', ''default'', examplePrefix) exampleBucket = Inr out"
    using selectLoop_eval [of "[]" "behaviorSelectRoutes FRRBehavior (exampleNode ''a'' KindFRR 1 ''b'') exampleBucket"
        FRRBehavior "exampleNode ''a'' KindFRR 1 ''b''"]
      condOK_SelectRoutes [OF condOK_exampleBucket, of "Some (DecisionProcess FRRBehavior)"]
    by (auto simp: selectBucket_def n b behaviorSelectRoutes_def)
  show ?thesis
    using selectBucket_partition [OF condOK_exampleBucket out] out by (simp add: n b)
qed

section \<open>Aggregates over a prefix with an alternative\<close>

lemma contributorCond_selected:
  "rbSourceKind (Normalize r) \<noteq> RouteSourceAggregate \<Longrightarrow> rbSelectedCond r = Some c \<Longrightarrow> contributorCond r = Some c"
  by (simp add: contributorCond_def Let_def)

lemma contributor_evaluated:
  assumes "plainRib rib" "aggregateContributorCondVRF rib m vrf p = Some (c, contributed)" "evalCond ctx c"
    and "(k, routes) \<in> set rib" "r \<in> set routes" "fst k = m" "fst (snd k) = NormalizeNetworkInstance vrf"
    and "isMoreSpecificWithin (snd (snd k)) p" "contributorCond r = Some d"
  shows "evalCond ctx d"
proof -
  have c: "c = And (map snd (contributors rib m vrf p))"
    using assms(2) by (auto simp: aggregateContributorCondVRF_def Let_def split: if_splits)
  have "(prefixString (snd (snd k)), d) \<in> set (contributors rib m vrf p)"
  proof -
    have "d \<in> set (List.map_filter contributorCond routes)"
      using assms(5,9) by (auto simp: set_map_filter)
    then show ?thesis unfolding contributors_def set_concat set_map
      using assms(6-8) by (intro UN_I [OF imageI [OF assms(4)]]) simp
  qed
  then have "d \<in> set (map snd (contributors rib m vrf p))" by force
  then show ?thesis
    using assms(3) And_eval [OF contributors_plain [OF assms(1)]] by (auto simp: c list_all_iff)
qed

text \<open>
  C37 (an aggregate over an alternative). The condition of an aggregate asks for the selected
  conditions of all contributing routes at once. When a contributing prefix has two routes of which
  one outranks the other, these exclude each other, and the aggregate is active under no
  combination of failures.
\<close>

theorem aggregate_over_alternative_never_active:
  assumes "plainRib rib" "(k, out) \<in> set rib" "selectedBucket e (fst k) out"
    and "i < j" "j < length out" "outranks b n (out ! i) (out ! j)"
    and "n = engineNode e (fst k)" "b = BehaviorFor (engBehaviors e) (nodeKind n)"
    and "rbSelectedCond (out ! i) \<noteq> None" "rbSelectedCond (out ! j) \<noteq> None"
    and "rbSourceKind (Normalize (out ! i)) \<noteq> RouteSourceAggregate" "rbSourceKind (Normalize (out ! j)) \<noteq> RouteSourceAggregate"
    and "fst (snd k) = NormalizeNetworkInstance vrf" "isMoreSpecificWithin (snd (snd k)) p"
    and "aggregateContributorCondVRF rib (fst k) vrf p = Some (c, contributed)"
  shows "\<not> evalCond ctx c"
proof
  assume c: "evalCond ctx c"
  have sel: "selHolds ctx (out ! m)" if m: "m < length out" "rbSelectedCond (out ! m) \<noteq> None"
      "rbSourceKind (Normalize (out ! m)) \<noteq> RouteSourceAggregate" for m
  proof -
    obtain d where d: "rbSelectedCond (out ! m) = Some d" using m(2) by blast
    have "evalCond ctx d"
      by (rule contributor_evaluated [OF assms(1,15) c assms(2) nth_mem [OF m(1)] refl assms(13,14)
            contributorCond_selected [OF m(3) d]])
    then show ?thesis by (simp add: selHolds_def d)
  qed
  have "selHolds ctx (out ! i)" "selHolds ctx (out ! j)" using sel assms(4,5,9-12) by auto
  then show False using assms(3-8) unfolding selectedBucket_def Let_def
    by (metis (no_types, lifting) order.strict_trans)
qed

definition exampleOut :: "rib_entry list" where
  "exampleOut = [(exampleBucket ! 1)\<lparr>rbSelectedCond := Some (NodeVar ''a'')\<rparr>,
     (exampleBucket ! 0)\<lparr>rbSelectedCond := Some (And [LinkVar ''a-b'', Not (Or [NodeVar ''a''])])\<rparr>]"

lemma exampleOut_selected: "selectBucket (exampleEngine KindFRR KindFRR) (''a'', ''default'', examplePrefix) exampleBucket = Inr exampleOut"
proof -
  let ?n = "exampleNode ''a'' KindFRR 1 ''b''"
  obtain x y where xy: "exampleBucket = [x, y]" by (simp add: exampleBucket_def)
  have n: "engineNode (exampleEngine KindFRR KindFRR) ''a'' = ?n"
    by (simp add: engineNode_def exampleEngine_def exampleIndex_def)
  have b: "BehaviorFor (engBehaviors (exampleEngine KindFRR KindFRR)) (nodeKind ?n) = FRRBehavior"
    by (simp add: exampleEngine_def BehaviorFor_def builtinBehaviors_def exampleNode_def)
  have facts: "Less (DecisionProcess FRRBehavior) ?n (exampleBucket ! 1) (exampleBucket ! 0)"
      "outranks FRRBehavior ?n (exampleBucket ! 1) (exampleBucket ! 0)"
      "RouteValidForRIB FRRBehavior ?n (exampleBucket ! 0)" "RouteValidForRIB FRRBehavior ?n (exampleBucket ! 1)"
    by code_simp+
  have "rbCondition (exampleBucket ! 0) = Some (LinkVar ''a-b'')" "rbCondition (exampleBucket ! 1) = Some (NodeVar ''a'')"
    by (simp_all add: exampleBucket_def exampleRoute_shape)
  moreover have "OrNil [Some (NodeVar ''a'')] = Inr (Or [NodeVar ''a''])" using OrNil_Some [of "[NodeVar ''a'']"] by simp
  ultimately show ?thesis using facts
    by (simp add: selectBucket_def n b behaviorSelectRoutes_def SelectRoutes_def processOrDefault_def sortSlice_def
        exampleOut_def xy selectedCond_def)
qed

theorem aggregate_over_alternative_never_active_witness:
  "\<exists>c contributed. aggregateContributorCondVRF [((''a'', ''default'', examplePrefix), exampleOut)] ''a'' ''default'' (IPPrefix (IPv4 0x0A000000) 7)
      = Some (c, contributed) \<and> (\<forall>ctx. \<not> evalCond ctx c)"
proof -
  let ?k = "(''a'', ''default'', examplePrefix)" and ?e = "exampleEngine KindFRR KindFRR"
  let ?n = "engineNode ?e ''a''" and ?p = "IPPrefix (IPv4 0x0A000000) 7"
  have eval: "list_all plainEntry exampleOut" "outranks FRRBehavior ?n (exampleOut ! 0) (exampleOut ! 1)"
      "BehaviorFor (engBehaviors ?e) (nodeKind ?n) = FRRBehavior"
      "NormalizeNetworkInstance ''default'' = ''default''" "isMoreSpecificWithin examplePrefix ?p"
    by code_simp+
  have out: "\<forall>i \<in> {0, 1}. rbSelectedCond (exampleOut ! i) \<noteq> None" "length exampleOut = 2"
      "rbSelectedCond (exampleOut ! 0) = Some (NodeVar ''a'')"
    by (simp_all add: exampleOut_def)
  have kind: "\<forall>i \<in> {0, 1}. rbSourceKind (Normalize (exampleOut ! i)) \<noteq> RouteSourceAggregate"
    by (simp add: exampleOut_def exampleBucket_def exampleRoute_def networkEntry_def Normalize_def Let_def)
  have "contributorCond (exampleOut ! 0) = Some (NodeVar ''a'')"
    by (rule contributorCond_selected) (use kind out(3) in simp_all)
  moreover have "exampleOut \<noteq> []" "exampleOut ! 0 \<in> set exampleOut" using out(2) by (auto intro: nth_mem)
  ultimately have "NodeVar ''a'' \<in> set (List.map_filter contributorCond exampleOut)" by (force simp: set_map_filter)
  then have "List.map_filter contributorCond exampleOut \<noteq> []" by auto
  then have some: "aggregateContributorCondVRF [(?k, exampleOut)] ''a'' ''default'' ?p \<noteq> None"
    using eval(4,5) by (simp add: aggregateContributorCondVRF_def contributors_def Let_def)
  have plain: "plainRib [(?k, exampleOut)]" using eval(1) by (simp add: plainRib_def ribHolds_def list_all_iff)
  have sel: "selectedBucket ?e (fst ?k) exampleOut"
    by (rule selectBucket_selected [OF condOK_exampleBucket exampleOut_selected])
  obtain c contributed where c: "aggregateContributorCondVRF [(?k, exampleOut)] ''a'' ''default'' ?p = Some (c, contributed)"
    using some by force
  have inst: "snd ?k = (''default'', examplePrefix)" "fst ?k = ''a''" by simp_all
  have "\<not> evalCond ctx c" for ctx
  proof (rule aggregate_over_alternative_never_active [OF plain _ sel, where i = 0 and j = 1 and b = FRRBehavior and n = ?n
        and vrf = "''default''" and p = ?p])
    show "(?k, exampleOut) \<in> set [(?k, exampleOut)]" "(0 :: nat) < 1" "?n = engineNode ?e (fst ?k)" by simp_all
    show "1 < length exampleOut" "rbSelectedCond (exampleOut ! 0) \<noteq> None" "rbSelectedCond (exampleOut ! 1) \<noteq> None"
      using out by simp_all
    show "FRRBehavior = BehaviorFor (engBehaviors ?e) (nodeKind ?n)" "outranks FRRBehavior ?n (exampleOut ! 0) (exampleOut ! 1)"
      by (rule eval(3) [symmetric], rule eval(2))
    show "rbSourceKind (Normalize (exampleOut ! 0)) \<noteq> RouteSourceAggregate"
        "rbSourceKind (Normalize (exampleOut ! 1)) \<noteq> RouteSourceAggregate"
      using kind by blast+
    show "fst (snd ?k) = NormalizeNetworkInstance ''default''" unfolding inst fst_conv by (rule eval(4) [symmetric])
    show "isMoreSpecificWithin (snd (snd ?k)) ?p" unfolding inst snd_conv by (rule eval(5))
    show "aggregateContributorCondVRF [(?k, exampleOut)] (fst ?k) ''default'' ?p = Some (c, contributed)"
      unfolding inst by (rule c)
  qed
  then show ?thesis using c by blast
qed

end
