(* ===== verification/Engine_Convergence.thy ===== *)
theory Engine_Convergence
  imports Engine_Selection
begin

text \<open>
  When \<open>ConvergeAdvertisementConditions\<close> returns without an error, the tables are a fixpoint: every
  route is conditioned on its own base condition and on the selection of the route it was made from.
\<close>

section \<open>A pass that changes nothing\<close>

text \<open>The only thing a pass without a change may do is to write the base condition of OSPF routes.\<close>

definition isOSPF :: "rib_entry \<Rightarrow> bool" where
  "isOSPF r \<longleftrightarrow> rbSourceKind (Normalize r) = RouteSourceOSPF"

definition settle :: "rib_entry \<Rightarrow> rib_entry" where
  "settle r = (if isOSPF r then r\<lparr>rbCondition := baseCondition r\<rparr> else r)"

lemma Normalize_condition: "Normalize (r\<lparr>rbCondition := c\<rparr>) = (Normalize r)\<lparr>rbCondition := c\<rparr>"
  by (simp add: Normalize_def Let_def)

lemma isOSPF_settle [simp]: "isOSPF (settle r) = isOSPF r"
  by (simp add: settle_def isOSPF_def Normalize_condition)

lemma baseCondition_settle [simp]: "baseCondition (settle r) = baseCondition r"
  by (simp add: settle_def baseCondition_def split: option.split)

lemma settle_idem [simp]: "settle (settle r) = settle r"
proof (cases "isOSPF r")
  case True
  have "settle (settle r) = (settle r)\<lparr>rbCondition := baseCondition (settle r)\<rparr>" using True by (simp add: settle_def [of "settle r"])
  also have "\<dots> = settle r" using True by (simp only: baseCondition_settle) (simp add: settle_def)
  finally show ?thesis .
qed (simp add: settle_def)

definition maySettle :: "rib_entry \<Rightarrow> rib_entry \<Rightarrow> bool" where
  "maySettle a b \<longleftrightarrow> b = a \<or> b = settle a"

lemma maySettle_refl [simp]: "maySettle a a"
  by (simp add: maySettle_def)

lemma maySettle_trans: "maySettle a b \<Longrightarrow> maySettle b c \<Longrightarrow> maySettle a c"
  by (auto simp: maySettle_def)

definition settledFrom :: "rib \<Rightarrow> rib \<Rightarrow> bool" where
  "settledFrom rib rib' \<longleftrightarrow> (\<forall>k. list_all2 maySettle (bucket rib k) (bucket rib' k))"

lemma settledFrom_bucket: "settledFrom rib rib' \<Longrightarrow> list_all2 maySettle (bucket rib k) (bucket rib' k)"
  unfolding settledFrom_def by (rule spec)

lemma settledFrom_refl [simp]: "settledFrom rib rib"
  unfolding settledFrom_def by (simp add: list.rel_refl)

lemma settledFrom_trans: "settledFrom a b \<Longrightarrow> settledFrom b c \<Longrightarrow> settledFrom a c"
proof -
  assume ab: "settledFrom a b" and bc: "settledFrom b c"
  have "list_all2 maySettle (bucket a k) (bucket c k)" for k
    by (rule list_all2_trans [OF maySettle_trans settledFrom_bucket [OF ab] settledFrom_bucket [OF bc]])
  then show ?thesis by (simp add: settledFrom_def)
qed

lemma settledFrom_length: "settledFrom rib rib' \<Longrightarrow> length (bucket rib' k) = length (bucket rib k)"
  using list_all2_lengthD [OF settledFrom_bucket] by metis

lemma settledFrom_nth:
  "settledFrom rib rib' \<Longrightarrow> i < length (bucket rib k) \<Longrightarrow> maySettle (bucket rib k ! i) (bucket rib' k ! i)"
  by (rule list_all2_nthD [OF settledFrom_bucket])

lemma find_settled:
  assumes "list_all2 maySettle xs ys" "\<And>a. P (settle a) = P a"
  shows "rel_option maySettle (List.find P xs) (List.find P ys)"
  using assms(1) by (induction rule: list_all2_induct) (auto simp: maySettle_def assms(2))

lemma ParentRoute_settled:
  assumes "settledFrom rib rib'" "\<not> isOSPF r"
  shows "ParentRoute rib' r = ParentRoute rib r"
proof -
  let ?P = "\<lambda>candidate. rbSourceKind (Normalize candidate) = rbSourceKind (Normalize r)
      \<and> join ''>'' (pvPathNodes (rbProvenance (Normalize candidate))) = join ''>'' (butlast (pvPathNodes (rbProvenance (Normalize r))))"
  let ?k = "(pvFromNode (rbProvenance (Normalize r)), crNetworkInstance (rbRouteSource (Normalize r)), rbPrefix (Normalize r))"
  have inv: "?P (settle a) = ?P a" for a by (simp add: settle_def Normalize_condition)
  have rel: "rel_option maySettle (List.find ?P (bucket rib ?k)) (List.find ?P (bucket rib' ?k))"
    by (rule find_settled [where P = ?P, OF settledFrom_bucket [OF assms(1)] inv])
  have "List.find ?P (bucket rib' ?k) = List.find ?P (bucket rib ?k)"
  proof (cases "List.find ?P (bucket rib ?k)")
    case (Some a)
    then have "?P a" by (auto simp: find_Some_iff)
    then have "settle a = a" using assms(2) by (simp add: settle_def isOSPF_def)
    then show ?thesis using rel Some by (cases "List.find ?P (bucket rib' ?k)") (auto simp: maySettle_def)
  qed (use rel in \<open>auto simp: rel_option_iff split: option.splits\<close>)
  then show ?thesis by (simp add: ParentRoute_def Let_def)
qed

lemma advertisedCond_settled:
  "settledFrom rib rib' \<Longrightarrow> advertisedCond rib' r = advertisedCond rib r"
  using ParentRoute_settled by (auto simp: advertisedCond_def isOSPF_def)

text \<open>An entry the pass has seen and left as it is.\<close>

definition entryDone :: "rib \<Rightarrow> rib_entry \<Rightarrow> bool" where
  "entryDone rib r \<longleftrightarrow> (\<exists>new. advertisedCond rib r = Inr new
     \<and> (if isOSPF r then rbCondition r = new else condChanged (rbCondition r) new = Inr False))"

lemma entryDone_settle: "entryDone rib r \<Longrightarrow> settle r = r"
  by (auto simp: entryDone_def settle_def advertisedCond_def isOSPF_def)

lemma entryDone_settled:
  "settledFrom rib rib' \<Longrightarrow> i < length (bucket rib k) \<Longrightarrow> entryDone rib (bucket rib k ! i) \<Longrightarrow> entryDone rib' (bucket rib' k ! i)"
  using settledFrom_nth [of rib rib' i k] entryDone_settle [of rib "bucket rib k ! i"] advertisedCond_settled [of rib rib']
  by (auto simp: entryDone_def maySettle_def)

lemma bucket_setCondition:
  "bucket (setCondition k i c rib) k' =
     (if k' = k then (bucket rib k)[i := (bucket rib k ! i)\<lparr>rbCondition := c\<rparr>] else bucket rib k')"
  by (simp add: setCondition_def bucket_update Let_def)

lemma advertiseEntry_unchanged:
  assumes "advertiseEntry k (rib, ch) i = Inr (rib', False)" "i < length (bucket rib k)"
  shows "ch = False \<and> settledFrom rib rib' \<and> entryDone rib' (bucket rib' k ! i)"
proof -
  let ?r = "bucket rib k ! i"
  obtain new where new: "advertisedCond rib ?r = Inr new"
    using assms(1) by (auto simp: advertiseEntry_def Let_def split: sum.splits)
  show ?thesis
  proof (cases "isOSPF ?r")
    case True
    then have base: "new = baseCondition ?r" using new by (simp add: advertisedCond_def isOSPF_def)
    have rib': "rib' = setCondition k i new rib" "ch = False"
      using assms(1) new True by (auto simp: advertiseEntry_def Let_def isOSPF_def)
    have at: "bucket rib' k ! i = settle ?r"
      using assms(2) True by (simp add: rib'(1) bucket_setCondition settle_def base)
    have frm: "settledFrom rib rib'"
      unfolding settledFrom_def rib'(1) bucket_setCondition
      using True assms(2) by (auto simp: list_all2_conv_all_nth nth_list_update maySettle_def settle_def base)
    have "advertisedCond rib' (settle ?r) = Inr new"
      using True isOSPF_settle [of ?r] base by (simp add: advertisedCond_def isOSPF_def)
    then have "entryDone rib' (settle ?r)"
      using True base by (simp add: entryDone_def) (simp add: settle_def)
    then show ?thesis using rib'(2) frm at by simp
  next
    case False
    then have "condChanged (rbCondition ?r) new = Inr False" "rib' = rib" "ch = False"
      using assms(1) new by (auto simp: advertiseEntry_def Let_def isOSPF_def split: sum.splits bool.splits)
    then show ?thesis using new False by (simp add: entryDone_def)
  qed
qed

lemma advertiseBucket_unchanged:
  assumes "advertiseBucket (rib, ch) k = Inr (rib', False)"
  shows "ch = False \<and> settledFrom rib rib' \<and> (\<forall>i < length (bucket rib' k). entryDone rib' (bucket rib' k ! i))"
proof -
  let ?I = "\<lambda>is st. snd st = False \<longrightarrow> ch = False \<and> settledFrom rib (fst st)
      \<and> (\<forall>i \<in> set is. entryDone (fst st) (bucket (fst st) k ! i))"
  have "case foldE (advertiseEntry k) (rib, ch) [0..<length (bucket rib k)] of Inl e \<Rightarrow> True
      | Inr st \<Rightarrow> ?I [0..<length (bucket rib k)] st"
  proof (rule foldE_rule)
    fix ys i zs st assume xs: "[0..<length (bucket rib k)] = ys @ i # zs" and I: "?I ys st"
    have bound: "\<forall>j \<in> set ys. j < length (bucket rib k)" "i < length (bucket rib k)"
      using arg_cong [OF xs, of set] by auto
    show "case advertiseEntry k st i of Inl e \<Rightarrow> True | Inr st' \<Rightarrow> ?I (ys @ [i]) st'"
    proof (cases "advertiseEntry k st i")
      case (Inr st')
      obtain t c where st: "st = (t, c)" by force
      obtain t' c' where st': "st' = (t', c')" by force
      have "?I (ys @ [i]) (t', c')"
      proof
        assume "snd (t', c') = False"
        then have un: "advertiseEntry k (t, c) i = Inr (t', False)" using Inr by (simp add: st st')
        have "c = False" using un advertiseEntry_unchanged
          by (cases c) (auto simp: advertiseEntry_def Let_def split: sum.splits if_splits bool.splits)
        then have before: "ch = False" "settledFrom rib t" "\<forall>j \<in> set ys. entryDone t (bucket t k ! j)"
          using I by (simp_all add: st)
        have len: "length (bucket t k) = length (bucket rib k)" by (rule settledFrom_length [OF before(2)])
        have i: "i < length (bucket t k)" using bound(2) len by simp
        note new = advertiseEntry_unchanged [OF un i]
        then have "settledFrom rib t'" using settledFrom_trans [OF before(2)] by blast
        moreover have "entryDone t' (bucket t' k ! j)" if "j \<in> set ys" for j
          using entryDone_settled [of t t' j k] new before(3) that bound(1) len by simp
        ultimately show "ch = False \<and> settledFrom rib (fst (t', c'))
            \<and> (\<forall>j \<in> set (ys @ [i]). entryDone (fst (t', c')) (bucket (fst (t', c')) k ! j))"
          using before(1) new by auto
      qed
      then show ?thesis by (simp add: Inr st')
    qed simp
  qed simp
  then have "ch = False \<and> settledFrom rib rib' \<and> (\<forall>i \<in> set [0..<length (bucket rib k)]. entryDone rib' (bucket rib' k ! i))"
    using assms by (simp add: advertiseBucket_def)
  then show ?thesis using settledFrom_length [of rib rib' k] by auto
qed

lemma Apply_unchanged:
  assumes "ApplyAdvertisementConditions keys rib = Inr (rib', False)"
  shows "settledFrom rib rib' \<and> (\<forall>k \<in> set keys. \<forall>r \<in> set (bucket rib' k). entryDone rib' r)"
proof -
  let ?I = "\<lambda>ks st. snd st = False \<longrightarrow> settledFrom rib (fst st)
      \<and> (\<forall>k \<in> set ks. \<forall>i < length (bucket (fst st) k). entryDone (fst st) (bucket (fst st) k ! i))"
  have "case foldE advertiseBucket (rib, False) keys of Inl e \<Rightarrow> True | Inr st \<Rightarrow> ?I keys st"
  proof (rule foldE_rule)
    fix ys k zs st assume "keys = ys @ k # zs" and I: "?I ys st"
    show "case advertiseBucket st k of Inl e \<Rightarrow> True | Inr st' \<Rightarrow> ?I (ys @ [k]) st'"
    proof (cases "advertiseBucket st k")
      case (Inr st')
      obtain t c where st: "st = (t, c)" by force
      obtain t' c' where st': "st' = (t', c')" by force
      have "?I (ys @ [k]) (t', c')"
      proof
        assume "snd (t', c') = False"
        then have un: "advertiseBucket (t, c) k = Inr (t', False)" using Inr by (simp add: st st')
        note new = advertiseBucket_unchanged [OF un]
        have before: "settledFrom rib t" "\<forall>k \<in> set ys. \<forall>i < length (bucket t k). entryDone t (bucket t k ! i)"
          using I new by (simp_all add: st)
        have "entryDone t' (bucket t' j ! i)" if "j \<in> set ys" "i < length (bucket t' j)" for j i
        proof (rule entryDone_settled)
          show "settledFrom t t'" using new by blast
          show "i < length (bucket t j)" using that(2) settledFrom_length [of t t' j] new by simp
          then show "entryDone t (bucket t j ! i)" using before(2) that(1) by blast
        qed
        then show "settledFrom rib (fst (t', c'))
            \<and> (\<forall>k \<in> set (ys @ [k]). \<forall>i < length (bucket (fst (t', c')) k). entryDone (fst (t', c')) (bucket (fst (t', c')) k ! i))"
          using new settledFrom_trans [OF before(1)] by auto
      qed
      then show ?thesis by (simp add: Inr st')
    qed simp
  qed simp
  then have "settledFrom rib rib'" "\<forall>k \<in> set keys. \<forall>i < length (bucket rib' k). entryDone rib' (bucket rib' k ! i)"
    using assms by (simp_all add: ApplyAdvertisementConditions_def)
  then show ?thesis by (metis in_set_conv_nth)
qed

section \<open>The fixpoint\<close>

lemma bucket_unknown: "k \<notin> set (map fst rib) \<Longrightarrow> bucket rib k = []"
  by (simp add: bucket_def map_of_eq_None_iff [THEN iffD2])

lemma convergeLoop_fixpoint:
  assumes orders: "\<And>i ks. set (orders i ks) = set ks"
  shows "convergeLoop e orders m i rib = Inr rib' \<Longrightarrow> r \<in> set (bucket rib' k) \<Longrightarrow> entryDone rib' r"
proof (induction i arbitrary: rib)
  case (Suc i)
  obtain t changed where t: "ApplyAdvertisementConditions (orders i (map fst rib)) rib = Inr (t, changed)"
    using Suc.prems(1) by (auto split: sum.splits)
  show ?case
  proof (cases changed)
    case True
    then show ?thesis using Suc t by (auto split: sum.splits)
  next
    case False
    then have rib': "rib' = t" using Suc.prems(1) t by simp
    note un = Apply_unchanged [of "orders i (map fst rib)" rib rib'] 
    have dn: "settledFrom rib rib'" "\<forall>k \<in> set (map fst rib). \<forall>r \<in> set (bucket rib' k). entryDone rib' r"
      using un t False by (simp_all add: rib' orders)
    show ?thesis
    proof (cases "k \<in> set (map fst rib)")
      case False
      then have "bucket rib' k = []" using settledFrom_length [OF dn(1), of k] bucket_unknown by simp
      then show ?thesis using Suc.prems(2) by simp
    qed (use dn(2) Suc.prems(2) in blast)
  qed
qed simp

text \<open>
  C12 (converged conditions). When route selection and convergence end without an error, in whatever
  order the tables are visited, the conditions are a fixpoint: a route that was learned is
  conditioned, up to the key of the condition, on its own base and on the condition under which its
  parent is selected (or false, when the parent is gone), and every other route on its base.
\<close>

theorem converged_is_fixpoint:
  assumes "\<forall>i ks. set (orders i ks) = set ks"
    and "selectAndConverge e orders rib = Inr rib'" "r \<in> set (bucket rib' k)"
  shows "\<exists>new. advertisedCond rib' r = Inr new \<and> map_option condKey (rbCondition r) = map_option condKey new"
proof -
  obtain t where "ConvergeAdvertisementConditions e orders t = Inr rib'"
    using assms(2) by (auto simp: selectAndConverge_def split: sum.splits)
  then have "entryDone rib' r"
    using convergeLoop_fixpoint [of orders] assms(1,3) unfolding ConvergeAdvertisementConditions_def Let_def by blast
  then show ?thesis
    by (auto simp: entryDone_def condChanged_def split: if_splits option.splits)
qed

lemma exampleConverged:
  "selectAndConverge (exampleEngine KindFRR KindFRR) (\<lambda>_ ks. ks) [((''a'', ''default'', examplePrefix), [exampleRoute])]
   = Inr [((''a'', ''default'', examplePrefix), [exampleRoute\<lparr>rbSelectedCond := Some (NodeVar ''a'')\<rparr>])]"
proof -
  let ?n = "exampleNode ''a'' KindFRR 1 ''b''" and ?r = "exampleRoute\<lparr>rbSelectedCond := Some (NodeVar ''a'')\<rparr>"
  have n: "engineNode (exampleEngine KindFRR KindFRR) ''a'' = ?n"
    by (simp add: engineNode_def exampleEngine_def exampleIndex_def)
  have b: "BehaviorFor (engBehaviors (exampleEngine KindFRR KindFRR)) (nodeKind ?n) = FRRBehavior"
    by (simp add: exampleEngine_def BehaviorFor_def builtinBehaviors_def exampleNode_def)
  have valid: "RouteValidForRIB FRRBehavior ?n exampleRoute" by code_simp
  have kind: "rbSourceKind (Normalize ?r) = RouteSourceBGP"
    by (simp add: exampleRoute_def networkEntry_def Normalize_def Let_def)
  have base: "advertisedCond rib ?r = Inr (Some (NodeVar ''a''))" for rib
    by (simp add: advertisedCond_def baseCondition_def exampleRoute_shape originProvenance_def)
  have "engineSelectRoutes (exampleEngine KindFRR KindFRR) [((''a'', ''default'', examplePrefix), [exampleRoute])]
      = Inr [((''a'', ''default'', examplePrefix), [?r])]"
    by (simp add: engineSelectRoutes_def selectBucket_def n b behaviorSelectRoutes_def SelectRoutes_def sortSlice_def
        selectedCond_def valid [simplified] exampleRoute_shape Let_def)
  moreover have "ApplyAdvertisementConditions [(''a'', ''default'', examplePrefix)] [((''a'', ''default'', examplePrefix), [?r])]
      = Inr ([((''a'', ''default'', examplePrefix), [?r])], False)"
    by (simp add: ApplyAdvertisementConditions_def advertiseBucket_def advertiseEntry_def bucket_def base kind
        condChanged_def exampleRoute_shape)
  moreover have "MaxRouteDepth [((''a'', ''default'', examplePrefix), [?r])] = 1"
    by (simp add: MaxRouteDepth_def exampleRoute_shape originProvenance_def)
  ultimately show ?thesis
    by (simp add: selectAndConverge_def ConvergeAdvertisementConditions_def Let_def numeral_2_eq_2)
qed

theorem converged_is_fixpoint_witness:
  "\<exists>rib' r. selectAndConverge (exampleEngine KindFRR KindFRR) (\<lambda>_ ks. ks) [((''a'', ''default'', examplePrefix), [exampleRoute])] = Inr rib'
     \<and> r \<in> set (bucket rib' (''a'', ''default'', examplePrefix))
     \<and> (\<exists>new. advertisedCond rib' r = Inr new \<and> map_option condKey (rbCondition r) = map_option condKey new)"
proof -
  let ?r = "exampleRoute\<lparr>rbSelectedCond := Some (NodeVar ''a'')\<rparr>" and ?k = "(''a'', ''default'', examplePrefix)"
  have "?r \<in> set (bucket [(?k, [?r])] ?k)" by (simp add: bucket_def)
  then show ?thesis
    using exampleConverged converged_is_fixpoint [of "\<lambda>_ ks. ks", OF _ exampleConverged] by blast
qed

end
