(* ===== verification/Racing.thy ===== *)
theory Racing
  imports Engine_Laws
begin

text \<open>
  \<open>internal/engine/controlplane/racing.go\<close>: propagating every BGP route once more without the
  advertisement check, to find update races, and what the analysis reads off the tables.
  \<open>sort.Slice\<close> may order the entries of one bucket in any way; the model keeps their order.
\<close>

definition isBGPOrAggregate :: "rib_entry \<Rightarrow> bool" where
  "isBGPOrAggregate raw \<longleftrightarrow>
     (let r = Normalize raw in rbSourceKind r = RouteSourceBGP \<or> rbSourceKind r = RouteSourceAggregate)"

type_synonym entry_key = "rib_key \<times> nat"

definition racingEntries :: "rib \<Rightarrow> entry_key list" where
  "racingEntries rib =
     concat (map (\<lambda>(k, routes).
       map (Pair k) (filter (\<lambda>i. isBGPOrAggregate (routes ! i) \<and> \<not> length (pvPathNodes (rbProvenance (routes ! i))) < 1)
         [0..<length routes])) rib)"

definition entryKeyLess :: "entry_key \<Rightarrow> entry_key \<Rightarrow> bool" where
  "entryKeyLess a b =
     (let (n1, v1, p1) = fst a; (n2, v2, p2) = fst b
      in if n1 \<noteq> n2 then n1 < n2 else if v1 \<noteq> v2 then v1 < v2 else prefixString p1 < prefixString p2)"

definition racingStep :: "nat \<Rightarrow> engine \<Rightarrow> rib \<Rightarrow> entry_key \<Rightarrow> walk_error + rib" where
  "racingStep fuel e rib ek =
     (let routes = bucket rib (fst ek)
      in if length routes \<le> snd ek then Inr rib
         else walkBGP fuel e ((routes ! snd ek)\<lparr>rbRacing := True\<rparr>) rib)"

definition RacingPropagate ::
    "nat \<Rightarrow> engine \<Rightarrow> (nat \<Rightarrow> rib_key list \<Rightarrow> rib_key list) \<Rightarrow> rib \<Rightarrow> walk_error + rib" where
  "RacingPropagate fuel e orders rib =
     (case foldE (racingStep fuel e) rib (sortSlice entryKeyLess (racingEntries rib)) of
        Inl err \<Rightarrow> Inl err
      | Inr rib1 \<Rightarrow>
          (case engineSelectRoutes e rib1 of
             Inl err \<Rightarrow> Inl err
           | Inr rib2 \<Rightarrow>
               (case ConvergeAdvertisementConditions e orders rib2 of
                  Inl (WalkError err) \<Rightarrow> Inl err
                | Inl (NotConverged n rib3) \<Rightarrow> Inr rib3
                | Inr rib3 \<Rightarrow> Inr rib3)))"

text \<open>A router with the prefix in several network instances keeps the conditions of the last one visited.\<close>

definition CollectRacingCandidates :: "rib \<Rightarrow> prefix \<Rightarrow> (string \<times> cond list) list" where
  "CollectRacingCandidates rib p =
     fold (\<lambda>(k, routes) conds.
       if snd (snd k) \<noteq> p then conds
       else (let nodeConds = List.map_filter rbSelectedCond (filter isBGPOrAggregate routes)
             in if nodeConds = [] then conds else AList.update (fst k) nodeConds conds)) rib []"

definition originsOf :: "rib \<Rightarrow> prefix \<Rightarrow> string set" where
  "originsOf rib p =
     set (concat (map (\<lambda>(k, routes). if snd (snd k) = p
        then filter (\<lambda>n. n \<noteq> []) (map (\<lambda>r. pvOriginNode (rbProvenance r)) (filter isBGPOrAggregate routes)) else []) rib))"

definition PrefixWithMultipleOrigins :: "rib \<Rightarrow> prefix list" where
  "PrefixWithMultipleOrigins rib =
     sortSlice (\<lambda>a b. prefixString a < prefixString b)
       (filter (\<lambda>p. 2 \<le> card (originsOf rib p)) (remdups (map (\<lambda>(k, _). snd (snd k)) rib)))"

section \<open>A walk that does not end\<close>

text \<open>
  Two SR Linux nodes in different autonomous systems. SR Linux keeps a route whose path holds its own
  number as an invalid route, which the walk does not count as a loop, and a racing walk goes on from
  invalid routes too.
\<close>

abbreviation srlEngine :: engine where "srlEngine \<equiv> exampleEngine KindSRLinux KindSRLinux"

definition srlPeers :: "string \<Rightarrow> string \<Rightarrow> asn \<Rightarrow> asn \<Rightarrow> bool" where
  "srlPeers x y ax ay \<longleftrightarrow> x = ''a'' \<and> y = ''b'' \<and> ax = 1 \<and> ay = 2 \<or> x = ''b'' \<and> y = ''a'' \<and> ax = 2 \<and> ay = 1"

definition bouncing :: "string \<Rightarrow> asn \<Rightarrow> rib_entry \<Rightarrow> bool" where
  "bouncing y ay r \<longleftrightarrow> rbRacing r \<and> rbCondition r \<noteq> None \<and> rbBaseCond r \<noteq> None
     \<and> NormalizeNetworkInstance (crNetworkInstance (rbRouteSource (Normalize r))) = NetworkInstanceDefault
     \<and> (y \<in> set (pvPathNodes (rbProvenance r)) \<longrightarrow> ay \<in> set (atASPath (rbAttrs r)))"

lemma srl_context:
  assumes "srlPeers x y ax ay"
  shows "idxNodes (engIdx srlEngine) x = Some (exampleNode x KindSRLinux ax y)"
    and "idxAdj (engIdx srlEngine) x = [\<lparr>adjTo = y, adjLink = exampleLink\<rparr>]"
    and "bgpSession srlEngine x y vrf = (if NormalizeNetworkInstance vrf = NetworkInstanceDefault then Some (exampleNeighbor y) else None)"
    and "srlPeers y x ay ax" and "ax \<noteq> ay" and "x \<noteq> y"
proof -
  have inst: "NormalizeNetworkInstance [] = NetworkInstanceDefault" by code_simp
  show "bgpSession srlEngine x y vrf = (if NormalizeNetworkInstance vrf = NetworkInstanceDefault then Some (exampleNeighbor y) else None)"
    using assms inst
    by (auto simp: srlPeers_def bgpSession_def exampleEngine_def exampleIndex_def exampleNode_def exampleNeighbor_def zeroNeighbor_def)
qed (use assms in \<open>auto simp: srlPeers_def exampleEngine_def exampleIndex_def\<close>)

lemma ApplyRoutePolicy_unnamed: "ApplyRoutePolicy matchString resolver n peer [] r = \<lparr>rdRoute = Normalize r, rdAccept = True, rdReason = []\<rparr>"
  by (simp add: ApplyRoutePolicy_def Let_def)

lemma srl_export:
  assumes "ax \<noteq> ay"
  shows "\<exists>h. ExportRoute (exampleNode x k ax y) (exampleNode y k ay x) session r =
    \<lparr>rdRoute = Normalize (Normalize r\<lparr>rbAttrs := (rbAttrs (Normalize r))\<lparr>atASPath := ax # atASPath (rbAttrs r), atLearnedIBGP := False\<rparr>,
        rbNextHop := h\<rparr>), rdAccept = True, rdReason = []\<rparr>"
  using assms by (auto simp: ExportRoute_def Let_def exampleNode_def PrependASN_def)

lemma srl_import:
  assumes "ax \<noteq> ay"
  shows "\<exists>a. rdAccept (ImportRouteKeepASLoop (exampleNode y k ay x) (exampleNode x k ax y) session r)
    \<and> rdRoute (ImportRouteKeepASLoop (exampleNode y k ay x) (exampleNode x k ax y) session r) = Normalize (Normalize r\<lparr>rbAttrs := a\<rparr>)
    \<and> atASPath a = atASPath (rbAttrs r) \<and> (ay \<in> set (atASPath (rbAttrs r)) \<longrightarrow> atInvalid a)"
proof (cases "ay \<in> set (atASPath (rbAttrs r))")
  case True
  have "Normalize (Normalize r\<lparr>rbAttrs := (rbAttrs (Normalize r))\<lparr>atInvalid := True\<rparr>\<rparr>)
      = Normalize r\<lparr>rbAttrs := (rbAttrs (Normalize r))\<lparr>atInvalid := True\<rparr>\<rparr>"
    by (simp add: Normalize_def Let_def normalizeAttrs_Invalid)
  then show ?thesis using True
    by (intro exI [of _ "(rbAttrs (Normalize r))\<lparr>atInvalid := True\<rparr>"])
       (simp add: ImportRouteKeepASLoop_def Let_def exampleNode_def)
next
  case False
  then show ?thesis using assms
    by (intro exI [of _ "(rbAttrs (Normalize r))\<lparr>atLocalPref := 0\<rparr>"])
       (simp add: ImportRouteKeepASLoop_def ImportRoute_def Let_def exampleNode_def)
qed

lemma srl_suppression: "nodeRoutes n = [] \<Longrightarrow> applyAggregateSuppression n r rib = Inr (Normalize r)"
  by (simp add: applyAggregateSuppression_def)

text \<open>What crosses the link: the path grows by the sender, and the receiver keeps a loop as invalid.\<close>

lemma srl_across:
  assumes peers: "srlPeers x y ax ay"
    and inst: "NormalizeNetworkInstance (crNetworkInstance (rbRouteSource (Normalize r))) = NetworkInstanceDefault"
  shows "\<exists>imported. importedAcross (bgpPropagationContext srlEngine) (Normalize r) x (exampleNode x KindSRLinux ax y) y s
      = Inr (Some (exampleNode y KindSRLinux ay x, imported))
    \<and> sameRoute r imported \<and> atASPath (rbAttrs imported) = ax # atASPath (rbAttrs r)
    \<and> (ay \<in> set (atASPath (rbAttrs r)) \<longrightarrow> atInvalid (rbAttrs imported))"
proof -
  let ?x = "exampleNode x KindSRLinux ax y" and ?y = "exampleNode y KindSRLinux ay x"
  note ctx = srl_context [OF peers]
  note bctx = srl_context [OF ctx(4)]
  have kind: "BehaviorFor (engBehaviors srlEngine) (nodeKind (exampleNode n KindSRLinux a p)) = SRLinuxBehavior" for n a p
    by (simp add: BehaviorFor_def exampleEngine_def builtinBehaviors_def exampleNode_def)
  have sup: "applyAggregateSuppression ?x (Normalize r) s = Inr (Normalize r)"
    by (subst srl_suppression) (simp_all add: exampleNode_def zeroNode_def)
  have session: "nbExportPolicy (exampleNeighbor p) = []" "nbImportPolicy (exampleNeighbor p) = []" for p
    by (simp_all add: exampleNeighbor_def zeroNeighbor_def)
  obtain h where ex: "ExportRoute ?x ?y (exampleNeighbor y) (Normalize r) =
    \<lparr>rdRoute = Normalize (Normalize r\<lparr>rbAttrs := (rbAttrs (Normalize r))\<lparr>atASPath := ax # atASPath (rbAttrs r), atLearnedIBGP := False\<rparr>,
        rbNextHop := h\<rparr>), rdAccept = True, rdReason = []\<rparr>"
    using srl_export [OF ctx(5), of x KindSRLinux y "exampleNeighbor y" "Normalize r"] by auto
  define out where "out = Normalize (Normalize r\<lparr>rbAttrs := (rbAttrs (Normalize r))\<lparr>atASPath := ax # atASPath (rbAttrs r), atLearnedIBGP := False\<rparr>,
        rbNextHop := h\<rparr>)"
  have out: "Normalize out = out" "sameRoute r out" "atASPath (rbAttrs out) = ax # atASPath (rbAttrs r)"
    using sameRoute_ExportRoute [of "Normalize r" ?x ?y "exampleNeighbor y"]
    by (simp_all add: ex out_def sameRoute_def Normalize_kind_source)
  obtain a where im: "rdAccept (ImportRouteKeepASLoop ?y ?x (exampleNeighbor x) out)"
      "rdRoute (ImportRouteKeepASLoop ?y ?x (exampleNeighbor x) out) = Normalize (Normalize out\<lparr>rbAttrs := a\<rparr>)"
      "atASPath a = atASPath (rbAttrs out)" "ay \<in> set (atASPath (rbAttrs out)) \<longrightarrow> atInvalid a"
    using srl_import [OF ctx(5), of y KindSRLinux x "exampleNeighbor x" out] by blast
  define imported where "imported = Normalize (Normalize out\<lparr>rbAttrs := a\<rparr>)"
  have "sameRoute out imported"
    using sameRoute_ImportRouteKeepASLoop [of out ?y ?x "exampleNeighbor x"] by (simp add: im(2) imported_def)
  then have same: "sameRoute r imported" using sameRoute_trans out(2) by blast
  have path: "atASPath (rbAttrs imported) = ax # atASPath (rbAttrs r)" "ay \<in> set (atASPath (rbAttrs r)) \<longrightarrow> atInvalid (rbAttrs imported)"
    using im(3,4) out(3) by (simp_all add: imported_def)
  have "importedAcross (bgpPropagationContext srlEngine) (Normalize r) x ?x y s = Inr (Some (?y, imported))"
    using ctx bctx inst
    by (simp add: importedAcross_def bgpPropagationContext_def Let_def sup kind behaviorExportRoute_def ex session
        ApplyRoutePolicy_unnamed CheckControlEgress_def CheckControlIngress_def im(1,2)
        flip: out_def imported_def) (simp add: out(1) im(1,2) imported_def)
  then show ?thesis using same path by blast
qed

lemma bouncing_diverges:
  "srlPeers x y ax ay \<Longrightarrow> bouncing y ay r \<Longrightarrow> pvPathNodes (rbProvenance r) \<noteq> []
    \<Longrightarrow> last (pvPathNodes (rbProvenance r)) = x \<Longrightarrow> WalkRoute fuel (bgpPropagationContext srlEngine) r s = Inl OutOfFuel"
proof (induction fuel arbitrary: x y ax ay r s)
  case (Suc fuel)
  let ?ctx = "bgpPropagationContext srlEngine" and ?x = "exampleNode x KindSRLinux ax y" and ?y = "exampleNode y KindSRLinux ay x"
  note ctx = srl_context [OF Suc.prems(1)]
  have inst: "NormalizeNetworkInstance (crNetworkInstance (rbRouteSource (Normalize r))) = NetworkInstanceDefault"
    and loop: "y \<in> set (pvPathNodes (rbProvenance r)) \<Longrightarrow> ay \<in> set (atASPath (rbAttrs r))"
    using Suc.prems(2) by (auto simp: bouncing_def)
  obtain c where c: "rbCondition r = Some c" using Suc.prems(2) by (auto simp: bouncing_def)
  obtain imported where imported: "importedAcross ?ctx (Normalize r) x ?x y s = Inr (Some (?y, imported))" "sameRoute r imported"
      "atASPath (rbAttrs imported) = ax # atASPath (rbAttrs r)" "ay \<in> set (atASPath (rbAttrs r)) \<longrightarrow> atInvalid (rbAttrs imported)"
    using srl_across [OF Suc.prems(1) inst] by blast
  define entry where "entry = installedEntry (Normalize r) x \<lparr>adjTo = y, adjLink = exampleLink\<rparr> imported
      (And [c, LinkVar (linkName exampleLink), NodeVar y])"
  have "rbCondition imported = Some c" using imported(2) c by (simp add: sameRoute_def)
  then have entry: "nextEntry ?ctx (Normalize r) x ?x \<lparr>adjTo = y, adjLink = exampleLink\<rparr> s = Inr (Some (?y, entry))"
    using imported(1,4) loop by (auto simp: nextEntry_def Let_def containsString_def list_ex_iff entry_def)
  have shape: "rbRacing entry" "rbCondition entry \<noteq> None" "rbBaseCond entry \<noteq> None"
      "pvPathNodes (rbProvenance entry) = pvPathNodes (rbProvenance r) @ [y]"
      "atASPath (rbAttrs entry) = ax # atASPath (rbAttrs r)"
    using imported(2,3) Suc.prems(2)
    by (simp_all add: entry_def installedEntry_def sameRoute_def bouncing_def Normalize_def Let_def normalizeAttrs_def)
  have "rbRouteSource (Normalize entry) = rbRouteSource (Normalize r)"
    using imported(2)
    by (simp add: entry_def installedEntry_def sameRoute_def Normalize_kind_source split: if_splits)
  then have "bouncing x ax entry" using shape inst by (simp add: bouncing_def)
  then have walk: "WalkRoute fuel ?ctx entry t = Inl OutOfFuel" for t
    using Suc.IH [OF ctx(4)] shape(4) by simp
  have "continues ?ctx ?y entry"
    using shape(1) by (simp add: continues_def bgpPropagationContext_def pruneFunc_def exampleEngine_def)
  then have "walkEdge (WalkRoute fuel ?ctx) ?ctx (Normalize r) x ?x s \<lparr>adjTo = y, adjLink = exampleLink\<rparr> = Inl OutOfFuel"
    by (simp add: walkEdge_def entry walk Let_def)
  then show ?case using Suc.prems(3,4) ctx(1,2)
    by (simp add: WalkRoute.simps Let_def) (simp add: bgpPropagationContext_def)
qed (simp add: WalkRoute.simps)

text \<open>
  C38 (a racing analysis that does not return). With two adjacent SR Linux routers in different
  autonomous systems and one route originated by the first, \<open>RacingPropagate\<close> exhausts every bound
  on the depth of the walk: the route bounces between the two for ever, each time kept as invalid.
\<close>

theorem racing_on_srlinux_never_returns:
  "RacingPropagate fuel (exampleEngine KindSRLinux KindSRLinux) orders [((''a'', ''default'', examplePrefix), [exampleRoute])]
   = Inl OutOfFuel"
proof -
  have "NormalizeNetworkInstance (crNetworkInstance (rbRouteSource (Normalize exampleRoute))) = NetworkInstanceDefault"
    by code_simp
  moreover have "rbRouteSource (Normalize (exampleRoute\<lparr>rbRacing := True\<rparr>)) = rbRouteSource (Normalize exampleRoute)"
    by (simp only: Normalize_kind_source) simp
  ultimately have "bouncing ''b'' 2 (exampleRoute\<lparr>rbRacing := True\<rparr>)"
    by (simp only: bouncing_def) (simp add: exampleRoute_shape originProvenance_def)
  then have walk: "walkBGP fuel srlEngine (exampleRoute\<lparr>rbRacing := True\<rparr>) rib = Inl OutOfFuel" for rib
    using bouncing_diverges [of "''a''" "''b''" 1 2] by (simp add: walkBGP_def srlPeers_def exampleRoute_shape originProvenance_def)
  have "isBGPOrAggregate exampleRoute" by code_simp
  then have "racingEntries [((''a'', ''default'', examplePrefix), [exampleRoute])] = [((''a'', ''default'', examplePrefix), 0)]"
    by (simp add: racingEntries_def exampleRoute_shape originProvenance_def)
  then show ?thesis by (simp add: RacingPropagate_def sortSlice_def racingStep_def bucket_def walk)
qed

end
