(* ===== verification/Container_Heap.thy ===== *)
theory Container_Heap
  imports Prelude
begin

text \<open>
  The standard package \<open>container/heap\<close> on a slice: \<open>up\<close>, \<open>down\<close>, \<open>Push\<close> and \<open>Pop\<close>, with the
  comparison of the queue as an argument. The queues of the code append in their \<open>Push\<close> and cut
  the last element off in their \<open>Pop\<close>. The laws of a priority queue are a locale that every strict
  weak order satisfies.
\<close>

section \<open>The package\<close>

definition swapAt :: "'a list \<Rightarrow> nat \<Rightarrow> nat \<Rightarrow> 'a list" where
  "swapAt h i j = h[i := h ! j, j := h ! i]"

function heapUp :: "('a \<Rightarrow> 'a \<Rightarrow> bool) \<Rightarrow> 'a list \<Rightarrow> nat \<Rightarrow> 'a list" where
  "heapUp lt h j =
     (let i = (j - 1) div 2
      in if i = j \<or> \<not> lt (h ! j) (h ! i) then h else heapUp lt (swapAt h i j) i)"
  by pat_completeness auto
termination
  by (relation "measure (\<lambda>(_, _, j). j)") (auto simp: Let_def)

text \<open>The lesser of the two children, if there are two below \<open>n\<close>.\<close>

definition lesserChild :: "('a \<Rightarrow> 'a \<Rightarrow> bool) \<Rightarrow> 'a list \<Rightarrow> nat \<Rightarrow> nat \<Rightarrow> nat" where
  "lesserChild lt h i n =
     (let j1 = 2 * i + 1 in if j1 + 1 < n \<and> lt (h ! (j1 + 1)) (h ! j1) then j1 + 1 else j1)"

function heapDown :: "('a \<Rightarrow> 'a \<Rightarrow> bool) \<Rightarrow> 'a list \<Rightarrow> nat \<Rightarrow> nat \<Rightarrow> 'a list" where
  "heapDown lt h i n =
     (if n \<le> 2 * i + 1 then h
      else (let j = lesserChild lt h i n
            in if \<not> lt (h ! j) (h ! i) then h else heapDown lt (swapAt h i j) j n))"
  by pat_completeness auto
termination
  by (relation "measure (\<lambda>(_, _, i, n). n - i)") (auto simp: lesserChild_def Let_def split: if_splits)

declare heapUp.simps [simp del] heapDown.simps [simp del]

definition heapPush :: "('a \<Rightarrow> 'a \<Rightarrow> bool) \<Rightarrow> 'a \<Rightarrow> 'a list \<Rightarrow> 'a list" where
  "heapPush lt x h = heapUp lt (h @ [x]) (length h)"

definition heapPop :: "('a \<Rightarrow> 'a \<Rightarrow> bool) \<Rightarrow> 'a list \<Rightarrow> 'a \<times> 'a list" where
  "heapPop lt h =
     (let n = length h - 1; h' = heapDown lt (swapAt h 0 n) 0 n in (h' ! n, take n h'))"

section \<open>Contents\<close>

lemma length_swapAt [simp]: "length (swapAt h i j) = length h"
  by (simp add: swapAt_def)

lemma nth_swapAt: "i < length h \<Longrightarrow> j < length h \<Longrightarrow> k < length h \<Longrightarrow>
    swapAt h i j ! k = (if k = j then h ! i else if k = i then h ! j else h ! k)"
  by (simp add: swapAt_def nth_list_update)

lemma mset_swapAt [simp]: "i < length h \<Longrightarrow> j < length h \<Longrightarrow> mset (swapAt h i j) = mset h"
  by (simp add: swapAt_def mset_swap)

lemma mset_heapUp: "j < length h \<Longrightarrow> mset (heapUp lt h j) = mset h"
proof (induction lt h j rule: heapUp.induct)
  case (1 lt h j)
  then show ?case by (subst heapUp.simps) (simp add: Let_def)
qed

lemma length_heapUp: "j < length h \<Longrightarrow> length (heapUp lt h j) = length h"
  using mset_heapUp by (metis size_mset)

lemma mset_heapPush [simp]: "mset (heapPush lt x h) = add_mset x (mset h)"
  by (simp add: heapPush_def mset_heapUp)

text \<open>Sifting down touches the first \<open>n\<close> places only.\<close>

lemma lesserChild_bounds: "2 * i + 1 < n \<Longrightarrow> i < lesserChild lt h i n \<and> lesserChild lt h i n < n"
  by (simp add: lesserChild_def Let_def)

lemma lesserChild_parent: "(lesserChild lt h i n - 1) div 2 = i"
  by (simp add: lesserChild_def Let_def)

lemma heapDown_keeps:
  "n \<le> length h \<Longrightarrow> mset (heapDown lt h i n) = mset h \<and> drop n (heapDown lt h i n) = drop n h"
proof (induction lt h i n rule: heapDown.induct)
  case (1 lt h i n)
  let ?j = "lesserChild lt h i n"
  show ?case
  proof (cases "n \<le> 2 * i + 1 \<or> \<not> lt (h ! ?j) (h ! i)")
    case True
    then show ?thesis by (auto simp: heapDown.simps [of lt h i n] Let_def)
  next
    case False
    then have j: "?j < n" "i < n" using lesserChild_bounds [of i n lt h] by auto
    have step: "heapDown lt h i n = heapDown lt (swapAt h i ?j) ?j n"
      using False by (simp add: heapDown.simps [of lt h i n] Let_def)
    have "mset (heapDown lt (swapAt h i ?j) ?j n) = mset (swapAt h i ?j)
        \<and> drop n (heapDown lt (swapAt h i ?j) ?j n) = drop n (swapAt h i ?j)"
      using False "1.prems" by (intro "1.IH" [OF _ refl]) auto
    moreover have "drop n (swapAt h i ?j) = drop n h"
      using j by (simp add: swapAt_def drop_update_cancel)
    ultimately show ?thesis using j "1.prems" by (simp add: step)
  qed
qed

lemma heapPop_mset:
  assumes "h \<noteq> []"
  shows "mset h = add_mset (fst (heapPop lt h)) (mset (snd (heapPop lt h)))"
    and "fst (heapPop lt h) = h ! 0"
proof -
  define n where "n = length h - 1"
  let ?s = "swapAt h 0 n" let ?h = "heapDown lt ?s 0 n"
  have n: "n < length h" "0 < length h" "length h = Suc n" using assms by (simp_all add: n_def)
  have keeps: "mset ?h = mset ?s \<and> drop n ?h = drop n ?s" using n by (intro heapDown_keeps) simp
  then have len: "length ?h = Suc n" using n by (metis length_swapAt size_mset)
  have "drop n ?s = ?s ! n # drop (Suc n) ?s" using n by (intro Cons_nth_drop_Suc [symmetric]) simp
  then have "drop n ?s = [h ! 0]" using n nth_swapAt [of 0 h n n] by simp
  then have last: "drop n ?h = [h ! 0]" using keeps by simp
  then have nth: "?h ! n = h ! 0" using len by (metis Cons_nth_drop_Suc lessI list.inject)
  have "mset h = mset (take n ?h @ drop n ?h)" unfolding append_take_drop_id using keeps n by simp
  then show "mset h = add_mset (fst (heapPop lt h)) (mset (snd (heapPop lt h)))" "fst (heapPop lt h) = h ! 0"
    using last nth unfolding heapPop_def Let_def n_def [symmetric] by simp_all
qed

section \<open>Order\<close>

definition heapAt :: "('a \<Rightarrow> 'a \<Rightarrow> bool) \<Rightarrow> 'a list \<Rightarrow> nat \<Rightarrow> bool" where
  "heapAt lt h i \<longleftrightarrow> \<not> lt (h ! i) (h ! ((i - 1) div 2))"

definition heapTo :: "('a \<Rightarrow> 'a \<Rightarrow> bool) \<Rightarrow> 'a list \<Rightarrow> nat \<Rightarrow> bool" where
  "heapTo lt h n \<longleftrightarrow> (\<forall>i. 0 < i \<and> i < n \<longrightarrow> heapAt lt h i)"

definition isHeap :: "('a \<Rightarrow> 'a \<Rightarrow> bool) \<Rightarrow> 'a list \<Rightarrow> bool" where
  "isHeap lt h \<longleftrightarrow> heapTo lt h (length h)"

context less_closure
begin

lemma heapUp_heap:
  assumes "j < length h" "\<forall>i. 0 < i \<and> i < length h \<and> i \<noteq> j \<longrightarrow> heapAt lt h i"
    and "\<forall>c. 0 < c \<and> c < length h \<and> (c - 1) div 2 = j \<and> 0 < j \<longrightarrow> \<not> lt (h ! c) (h ! ((j - 1) div 2))"
  shows "isHeap lt (heapUp lt h j)"
  using assms
proof (induction j arbitrary: h rule: less_induct)
  case (less j)
  let ?p = "(j - 1) div 2"
  let ?h = "swapAt h ?p j"
  show ?case
  proof (cases "?p = j \<or> \<not> lt (h ! j) (h ! ?p)")
    case True
    then have "j = 0 \<or> heapAt lt h j" by (auto simp: heapAt_def)
    then show ?thesis
      using True less.prems(2) by (auto simp: heapUp.simps [of lt h j] Let_def isHeap_def heapTo_def)
  next
    case False
    then have j: "0 < j" "?p < j" "lt (h ! j) (h ! ?p)" by auto
    have nth: "swapAt h ?p j ! k = (if k = ?p then h ! j else if k = j then h ! ?p else h ! k)" if "k < length h" for k
      using that less.prems(1) j by (simp add: nth_swapAt)
    have order: "heapAt lt (swapAt h ?p j) i" if i: "0 < i" "i < length h" "i \<noteq> ?p" for i
    proof -
      have q: "(i - 1) div 2 < length h" "(i - 1) div 2 < i" using i by auto
      show ?thesis
      proof (cases "i = j")
        case True
        then show ?thesis using nth [OF i(2)] nth [OF q(1)] j less_asym by (auto simp: heapAt_def)
      next
        case other: False
        then have at: "\<not> lt (h ! i) (h ! ((i - 1) div 2))" using less.prems(2) i by (simp add: heapAt_def)
        have "\<not> lt (h ! i) (h ! ?p)" if "(i - 1) div 2 = j" using less.prems(3) i j that by simp
        moreover have "\<not> lt (h ! i) (h ! j)" if "(i - 1) div 2 = ?p" using at that j less_trans by metis
        ultimately show ?thesis using nth [OF i(2)] nth [OF q(1)] i other at by (auto simp: heapAt_def)
      qed
    qed
    have below: "\<not> lt (swapAt h ?p j ! c) (swapAt h ?p j ! ((?p - 1) div 2))"
      if c: "0 < c" "c < length h" "(c - 1) div 2 = ?p" "0 < ?p" for c
    proof -
      have up: "(q - 1) div 2 < q" if "0 < q" for q :: nat using that by simp
      have g: "(?p - 1) div 2 < ?p" "?p < c" using up [OF c(4)] up [OF c(1)] c(3) by simp_all
      have p: "(?p - 1) div 2 < length h" "(?p - 1) div 2 \<noteq> ?p" "(?p - 1) div 2 \<noteq> j" "c \<noteq> ?p" "?p < length h" "?p \<noteq> j"
        using g c(2) j(2) by linarith+
      have above: "\<not> lt (h ! ?p) (h ! ((?p - 1) div 2))" using less.prems(2) c(4) p(5,6) unfolding heapAt_def by blast
      have "\<not> lt (h ! c) (h ! ?p)" if "c \<noteq> j" using less.prems(2) c that by (auto simp: heapAt_def)
      then have "\<not> lt (h ! c) (h ! ((?p - 1) div 2))" if "c \<noteq> j" using not_less_trans above that by blast
      moreover have "swapAt h ?p j ! c = (if c = j then h ! ?p else h ! c)" using nth [OF c(2)] p(4) by (simp only: if_False)
      moreover have "swapAt h ?p j ! ((?p - 1) div 2) = h ! ((?p - 1) div 2)" using nth [OF p(1)] p(2,3) by (simp only: if_False)
      ultimately show ?thesis using above by metis
    qed
    have "isHeap lt (heapUp lt (swapAt h ?p j) ?p)"
      using less.prems(1) j order below by (intro less.IH) auto
    then show ?thesis using False by (simp add: heapUp.simps [of lt h j] Let_def)
  qed
qed

lemma heapPush_heap: "isHeap lt h \<Longrightarrow> isHeap lt (heapPush lt x h)"
  unfolding heapPush_def
proof (rule heapUp_heap)
  assume h: "isHeap lt h"
  show "\<forall>i. 0 < i \<and> i < length (h @ [x]) \<and> i \<noteq> length h \<longrightarrow> heapAt lt (h @ [x]) i"
    using h by (auto simp: isHeap_def heapTo_def heapAt_def nth_append)
qed auto

lemma heapDown_heap:
  assumes "n \<le> length h" "\<forall>k. 0 < k \<and> k < n \<and> (k - 1) div 2 \<noteq> i \<longrightarrow> heapAt lt h k"
    and "\<forall>c. 0 < c \<and> c < n \<and> (c - 1) div 2 = i \<and> 0 < i \<longrightarrow> \<not> lt (h ! c) (h ! ((i - 1) div 2))"
  shows "heapTo lt (heapDown lt h i n) n"
  using assms
proof (induction "n - i" arbitrary: h i rule: less_induct)
  case less
  let ?j = "lesserChild lt h i n"
  have child: "k = 2 * i + 1 \<or> k = 2 * i + 2" if "0 < k" "(k - 1) div 2 = i" for k using that by auto
  have least: "\<not> lt (h ! k) (h ! ?j)" if "0 < k" "k < n" "(k - 1) div 2 = i" for k
    using child [OF that(1,3)] that(2) less_irrefl less_asym by (auto simp: lesserChild_def Let_def)
  show ?case
  proof (cases "n \<le> 2 * i + 1 \<or> \<not> lt (h ! ?j) (h ! i)")
    case True
    have "heapAt lt h k" if k: "0 < k" "k < n" "(k - 1) div 2 = i" for k
    proof -
      have "\<not> n \<le> 2 * i + 1" using child [OF k(1,3)] k(2) by auto
      then have "\<not> lt (h ! ?j) (h ! i)" using True by simp
      then have "\<not> lt (h ! k) (h ! i)" using least [OF k] not_less_trans by blast
      then show ?thesis unfolding heapAt_def k(3) .
    qed
    then have "heapTo lt h n" using less.prems(2) by (auto simp: heapTo_def)
    then show ?thesis using True by (auto simp: heapDown.simps [of lt h i n] Let_def)
  next
    case False
    then have j: "i < ?j" "?j < n" "lt (h ! ?j) (h ! i)" "(?j - 1) div 2 = i"
      using lesserChild_bounds [of i n lt h] lesserChild_parent [of lt h i n] by auto
    have nth: "swapAt h i ?j ! k = (if k = ?j then h ! i else if k = i then h ! ?j else h ! k)" if "k < n" for k
      using that less.prems(1) j by (simp add: nth_swapAt)
    have order: "heapAt lt (swapAt h i ?j) k" if k: "0 < k" "k < n" "(k - 1) div 2 \<noteq> ?j" for k
    proof -
      have q: "(k - 1) div 2 < n" using k by auto
      consider "k = ?j" | "k \<noteq> ?j" "(k - 1) div 2 = i" | "k = i" | "k \<noteq> ?j" "k \<noteq> i" "(k - 1) div 2 \<noteq> i" by blast
      then show ?thesis
      proof cases
        case 1
        then show ?thesis using nth [OF k(2)] nth [OF q] j less_asym by (auto simp: heapAt_def)
      next
        case 2
        then have "k \<noteq> i" using k by auto
        then show ?thesis using 2 nth [OF k(2)] nth [OF q] j least [OF k(1,2)] by (auto simp: heapAt_def)
      next
        case 3
        have "\<not> lt (h ! ?j) (h ! ((i - 1) div 2))" using less.prems(3) j 3 k(1) by simp
        moreover have "(i - 1) div 2 \<noteq> i" "(i - 1) div 2 \<noteq> ?j" using 3 k(1) j(1) by auto
        ultimately show ?thesis using 3 nth [OF k(2)] nth [OF q] j(1) by (auto simp: heapAt_def)
      next
        case 4
        then show ?thesis using less.prems(2) nth [OF k(2)] nth [OF q] k by (auto simp: heapAt_def)
      qed
    qed
    have below: "\<not> lt (swapAt h i ?j ! c) (swapAt h i ?j ! ((?j - 1) div 2))"
      if c: "0 < c" "c < n" "(c - 1) div 2 = ?j" for c
    proof -
      have "heapAt lt h c" using less.prems(2) c j(1) by auto
      moreover have "c \<noteq> ?j" "c \<noteq> i" "i < n" using c j by auto
      ultimately show ?thesis using nth [OF c(2)] nth [of i] c j(1) unfolding j(4) by (auto simp: heapAt_def)
    qed
    have "heapTo lt (heapDown lt (swapAt h i ?j) ?j n) n"
      using less.prems(1) j(1,2) order below by (intro less.hyps) auto
    then show ?thesis using False by (simp add: heapDown.simps [of lt h i n] Let_def)
  qed
qed

lemma heap_least: "heapTo lt h n \<Longrightarrow> i < n \<Longrightarrow> \<not> lt (h ! i) (h ! 0)"
proof (induction i rule: less_induct)
  case (less i)
  show ?case
  proof (cases "i = 0")
    case False
    then have "\<not> lt (h ! ((i - 1) div 2)) (h ! 0)" "\<not> lt (h ! i) (h ! ((i - 1) div 2))"
      using less by (auto simp: heapTo_def heapAt_def)
    then show ?thesis using not_less_trans by blast
  qed (simp add: less_irrefl)
qed

lemma heapPop_heap:
  assumes "isHeap lt h" "h \<noteq> []"
  shows "isHeap lt (snd (heapPop lt h))"
proof -
  define n where "n = length h - 1"
  have n: "n < length h" "length h = Suc n" using assms(2) by (simp_all add: n_def)
  have "heapAt lt (swapAt h 0 n) k" if "0 < k" "k < n" "(k - 1) div 2 \<noteq> 0" for k
    using that assms(1) n by (auto simp: isHeap_def heapTo_def heapAt_def nth_swapAt)
  then have "heapTo lt (heapDown lt (swapAt h 0 n) 0 n) n"
    using n by (intro heapDown_heap) auto
  moreover have "length (heapDown lt (swapAt h 0 n) 0 n) = Suc n"
    using heapDown_keeps [of n "swapAt h 0 n" lt 0] n by (metis length_swapAt less_imp_le size_mset)
  moreover have "snd (heapPop lt h) = take n (heapDown lt (swapAt h 0 n) 0 n)"
    by (simp add: heapPop_def Let_def n_def)
  ultimately show ?thesis by (auto simp: isHeap_def heapTo_def heapAt_def)
qed

lemma heapPop_least: "isHeap lt h \<Longrightarrow> y \<in> set h \<Longrightarrow> \<not> lt y (fst (heapPop lt h))"
  using heap_least [of h "length h"] heapPop_mset(2) [of h lt] unfolding isHeap_def in_set_conv_nth
  by (metis length_0_conv not_less_zero)

end

text \<open>Strict weak orders by a key, and by a key and then another order.\<close>

lemma closure_key: "less_closure (\<lambda>x y. (f x :: 'k :: linorder) < f y)"
proof unfold_locales
  fix x y z
  show "\<not> f x < f x" by (rule less_irrefl)
  show "f x < f z" if "f x < f y" "f y < f z" using that by (rule less_trans)
  show "\<not> f x < f z \<and> \<not> f z < f x" if "\<not> f x < f y" "\<not> f y < f x" "\<not> f y < f z" "\<not> f z < f y"
    using that unfolding not_less by (blast intro: order_trans)
qed

lemma key_ties: "\<not> ((a :: 'k :: linorder) < b \<or> a = b \<and> p) \<Longrightarrow> \<not> (b < a \<or> b = a \<and> q) \<Longrightarrow> a = b \<and> \<not> p \<and> \<not> q"
  by (cases a b rule: linorder_cases) simp_all

lemma closure_lex:
  assumes "less_closure lt"
  shows "less_closure (\<lambda>x y. (f x :: 'k :: linorder) < f y \<or> f x = f y \<and> lt x y)"
proof unfold_locales
  fix x y z
  show "\<not> (f x < f x \<or> f x = f x \<and> lt x x)" using less_closure.less_irrefl [OF assms] by simp
  show "f x < f z \<or> f x = f z \<and> lt x z" if xy: "f x < f y \<or> f x = f y \<and> lt x y" and yz: "f y < f z \<or> f y = f z \<and> lt y z"
  proof (cases "f x < f z")
    case False
    then have "f x = f y" "f y = f z" using xy yz by (auto dest: less_trans)
    then show ?thesis using xy yz less_closure.less_trans [OF assms, of x y z] by simp
  qed simp
  assume a: "\<not> (f x < f y \<or> f x = f y \<and> lt x y)" "\<not> (f y < f x \<or> f y = f x \<and> lt y x)"
    and b: "\<not> (f y < f z \<or> f y = f z \<and> lt y z)" "\<not> (f z < f y \<or> f z = f y \<and> lt z y)"
  show "\<not> (f x < f z \<or> f x = f z \<and> lt x z) \<and> \<not> (f z < f x \<or> f z = f x \<and> lt z x)"
    using key_ties [OF a] key_ties [OF b] less_closure.incomparable_trans [OF assms, of x y z] by simp
qed

section \<open>The interface\<close>

locale priority_queue = less_closure lt for lt :: "'a \<Rightarrow> 'a \<Rightarrow> bool" +
  fixes push :: "'a \<Rightarrow> 'a list \<Rightarrow> 'a list" and pop :: "'a list \<Rightarrow> 'a \<times> 'a list" and inv :: "'a list \<Rightarrow> bool"
  assumes inv_empty: "inv []"
    and inv_push: "inv q \<Longrightarrow> inv (push x q)"
    and inv_pop: "inv q \<Longrightarrow> q \<noteq> [] \<Longrightarrow> inv (snd (pop q))"
    and mset_push: "mset (push x q) = add_mset x (mset q)"
    and mset_pop: "q \<noteq> [] \<Longrightarrow> mset q = add_mset (fst (pop q)) (mset (snd (pop q)))"
    and pop_least: "inv q \<Longrightarrow> y \<in> set q \<Longrightarrow> \<not> lt y (fst (pop q))"
begin

lemma set_push: "set (push x q) = insert x (set q)"
  using mset_push [of x q] by (metis set_mset_add_mset_insert set_mset_mset)

lemma set_pop: "q \<noteq> [] \<Longrightarrow> set q = insert (fst (pop q)) (set (snd (pop q)))"
  using mset_pop [of q] by (metis set_mset_add_mset_insert set_mset_mset)

lemma inv_pushes: "inv q \<Longrightarrow> inv (fold push xs q)"
  by (induction xs arbitrary: q) (auto intro: inv_push)

lemma set_pushes: "set (fold push xs q) = set xs \<union> set q"
  by (induction xs arbitrary: q) (auto simp: set_push)

lemma mset_pushes: "mset (fold push xs q) = mset xs + mset q"
  by (induction xs arbitrary: q) (auto simp: mset_push)

end

text \<open>The heap of the package is a priority queue for every comparison that is a strict weak order.\<close>

sublocale less_closure \<subseteq> heap: priority_queue lt "heapPush lt" "heapPop lt" "isHeap lt"
proof unfold_locales
  show "isHeap lt []" by (simp add: isHeap_def heapTo_def)
qed (simp_all add: heapPush_heap heapPop_heap heapPop_mset(1) heapPop_least)

end
