(* ===== verification/OSPF.thy ===== *)
theory OSPF
  imports Engine Container_Heap "HOL-Library.Multiset_Order"
begin

text \<open>
  OSPF of the control plane: \<open>ospf*.go\<close> under \<open>internal/engine/controlplane\<close>. A map that the
  code ranges over is an association list in the order of insertion; \<open>states\<close> maps a node and an
  interface to its state. Costs are unbounded integers. \<open>ShortestPathTree\<close>, \<open>RepresentativePath\<close>
  and \<open>SPFCondition\<close> are only called by tests and are left out.
\<close>

section \<open>Types\<close>

abbreviation (input) RouteTypeIntraArea :: string where "RouteTypeIntraArea \<equiv> ''intra-area''"
abbreviation (input) RouteTypeInterArea :: string where "RouteTypeInterArea \<equiv> ''inter-area''"
abbreviation (input) RouteTypeExternal1 :: string where "RouteTypeExternal1 \<equiv> ''external-type-1''"
abbreviation (input) RouteTypeExternal2 :: string where "RouteTypeExternal2 \<equiv> ''external-type-2''"
abbreviation (input) BackboneArea :: string where "BackboneArea \<equiv> ''0''"
abbreviation (input) OSPFAreaNormal :: string where "OSPFAreaNormal \<equiv> ''normal''"
abbreviation (input) OSPFAreaStub :: string where "OSPFAreaStub \<equiv> ''stub''"
abbreviation (input) OSPFAreaNSSA :: string where "OSPFAreaNSSA \<equiv> ''nssa''"
abbreviation (input) MaxPathsPerDestination :: nat where "MaxPathsPerDestination \<equiv> 8"

record iface_state =
  isNode :: string
  isName :: string
  isInstance :: network_instance
  isPrefix :: ipprefix
  isArea :: string
  isCost :: int
  isPassive :: bool
  isNetworkType :: string

record advertisement =
  adNode :: string
  adInstance :: network_instance
  adPrefix :: prefix
  adCost :: int
  adArea :: string
  adExternal :: bool
  adMetricType :: int
  adExternalArea :: string
  adDefaultArea :: string
  adSource :: rib_entry

record ospf_path =
  opCost :: int
  opNodes :: "string list"
  opLinks :: "string list"
  opAreas :: "string list"
  opCond :: "cond option"

record adjacency =
  ajFrom :: string
  ajTo :: string
  ajLink :: string
  ajArea :: string
  ajCost :: int

type_synonym ospf_states = "(string \<times> (string \<times> iface_state) list) list"
type_synonym ospf_processes = "string \<rightharpoonup> ospf_process"
type_synonym adjacency_filter = "iface_state \<Rightarrow> iface_state \<Rightarrow> string option"

definition statesOf :: "ospf_states \<Rightarrow> string \<Rightarrow> (string \<times> iface_state) list" where
  "statesOf states n = (case map_of states n of None \<Rightarrow> [] | Some m \<Rightarrow> m)"

definition emptyPath :: ospf_path where
  "emptyPath = \<lparr>opCost = 0, opNodes = [], opLinks = [], opAreas = [], opCond = None\<rparr>"

section \<open>Processes and interfaces\<close>

definition NormalizeArea :: "string \<Rightarrow> string" where
  "NormalizeArea area = (let a = trimSpace area in if a = ''0.0.0.0'' then BackboneArea else a)"

definition IsLoopbackInterface :: "string \<Rightarrow> bool" where
  "IsLoopbackInterface name =
     (let n = toLower (trimSpace name) in n = ''lo'' \<or> hasPrefix n ''lo'' \<or> hasPrefix n ''loopback'')"

definition ospfProcessesForNode :: "node \<Rightarrow> ospf_process list" where
  "ospfProcessesForNode n =
     map (\<lambda>p. p\<lparr>ospfNetworkInstance := NormalizeNetworkInstance (ospfNetworkInstance p)\<rparr>)
       (filter ospfEnabled (nodeOSPF n # nodeOSPFProcesses n))"

definition ospfVRFs :: "topology_index \<Rightarrow> network_instance list" where
  "ospfVRFs idx =
     sort (remdups (concat (map (\<lambda>n. map (\<lambda>p. NormalizeNetworkInstance (ospfNetworkInstance p))
       (filter ospfEnabled (ospfProcessesForNode n))) (topoNodes (idxTopology idx)))))"

definition ospfProcesses :: "topology_index \<Rightarrow> network_instance \<Rightarrow> ospf_processes" where
  "ospfProcesses idx vrf0 =
     (let vrf = NormalizeNetworkInstance vrf0
      in fold (\<lambda>n. fold (\<lambda>p out.
             if \<not> ospfEnabled p \<or> NormalizeNetworkInstance (ospfNetworkInstance p) \<noteq> vrf then out
             else out(nodeName n \<mapsto> p\<lparr>ospfNetworkInstance := vrf\<rparr>)) (ospfProcessesForNode n))
           (topoNodes (idxTopology idx)) Map.empty)"

definition ospfInterfaceForPrefix :: "(string \<times> iface_state) list \<Rightarrow> prefix \<Rightarrow> string" where
  "ospfInterfaceForPrefix states p =
     (case List.find (\<lambda>(_, s). PrefixFromNetIP (isPrefix s) = p) states of
        None \<Rightarrow> []
      | Some (_, s) \<Rightarrow> isName s)"

text \<open>The loop over the configured interfaces; a later one overwrites an earlier one.\<close>

definition configuredState :: "device_kind \<Rightarrow> string \<Rightarrow> ospf_interface \<Rightarrow> iface_state \<Rightarrow> iface_state" where
  "configuredState kind name c s =
     (if \<not> EquivalentInterfaceName kind (oiName c) name then s
      else s\<lparr>isArea := NormalizeArea (oiArea c), isCost := (if 0 < oiCost c then oiCost c else isCost s),
             isPassive := oiPassive c, isNetworkType := oiNetworkType c\<rparr>)"

definition ospfInterfaceFor ::
    "node \<Rightarrow> ospf_process \<Rightarrow> network_instance \<Rightarrow> iface \<Rightarrow> ipprefix \<Rightarrow> iface_state option" where
  "ospfInterfaceFor n process vrf0 i pfx =
     (let vrf = NormalizeNetworkInstance vrf0
      in if NormalizeNetworkInstance (ifVRF i) \<noteq> vrf then None
         else (let s0 = \<lparr>isNode = nodeName n, isName = ifName i, isInstance = vrf, isPrefix = pfxMasked pfx,
                         isArea = [], isCost = 1, isPassive = False, isNetworkType = []\<rparr>;
                   s1 = fold (\<lambda>(_, c). configuredState (nodeKind n) (ifName i) c) (ospfInterfaces process) s0;
                   s2 = (if isArea s1 = []
                         then (case List.find (\<lambda>w. pfxContains (onPrefix w) (pfxAddr pfx)) (ospfNetworks process) of
                                 None \<Rightarrow> s1
                               | Some w \<Rightarrow> s1\<lparr>isArea := NormalizeArea (onArea w)\<rparr>)
                         else s1);
                   s3 = (if list_ex (\<lambda>p. EquivalentInterfaceName (nodeKind n) p (ifName i)) (ospfPassiveInterfaces process)
                         then s2\<lparr>isPassive := True\<rparr> else s2)
               in if isArea s3 = [] then None
                  else Some (if IsLoopbackInterface (ifName i) then s3\<lparr>isCost := 0\<rparr> else s3)))"

definition interfaceStateStep :: "node \<Rightarrow> ospf_process \<Rightarrow> network_instance \<Rightarrow> iface \<Rightarrow> ospf_states \<Rightarrow> ospf_states" where
  "interfaceStateStep n process vrf i out =
     (case parsePrefix (ifAddress i) of
        None \<Rightarrow> out
      | Some pfx \<Rightarrow>
          if \<not> addrIs4 (pfxAddr pfx) then out
          else (case ospfInterfaceFor n process vrf i pfx of
                  None \<Rightarrow> out
                | Some s \<Rightarrow> AList.update (nodeName n) (AList.update (ifName i) s (statesOf out (nodeName n))) out))"

definition ospfInterfaceStates :: "topology_index \<Rightarrow> network_instance \<Rightarrow> ospf_processes \<Rightarrow> ospf_states" where
  "ospfInterfaceStates idx vrf processes =
     fold (\<lambda>n out. case processes (nodeName n) of
         None \<Rightarrow> out
       | Some p \<Rightarrow> fold (interfaceStateStep n p vrf) (nodeInterfaces n) out) (topoNodes (idxTopology idx)) []"

section \<open>Areas\<close>

definition areaOf :: "ospf_process \<Rightarrow> string \<Rightarrow> ospf_area" where
  "areaOf p area = (case map_of (ospfAreas p) area of
      None \<Rightarrow> \<lparr>oaID = [], oaKind = [], oaNoSummary = False, oaDefaultInformationOriginate = False, oaSource = zeroSource\<rparr>
    | Some a \<Rightarrow> a)"

definition ExternalArea :: "ospf_process \<Rightarrow> (string \<times> iface_state) list \<Rightarrow> string" where
  "ExternalArea p states =
     (case List.find (\<lambda>(_, s). oaKind (areaOf p (isArea s)) = OSPFAreaNSSA) states of
        None \<Rightarrow> []
      | Some (_, s) \<Rightarrow> isArea s)"

definition NodeAttachedToArea :: "(string \<times> iface_state) list \<Rightarrow> string \<Rightarrow> bool" where
  "NodeAttachedToArea states area = list_ex (\<lambda>(_, s). isArea s = area) states"

definition NodeAttachedToOtherArea :: "(string \<times> iface_state) list \<Rightarrow> string \<Rightarrow> bool" where
  "NodeAttachedToOtherArea states area = list_ex (\<lambda>(_, s). isArea s \<noteq> [] \<and> isArea s \<noteq> area) states"

definition PathUsesOnlyArea :: "ospf_path \<Rightarrow> string \<Rightarrow> bool" where
  "PathUsesOnlyArea path area \<longleftrightarrow> length (opAreas path) \<noteq> 0 \<and> list_all (\<lambda>a. a = area) (opAreas path)"

definition NodeInStubOrNSSA :: "ospf_process \<Rightarrow> bool" where
  "NodeInStubOrNSSA p = list_ex (\<lambda>(_, a). oaKind a = OSPFAreaStub \<or> oaKind a = OSPFAreaNSSA) (ospfAreas p)"

fun areaForNodes :: "ospf_processes \<Rightarrow> string list \<Rightarrow> string \<Rightarrow> ospf_area" where
  "areaForNodes processes [] areaID =
     \<lparr>oaID = areaID, oaKind = OSPFAreaNormal, oaNoSummary = False, oaDefaultInformationOriginate = False, oaSource = zeroSource\<rparr>"
| "areaForNodes processes (n # ns) areaID =
     (case processes n of
        None \<Rightarrow> areaForNodes processes ns areaID
      | Some p \<Rightarrow> if oaKind (areaOf p areaID) \<noteq> [] then areaOf p areaID else areaForNodes processes ns areaID)"

definition AreaForPathArea :: "ospf_processes \<Rightarrow> ospf_path \<Rightarrow> string \<Rightarrow> ospf_area" where
  "AreaForPathArea processes path areaID = areaForNodes processes (opNodes path) areaID"

definition AdvertisementAllowed :: "node \<Rightarrow> advertisement \<Rightarrow> ospf_path \<Rightarrow> ospf_processes \<Rightarrow> bool" where
  "AdvertisementAllowed src adv path processes =
     (if adDefaultArea adv \<noteq> [] then PathUsesOnlyArea path (adDefaultArea adv)
      else if \<not> adExternal adv then True
      else if list_ex (\<lambda>areaID. let kind = oaKind (AreaForPathArea processes path areaID)
                in kind = OSPFAreaStub \<or> kind = OSPFAreaNSSA \<and> adExternalArea adv \<noteq> areaID) (opAreas path) then False
      else if adExternalArea adv \<noteq> [] then True
      else \<not> NodeInStubOrNSSA (case processes (nodeName src) of None \<Rightarrow> zeroOSPF | Some p \<Rightarrow> p))"

definition NodeAreas :: "ospf_states \<Rightarrow> (string \<times> string list) list" where
  "NodeAreas states =
     filter (\<lambda>(_, as). as \<noteq> [])
       (map (\<lambda>(n, byIface). (n, remdups (filter (\<lambda>a. a \<noteq> []) (map (isArea \<circ> snd) byIface)))) states)"

definition areasAt :: "(string \<times> string list) list \<Rightarrow> string \<Rightarrow> string list" where
  "areasAt areas n = (case map_of areas n of None \<Rightarrow> [] | Some as \<Rightarrow> as)"

definition ABRs :: "(string \<times> string list) list \<Rightarrow> string list" where
  "ABRs areas = map fst (filter (\<lambda>(_, as). 1 < length as \<and> BackboneArea \<in> set as) areas)"

definition AreaBoundaries :: "string \<Rightarrow> string \<Rightarrow> (string \<times> string list) list \<Rightarrow> string list \<Rightarrow> string list" where
  "AreaBoundaries n area areas abrs =
     (if area = BackboneArea \<and> BackboneArea \<in> set (areasAt areas n) then [n]
      else sort (filter (\<lambda>m. area \<in> set (areasAt areas m)) abrs))"

section \<open>Redistribution\<close>

definition ExternalMetric :: "ospf_redistribution \<Rightarrow> rib_entry \<Rightarrow> int" where
  "ExternalMetric redist r0 =
     (let r = Normalize r0
      in if 0 < orMetric redist then orMetric redist
         else if 0 < atMED (rbAttrs r) then atMED (rbAttrs r)
         else if 0 < crMetric (rbRouteSource r) then crMetric (rbRouteSource r) else 20)"

definition ExternalMetricType :: "int \<Rightarrow> int" where
  "ExternalMetricType t = (if t = 1 then 1 else 2)"

definition ExternalRouteType :: "int \<Rightarrow> string" where
  "ExternalRouteType t = (if ExternalMetricType t = 1 then RouteTypeExternal1 else RouteTypeExternal2)"

definition RedistributedExternalRoute :: "string \<Rightarrow> ospf_redistribution \<Rightarrow> rib_entry \<Rightarrow> rib_entry" where
  "RedistributedExternalRoute n redist r =
     (let out = Normalize r; metricType = ExternalMetricType (orMetricType redist);
          source = (rbRouteSource out)\<lparr>crNode := n, crKind := RouteSourceOSPF, crAdminDistance := AdminDistanceOSPF,
            crMetricType := metricType, crOSPFRouteType := ExternalRouteType metricType, crMetric := ExternalMetric redist out\<rparr>
      in Normalize (out\<lparr>rbSourceKind := RouteSourceOSPF, rbRouteSource := source\<rparr>))"

definition redistributedBGP :: "node \<Rightarrow> rib_entry \<Rightarrow> rib_entry option" where
  "redistributedBGP n raw =
     (let r = Normalize raw
      in if rbSourceKind r \<noteq> RouteSourceBGP \<and> rbSourceKind r \<noteq> RouteSourceAggregate then None
         else if pvOriginNode (rbProvenance r) = nodeName n \<and> length (pvPathNodes (rbProvenance r)) = 1 then None
         else Some (case rbSelectedCond r of None \<Rightarrow> r | Some c \<Rightarrow> r\<lparr>rbCondition := Some c\<rparr>))"

definition ospfRedistributionCandidates ::
    "engine \<Rightarrow> rib \<Rightarrow> node \<Rightarrow> network_instance \<Rightarrow> string \<Rightarrow> rib_entry list" where
  "ospfRedistributionCandidates e rib n vrf0 kind =
     (let vrf = NormalizeNetworkInstance vrf0
      in if kind = RouteSourceConnected \<or> kind = RouteSourceStatic
         then List.map_filter (\<lambda>r.
             if NormalizeNetworkInstance (crNetworkInstance r) \<noteq> vrf then None
             else Some (Normalize ((Normalize (bgpRouteFromConfiguredRoute n r))\<lparr>rbSourceKind := crKind r, rbRouteSource := r\<rparr>)))
           (redistributionCandidates e n kind)
         else if kind = RouteSourceBGP
         then concat (map (\<lambda>((m, v, _), routes). if m = nodeName n \<and> v = vrf
                then List.map_filter (redistributedBGP n) routes else []) rib)
         else [])"

text \<open>One candidate of one redistribution.\<close>

definition ospfRedistributed :: "engine \<Rightarrow> node \<Rightarrow> ospf_redistribution \<Rightarrow> rib_entry \<Rightarrow> rib_entry option" where
  "ospfRedistributed e n redist raw =
     (let r = Normalize raw
      in if rbSourceKind r = RouteSourceConnected \<and> crConnectedClass (rbRouteSource r) = ConnectedRouteClassLink then None
         else if orRouteMap redist = [] then Some (RedistributedExternalRoute (nodeName n) redist r)
         else (let d = ApplyRoutePolicy (engRegexp e) (routePolicyResolver (engIdx e)) n [] (orRouteMap redist) r
               in if \<not> rdAccept d then None
                  else Some (RedistributedExternalRoute (nodeName n) redist (Normalize (rdRoute d)))))"

definition ospfRedistributedRoutes :: "engine \<Rightarrow> rib \<Rightarrow> node \<Rightarrow> ospf_process \<Rightarrow> rib_entry list" where
  "ospfRedistributedRoutes e rib n process =
     concat (map (\<lambda>redist. List.map_filter (ospfRedistributed e n redist)
       (ospfRedistributionCandidates e rib n (ospfNetworkInstance process) (orKind redist))) (ospfRedistribute process))"

section \<open>Advertisements\<close>

definition zeroAdvertisement :: advertisement where
  "zeroAdvertisement = \<lparr>adNode = [], adInstance = [], adPrefix = zeroPrefix, adCost = 0, adArea = [], adExternal = False,
     adMetricType = 0, adExternalArea = [], adDefaultArea = [], adSource = zeroRIBEntry\<rparr>"

definition interfaceAdvertisements :: "ospf_states \<Rightarrow> advertisement list" where
  "interfaceAdvertisements states =
     collectUnseen (\<lambda>a. adNode a @ ''|'' @ adInstance a @ ''|'' @ prefixString (adPrefix a)) []
       (concat (map (\<lambda>(n, byIface). map (\<lambda>(_, s). zeroAdvertisement\<lparr>adNode := n, adInstance := isInstance s,
            adPrefix := PrefixFromNetIP (isPrefix s), adCost := isCost s, adArea := isArea s\<rparr>) byIface) states))"

definition externalAdvertisements :: "engine \<Rightarrow> rib \<Rightarrow> ospf_states \<Rightarrow> node \<Rightarrow> ospf_process \<Rightarrow> advertisement list" where
  "externalAdvertisements e rib states n process =
     map (\<lambda>r. zeroAdvertisement\<lparr>adNode := nodeName n, adInstance := ospfNetworkInstance process,
         adPrefix := crPrefix (rbRouteSource r), adCost := crMetric (rbRouteSource r), adExternal := True,
         adMetricType := crMetricType (rbRouteSource r),
         adExternalArea := ExternalArea process (statesOf states (nodeName n)), adSource := r\<rparr>)
       (ospfRedistributedRoutes e rib n process)"

definition defaultAdvertisements :: "ospf_states \<Rightarrow> node \<Rightarrow> ospf_process \<Rightarrow> advertisement list" where
  "defaultAdvertisements states n process =
     (let own = statesOf states (nodeName n)
      in List.map_filter (\<lambda>(_, area).
           if oaKind area = OSPFAreaStub \<and> \<not> NodeAttachedToOtherArea own (oaID area) then None
           else if oaKind area \<noteq> OSPFAreaStub \<and> \<not> (oaKind area = OSPFAreaNSSA \<and> oaDefaultInformationOriginate area) then None
           else if \<not> NodeAttachedToArea own (oaID area) then None
           else Some (zeroAdvertisement\<lparr>adNode := nodeName n, adInstance := ospfNetworkInstance process,
                  adPrefix := IPPrefix (IPv4 0) 0, adCost := 1, adDefaultArea := oaID area\<rparr>)) (ospfAreas process))"

definition advertisementLess :: "advertisement \<Rightarrow> advertisement \<Rightarrow> bool" where
  "advertisementLess a b =
     (if adNode a = adNode b then prefixString (adPrefix a) < prefixString (adPrefix b) else adNode a < adNode b)"

definition ospfAdvertisements :: "engine \<Rightarrow> rib \<Rightarrow> ospf_states \<Rightarrow> ospf_processes \<Rightarrow> advertisement list" where
  "ospfAdvertisements e rib states processes =
     sortSlice advertisementLess
       (interfaceAdvertisements states
        @ concat (map (\<lambda>n. case processes (nodeName n) of
              None \<Rightarrow> []
            | Some p \<Rightarrow> externalAdvertisements e rib states n p @ defaultAdvertisements states n p)
            (topoNodes (idxTopology (engIdx e)))))"

section \<open>Adjacencies\<close>

definition NormalizeNetworkType :: "string \<Rightarrow> string" where
  "NormalizeNetworkType raw = (let t = toLower (trimSpace raw) in if t = ''p2p'' then ''point-to-point'' else t)"

definition NetworkTypesMatchForAdjacency :: "string \<Rightarrow> string \<Rightarrow> bool" where
  "NetworkTypesMatchForAdjacency a b =
     (let ta = NormalizeNetworkType a; tb = NormalizeNetworkType b in if ta = [] \<or> tb = [] then True else ta = tb)"

definition AdjacencyCost ::
    "topology_index \<Rightarrow> string \<Rightarrow> string \<Rightarrow> link \<Rightarrow> ospf_states \<Rightarrow> adjacency_filter \<Rightarrow> (int \<times> string) option" where
  "AdjacencyCost idx from to l states allowed =
     (case InterfaceOnLink idx from (linkName l) of None \<Rightarrow> None | Some fromRef \<Rightarrow>
      (case InterfaceOnLink idx to (linkName l) of None \<Rightarrow> None | Some toRef \<Rightarrow>
       (case map_of (statesOf states from) (refConfigName fromRef) of None \<Rightarrow> None | Some fromState \<Rightarrow>
         if isPassive fromState then None else
         (case map_of (statesOf states to) (refConfigName toRef) of None \<Rightarrow> None | Some toState \<Rightarrow>
           if isPassive toState then None else
           (case allowed fromState toState of None \<Rightarrow> None | Some area \<Rightarrow>
             if \<not> NetworkTypesMatchForAdjacency (isNetworkType fromState) (isNetworkType toState) then None
             else Some (isCost fromState, area))))))"

definition adjacencyLess :: "adjacency \<Rightarrow> adjacency \<Rightarrow> bool" where
  "adjacencyLess a b = (if ajTo a = ajTo b then ajLink a < ajLink b else ajTo a < ajTo b)"

definition ospfAdjacencies :: "topology_index \<Rightarrow> ospf_states \<Rightarrow> adjacency_filter \<Rightarrow> string \<Rightarrow> adjacency list" where
  "ospfAdjacencies idx states allowed from =
     sortSlice adjacencyLess
       (List.map_filter (\<lambda>edge. case AdjacencyCost idx from (adjTo edge) (adjLink edge) states allowed of
            None \<Rightarrow> None
          | Some (cost, area) \<Rightarrow> Some \<lparr>ajFrom = from, ajTo = adjTo edge, ajLink = linkName (adjLink edge),
                                        ajArea = area, ajCost = cost\<rparr>) (idxAdj idx from))"

section \<open>Candidate paths\<close>

definition PathCondition :: "ospf_path \<Rightarrow> cond list" where
  "PathCondition path = map NodeVar (opNodes path) @ map LinkVar (opLinks path)"

record path_item =
  piCost :: int
  piNodes :: "string list"
  piLinks :: "string list"
  piAreas :: "string list"
  piLast :: string

text \<open>The first place where two lists of equal length differ decides.\<close>

fun firstDiffers :: "string list \<Rightarrow> string list \<Rightarrow> bool option" where
  "firstDiffers (a # as) (b # bs) = (if a \<noteq> b then Some (a < b) else firstDiffers as bs)"
| "firstDiffers _ _ = None"

definition pathItemLess :: "path_item \<Rightarrow> path_item \<Rightarrow> bool" where
  "pathItemLess a b =
     (if piCost a \<noteq> piCost b then piCost a < piCost b
      else if length (piNodes a) \<noteq> length (piNodes b) then length (piNodes a) < length (piNodes b)
      else (case firstDiffers (piNodes a) (piNodes b) of
              Some lt \<Rightarrow> lt
            | None \<Rightarrow> length (piNodes a) < length (piNodes b)))"

record frontier_entry =
  fnCost :: int
  fnVisited :: "string list"

definition frontierDominates :: "frontier_entry \<Rightarrow> frontier_entry \<Rightarrow> bool" where
  "frontierDominates a b \<longleftrightarrow> \<not> fnCost b < fnCost a \<and> list_all (\<lambda>k. k \<in> set (fnVisited b)) (fnVisited a)"

record path_search =
  psOut :: "string \<Rightarrow> ospf_path list"
  psFound :: "string \<Rightarrow> nat"
  psFrontier :: "string \<Rightarrow> frontier_entry list"

definition recordPath :: "path_item \<Rightarrow> path_search \<Rightarrow> path_search" where
  "recordPath item st =
     (let dst = piLast item
      in if psFound st dst < MaxPathsPerDestination
         then (let path = \<lparr>opCost = piCost item, opNodes = piNodes item, opLinks = piLinks item, opAreas = piAreas item,
                           opCond = Some (And (PathCondition (emptyPath\<lparr>opNodes := piNodes item, opLinks := piLinks item\<rparr>)))\<rparr>
               in st\<lparr>psOut := (psOut st)(dst := psOut st dst @ [path]),
                     psFound := (psFound st)(dst := psFound st dst + 1)\<rparr>)
         else st)"

definition frontierOf :: "path_item \<Rightarrow> frontier_entry" where
  "frontierOf item = \<lparr>fnCost = piCost item, fnVisited = piNodes item\<rparr>"

definition addFrontier :: "path_item \<Rightarrow> path_search \<Rightarrow> path_search" where
  "addFrontier item st =
     (let curr = frontierOf item
      in st\<lparr>psFrontier := (psFrontier st)(piLast item :=
            curr # filter (\<lambda>x. \<not> frontierDominates curr x) (psFrontier st (piLast item)))\<rparr>)"

definition extendItem :: "path_item \<Rightarrow> adjacency \<Rightarrow> path_item" where
  "extendItem item adj =
     \<lparr>piCost = goInt (piCost item + ajCost adj), piNodes = piNodes item @ [ajTo adj], piLinks = piLinks item @ [ajLink adj],
      piAreas = piAreas item @ [ajArea adj], piLast = ajTo adj\<rparr>"

definition extensions :: "(string \<Rightarrow> adjacency list) \<Rightarrow> path_item \<Rightarrow> path_item list" where
  "extensions adjs item = map (extendItem item) (filter (\<lambda>adj. ajTo adj \<notin> set (piNodes item)) (adjs (piLast item)))"

lemma length_extensions: "x \<in> set (extensions adjs item) \<Longrightarrow> length (piNodes x) = Suc (length (piNodes item))"
  by (auto simp: extensions_def extendItem_def)

lemma mset_heapPushes: "mset (fold (heapPush lt) xs q) = mset xs + mset q"
  by (induction xs arbitrary: q) auto

lemma mult_smaller: "\<forall>x \<in># K. x < (y :: nat) \<Longrightarrow> (K + N, add_mset y N) \<in> mult less_than"
  using one_step_implies_mult [of "{#y#}" K less_than N] by (simp add: add.commute)

text \<open>One pass of the loop: the least item is taken off the queue, recorded, and extended unless it is dominated.\<close>

definition searchStep ::
    "(string \<Rightarrow> adjacency list) \<Rightarrow> nat \<Rightarrow> path_item list \<Rightarrow> path_search \<Rightarrow> path_item list \<times> path_search" where
  "searchStep adjs maxHops q st =
     (let item = fst (heapPop pathItemLess q); rest = snd (heapPop pathItemLess q); st1 = recordPath item st
      in if maxHops \<le> length (piNodes item) then (rest, st1)
         else if list_ex (\<lambda>x. frontierDominates x (frontierOf item)) (psFrontier st1 (piLast item)) then (rest, st1)
         else (fold (heapPush pathItemLess) (extensions adjs item) rest, addFrontier item st1))"

lemma searchStep_smaller:
  assumes "q \<noteq> []"
  shows "(image_mset (\<lambda>i. maxHops - length (piNodes i)) (mset (fst (searchStep adjs maxHops q st))),
    image_mset (\<lambda>i. maxHops - length (piNodes i)) (mset q)) \<in> mult less_than"
proof -
  let ?item = "fst (heapPop pathItemLess q)" and ?rest = "snd (heapPop pathItemLess q)"
  let ?m = "\<lambda>i. maxHops - length (piNodes i)"
  have q: "image_mset ?m (mset q) = add_mset (?m ?item) (image_mset ?m (mset ?rest))"
    using heapPop_mset(1) [OF assms, of pathItemLess] by simp
  have "({#} + image_mset ?m (mset ?rest), image_mset ?m (mset q)) \<in> mult less_than"
    unfolding q by (rule mult_smaller) simp
  moreover have "(image_mset ?m (mset (extensions adjs ?item)) + image_mset ?m (mset ?rest), image_mset ?m (mset q)) \<in> mult less_than"
    if "\<not> maxHops \<le> length (piNodes ?item)"
    unfolding q using that length_extensions [of _ adjs ?item] by (intro mult_smaller) auto
  ultimately show ?thesis by (simp add: searchStep_def Let_def mset_heapPushes)
qed

function candidateLoop ::
    "(string \<Rightarrow> adjacency list) \<Rightarrow> nat \<Rightarrow> path_item list \<Rightarrow> path_search \<Rightarrow> path_search" where
  "candidateLoop adjs maxHops q st =
     (if q = [] then st
      else candidateLoop adjs maxHops (fst (searchStep adjs maxHops q st)) (snd (searchStep adjs maxHops q st)))"
  by pat_completeness auto
termination
proof (relation "inv_image (mult less_than) (\<lambda>(adjs, maxHops, q, st). image_mset (\<lambda>i. maxHops - length (piNodes i)) (mset q))")
  show "wf (inv_image (mult less_than) (\<lambda>(adjs :: string \<Rightarrow> adjacency list, maxHops, q, st :: path_search).
      image_mset (\<lambda>i. maxHops - length (piNodes i)) (mset q)))"
    by (simp add: wf_mult)
qed (simp add: searchStep_smaller split_beta)

declare candidateLoop.simps [simp del]

definition firstHop :: "string \<Rightarrow> adjacency \<Rightarrow> path_item" where
  "firstHop src adj =
     \<lparr>piCost = ajCost adj, piNodes = [src, ajTo adj], piLinks = [ajLink adj], piAreas = [ajArea adj], piLast = ajTo adj\<rparr>"

definition pathLess :: "ospf_path \<Rightarrow> ospf_path \<Rightarrow> bool" where
  "pathLess a b =
     (if opCost a \<noteq> opCost b then opCost a < opCost b else join '','' (opNodes a) < join '','' (opNodes b))"

definition SortPaths :: "ospf_path list \<Rightarrow> ospf_path list" where
  "SortPaths = sortSlice pathLess"

definition candidatePaths :: "(string \<Rightarrow> adjacency list) \<Rightarrow> nat \<Rightarrow> string \<Rightarrow> string \<Rightarrow> ospf_path list" where
  "candidatePaths adjs maxHops src dst =
     SortPaths (psOut (candidateLoop adjs maxHops (fold (heapPush pathItemLess) (map (firstHop src) (adjs src)) [])
       \<lparr>psOut = (\<lambda>_. []), psFound = (\<lambda>_. 0), psFrontier = (\<lambda>_. [])\<rparr>) dst)"

definition ospfCandidatePathsBounded ::
    "topology_index \<Rightarrow> ospf_states \<Rightarrow> adjacency_filter \<Rightarrow> string \<Rightarrow> string \<Rightarrow> ospf_path list" where
  "ospfCandidatePathsBounded idx states allowed src =
     candidatePaths (ospfAdjacencies idx states allowed) (length (topoNodes (idxTopology idx))) src"

definition sameArea :: "string \<Rightarrow> adjacency_filter" where
  "sameArea area a b = (if isArea a \<noteq> area \<or> isArea b \<noteq> area then None else Some area)"

definition anyArea :: adjacency_filter where
  "anyArea a b = (if isArea a \<noteq> isArea b then None else Some (isArea a))"

definition ospfCandidatePaths :: "topology_index \<Rightarrow> ospf_states \<Rightarrow> string \<Rightarrow> string \<Rightarrow> string \<Rightarrow> ospf_path list" where
  "ospfCandidatePaths idx states src area = ospfCandidatePathsBounded idx states (sameArea area) src"

definition ospfCandidatePathsAnyArea :: "topology_index \<Rightarrow> ospf_states \<Rightarrow> string \<Rightarrow> string \<Rightarrow> ospf_path list" where
  "ospfCandidatePathsAnyArea idx states src = ospfCandidatePathsBounded idx states anyArea src"

section \<open>Paths between areas\<close>

definition ZeroPath :: "string \<Rightarrow> string \<Rightarrow> (string \<Rightarrow> ospf_path list) \<Rightarrow> ospf_path" where
  "ZeroPath src dst paths =
     (if src = dst then emptyPath\<lparr>opNodes := [src]\<rparr>
      else case paths dst of [] \<Rightarrow> emptyPath | p # _ \<Rightarrow> p)"

text \<open>The loop of \<open>ConcatPaths\<close> over the parts after the first.\<close>

fun joinParts :: "ospf_path \<Rightarrow> cond list \<Rightarrow> ospf_path list \<Rightarrow> (ospf_path \<times> cond list) option" where
  "joinParts out conds [] = Some (out, conds)"
| "joinParts out conds (p # ps) =
     (if length (opNodes p) = 0 then None
      else if last (opNodes out) \<noteq> hd (opNodes p) then None
      else joinParts \<lparr>opCost = goInt (opCost out + opCost p), opNodes = opNodes out @ tl (opNodes p), opLinks = opLinks out @ opLinks p,
                      opAreas = opAreas out @ opAreas p, opCond = None\<rparr>
             (conds @ (case opCond p of None \<Rightarrow> [] | Some c \<Rightarrow> [c])) ps)"

definition ConcatPaths :: "ospf_path list \<Rightarrow> ospf_path option" where
  "ConcatPaths parts =
     (case parts of
        [] \<Rightarrow> Some emptyPath
      | p # ps \<Rightarrow>
          if length (opNodes p) = 0 then None
          else (case joinParts (p\<lparr>opCond := None\<rparr>) (case opCond p of None \<Rightarrow> [] | Some c \<Rightarrow> [c]) ps of
                  None \<Rightarrow> None
                | Some (out, conds) \<Rightarrow>
                    if \<not> distinct (opNodes out) then None
                    else Some (if 0 < length conds then out\<lparr>opCond := Some (And conds)\<rparr> else out)))"

definition interAreaVia ::
    "topology_index \<Rightarrow> ospf_states \<Rightarrow> (string \<times> string list) list \<Rightarrow> string list \<Rightarrow> string \<Rightarrow> advertisement
       \<Rightarrow> (string \<Rightarrow> ospf_path list) \<Rightarrow> string \<Rightarrow> ospf_path list" where
  "interAreaVia idx states areas abrs src adv srcPaths srcABR =
     (let toSrcABR = ZeroPath src srcABR srcPaths
      in if length (opNodes toSrcABR) = 0 then []
         else List.map_filter (\<lambda>dstABR.
             let toDstABR = ZeroPath srcABR dstABR (ospfCandidatePaths idx states srcABR BackboneArea)
             in if length (opNodes toDstABR) = 0 then None
                else (let toAdv = ZeroPath dstABR (adNode adv) (ospfCandidatePaths idx states dstABR (adArea adv))
                      in if length (opNodes toAdv) = 0 then None else ConcatPaths [toSrcABR, toDstABR, toAdv]))
           (AreaBoundaries (adNode adv) (adArea adv) areas abrs))"

definition ospfInterAreaPaths ::
    "topology_index \<Rightarrow> string \<Rightarrow> advertisement \<Rightarrow> ospf_states \<Rightarrow> (string \<times> string list) list \<Rightarrow> string list \<Rightarrow> ospf_path list" where
  "ospfInterAreaPaths idx src adv states areas abrs =
     (if adArea adv \<in> set (areasAt areas src) then []
      else take MaxPathsPerDestination (SortPaths
        (concat (map (\<lambda>srcArea. concat (map (interAreaVia idx states areas abrs src adv (ospfCandidatePaths idx states src srcArea))
             (AreaBoundaries src srcArea areas abrs))) (sort (areasAt areas src))))))"

section \<open>Installation\<close>

definition remoteRouteType :: "advertisement \<Rightarrow> string \<Rightarrow> string" where
  "remoteRouteType adv routeType =
     (if adExternal adv then (if adMetricType adv = 1 then RouteTypeExternal1 else RouteTypeExternal2) else routeType)"

definition remoteMetric :: "advertisement \<Rightarrow> ospf_path \<Rightarrow> int" where
  "remoteMetric adv path = (if adExternal adv \<and> adMetricType adv \<noteq> 1 then adCost adv else goInt (opCost path + adCost adv))"

definition remoteCond :: "advertisement \<Rightarrow> ospf_path \<Rightarrow> cond" where
  "remoteCond adv path =
     (let c = (case opCond path of None \<Rightarrow> And (PathCondition path) | Some c \<Rightarrow> c)
      in case rbCondition (adSource adv) of None \<Rightarrow> c | Some s \<Rightarrow> And [c, s])"

definition ospfSource :: "string \<Rightarrow> advertisement \<Rightarrow> int \<Rightarrow> string \<Rightarrow> configured_route" where
  "ospfSource n adv metric routeType =
     zeroConfiguredRoute\<lparr>crNode := n, crNetworkInstance := adInstance adv, crAFI := AFIIPv4, crPrefix := adPrefix adv,
       crKind := RouteSourceOSPF, crAdminDistance := AdminDistanceOSPF, crMetric := metric, crOSPFRouteType := routeType\<rparr>"

definition installRemoteOSPFRoute :: "topology_index \<Rightarrow> string \<Rightarrow> advertisement \<Rightarrow> string \<Rightarrow> ospf_path \<Rightarrow> rib \<Rightarrow> rib" where
  "installRemoteOSPFRoute idx src adv routeType path rib =
     (if length (opNodes path) < 2 then rib
      else (let metric = remoteMetric adv path; nextHop = opNodes path ! 1;
                addr = (case PeerAddress idx src nextHop of None \<Rightarrow> [] | Some a \<Rightarrow> addrStr a);
                cond = remoteCond adv path;
                entry = Normalize (zeroRIBEntry\<lparr>rbPrefix := adPrefix adv,
                  rbAttrs := zeroAttrs\<lparr>atOriginCode := BGPOriginIGP, atLocalPref := 100, atMED := metric\<rparr>,
                  rbProvenance := \<lparr>pvOriginNode = adNode adv, pvFromNode = nextHop, pvPathNodes = opNodes path, pvPathLinks = opLinks path\<rparr>,
                  rbNextHop := \<lparr>nhNode = nextHop, nhAddr = addr\<rparr>, rbSourceKind := RouteSourceOSPF,
                  rbRouteSource := ospfSource src adv metric (remoteRouteType adv routeType),
                  rbBaseCond := Some cond, rbCondition := Some cond\<rparr>)
            in addRIB src (adPrefix adv) entry rib))"

definition installLocalOSPFRoute :: "node \<Rightarrow> advertisement \<Rightarrow> (string \<times> iface_state) list \<Rightarrow> rib \<Rightarrow> rib" where
  "installLocalOSPFRoute n adv states rib =
     (let cond = NodeVar (nodeName n);
          entry = Normalize (zeroRIBEntry\<lparr>rbPrefix := adPrefix adv,
            rbAttrs := zeroAttrs\<lparr>atOriginCode := BGPOriginIGP, atLocalPref := 100, atMED := adCost adv\<rparr>,
            rbProvenance := originProvenance (nodeName n), rbSourceKind := RouteSourceOSPF,
            rbRouteSource := (ospfSource (nodeName n) adv (adCost adv) RouteTypeIntraArea)
               \<lparr>crInterface := ospfInterfaceForPrefix states (adPrefix adv)\<rparr>,
            rbBaseCond := Some cond, rbCondition := Some cond\<rparr>)
      in addRIB (nodeName n) (adPrefix adv) entry rib)"

definition installAdvertisement ::
    "topology_index \<Rightarrow> ospf_states \<Rightarrow> ospf_processes \<Rightarrow> (string \<times> string list) list \<Rightarrow> string list \<Rightarrow> node
       \<Rightarrow> advertisement \<Rightarrow> rib \<Rightarrow> rib" where
  "installAdvertisement idx states processes areas abrs src adv rib =
     (let install = (\<lambda>routeType path rib. if AdvertisementAllowed src adv path processes
            then installRemoteOSPFRoute idx (nodeName src) adv routeType path rib else rib)
      in if adNode adv = nodeName src
         then (if adExternal adv \<or> adDefaultArea adv \<noteq> [] then rib
               else installLocalOSPFRoute src adv (statesOf states (nodeName src)) rib)
         else if adExternal adv \<or> adDefaultArea adv \<noteq> []
         then fold (install []) (ospfCandidatePathsAnyArea idx states (nodeName src) (adNode adv)) rib
         else fold (install RouteTypeInterArea) (ospfInterAreaPaths idx (nodeName src) adv states areas abrs)
                (fold (install RouteTypeIntraArea)
                   (if adArea adv \<in> set (areasAt areas (nodeName src))
                    then ospfCandidatePaths idx states (nodeName src) (adArea adv) (adNode adv) else []) rib))"

definition installOSPFRoutesVRF :: "engine \<Rightarrow> network_instance \<Rightarrow> rib \<Rightarrow> rib" where
  "installOSPFRoutesVRF e vrf rib =
     (let idx = engIdx e; processes = ospfProcesses idx vrf; states = ospfInterfaceStates idx vrf processes;
          advertisements = ospfAdvertisements e rib states processes
      in if length advertisements = 0 then rib
         else (let areas = NodeAreas states; abrs = ABRs areas
               in fold (\<lambda>src rib. if processes (nodeName src) = None then rib
                        else fold (installAdvertisement idx states processes areas abrs src) advertisements rib)
                    (topoNodes (idxTopology idx)) rib))"

definition installOSPFRoutes :: "engine \<Rightarrow> rib \<Rightarrow> rib" where
  "installOSPFRoutes e rib = fold (installOSPFRoutesVRF e) (ospfVRFs (engIdx e)) rib"

end
