(* ===== verification/FIB.thy ===== *)
theory FIB
  imports Engine_Laws Float64
begin

text \<open>
  \<open>internal/engine/dataplane/fib.go\<close>: the forwarding tables derived from the routing tables, and
  their lookup. The table \<open>e.fib[node][vrf]\<close> is an association list over pairs. A weight is the
  \<open>float64\<close> that the division yields, given as the rational number it stands for.
\<close>

section \<open>Entries\<close>

record next_hop_entry =
  nheNode :: string
  nheAddress :: string
  nheWeight :: rat

record path =
  pathNodes :: "string list"
  pathLinks :: "string list"
  pathCost :: int

abbreviation (input) NextHopResolutionResolvedAdjacent :: string where
  "NextHopResolutionResolvedAdjacent \<equiv> ''resolved_adjacent''"
abbreviation (input) NextHopResolutionUnresolvedRecursive :: string where
  "NextHopResolutionUnresolvedRecursive \<equiv> ''unresolved_recursive_next_hop''"
abbreviation (input) NextHopResolutionManagementFallback :: string where
  "NextHopResolutionManagementFallback \<equiv> ''next_hop_management_fallback''"

record fib_entry =
  fePrefix :: ipprefix
  feVRF :: string
  feNextHop :: string
  feRawNextHop :: string
  feNextHopAddress :: string
  feInterface :: string
  feStatus :: string
  feReason :: string
  feSourceKind :: string
  feDiscard :: bool
  feConnectedClass :: string
  fePath :: path
  feCondition :: "cond option"
  feRank :: nat
  feGroupID :: string
  feEquivalent :: bool
  feNextHops :: "next_hop_entry list"

type_synonym fib = "((node_id \<times> network_instance) \<times> fib_entry list) list"

definition fibBucket :: "fib \<Rightarrow> node_id \<Rightarrow> network_instance \<Rightarrow> fib_entry list" where
  "fibBucket fib n vrf = (case map_of fib (n, vrf) of None \<Rightarrow> [] | Some es \<Rightarrow> es)"

definition nextHopResolution :: "string \<Rightarrow> string \<Rightarrow> string \<times> string" where
  "nextHopResolution n addr =
     (if n \<noteq> [] then (NextHopResolutionResolvedAdjacent, [])
      else if addr \<noteq> [] then (NextHopResolutionUnresolvedRecursive, ''recursive next-hop unresolved'')
      else ([], []))"

definition effectiveResolutionStatus :: "fib_entry \<Rightarrow> string" where
  "effectiveResolutionStatus entry =
     (if feStatus entry \<noteq> [] then feStatus entry
      else if feNextHop entry = [] \<and> (feRawNextHop entry \<noteq> [] \<or> feNextHopAddress entry \<noteq> [])
        then NextHopResolutionUnresolvedRecursive
      else if parseAddr (feNextHop entry) \<noteq> None then NextHopResolutionUnresolvedRecursive
      else [])"

section \<open>Deriving the tables\<close>

definition fibAdminDistance :: "rib_entry \<Rightarrow> int" where
  "fibAdminDistance raw =
     (let r = Normalize raw; kind = rbSourceKind r
      in if crAdminDistance (rbRouteSource r) \<noteq> AdminDistanceConnected \<or> kind = RouteSourceConnected
           then crAdminDistance (rbRouteSource r)
         else if kind = RouteSourceStatic \<or> kind = RouteSourceBlackhole then AdminDistanceStatic
         else if kind = RouteSourceOSPF then AdminDistanceOSPF
         else AdminDistanceBGP)"

definition fibRouteLess :: "rib_entry \<Rightarrow> rib_entry \<Rightarrow> bool" where
  "fibRouteLess a b =
     (if fibAdminDistance a = fibAdminDistance b then rbSourceKind a < rbSourceKind b
      else fibAdminDistance a < fibAdminDistance b)"

record fib_route_group =
  grRoute :: rib_entry
  grRank :: nat
  grID :: string
  grEquivalent :: bool

definition routeGroupFor ::
    "decision_process \<Rightarrow> node \<Rightarrow> fib_route_group list \<Rightarrow> rib_entry \<Rightarrow> fib_route_group \<times> bool" where
  "routeGroupFor decision n groups r =
     (case List.find (\<lambda>g. Equivalent decision n (grRoute g) r) groups of
        Some g \<Rightarrow> (\<lparr>grRoute = r, grRank = grRank g, grID = grID g, grEquivalent = True\<rparr>, False)
      | None \<Rightarrow> (\<lparr>grRoute = r, grRank = length groups,
                  grID = prefixString (rbPrefix r) @ ''#rank-'' @ natStr (length groups), grEquivalent = False\<rparr>, True))"

definition fibEntryFor :: "topology_index \<Rightarrow> network_instance \<Rightarrow> fib_route_group \<Rightarrow> rib_entry \<Rightarrow> fib_entry" where
  "fibEntryFor idx vrf g r =
     (let h = rbNextHop r; res = nextHopResolution (nhNode h) (nhAddr h)
      in \<lparr>fePrefix = rbPrefix r, feVRF = vrf, feNextHop = nhNode h,
          feRawNextHop = (if nhNode h = [] then nhAddr h else nhNode h), feNextHopAddress = nhAddr h,
          feInterface = crInterface (rbRouteSource r), feStatus = fst res, feReason = snd res,
          feSourceKind = rbSourceKind r, feDiscard = (rbSourceKind r = RouteSourceBlackhole),
          feConnectedClass = crConnectedClass (rbRouteSource r),
          fePath = \<lparr>pathNodes = pvPathNodes (rbProvenance r), pathLinks = pvPathLinks (rbProvenance r),
                    pathCost = PathCost idx (pvPathLinks (rbProvenance r))\<rparr>,
          feCondition = rbSelectedCond r, feRank = grRank g, feGroupID = grID g, feEquivalent = grEquivalent g,
          feNextHops = []\<rparr>)"

text \<open>The state of the loop over the sorted routes of one prefix.\<close>

record derive_state =
  dsEntries :: "fib_entry list"
  dsSeen :: "string list"
  dsInstalled :: "rib_entry list"
  dsGroups :: "fib_route_group list"

definition selectedKey :: "rib_entry \<Rightarrow> string" where
  "selectedKey r = (case rbSelectedCond r of None \<Rightarrow> [] | Some c \<Rightarrow> condKey c)"

definition deriveRoute ::
    "engine \<Rightarrow> device_behavior \<Rightarrow> node \<Rightarrow> network_instance \<Rightarrow> rib_entry \<Rightarrow> derive_state \<Rightarrow> derive_state" where
  "deriveRoute e b n vrf raw st =
     (let r = Normalize raw
      in if selectedKey r \<in> set (dsSeen st) then st
         else if \<not> RouteInstallableInFIB b n (dsInstalled st) r then st
         else (let (g, newGroup) = routeGroupFor (DecisionProcess b) n (dsGroups st) r;
                   marked = (if newGroup then dsEntries st
                             else map (\<lambda>x. if feGroupID x = grID g then x\<lparr>feEquivalent := True\<rparr> else x) (dsEntries st))
               in \<lparr>dsEntries = marked @ [fibEntryFor (engIdx e) vrf g r],
                   dsSeen = selectedKey r # dsSeen st,
                   dsInstalled = dsInstalled st @ [r],
                   dsGroups = (if newGroup then dsGroups st @ [g] else dsGroups st)\<rparr>))"

definition derivePrefix ::
    "engine \<Rightarrow> device_behavior \<Rightarrow> node \<Rightarrow> network_instance \<Rightarrow> rib_entry list \<Rightarrow> fib_entry list \<Rightarrow> fib_entry list" where
  "derivePrefix e b n vrf routes entries =
     dsEntries (fold (deriveRoute e b n vrf) (sortSlice fibRouteLess routes)
                  \<lparr>dsEntries = entries, dsSeen = [], dsInstalled = [], dsGroups = []\<rparr>)"

definition fibEntryLess :: "fib_entry \<Rightarrow> fib_entry \<Rightarrow> bool" where
  "fibEntryLess a b =
     (if pfxBits (fePrefix a) = pfxBits (fePrefix b)
      then (if feRank a = feRank b then pfxStr (fePrefix a) < pfxStr (fePrefix b) else feRank a < feRank b)
      else pfxBits (fePrefix b) < pfxBits (fePrefix a))"

text \<open>The distinct next hops of the entries of a group, and their weights.\<close>

definition nextHopKey :: "fib_entry \<Rightarrow> string" where
  "nextHopKey x = feNextHop x @ ''@'' @ feNextHopAddress x"

definition groupNextHops :: "fib_entry list \<Rightarrow> next_hop_entry list" where
  "groupNextHops members =
     (let distinctHops = collectUnseen nextHopKey [] members
      in map (\<lambda>x. \<lparr>nheNode = feNextHop x, nheAddress = feNextHopAddress x, nheWeight = f64 (1 / f64 (of_nat (length distinctHops)))\<rparr>)
           distinctHops)"

definition populateECMPNextHops :: "fib_entry list \<Rightarrow> fib_entry list" where
  "populateECMPNextHops entries =
     map (\<lambda>x. if feGroupID x = [] then x
               else (let members = filter (\<lambda>y. feGroupID y = feGroupID x) entries
                     in if length members < 2 then x else x\<lparr>feNextHops := groupNextHops members\<rparr>)) entries"

text \<open>The prefixes are visited in the order of the table; the stable sort settles the result.\<close>

definition deriveVRF :: "engine \<Rightarrow> rib \<Rightarrow> node_id \<Rightarrow> network_instance \<Rightarrow> fib_entry list" where
  "deriveVRF e rib nname vrf =
     (let n = engineNode e nname; b = BehaviorFor (engBehaviors e) (nodeKind n)
      in populateECMPNextHops (sortSlice fibEntryLess
           (fold (\<lambda>(k, routes) entries. if fst k = nname \<and> fst (snd k) = vrf then derivePrefix e b n vrf routes entries else entries)
              rib [])))"

definition DeriveFIB :: "engine \<Rightarrow> rib \<Rightarrow> fib \<Rightarrow> fib" where
  "DeriveFIB e rib fib =
     fold (\<lambda>(nname, vrf). AList.update (nname, vrf) (deriveVRF e rib nname vrf))
       (remdups (map (\<lambda>(k, _). (fst k, fst (snd k))) rib)) fib"

section \<open>Lookup\<close>

text \<open>
  The loop of the lookup returns at the first match; calling \<open>Eval\<close> on a \<open>nil\<close> condition panics,
  the value \<open>Inl NilCondition\<close>.
\<close>

fun lookupLoop :: "fail_context \<Rightarrow> ipaddr \<Rightarrow> fib_entry list \<Rightarrow> walk_error + fib_entry option" where
  "lookupLoop ctx ip [] = Inr None"
| "lookupLoop ctx ip (x # xs) =
     (if pfxContains (fePrefix x) ip
      then (case feCondition x of
              None \<Rightarrow> Inl NilCondition
            | Some c \<Rightarrow> if evalCond ctx c then Inr (Some x) else lookupLoop ctx ip xs)
      else lookupLoop ctx ip xs)"

definition LookupFIBVRF :: "fib \<Rightarrow> string \<Rightarrow> string \<Rightarrow> string \<Rightarrow> fail_context \<Rightarrow> walk_error + fib_entry option" where
  "LookupFIBVRF fib n vrf dst ctx =
     (case parseAddr dst of
        None \<Rightarrow> Inr None
      | Some ip \<Rightarrow> lookupLoop ctx ip (fibBucket fib n (NormalizeNetworkInstance vrf)))"

definition LookupFIB :: "fib \<Rightarrow> string \<Rightarrow> string \<Rightarrow> fail_context \<Rightarrow> walk_error + fib_entry option" where
  "LookupFIB fib n dst ctx = LookupFIBVRF fib n NetworkInstanceDefault dst ctx"

section \<open>Order of the tables\<close>

lemma fibEntryLess_chain:
  "fibEntryLess = thenLess (\<lambda>a b. pfxBits (fePrefix b) < pfxBits (fePrefix a))
     (thenLess (\<lambda>a b. feRank a < feRank b) (\<lambda>a b. pfxStr (fePrefix a) < pfxStr (fePrefix b)))"
  by (intro ext) (auto simp: fibEntryLess_def thenLess_def)

interpretation fib_order: less_closure fibEntryLess
  unfolding fibEntryLess_chain by (intro less_closure_then less_closure_key less_closure_key_desc)

text \<open>Lookups see a table only through entries, so the next hops added later do not disturb the order.\<close>

definition fibSorted :: "fib_entry list \<Rightarrow> bool" where
  "fibSorted = sorted_wrt (\<lambda>a b. \<not> fibEntryLess b a)"

lemma fibSorted_populate: "fibSorted xs \<Longrightarrow> fibSorted (populateECMPNextHops xs)"
proof -
  define f where "f x = (if feGroupID x = [] then x
      else let members = filter (\<lambda>y. feGroupID y = feGroupID x) xs
           in if length members < 2 then x else x\<lparr>feNextHops := groupNextHops members\<rparr>)" for x :: fib_entry
  have "fePrefix (f x) = fePrefix x" "feRank (f x) = feRank x" for x :: fib_entry
    by (simp_all add: f_def Let_def)
  then have "fibEntryLess (f a) (f b) = fibEntryLess a b" for a b :: fib_entry
    by (simp add: fibEntryLess_def)
  moreover have "populateECMPNextHops xs = map f xs" unfolding populateECMPNextHops_def f_def ..
  ultimately show "fibSorted xs \<Longrightarrow> ?thesis" by (simp add: fibSorted_def sorted_wrt_map)
qed

lemma fibSorted_deriveVRF: "fibSorted (deriveVRF e rib n vrf)"
  unfolding deriveVRF_def Let_def
  by (rule fibSorted_populate) (simp add: fibSorted_def fib_order.sorted_sortSlice)

lemma fibBucket_DeriveFIB:
  "fibBucket (DeriveFIB e rib fib) n vrf =
     (if (n, vrf) \<in> set (map (\<lambda>(k, _). (fst k, fst (snd k))) rib) then deriveVRF e rib n vrf else fibBucket fib n vrf)"
proof -
  have "fibBucket (fold (\<lambda>(nname, vrf). AList.update (nname, vrf) (deriveVRF e rib nname vrf)) ks fib) n vrf =
      (if (n, vrf) \<in> set ks then deriveVRF e rib n vrf else fibBucket fib n vrf)" for ks
  proof (induction ks arbitrary: fib)
    case (Cons k ks)
    obtain a b where k: "k = (a, b)" by force
    have "fibBucket (AList.update (a, b) (deriveVRF e rib a b) fib) n vrf
        = (if (n, vrf) = (a, b) then deriveVRF e rib a b else fibBucket fib n vrf)"
      by (simp add: fibBucket_def update_conv)
    then show ?case by (auto simp: k Cons.IH)
  qed simp
  then show ?thesis by (simp only: DeriveFIB_def set_remdups)
qed

section \<open>Weights\<close>

lemma sum_list_const: "(\<Sum>x \<leftarrow> xs. c) = of_nat (length xs) * (c :: rat)"
  by (induction xs) (simp_all add: algebra_simps)

text \<open>
  The next hops of an entry: none, or a distribution over distinct hops, up to the rounding of the
  weights.
\<close>

definition ecmpOK :: "fib_entry \<Rightarrow> bool" where
  "ecmpOK x \<longleftrightarrow> feNextHops x = [] \<or>
     \<bar>sum_list (map nheWeight (feNextHops x)) - 1\<bar> \<le> 1 / 2 ^ 51
     \<and> list_all (\<lambda>h. nheWeight h = f64 (1 / f64 (of_nat (length (feNextHops x))))) (feNextHops x) \<and> (\<forall>h \<in> set (feNextHops x). 0 < nheWeight h \<and> nheWeight h \<le> 1)
     \<and> distinct (map (\<lambda>h. nheNode h @ ''@'' @ nheAddress h) (feNextHops x))"

lemma groupNextHops_distribution:
  assumes "members \<noteq> []"
  shows "\<bar>sum_list (map nheWeight (groupNextHops members)) - 1\<bar> \<le> 1 / 2 ^ 51"
    "list_all (\<lambda>h. nheWeight h = f64 (1 / f64 (of_nat (length (groupNextHops members))))) (groupNextHops members)"
    "\<forall>h \<in> set (groupNextHops members). 0 < nheWeight h \<and> nheWeight h \<le> 1"
    "distinct (map (\<lambda>h. nheNode h @ ''@'' @ nheAddress h) (groupNextHops members))"
proof -
  let ?hops = "collectUnseen nextHopKey [] members"
  obtain x xs where "members = x # xs" using assms by (cases members) auto
  then have pos: "0 < length ?hops" by simp
  then show "\<bar>sum_list (map nheWeight (groupNextHops members)) - 1\<bar> \<le> 1 / 2 ^ 51"
    "\<forall>h \<in> set (groupNextHops members). 0 < nheWeight h \<and> nheWeight h \<le> 1"
    using share_error [OF pos] by (simp_all add: groupNextHops_def Let_def o_def sum_list_const)
  show "list_all (\<lambda>h. nheWeight h = f64 (1 / f64 (of_nat (length (groupNextHops members))))) (groupNextHops members)"
    by (simp add: groupNextHops_def Let_def list_all_iff)
  have "map (\<lambda>h. nheNode h @ ''@'' @ nheAddress h) (groupNextHops members) = map nextHopKey ?hops"
    by (simp add: groupNextHops_def Let_def nextHopKey_def)
  then show "distinct (map (\<lambda>h. nheNode h @ ''@'' @ nheAddress h) (groupNextHops members))"
    by (simp only: distinct_keys_collectUnseen)
qed

lemma ecmpOK_populate:
  assumes "\<forall>x \<in> set xs. feNextHops x = []" "x \<in> set (populateECMPNextHops xs)"
  shows "ecmpOK x"
proof -
  obtain y where y: "y \<in> set xs" "x = (if feGroupID y = [] then y
      else let members = filter (\<lambda>z. feGroupID z = feGroupID y) xs
           in if length members < 2 then y else y\<lparr>feNextHops := groupNextHops members\<rparr>)"
    using assms(2) unfolding populateECMPNextHops_def by auto
  let ?members = "filter (\<lambda>z. feGroupID z = feGroupID y) xs"
  show ?thesis
  proof (cases "feGroupID y = [] \<or> length ?members < 2")
    case True
    then have "feNextHops x = []" using y assms(1) by (auto simp: Let_def)
    then show ?thesis by (simp add: ecmpOK_def)
  next
    case False
    then have x: "feNextHops x = groupNextHops ?members" using y(2) by (simp add: Let_def)
    have "?members \<noteq> []" using y(1) by (auto simp: filter_empty_conv)
    then show ?thesis unfolding ecmpOK_def x using groupNextHops_distribution by blast
  qed
qed

definition noHops :: "fib_entry list \<Rightarrow> bool" where
  "noHops es \<longleftrightarrow> (\<forall>x \<in> set es. feNextHops x = [])"

lemma noHops_simps [simp]:
  "noHops []" "noHops (x # xs) \<longleftrightarrow> feNextHops x = [] \<and> noHops xs" "noHops (xs @ ys) \<longleftrightarrow> noHops xs \<and> noHops ys"
  "noHops (sortSlice lt xs) = noHops xs"
  by (auto simp: noHops_def)

lemma noHops_map: "(\<And>x. feNextHops (f x) = feNextHops x) \<Longrightarrow> noHops (map f xs) = noHops xs"
  by (simp add: noHops_def)

lemma deriveRoute_no_hops:
  assumes "noHops (dsEntries st)"
  shows "noHops (dsEntries (deriveRoute e b n vrf r st))"
proof -
  obtain g newGroup where g: "routeGroupFor (DecisionProcess b) n (dsGroups st) (Normalize r) = (g, newGroup)" by force
  let ?marked = "if newGroup then dsEntries st
      else map (\<lambda>x. if feGroupID x = grID g then x\<lparr>feEquivalent := True\<rparr> else x) (dsEntries st)"
  have step: "dsEntries (deriveRoute e b n vrf r st) = dsEntries st
      \<or> dsEntries (deriveRoute e b n vrf r st) = ?marked @ [fibEntryFor (engIdx e) vrf g (Normalize r)]"
    unfolding deriveRoute_def Let_def g prod.case by simp
  have "feNextHops (fibEntryFor (engIdx e) vrf g (Normalize r)) = []"
    by (simp add: fibEntryFor_def Let_def)
  moreover have "noHops ?marked" using assms by (subst if_distrib [of noHops], subst noHops_map) simp_all
  ultimately have "noHops (?marked @ [fibEntryFor (engIdx e) vrf g (Normalize r)])" by simp
  with step show ?thesis using assms by (elim disjE) (simp_all only:)
qed

lemma deriveRoutes_no_hops:
  "noHops (dsEntries st) \<Longrightarrow> noHops (dsEntries (fold (deriveRoute e b n vrf) rs st))"
  by (induction rs arbitrary: st) (simp, simp only: fold_Cons o_apply deriveRoute_no_hops)

lemma derivePrefix_no_hops: "noHops entries \<Longrightarrow> noHops (derivePrefix e b n vrf routes entries)"
  unfolding derivePrefix_def by (rule deriveRoutes_no_hops) simp

lemma deriveVRF_ecmpOK: "x \<in> set (deriveVRF e rib n vrf) \<Longrightarrow> ecmpOK x"
proof -
  define nd where "nd = engineNode e n"
  define step where "step = (\<lambda>(k :: rib_key, routes) entries.
      if fst k = n \<and> fst (snd k) = vrf then derivePrefix e (BehaviorFor (engBehaviors e) (nodeKind nd)) nd vrf routes entries else entries)"
  have "noHops (fold step rib [])"
    by (rule fold_invariant [where Q = "\<lambda>_. True"]) (auto simp: step_def derivePrefix_no_hops)
  then have "noHops (sortSlice fibEntryLess (fold step rib []))" by simp
  moreover assume "x \<in> set (deriveVRF e rib n vrf)"
  then have "x \<in> set (populateECMPNextHops (sortSlice fibEntryLess (fold step rib [])))"
    unfolding deriveVRF_def Let_def step_def nd_def .
  ultimately show ?thesis unfolding noHops_def by (rule ecmpOK_populate)
qed

lemma fibBucket_derived: "fibBucket (DeriveFIB e rib []) n vrf \<in> {[], deriveVRF e rib n vrf}"
  by (simp add: fibBucket_DeriveFIB) (simp add: fibBucket_def)

section \<open>Lookup finds the best usable entry\<close>

definition usable :: "fail_context \<Rightarrow> ipaddr \<Rightarrow> fib_entry \<Rightarrow> bool" where
  "usable ctx ip x \<longleftrightarrow> pfxContains (fePrefix x) ip \<and> (\<exists>c. feCondition x = Some c \<and> evalCond ctx c)"

lemma lookupLoop_first:
  "lookupLoop ctx ip es = Inr res \<Longrightarrow>
     (case res of
        None \<Rightarrow> \<forall>y \<in> set es. \<not> usable ctx ip y
      | Some x \<Rightarrow> \<exists>pre post. es = pre @ x # post \<and> usable ctx ip x \<and> (\<forall>y \<in> set pre. \<not> usable ctx ip y))"
proof (induction es)
  case (Cons y ys)
  show ?case
  proof (cases "usable ctx ip y")
    case True
    then have "res = Some y" using Cons.prems by (auto simp: usable_def split: if_splits)
    moreover have "y # ys = [] @ y # ys" by simp
    ultimately show ?thesis using True by fastforce
  next
    case False
    then have "lookupLoop ctx ip ys = Inr res"
      using Cons.prems by (auto simp: usable_def split: if_splits option.splits)
    then have IH: "case res of None \<Rightarrow> \<forall>y \<in> set ys. \<not> usable ctx ip y
        | Some x \<Rightarrow> \<exists>pre post. ys = pre @ x # post \<and> usable ctx ip x \<and> (\<forall>y \<in> set pre. \<not> usable ctx ip y)"
      by (rule Cons.IH)
    show ?thesis
    proof (cases res)
      case (Some x)
      then obtain pre post where "ys = pre @ x # post" "usable ctx ip x" "\<forall>z \<in> set pre. \<not> usable ctx ip z"
        using IH by auto
      then have "y # ys = (y # pre) @ x # post" "\<forall>z \<in> set (y # pre). \<not> usable ctx ip z" using False by simp_all
      then show ?thesis unfolding Some option.case using \<open>usable ctx ip x\<close> by blast
    qed (use IH False in simp)
  qed
qed simp

text \<open>An entry is better than another when its prefix is longer, or equally long with a lower rank.\<close>

definition betterEntry :: "fib_entry \<Rightarrow> fib_entry \<Rightarrow> bool" where
  "betterEntry y x \<longleftrightarrow> pfxBits (fePrefix x) < pfxBits (fePrefix y)
     \<or> pfxBits (fePrefix x) = pfxBits (fePrefix y) \<and> feRank y < feRank x"

lemma lookupLoop_best:
  assumes "fibSorted es" "lookupLoop ctx ip es = Inr res"
  shows "case res of
      None \<Rightarrow> \<forall>y \<in> set es. \<not> usable ctx ip y
    | Some x \<Rightarrow> x \<in> set es \<and> usable ctx ip x \<and> (\<forall>y \<in> set es. usable ctx ip y \<longrightarrow> \<not> betterEntry y x)"
proof (cases res)
  case None
  then show ?thesis using lookupLoop_first [OF assms(2)] by simp
next
  case (Some x)
  then obtain pre post where es: "es = pre @ x # post" "usable ctx ip x" "\<forall>y \<in> set pre. \<not> usable ctx ip y"
    using lookupLoop_first [OF assms(2)] by auto
  have "\<not> fibEntryLess y x" if "y \<in> set (x # post)" for y
    using that assms(1) fib_order.less_irrefl by (auto simp: fibSorted_def es(1) sorted_wrt_append)
  then have "\<not> betterEntry y x" if "y \<in> set (x # post)" for y
    using that by (force simp: betterEntry_def fibEntryLess_def)
  then show ?thesis using es Some by auto
qed

section \<open>An example\<close>

text \<open>Two routes of one router, the one for the longer prefix usable while a link is up.\<close>

definition exampleStatic :: "prefix \<Rightarrow> cond \<Rightarrow> rib_entry" where
  "exampleStatic p c = zeroRIBEntry\<lparr>rbPrefix := p, rbSourceKind := RouteSourceStatic,
     rbNextHop := \<lparr>nhNode = ''b'', nhAddr = []\<rparr>, rbSelectedCond := Some c\<rparr>"

definition exampleWide :: prefix where "exampleWide = IPPrefix (IPv4 0x0A000000) 8"
definition exampleNarrow :: prefix where "exampleNarrow = IPPrefix (IPv4 0x0A010000) 16"

definition exampleRIB :: rib where
  "exampleRIB = [((''a'', NetworkInstanceDefault, exampleWide), [exampleStatic exampleWide (NodeVar ''a'')]),
     ((''a'', NetworkInstanceDefault, exampleNarrow), [exampleStatic exampleNarrow (LinkVar ''a-b'')])]"

lemma derive_single:
  "RouteInstallableInFIB b n [] (Normalize r) \<Longrightarrow> derivePrefix e b n vrf [r] entries = entries @ [fibEntryFor (engIdx e) vrf
     \<lparr>grRoute = Normalize r, grRank = 0, grID = prefixString (rbPrefix r) @ ''#rank-'' @ natStr 0, grEquivalent = False\<rparr> (Normalize r)]"
  by (simp add: derivePrefix_def sortSlice_def deriveRoute_def routeGroupFor_def Let_def)


lemma installable_example: "RouteInstallableInFIB FRRBehavior n [] (Normalize (exampleStatic p c))"
  by (simp add: exampleStatic_def EquivalentInstalledRoute_def baseRouteValidForRIB_def zeroRIBEntry_def zeroAttrs_def)

lemma examplePrefixes_differ: "prefixString exampleNarrow \<noteq> prefixString exampleWide"
proof -
  have "isV4Prefix exampleNarrow" "isV4Prefix exampleWide" "exampleNarrow \<noteq> exampleWide" "\<not> prefixIsZero exampleNarrow" "\<not> prefixIsZero exampleWide"
    by (simp_all add: exampleNarrow_def exampleWide_def prefix_eval)
  then show ?thesis by (simp add: prefixString_def pfxStr_inject_v4)
qed

lemma exampleEngine_a: "engineNode (exampleEngine KindFRR KindFRR) ''a'' = exampleNode ''a'' KindFRR 1 ''b''"
  "BehaviorFor (engBehaviors (exampleEngine KindFRR KindFRR)) (nodeKind (exampleNode ''a'' KindFRR 1 ''b'')) = FRRBehavior"
  by (simp_all add: engineNode_def exampleEngine_def exampleIndex_def exampleNode_def BehaviorFor_def builtinBehaviors_def)

definition exampleEntry :: "prefix \<Rightarrow> cond \<Rightarrow> fib_entry" where
  "exampleEntry p c = fibEntryFor (engIdx (exampleEngine KindFRR KindFRR)) NetworkInstanceDefault
     \<lparr>grRoute = Normalize (exampleStatic p c), grRank = 0, grID = prefixString p @ ''#rank-'' @ natStr 0,
      grEquivalent = False\<rparr> (Normalize (exampleStatic p c))"

lemma exampleEntry: "fePrefix (exampleEntry p c) = p" "feRank (exampleEntry p c) = 0" "feCondition (exampleEntry p c) = Some c"
   "feGroupID (exampleEntry p c) = prefixString p @ ''#rank-'' @ natStr 0"
  by (simp_all add: exampleEntry_def fibEntryFor_def Let_def exampleStatic_def)


lemma derive_example: "derivePrefix (exampleEngine KindFRR KindFRR) FRRBehavior n NetworkInstanceDefault [exampleStatic p c] entries
    = entries @ [exampleEntry p c]"
proof -
  have "rbPrefix (exampleStatic p c) = p" by (simp add: exampleStatic_def)
  then show ?thesis using derive_single [OF installable_example] by (simp only: exampleEntry_def)
qed

lemma deriveVRF_example: "deriveVRF (exampleEngine KindFRR KindFRR) exampleRIB ''a'' NetworkInstanceDefault
    = [exampleEntry exampleNarrow (LinkVar ''a-b''), exampleEntry exampleWide (NodeVar ''a'')]"
proof -
  have less: "fibEntryLess (exampleEntry exampleNarrow (LinkVar ''a-b'')) (exampleEntry exampleWide (NodeVar ''a''))"
    by (simp add: fibEntryLess_def exampleEntry exampleNarrow_def exampleWide_def)
  show ?thesis
    unfolding deriveVRF_def Let_def exampleEngine_a exampleRIB_def
    by (simp add: derive_example sortSlice_def less populateECMPNextHops_def exampleEntry examplePrefixes_differ examplePrefixes_differ [symmetric])
qed

lemma fibBucket_example: "fibBucket (DeriveFIB (exampleEngine KindFRR KindFRR) exampleRIB []) ''a'' NetworkInstanceDefault
   = [exampleEntry exampleNarrow (LinkVar ''a-b''), exampleEntry exampleWide (NodeVar ''a'')]"
  by (subst fibBucket_DeriveFIB) (simp add: deriveVRF_example, simp add: exampleRIB_def)

section \<open>Properties\<close>

text \<open>
  C31 (equal-cost next hops). In the table \<open>DeriveFIB\<close> makes for a node and instance, the next hops
  of every entry are either none or a distribution up to rounding: distinct hops, each with the
  \<open>float64\<close> nearest to one divided by their number, which is positive and at most 1; the exact sum of
  these weights differs from 1 by at most 2 to the -51.
\<close>

theorem DeriveFIB_weights:
  "list_all (\<lambda>x. feNextHops x = [] \<or>
     \<bar>sum_list (map nheWeight (feNextHops x)) - 1\<bar> \<le> 1 / 2 ^ 51
     \<and> list_all (\<lambda>h. nheWeight h = f64 (1 / f64 (of_nat (length (feNextHops x))))) (feNextHops x)
     \<and> list_all (\<lambda>h. 0 < nheWeight h \<and> nheWeight h \<le> 1) (feNextHops x)
     \<and> distinct (map (\<lambda>h. nheNode h @ ''@'' @ nheAddress h) (feNextHops x))) (fibBucket (DeriveFIB e rib []) n vrf)"
proof -
  have "\<forall>x \<in> set (fibBucket (DeriveFIB e rib []) n vrf). ecmpOK x"
    using deriveVRF_ecmpOK fibBucket_derived [of e rib n vrf] by auto
  then show ?thesis by (simp add: ecmpOK_def list_all_iff)
qed

text \<open>
  C16 (longest prefix match). Looking an address up in the table \<open>DeriveFIB\<close> made answers an entry
  that covers the address, is in use under the failures, and has the longest prefix, and among these
  the best rank, of all such entries; no answer means that no entry in use covers the address.
\<close>

theorem DeriveFIB_longest_match:
  assumes "LookupFIBVRF (DeriveFIB e rib []) n vrf dst ctx = Inr res" "parseAddr dst = Some ip"
    and "es = fibBucket (DeriveFIB e rib []) n (NormalizeNetworkInstance vrf)"
  shows "case res of
      None \<Rightarrow> \<forall>y \<in> set es. \<not> usable ctx ip y
    | Some x \<Rightarrow> x \<in> set es \<and> usable ctx ip x \<and> (\<forall>y \<in> set es. usable ctx ip y \<longrightarrow> \<not> betterEntry y x)"
proof (rule lookupLoop_best)
  show "fibSorted es"
    using fibBucket_derived [of e rib n "NormalizeNetworkInstance vrf"] fibSorted_deriveVRF
    by (auto simp: assms(3) fibSorted_def)
  show "lookupLoop ctx ip es = Inr res" using assms by (simp add: LookupFIBVRF_def)
qed

theorem DeriveFIB_longest_match_witness:
  "LookupFIB (DeriveFIB (exampleEngine KindFRR KindFRR) exampleRIB []) ''a'' ''10.1.2.3'' \<lparr>Failures = noFailures, LinksByName = Map.empty\<rparr>
     = Inr (Some (exampleEntry exampleNarrow (LinkVar ''a-b'')))
    \<and> usable \<lparr>Failures = noFailures, LinksByName = Map.empty\<rparr> (IPv4 0x0A010203) (exampleEntry exampleWide (NodeVar ''a''))
    \<and> \<not> betterEntry (exampleEntry exampleWide (NodeVar ''a'')) (exampleEntry exampleNarrow (LinkVar ''a-b''))"
proof -
  let ?ctx = "\<lparr>Failures = noFailures, LinksByName = Map.empty\<rparr>"
  have ip: "parseAddr ''10.1.2.3'' = Some (IPv4 0x0A010203)"
    by (simp add: parseAddr_def parse4_def parseOctet_def plainNumber_def isDigit_def digitVal_def decVal_def word4_def)
  have vrf: "NormalizeNetworkInstance NetworkInstanceDefault = NetworkInstanceDefault" by code_simp
  have contains: "pfxContains exampleNarrow (IPv4 0x0A010203)" by (simp add: exampleNarrow_def prefix_eval)
  have up: "evalCond ?ctx (LinkVar ''a-b'')" by (simp add: LinkVar_def LinkFailed_def noFailures_def)
  have x: "LookupFIBVRF (DeriveFIB (exampleEngine KindFRR KindFRR) exampleRIB []) ''a'' NetworkInstanceDefault ''10.1.2.3'' ?ctx
      = Inr (Some (exampleEntry exampleNarrow (LinkVar ''a-b'')))"
    by (simp only: LookupFIBVRF_def ip vrf fibBucket_example option.case) (simp add: exampleEntry contains up)
  have "pfxContains exampleWide (IPv4 0x0A010203)" by (simp add: exampleWide_def prefix_eval)
  then have wide: "usable ?ctx (IPv4 0x0A010203) (exampleEntry exampleWide (NodeVar ''a''))"
    by (simp add: usable_def exampleEntry NodeVar_def NodeFailed_def noFailures_def)
  have "exampleEntry exampleWide (NodeVar ''a'')
      \<in> set (fibBucket (DeriveFIB (exampleEngine KindFRR KindFRR) exampleRIB []) ''a'' NetworkInstanceDefault)"
    by (simp only: fibBucket_example list.set insertI1 insertI2)
  then show ?thesis
    using wide DeriveFIB_longest_match [OF x ip refl, unfolded vrf option.case] x unfolding LookupFIB_def by blast
qed

end
