(* ===== verification/OSPF_Paths.thy ===== *)
theory OSPF_Paths
  imports OSPF Engine_Laws FIB
begin

text \<open>
  The candidate paths of OSPF: what the bounded enumeration finds. Its queue orders the partial
  paths by a strict weak order, so the heap serves the cheapest first; every path it records is a
  simple chain of adjacencies, and the first one is a cheapest. The frontier that prunes dominated
  prefixes keeps the cheapest path but not the alternates.
\<close>

section \<open>The order of the queue\<close>

lemma firstDiffers_lex:
  "length as = length bs \<Longrightarrow> (case firstDiffers as bs of Some lt \<Rightarrow> lt | None \<Rightarrow> False) \<longleftrightarrow> as < bs"
  by (induction as bs rule: list_induct2) auto

lemma pathItemLess_lex: "pathItemLess a b \<longleftrightarrow> piCost a < piCost b \<or> piCost a = piCost b
    \<and> (length (piNodes a) < length (piNodes b) \<or> length (piNodes a) = length (piNodes b) \<and> piNodes a < piNodes b)"
  using firstDiffers_lex [of "piNodes a" "piNodes b"] by (auto simp: pathItemLess_def split: option.splits)

interpretation pathQueue: less_closure pathItemLess
  unfolding pathItemLess_lex [abs_def] by (intro closure_lex closure_key)

lemma pathItemLess_cost: "\<not> pathItemLess y x \<Longrightarrow> piCost x \<le> piCost y"
  by (auto simp: pathItemLess_lex)

lemma pathLess_lex: "pathLess a b \<longleftrightarrow> opCost a < opCost b \<or> opCost a = opCost b \<and> join '','' (opNodes a) < join '','' (opNodes b)"
  by (simp add: pathLess_def)

interpretation pathOrder: less_closure pathLess
  unfolding pathLess_lex [abs_def] by (intro closure_lex closure_key)

section \<open>Simple chains\<close>

inductive grown :: "(string \<Rightarrow> adjacency list) \<Rightarrow> string \<Rightarrow> path_item \<Rightarrow> bool" for adjs src where
  first: "adj \<in> set (adjs src) \<Longrightarrow> grown adjs src (firstHop src adj)"
| extend: "grown adjs src item \<Longrightarrow> adj \<in> set (adjs (piLast item)) \<Longrightarrow> ajTo adj \<notin> set (piNodes item)
    \<Longrightarrow> grown adjs src (extendItem item adj)"

lemma grown_extensions: "grown adjs src item \<Longrightarrow> x \<in> set (extensions adjs item) \<Longrightarrow> grown adjs src x"
  by (auto simp: extensions_def intro: grown.extend)

text \<open>The prefixes of a chain, shortest first.\<close>

inductive trail :: "(string \<Rightarrow> adjacency list) \<Rightarrow> string \<Rightarrow> path_item list \<Rightarrow> bool" for adjs src where
  one: "adj \<in> set (adjs src) \<Longrightarrow> trail adjs src [firstHop src adj]"
| more: "trail adjs src xs \<Longrightarrow> adj \<in> set (adjs (piLast (last xs))) \<Longrightarrow> ajTo adj \<notin> set (piNodes (last xs))
    \<Longrightarrow> trail adjs src (xs @ [extendItem (last xs) adj])"

lemma grown_trail: "grown adjs src x \<Longrightarrow> \<exists>xs. trail adjs src xs \<and> last xs = x"
proof (induction rule: grown.induct)
  case (first adj)
  then show ?case using trail.one by (intro exI [of _ "[firstHop src adj]"]) simp
next
  case (extend item adj)
  then obtain xs where "trail adjs src xs" "last xs = item" by blast
  then show ?case using extend.hyps trail.more [of adjs src xs adj] by (intro exI [of _ "xs @ [extendItem item adj]"]) simp
qed

lemma trail_nonempty: "trail adjs src xs \<Longrightarrow> xs \<noteq> []"
  by (induction rule: trail.induct) auto

lemma trail_first: "trail adjs src xs \<Longrightarrow> \<exists>adj \<in> set (adjs src). xs ! 0 = firstHop src adj"
  by (induction rule: trail.induct) (auto simp: nth_append dest: trail_nonempty)

lemma trail_next:
  "trail adjs src xs \<Longrightarrow> Suc i < length xs \<Longrightarrow>
    \<exists>adj \<in> set (adjs (piLast (xs ! i))). ajTo adj \<notin> set (piNodes (xs ! i)) \<and> xs ! Suc i = extendItem (xs ! i) adj"
proof (induction rule: trail.induct)
  case (more xs adj)
  show ?case
  proof (cases "Suc i < length xs")
    case False
    then have i: "i = length xs - 1" using more.prems by simp
    then have "last xs = xs ! i" using trail_nonempty [OF more.hyps(1)] by (simp add: last_conv_nth)
    then show ?thesis using more.hyps more.prems False trail_nonempty [OF more.hyps(1)]
      by (auto simp: nth_append intro!: bexI [of _ adj])
  qed (use more in \<open>simp add: nth_append\<close>)
qed simp

lemma trail_grown: "trail adjs src xs \<Longrightarrow> i < length xs \<Longrightarrow> grown adjs src (xs ! i)"
proof (induction arbitrary: i rule: trail.induct)
  case (more xs adj)
  have ne: "xs \<noteq> []" using trail_nonempty [OF more.hyps(1)] .
  then have "grown adjs src (last xs)" using more.IH [of "length xs - 1"] by (simp add: last_conv_nth)
  then show ?case using more by (cases "i < length xs") (auto simp: nth_append less_Suc_eq intro: grown.extend)
qed (auto intro: grown.first)

lemma trail_nodes:
  assumes "trail adjs src xs"
  shows "i \<le> j \<Longrightarrow> j < length xs \<Longrightarrow> set (piNodes (xs ! i)) \<subseteq> set (piNodes (xs ! j))"
proof (induction j)
  case (Suc j)
  then show ?case using trail_next [OF assms Suc.prems(2)] by (cases "i = Suc j") (auto simp: extendItem_def)
qed simp

lemma trail_last: "trail adjs src xs \<Longrightarrow> i < length xs \<Longrightarrow> piLast (xs ! i) \<in> set (piNodes (xs ! i))"
  by (cases i) (use trail_first [of adjs src xs] trail_next [of adjs src xs "i - 1"] in \<open>auto simp: firstHop_def extendItem_def\<close>)

lemma trail_apart:
  assumes "trail adjs src xs" "i < j" "j < length xs"
  shows "piLast (xs ! j) \<noteq> piLast (xs ! i)"
proof -
  obtain k where k: "j = Suc k" using assms(2) by (cases j) auto
  then obtain adj where "ajTo adj \<notin> set (piNodes (xs ! k))" "xs ! j = extendItem (xs ! k) adj"
    using trail_next [OF assms(1)] assms(3) by auto
  moreover have "piLast (xs ! i) \<in> set (piNodes (xs ! k))"
    using trail_last [OF assms(1), of i] trail_nodes [OF assms(1), of i k] assms(2,3) k by auto
  ultimately show ?thesis by (auto simp: extendItem_def)
qed


section \<open>What the search records\<close>

definition pathOf :: "path_item \<Rightarrow> ospf_path" where
  "pathOf x = \<lparr>opCost = piCost x, opNodes = piNodes x, opLinks = piLinks x, opAreas = piAreas x,
     opCond = Some (And (map NodeVar (piNodes x) @ map LinkVar (piLinks x)))\<rparr>"

lemma recordPath_eq: "recordPath x st =
    (if psFound st (piLast x) < MaxPathsPerDestination
     then st\<lparr>psOut := (psOut st)(piLast x := psOut st (piLast x) @ [pathOf x]),
             psFound := (psFound st)(piLast x := psFound st (piLast x) + 1)\<rparr> else st)"
  by (simp add: recordPath_def Let_def pathOf_def PathCondition_def emptyPath_def)

text \<open>What every pass keeps holds at the end, with an empty queue.\<close>

lemma candidateLoop_invariant:
  assumes "P q st"
    and "\<forall>q st. q \<noteq> [] \<longrightarrow> P q st \<longrightarrow> P (fst (searchStep adjs maxHops q st)) (snd (searchStep adjs maxHops q st))"
  shows "P [] (candidateLoop adjs maxHops q st)"
  using assms
proof (induction adjs maxHops q st rule: candidateLoop.induct)
  case (1 adjs maxHops q st)
  show ?case
  proof (cases "q = []")
    case True
    then show ?thesis using "1.prems"(1) by (simp add: candidateLoop.simps [of adjs maxHops "[]" st])
  next
    case False
    then show ?thesis using 1 by (simp add: candidateLoop.simps [of adjs maxHops q st])
  qed
qed

text \<open>
  Adjacencies as the search needs them: costs are not negative and so small that those of a simple
  path add up to a Go \<open>int\<close>, no node is its own neighbour, and the nodes fit in the bound of hops.
\<close>

definition costRoom :: "nat \<Rightarrow> int" where
  "costRoom k = (2 ^ 63 - 1) div int k"

lemma costRoom_fits: "l \<le> k \<Longrightarrow> 0 < k \<Longrightarrow> costRoom k * int l < 2 ^ 63"
proof -
  assume "l \<le> k" "0 < k"
  then have "costRoom k * int l \<le> costRoom k * int k" by (intro mult_left_mono) (auto simp: costRoom_def pos_imp_zdiv_nonneg_iff)
  also have "\<dots> = 2 ^ 63 - 1 - (2 ^ 63 - 1) mod int k" by (simp only: costRoom_def minus_mod_eq_div_mult)
  also have "\<dots> \<le> 2 ^ 63 - 1" using pos_mod_sign [of "int k" "2 ^ 63 - 1"] \<open>0 < k\<close> by simp
  finally show ?thesis by simp
qed

locale path_graph =
  fixes adjs :: "string \<Rightarrow> adjacency list" and src :: string and maxHops :: nat and N :: "string set"
  assumes cost_range: "adj \<in> set (adjs n) \<Longrightarrow> 0 \<le> ajCost adj \<and> ajCost adj \<le> costRoom maxHops"
    and no_self: "adj \<in> set (adjs n) \<Longrightarrow> ajTo adj \<noteq> n"
    and inside: "adj \<in> set (adjs n) \<Longrightarrow> n \<in> N \<and> ajTo adj \<in> N"
    and small: "finite N" "card N \<le> maxHops"
begin

abbreviation chain :: "path_item \<Rightarrow> bool" where "chain \<equiv> grown adjs src"

lemma chain_nodes:
  "chain x \<Longrightarrow> distinct (piNodes x) \<and> set (piNodes x) \<subseteq> N \<and> hd (piNodes x) = src \<and> piNodes x \<noteq> [] \<and> piLast x = last (piNodes x)
    \<and> length (piLinks x) + 1 = length (piNodes x)"
  by (induction rule: grown.induct) (use inside no_self in \<open>auto simp: firstHop_def extendItem_def\<close>)

lemma chain_last: "chain x \<Longrightarrow> piLast x \<in> set (piNodes x)"
  using chain_nodes [of x] by simp

lemma chain_length:
  assumes "chain x"
  shows "length (piNodes x) \<le> maxHops"
proof -
  have "card (set (piNodes x)) = length (piNodes x)" using chain_nodes [OF assms] by (simp add: distinct_card)
  moreover have "card (set (piNodes x)) \<le> card N" using chain_nodes [OF assms] small(1) by (intro card_mono) auto
  ultimately show ?thesis using small(2) by simp
qed

text \<open>The costs of a chain add up without overflow.\<close>

lemma chain_cost: "chain x \<Longrightarrow> 0 \<le> piCost x \<and> piCost x \<le> costRoom maxHops * int (length (piLinks x))"
proof (induction rule: grown.induct)
  case (first adj)
  then show ?case using cost_range by (simp add: firstHop_def)
next
  case (extend item adj)
  let ?k = "length (piLinks item) + 1"
  have k: "?k \<le> maxHops" using chain_length [OF extend.hyps(1)] chain_nodes [OF extend.hyps(1)] by simp
  have c: "0 \<le> ajCost adj" "ajCost adj \<le> costRoom maxHops" using cost_range [OF extend.hyps(2)] by auto
  have sum: "piCost item + ajCost adj \<le> costRoom maxHops * int ?k" using extend.IH c by (simp add: algebra_simps)
  also have "\<dots> < 2 ^ 63" using costRoom_fits [OF k] k by simp
  finally have "goInt (piCost item + ajCost adj) = piCost item + ajCost adj" using extend.IH c by (intro goInt_id) auto
  then show ?case using sum extend.IH c by (simp add: extendItem_def)
qed

lemma extend_cost:
  assumes "chain x" "adj \<in> set (adjs (piLast x))"
  shows "piCost (extendItem x adj) = piCost x + ajCost adj"
proof -
  let ?k = "length (piLinks x) + 1"
  have k: "?k \<le> maxHops" using chain_length [OF assms(1)] chain_nodes [OF assms(1)] by simp
  have c: "0 \<le> ajCost adj" "ajCost adj \<le> costRoom maxHops" using cost_range [OF assms(2)] by auto
  have "piCost x + ajCost adj \<le> costRoom maxHops * int ?k" using chain_cost [OF assms(1)] c by (simp add: algebra_simps)
  also have "\<dots> < 2 ^ 63" using costRoom_fits [OF k] k by simp
  finally show ?thesis using chain_cost [OF assms(1)] c by (simp add: extendItem_def goInt_id)
qed

text \<open>The invariant of the queue and of the recorded paths.\<close>

definition recorded :: "path_item list \<Rightarrow> path_search \<Rightarrow> bool" where
  "recorded q st \<longleftrightarrow> isHeap pathItemLess q \<and> (\<forall>y \<in> set q. chain y)
     \<and> (\<forall>d. psFound st d = length (psOut st d) \<and> length (psOut st d) \<le> MaxPathsPerDestination
          \<and> (\<forall>p \<in> set (psOut st d). \<exists>x. chain x \<and> piLast x = d \<and> p = pathOf x))
     \<and> (\<forall>d. \<forall>p \<in> set (psOut st d). \<forall>y \<in> set q. opCost p \<le> piCost y)"

lemma recordPath_recorded:
  assumes "recorded q st" "q \<noteq> []"
  shows "recorded (snd (heapPop pathItemLess q)) (recordPath (fst (heapPop pathItemLess q)) st)"
    and "\<forall>d. \<forall>p \<in> set (psOut (recordPath (fst (heapPop pathItemLess q)) st) d). opCost p \<le> piCost (fst (heapPop pathItemLess q))"
proof -
  let ?item = "fst (heapPop pathItemLess q)" and ?rest = "snd (heapPop pathItemLess q)"
  have q: "set q = insert ?item (set ?rest)" by (rule pathQueue.heap.set_pop [OF assms(2)])
  have heap: "isHeap pathItemLess q" using assms(1) by (simp add: recorded_def)
  have least: "piCost ?item \<le> piCost y" if "y \<in> set ?rest" for y
    using pathQueue.heap.pop_least [OF heap] that q by (intro pathItemLess_cost) simp
  have item: "chain ?item" using assms(1) q by (simp add: recorded_def)
  show costs: "\<forall>d. \<forall>p \<in> set (psOut (recordPath ?item st) d). opCost p \<le> piCost ?item"
    using assms(1) q by (auto simp: recordPath_eq recorded_def pathOf_def)
  then have "\<forall>d. \<forall>p \<in> set (psOut (recordPath ?item st) d). \<forall>y \<in> set ?rest. opCost p \<le> piCost y"
    using least by (meson order_trans)
  moreover have "isHeap pathItemLess ?rest" by (rule pathQueue.heap.inv_pop [OF heap assms(2)])
  moreover have "\<forall>y \<in> set ?rest. chain y" using assms(1) q by (simp add: recorded_def)
  moreover have "psFound (recordPath ?item st) d = length (psOut (recordPath ?item st) d)
      \<and> length (psOut (recordPath ?item st) d) \<le> MaxPathsPerDestination
      \<and> (\<forall>p \<in> set (psOut (recordPath ?item st) d). \<exists>x. chain x \<and> piLast x = d \<and> p = pathOf x)" for d
  proof -
    have "psFound st d = length (psOut st d) \<and> length (psOut st d) \<le> MaxPathsPerDestination
      \<and> (\<forall>p \<in> set (psOut st d). \<exists>x. chain x \<and> piLast x = d \<and> p = pathOf x)"
      using assms(1) by (simp add: recorded_def)
    then show ?thesis using item by (auto simp: recordPath_eq)
  qed
  ultimately show "recorded ?rest (recordPath ?item st)" by (simp add: recorded_def)
qed

lemma extensions_cost: "chain x \<Longrightarrow> y \<in> set (extensions adjs x) \<Longrightarrow> chain y \<and> piCost x \<le> piCost y"
  using grown_extensions cost_range by (fastforce simp: extensions_def extend_cost)

lemma searchStep_recorded:
  assumes "recorded q st" "q \<noteq> []"
  shows "recorded (fst (searchStep adjs maxHops q st)) (snd (searchStep adjs maxHops q st))"
proof -
  let ?item = "fst (heapPop pathItemLess q)" and ?rest = "snd (heapPop pathItemLess q)"
  let ?st = "recordPath ?item st"
  note step = recordPath_recorded [OF assms]
  have "chain ?item" using assms pathQueue.heap.set_pop [OF assms(2)] by (simp add: recorded_def)
  then have ext: "chain y \<and> piCost ?item \<le> piCost y" if "y \<in> set (extensions adjs ?item)" for y
    using extensions_cost that by blast
  have "recorded (fold (heapPush pathItemLess) (extensions adjs ?item) ?rest) (addFrontier ?item ?st)"
    unfolding recorded_def
  proof (intro conjI)
    show "isHeap pathItemLess (fold (heapPush pathItemLess) (extensions adjs ?item) ?rest)"
      using step(1) by (intro pathQueue.heap.inv_pushes) (simp add: recorded_def)
    show "\<forall>y \<in> set (fold (heapPush pathItemLess) (extensions adjs ?item) ?rest). chain y"
      using step(1) ext by (auto simp: recorded_def pathQueue.heap.set_pushes)
    show "\<forall>d. psFound (addFrontier ?item ?st) d = length (psOut (addFrontier ?item ?st) d)
        \<and> length (psOut (addFrontier ?item ?st) d) \<le> MaxPathsPerDestination
        \<and> (\<forall>p \<in> set (psOut (addFrontier ?item ?st) d). \<exists>x. chain x \<and> piLast x = d \<and> p = pathOf x)"
      using step(1) by (simp add: recorded_def addFrontier_def Let_def)
    have "opCost p \<le> piCost y" if "p \<in> set (psOut ?st d)" "y \<in> set (extensions adjs ?item) \<union> set ?rest" for p d y
      using that step ext [of y] unfolding recorded_def by (blast intro: order_trans)
    then show "\<forall>d. \<forall>p \<in> set (psOut (addFrontier ?item ?st) d).
        \<forall>y \<in> set (fold (heapPush pathItemLess) (extensions adjs ?item) ?rest). opCost p \<le> piCost y"
      by (simp add: addFrontier_def Let_def pathQueue.heap.set_pushes)
  qed
  then show ?thesis using step(1) by (simp add: searchStep_def Let_def)
qed

text \<open>
  A fixed chain, given by its prefixes. An item covers a prefix when it reaches the same node at no
  greater cost and through no other nodes, so that what extends the prefix extends the item.
\<close>

definition covers :: "path_item list \<Rightarrow> path_item \<Rightarrow> nat \<Rightarrow> bool" where
  "covers xs y j \<longleftrightarrow> piLast y = piLast (xs ! j) \<and> piCost y \<le> piCost (xs ! j) \<and> set (piNodes y) \<subseteq> set (piNodes (xs ! j))"

definition reached :: "path_item list \<Rightarrow> path_search \<Rightarrow> bool" where
  "reached xs st \<longleftrightarrow> (\<exists>p \<in> set (psOut st (piLast (last xs))). opCost p \<le> piCost (last xs))"

text \<open>The search has reached the end of the chain, or an item in the queue covers a prefix from \<open>j\<close> on.\<close>

definition pending :: "path_item list \<Rightarrow> path_item list \<Rightarrow> path_search \<Rightarrow> nat \<Rightarrow> bool" where
  "pending xs q st j \<longleftrightarrow> reached xs st \<or> (\<exists>y \<in> set q. \<exists>k. j \<le> k \<and> k < length xs \<and> covers xs y k)"

definition fringe :: "path_item list \<Rightarrow> path_item list \<Rightarrow> path_search \<Rightarrow> bool" where
  "fringe xs q st \<longleftrightarrow> pending xs q st 0 \<and> (\<forall>i. Suc i < length xs \<longrightarrow>
     (\<forall>f \<in> set (psFrontier st (piLast (xs ! i))). fnCost f \<le> piCost (xs ! i) \<and> set (fnVisited f) \<subseteq> set (piNodes (xs ! i))
        \<longrightarrow> pending xs q st (Suc i)))"

lemma pending_mono: "pending xs q st j \<Longrightarrow> i \<le> j \<Longrightarrow> pending xs q st i"
  by (auto simp: pending_def)

lemma reached_recordPath: "reached xs st \<Longrightarrow> reached xs (recordPath x st)"
  by (auto simp: reached_def recordPath_eq)

lemma reached_addFrontier [simp]: "reached xs (addFrontier x st) = reached xs st"
  by (simp add: reached_def addFrontier_def Let_def)

lemma pending_addFrontier [simp]: "pending xs q (addFrontier x st) j = pending xs q st j"
  by (simp add: pending_def)

lemma covers_extend:
  assumes "trail adjs src xs" "Suc j < length xs" "covers xs x j" and x: "chain x"
  shows "\<exists>y \<in> set (extensions adjs x). covers xs y (Suc j)"
proof -
  obtain adj where adj: "adj \<in> set (adjs (piLast (xs ! j)))" "ajTo adj \<notin> set (piNodes (xs ! j))"
      "xs ! Suc j = extendItem (xs ! j) adj"
    using trail_next [OF assms(1,2)] by blast
  then have "extendItem x adj \<in> set (extensions adjs x)" using assms(3) by (auto simp: extensions_def covers_def)
  moreover have "piCost (extendItem x adj) = piCost x + ajCost adj" "piCost (xs ! Suc j) = piCost (xs ! j) + ajCost adj"
    using extend_cost [OF x] extend_cost [OF trail_grown [OF assms(1)], of j] adj assms(2,3) by (auto simp: covers_def)
  then have "covers xs (extendItem x adj) (Suc j)" using assms(3) adj(3) by (auto simp: covers_def extendItem_def)
  ultimately show ?thesis by blast
qed

text \<open>An item with as many nodes as the bound covers the end of the chain only.\<close>

lemma covers_end:
  assumes xs: "trail adjs src xs" and x: "chain x" "covers xs x j" and full: "maxHops \<le> length (piNodes x)"
  shows "\<not> Suc j < length xs"
proof
  assume j: "Suc j < length xs"
  obtain adj where adj: "adj \<in> set (adjs (piLast (xs ! j)))" "ajTo adj \<notin> set (piNodes (xs ! j))"
    using trail_next [OF xs j] by blast
  have nodes: "distinct (piNodes x)" "set (piNodes x) \<subseteq> N" using chain_nodes [OF x(1)] by auto
  have "card N \<le> card (set (piNodes x))" using full small(2) distinct_card [OF nodes(1)] by simp
  then have "set (piNodes x) = N" using card_seteq [OF small(1) nodes(2)] by blast
  then show False using adj inside [OF adj(1)] x(2) by (auto simp: covers_def)
qed

lemma covers_last:
  assumes "recorded q st" "q \<noteq> []" "covers xs (fst (heapPop pathItemLess q)) j" "Suc j = length xs"
  shows "reached xs (recordPath (fst (heapPop pathItemLess q)) st)"
proof -
  let ?item = "fst (heapPop pathItemLess q)" and ?d = "piLast (last xs)"
  have "j = length xs - 1" "xs \<noteq> []" using assms(4) by auto
  then have "xs ! j = last xs" by (simp add: last_conv_nth)
  then have item: "piLast ?item = ?d" "piCost ?item \<le> piCost (last xs)" using assms(3) by (simp_all add: covers_def)
  show ?thesis
  proof (cases "psFound st ?d < MaxPathsPerDestination")
    case True
    then show ?thesis using item by (simp add: reached_def recordPath_eq pathOf_def)
  next
    case False
    then have "psOut st ?d \<noteq> []" using assms(1) by (auto simp: recorded_def)
    moreover have "opCost p \<le> piCost ?item" if "p \<in> set (psOut st ?d)" for p
      using that assms(1) pathQueue.heap.set_pop [OF assms(2)] by (simp add: recorded_def)
    ultimately have "reached xs st" using item(2) by (fastforce simp: reached_def neq_Nil_conv)
    then show ?thesis by (rule reached_recordPath)
  qed
qed

text \<open>One pass: what was pending before is pending after.\<close>

lemma pending_step:
  assumes xs: "trail adjs src xs" and inv: "recorded q st" "q \<noteq> []"
    and fringe: "\<forall>i f. Suc i < length xs \<longrightarrow> f \<in> set (psFrontier st (piLast (xs ! i))) \<longrightarrow> fnCost f \<le> piCost (xs ! i)
      \<longrightarrow> set (fnVisited f) \<subseteq> set (piNodes (xs ! i)) \<longrightarrow> pending xs q st (Suc i)"
    and pending: "pending xs q st j"
  shows "pending xs (fst (searchStep adjs maxHops q st)) (snd (searchStep adjs maxHops q st)) j"
proof -
  let ?item = "fst (heapPop pathItemLess q)" and ?rest = "snd (heapPop pathItemLess q)"
  let ?st = "recordPath ?item st" and ?next = "searchStep adjs maxHops q st"
  have q: "set q = insert ?item (set ?rest)" by (rule pathQueue.heap.set_pop [OF inv(2)])
  have item: "chain ?item" using inv(1) q by (simp add: recorded_def)
  have rest: "set ?rest \<subseteq> set (fst ?next)"
    by (auto simp: searchStep_def Let_def pathQueue.heap.set_pushes)
  have out: "reached xs (snd ?next) = reached xs ?st" by (simp add: searchStep_def Let_def)
  have frontier: "psFrontier ?st = psFrontier st" by (simp add: recordPath_eq)
  have covered: "pending xs (fst ?next) (snd ?next) k" if c: "covers xs ?item k" "k < length xs" for k
  proof (cases "Suc k < length xs")
    case False
    then have "reached xs ?st" using covers_last [OF inv c(1)] c(2) by simp
    then show ?thesis by (simp add: pending_def out)
  next
    case True
    have short: "\<not> maxHops \<le> length (piNodes ?item)" using covers_end [OF xs item c(1)] True by blast
    show ?thesis
    proof (cases "list_ex (\<lambda>x. frontierDominates x (frontierOf ?item)) (psFrontier ?st (piLast ?item))")
      case dominated: True
      then obtain f where f: "f \<in> set (psFrontier st (piLast (xs ! k)))" "frontierDominates f (frontierOf ?item)"
        using c(1) by (auto simp: list_ex_iff frontier covers_def)
      then have "fnCost f \<le> piCost (xs ! k)" "set (fnVisited f) \<subseteq> set (piNodes (xs ! k))"
        using c(1) by (auto simp: frontierDominates_def frontierOf_def covers_def list_all_iff)
      then have "pending xs q st (Suc k)" using fringe True f(1) by blast
      then consider "reached xs st" | y m where "y \<in> set q" "Suc k \<le> m" "m < length xs" "covers xs y m"
        by (auto simp: pending_def)
      then show ?thesis
      proof cases
        case 1
        then show ?thesis by (simp add: pending_def out reached_recordPath)
      next
        case 2
        have "y \<noteq> ?item" using trail_apart [OF xs, of k m] 2 c by (auto simp: covers_def)
        then have "y \<in> set (fst ?next)" using 2(1) q rest by auto
        then show ?thesis using 2 by (auto simp: pending_def intro!: bexI [of _ y] exI [of _ m])
      qed
    next
      case False
      obtain y where "y \<in> set (extensions adjs ?item)" "covers xs y (Suc k)" using covers_extend [OF xs True c(1) item] by blast
      moreover have "set (extensions adjs ?item) \<subseteq> set (fst ?next)"
        using short False by (auto simp: searchStep_def Let_def pathQueue.heap.set_pushes)
      ultimately show ?thesis using True by (auto simp: pending_def intro!: bexI [of _ y] exI [of _ "Suc k"])
    qed
  qed
  from pending consider "reached xs st" | y k where "y \<in> set q" "j \<le> k" "k < length xs" "covers xs y k"
    by (auto simp: pending_def)
  then show ?thesis
  proof cases
    case 1
    then show ?thesis by (simp add: pending_def out reached_recordPath)
  next
    case 2
    show ?thesis
    proof (cases "y = ?item")
      case True
      then show ?thesis using covered 2 pending_mono by blast
    next
      case False
      then have "y \<in> set (fst ?next)" using 2(1) q rest by auto
      then show ?thesis using 2 by (auto simp: pending_def intro!: bexI [of _ y] exI [of _ k])
    qed
  qed
qed

lemma fringe_step:
  assumes xs: "trail adjs src xs" and inv: "recorded q st" "q \<noteq> []" and fringe: "fringe xs q st"
  shows "fringe xs (fst (searchStep adjs maxHops q st)) (snd (searchStep adjs maxHops q st))"
proof -
  let ?item = "fst (heapPop pathItemLess q)" and ?next = "searchStep adjs maxHops q st"
  let ?st = "recordPath ?item st"
  have old: "\<forall>i f. Suc i < length xs \<longrightarrow> f \<in> set (psFrontier st (piLast (xs ! i))) \<longrightarrow> fnCost f \<le> piCost (xs ! i)
      \<longrightarrow> set (fnVisited f) \<subseteq> set (piNodes (xs ! i)) \<longrightarrow> pending xs q st (Suc i)"
    using fringe unfolding fringe_def by blast
  note step = pending_step [OF xs inv old]
  have same: "psFrontier ?st = psFrontier st" by (simp add: recordPath_eq)
  have item: "chain ?item" using inv(1) pathQueue.heap.set_pop [OF inv(2)] by (simp add: recorded_def)
  have "pending xs (fst ?next) (snd ?next) (Suc i)"
    if i: "Suc i < length xs" and f: "f \<in> set (psFrontier (snd ?next) (piLast (xs ! i)))"
      and small: "fnCost f \<le> piCost (xs ! i)" "set (fnVisited f) \<subseteq> set (piNodes (xs ! i))" for i f
  proof (cases "f \<in> set (psFrontier st (piLast (xs ! i)))")
    case True
    then show ?thesis using old i small step by blast
  next
    case False
    let ?open = "\<not> maxHops \<le> length (piNodes ?item)
      \<and> \<not> list_ex (\<lambda>x. frontierDominates x (frontierOf ?item)) (psFrontier ?st (piLast ?item))"
    have split: "?open \<and> f = frontierOf ?item \<and> piLast ?item = piLast (xs ! i)"
      using f False same by (auto simp: searchStep_def addFrontier_def Let_def split: if_split_asm)
    then have "covers xs ?item i" using small by (simp add: covers_def frontierOf_def)
    then obtain y where "y \<in> set (extensions adjs ?item)" "covers xs y (Suc i)" using covers_extend [OF xs i _ item] by blast
    moreover have "set (extensions adjs ?item) \<subseteq> set (fst ?next)"
      using split by (auto simp: searchStep_def Let_def pathQueue.heap.set_pushes)
    ultimately show ?thesis using i by (auto simp: pending_def intro!: bexI [of _ y] exI [of _ "Suc i"])
  qed
  then show ?thesis using step [of 0] fringe unfolding fringe_def by blast
qed

abbreviation startQueue :: "path_item list" where
  "startQueue \<equiv> fold (heapPush pathItemLess) (map (firstHop src) (adjs src)) []"

abbreviation startSearch :: path_search where
  "startSearch \<equiv> \<lparr>psOut = (\<lambda>_. []), psFound = (\<lambda>_. 0), psFrontier = (\<lambda>_. [])\<rparr>"

lemma start_recorded: "recorded startQueue startSearch"
  using pathQueue.heap.inv_pushes [OF pathQueue.heap.inv_empty]
  by (auto simp: recorded_def pathQueue.heap.set_pushes intro: grown.first)

lemma start_fringe:
  assumes "trail adjs src xs"
  shows "fringe xs startQueue startSearch"
proof -
  obtain adj where "adj \<in> set (adjs src)" "xs ! 0 = firstHop src adj" using trail_first [OF assms] by blast
  then have "firstHop src adj \<in> set startQueue" "covers xs (firstHop src adj) 0" "0 < length xs"
    using trail_nonempty [OF assms] by (auto simp: pathQueue.heap.set_pushes covers_def)
  then have "pending xs startQueue startSearch 0" unfolding pending_def by blast
  then show ?thesis by (simp add: fringe_def)
qed

lemma search_recorded: "recorded [] (candidateLoop adjs maxHops startQueue startSearch)"
  by (rule candidateLoop_invariant [where P = recorded, OF start_recorded]) (simp add: searchStep_recorded)

text \<open>What the search finds: only chains, and for every chain one that costs no more.\<close>

lemma candidates_sound:
  "p \<in> set (candidatePaths adjs maxHops src d) \<Longrightarrow> \<exists>x. chain x \<and> piLast x = d \<and> p = pathOf x"
  using search_recorded by (auto simp: recorded_def candidatePaths_def SortPaths_def)

lemma candidates_bound: "length (candidatePaths adjs maxHops src d) \<le> MaxPathsPerDestination"
  using search_recorded by (auto simp: recorded_def candidatePaths_def SortPaths_def)

lemma candidates_cheapest:
  assumes "chain x"
  shows "\<exists>p ps. candidatePaths adjs maxHops src (piLast x) = p # ps \<and> opCost p \<le> piCost x"
proof -
  let ?st = "candidateLoop adjs maxHops startQueue startSearch"
  obtain xs where xs: "trail adjs src xs" "last xs = x" using grown_trail [OF assms] by blast
  have "recorded [] ?st \<and> fringe xs [] ?st"
    by (rule candidateLoop_invariant [where P = "\<lambda>q st. recorded q st \<and> fringe xs q st"])
      (simp_all add: start_recorded start_fringe [OF xs(1)] searchStep_recorded fringe_step [OF xs(1)])
  then have "reached xs ?st" by (simp add: fringe_def pending_def)
  then obtain p where p: "p \<in> set (candidatePaths adjs maxHops src (piLast x))" "opCost p \<le> piCost x"
    by (auto simp: reached_def xs(2) candidatePaths_def SortPaths_def)
  then obtain p' ps where sorted: "candidatePaths adjs maxHops src (piLast x) = p' # ps"
    by (cases "candidatePaths adjs maxHops src (piLast x)") auto
  have "sorted_wrt (\<lambda>a b. \<not> pathLess b a) (p' # ps)"
    using pathOrder.sorted_sortSlice unfolding sorted [symmetric] candidatePaths_def SortPaths_def by blast
  then have "opCost p' \<le> opCost p" using p(1) sorted by (auto simp: pathLess_lex)
  then show ?thesis using sorted p(2) by auto
qed

end


section \<open>The adjacencies of a network\<close>

definition costsOK :: "ospf_states \<Rightarrow> bool" where
  "costsOK states \<longleftrightarrow> (\<forall>(n, m) \<in> set states. \<forall>(i, s) \<in> set m. 0 \<le> isCost s)"

lemma statesOf_member: "(i, s) \<in> set (statesOf states n) \<Longrightarrow> \<exists>m. (n, m) \<in> set states \<and> (i, s) \<in> set m"
  by (cases "map_of states n") (auto simp: statesOf_def dest: map_of_SomeD)

lemma costsOK_statesOf: "costsOK states \<Longrightarrow> (i, s) \<in> set (statesOf states n) \<Longrightarrow> 0 \<le> isCost s"
  using statesOf_member by (fastforce simp: costsOK_def)

lemma configured_cost: "0 \<le> isCost s \<Longrightarrow> 0 \<le> isCost (fold (\<lambda>(_, c). configuredState kind name c) cs s)"
  by (induction cs arbitrary: s) (auto simp: configuredState_def)

lemma ospfInterfaceFor_cost: "ospfInterfaceFor n process vrf i pfx = Some s \<Longrightarrow> 0 \<le> isCost s"
  unfolding ospfInterfaceFor_def Let_def
  using configured_cost [of "\<lparr>isNode = nodeName n, isName = ifName i, isInstance = NormalizeNetworkInstance vrf,
      isPrefix = pfxMasked pfx, isArea = [], isCost = 1, isPassive = False, isNetworkType = []\<rparr>"
      "nodeKind n" "ifName i" "ospfInterfaces process"]
  by (auto split: if_splits option.splits)

lemma interfaceStateStep_costs: "costsOK out \<Longrightarrow> costsOK (interfaceStateStep n process vrf i out)"
proof -
  assume ok: "costsOK out"
  have "costsOK (AList.update (nodeName n) (AList.update (ifName i) s (statesOf out (nodeName n))) out)"
    if "0 \<le> isCost s" for s
    using ok that costsOK_statesOf [OF ok, of _ _ "nodeName n"]
      set_update_subset [of "nodeName n" "AList.update (ifName i) s (statesOf out (nodeName n))" out]
      set_update_subset [of "ifName i" s "statesOf out (nodeName n)"]
    unfolding costsOK_def by fast
  then show ?thesis using ok ospfInterfaceFor_cost by (auto simp: interfaceStateStep_def split: option.split)
qed

lemma costsOK_states: "costsOK (ospfInterfaceStates idx vrf processes)"
proof -
  have inner: "costsOK out \<Longrightarrow> costsOK (fold (interfaceStateStep n p vrf) is out)" for n p "is" out
    by (induction "is" arbitrary: out) (auto intro: interfaceStateStep_costs)
  have "costsOK out \<Longrightarrow> costsOK (fold (\<lambda>n out. case processes (nodeName n) of None \<Rightarrow> out
      | Some p \<Rightarrow> fold (interfaceStateStep n p vrf) (nodeInterfaces n) out) ns out)" for ns out
    by (induction ns arbitrary: out) (auto intro: inner split: option.split)
  moreover have "costsOK []" by (simp add: costsOK_def)
  ultimately show ?thesis unfolding ospfInterfaceStates_def by blast
qed

lemma AdjacencyCost_Some:
  "AdjacencyCost idx from to l states allowed = Some (cost, area) \<Longrightarrow> \<exists>i s. (i, s) \<in> set (statesOf states from) \<and> cost = isCost s"
  by (auto simp: AdjacencyCost_def split: option.splits if_splits dest!: map_of_SomeD)

lemma ospfAdjacencies_edge:
  assumes "adj \<in> set (ospfAdjacencies idx states allowed n)"
  shows "\<exists>edge \<in> set (idxAdj idx n). ajTo adj = adjTo edge \<and> ajLink adj = linkName (adjLink edge) \<and> ajFrom adj = n
    \<and> (\<exists>i s. (i, s) \<in> set (statesOf states n) \<and> ajCost adj = isCost s)"
proof -
  obtain edge cost area where "edge \<in> set (idxAdj idx n)"
      "AdjacencyCost idx n (adjTo edge) (adjLink edge) states allowed = Some (cost, area)"
      "adj = \<lparr>ajFrom = n, ajTo = adjTo edge, ajLink = linkName (adjLink edge), ajArea = area, ajCost = cost\<rparr>"
    using assms unfolding ospfAdjacencies_def set_sortSlice set_map_filter by (fastforce split: option.splits)
  then show ?thesis using AdjacencyCost_Some by (intro bexI [of _ edge]) auto
qed

text \<open>
  No interface costs so much that the cost of a simple path overflows: each cost times the number of
  nodes is a Go \<open>int\<close>. OSPF itself has costs of 16 bits.
\<close>

definition costsFit :: "nat \<Rightarrow> ospf_states \<Rightarrow> bool" where
  "costsFit k states \<longleftrightarrow> list_all (\<lambda>(n, m). list_all (\<lambda>(i, s). isCost s \<le> costRoom k) m) states"

lemma costsFit_statesOf: "costsFit k states \<Longrightarrow> (i, s) \<in> set (statesOf states n) \<Longrightarrow> isCost s \<le> costRoom k"
  using statesOf_member by (fastforce simp: costsFit_def list_all_iff)

text \<open>
  The adjacencies of a topology in one network instance. A network whose index is refused, with a
  link from a node to itself or with costs that do not fit has none; the properties below assume that
  this is not so.
\<close>

definition netAdjacencies ::
    "topology \<Rightarrow> network_instance \<Rightarrow> ospf_processes \<Rightarrow> adjacency_filter \<Rightarrow> string \<Rightarrow> adjacency list" where
  "netAdjacencies topo vrf processes allowed n =
     (case BuildTopologyIndex topo of
        Inl _ \<Rightarrow> []
      | Inr idx \<Rightarrow>
          if list_all (\<lambda>l. linkA l \<noteq> linkB l) (topoLinks topo)
             \<and> costsFit (length (topoNodes topo)) (ospfInterfaceStates idx vrf processes)
          then ospfAdjacencies idx (ospfInterfaceStates idx vrf processes) allowed n else [])"

lemma netAdjacencies_edge:
  assumes "adj \<in> set (netAdjacencies topo vrf processes allowed n)"
  shows "ajTo adj \<noteq> n \<and> n \<in> nodeName ` set (topoNodes topo) \<and> ajTo adj \<in> nodeName ` set (topoNodes topo)
    \<and> 0 \<le> ajCost adj \<and> ajCost adj \<le> costRoom (length (topoNodes topo))"
proof -
  obtain idx where idx: "BuildTopologyIndex topo = Inr idx" and proper: "list_all (\<lambda>l. linkA l \<noteq> linkB l) (topoLinks topo)"
    and fit: "costsFit (length (topoNodes topo)) (ospfInterfaceStates idx vrf processes)"
    and adj: "adj \<in> set (ospfAdjacencies idx (ospfInterfaceStates idx vrf processes) allowed n)"
    using assms by (cases "BuildTopologyIndex topo") (auto simp: netAdjacencies_def split: if_split_asm)
  have spec: "linksIndexed (topoLinks topo) idx" "nodesIndexed (topoNodes topo) idx"
    using BuildTopologyIndex_spec [of topo] idx by simp_all
  obtain edge where edge: "edge \<in> set (idxAdj idx n)" "ajTo adj = adjTo edge"
    and cost: "\<exists>i s. (i, s) \<in> set (statesOf (ospfInterfaceStates idx vrf processes) n) \<and> ajCost adj = isCost s"
    using ospfAdjacencies_edge [OF adj] by blast
  have "0 \<le> ajCost adj" "ajCost adj \<le> costRoom (length (topoNodes topo))"
    using cost costsOK_statesOf [OF costsOK_states] costsFit_statesOf [OF fit] by fastforce+
  moreover have "edge \<in> adjEdges n (topoLinks topo)" using edge(1) spec(1) by (simp add: linksIndexed_def)
  then obtain l where l: "l \<in> set (topoLinks topo)" "{n, adjTo edge} = {linkA l, linkB l}"
    by (auto simp: adjEdges_def insert_commute)
  have "idxNodes idx (linkA l) \<noteq> None" "idxNodes idx (linkB l) \<noteq> None" using spec(1) l(1) by (auto simp: linksIndexed_def)
  then have "{linkA l, linkB l} \<subseteq> nodeName ` set (topoNodes topo)" using spec(2)
    by (auto simp: nodesIndexed_def intro: rev_image_eqI)
  moreover have "linkA l \<noteq> linkB l" using proper l(1) by (auto simp: list_all_iff)
  ultimately show ?thesis using l(2) edge(2) by (auto simp: doubleton_eq_iff)
qed

interpretation netPaths: path_graph "netAdjacencies topo vrf processes allowed" src "length (topoNodes topo)"
    "nodeName ` set (topoNodes topo)" for topo vrf processes allowed src
proof unfold_locales
  show "card (nodeName ` set (topoNodes topo)) \<le> length (topoNodes topo)"
    using card_image_le [of "set (topoNodes topo)" nodeName] card_length [of "topoNodes topo"] by simp
qed (use netAdjacencies_edge in \<open>auto\<close>)


text \<open>
  C7 (shortest paths). Over any topology whose index is built, whose links join two nodes, and none of
  whose OSPF costs exceeds the greatest \<open>int\<close> divided by the number of nodes, so that no path cost
  wraps around, the candidate paths from a node to another are simple chains of OSPF adjacencies; if
  there is such a chain at all then there is a candidate, and the first costs no more than any chain.
\<close>

theorem ospfCandidatePaths_cheapest:
  assumes "BuildTopologyIndex topo = Inr idx" "list_all (\<lambda>l. linkA l \<noteq> linkB l) (topoLinks topo)"
    and states: "states = ospfInterfaceStates idx vrf processes" and fit: "costsFit (length (topoNodes topo)) states"
    and paths: "paths = ospfCandidatePathsBounded idx states allowed src"
  shows "(\<forall>p \<in> set (paths d). \<exists>x. grown (ospfAdjacencies idx states allowed) src x \<and> piLast x = d \<and> p = pathOf x)
    \<and> (\<forall>x. grown (ospfAdjacencies idx states allowed) src x \<longrightarrow> (\<exists>p ps. paths (piLast x) = p # ps \<and> opCost p \<le> piCost x))"
proof -
  have adjs: "netAdjacencies topo vrf processes allowed = ospfAdjacencies idx states allowed"
    using assms by (auto simp: netAdjacencies_def)
  have "paths e = candidatePaths (netAdjacencies topo vrf processes allowed) (length (topoNodes topo)) src e" for e
    using built_topology [OF assms(1)] by (simp add: adjs paths ospfCandidatePathsBounded_def)
  then show ?thesis
    using netPaths.candidates_sound [of _ topo vrf processes allowed src d]
      netPaths.candidates_cheapest [of topo vrf processes allowed src] by (simp add: adjs)
qed

section \<open>Conditions\<close>

lemma pathCond_exact:
  assumes "list_all plainName (piNodes x)" "list_all plainName (piLinks x)"
  shows "plainCond (the (opCond (pathOf x)))"
    "evalCond ctx (the (opCond (pathOf x))) \<longleftrightarrow> (\<forall>n \<in> set (piNodes x). \<not> NodeFailed ctx n) \<and> (\<forall>l \<in> set (piLinks x). \<not> LinkFailed ctx l)"
proof -
  have plain: "list_all plainCond (map NodeVar (piNodes x) @ map LinkVar (piLinks x))"
    using assms by (auto simp: list_all_iff NodeVar_def LinkVar_def)
  show "plainCond (the (opCond (pathOf x)))" using plain_And [OF plain] by (simp add: pathOf_def)
  show "evalCond ctx (the (opCond (pathOf x))) \<longleftrightarrow> (\<forall>n \<in> set (piNodes x). \<not> NodeFailed ctx n) \<and> (\<forall>l \<in> set (piLinks x). \<not> LinkFailed ctx l)"
    using And_eval [OF plain] by (simp add: pathOf_def list_all_iff NodeVar_def LinkVar_def ball_Un)
qed

section \<open>Alternates\<close>

text \<open>Four nodes: \<open>a\<close>, \<open>b\<close> and \<open>c\<close> form a triangle, and \<open>d\<close> hangs on \<open>b\<close>.\<close>

definition edge :: "string \<Rightarrow> string \<Rightarrow> string \<Rightarrow> adjacency" where
  "edge n m l = \<lparr>ajFrom = n, ajTo = m, ajLink = l, ajArea = ''0'', ajCost = 1\<rparr>"

definition triangleAdjs :: "string \<Rightarrow> adjacency list" where
  "triangleAdjs n =
     (if n = ''a'' then [edge ''a'' ''b'' ''a-b'', edge ''a'' ''c'' ''a-c'']
      else if n = ''b'' then [edge ''b'' ''a'' ''a-b'', edge ''b'' ''c'' ''b-c'', edge ''b'' ''d'' ''b-d'']
      else if n = ''c'' then [edge ''c'' ''a'' ''a-c'', edge ''c'' ''b'' ''b-c'']
      else if n = ''d'' then [edge ''d'' ''b'' ''b-d''] else [])"

text \<open>The chain over \<open>c\<close>.\<close>

definition detour :: path_item where
  "detour = extendItem (extendItem (firstHop ''a'' (edge ''a'' ''c'' ''a-c'')) (edge ''c'' ''b'' ''b-c'')) (edge ''b'' ''d'' ''b-d'')"

lemma grown_detour: "grown triangleAdjs ''a'' detour"
  unfolding detour_def
  by (intro grown.intros) (simp_all add: triangleAdjs_def extendItem_def firstHop_def edge_def)

lemma triangle_candidates:
  "map (\<lambda>p. (opNodes p, opLinks p)) (candidatePaths triangleAdjs 4 ''a'' ''d'') = [([''a'', ''b'', ''d''], [''a-b'', ''b-d''])]"
  by code_simp

text \<open>
  Pruning loses alternates. The comment of \<open>frontierDominates\<close> says that a dominated prefix can
  be pruned without missing a candidate. In the triangle with a node hung on \<open>b\<close> the path over \<open>c\<close>
  is pruned: with the link between \<open>a\<close> and \<open>b\<close> down it is whole, but no candidate path from
  \<open>a\<close> to \<open>d\<close> has all its links.
\<close>

lemma pruning_loses_alternates:
  "grown triangleAdjs ''a'' detour \<and> piLast detour = ''d'' \<and> ''a-b'' \<notin> set (piLinks detour)
    \<and> list_all (\<lambda>p. ''a-b'' \<in> set (opLinks p)) (candidatePaths triangleAdjs 4 ''a'' ''d'')"
proof -
  have "map opLinks (candidatePaths triangleAdjs 4 ''a'' ''d'') = [[''a-b'', ''b-d'']]"
    using arg_cong [OF triangle_candidates, of "map snd"] by (simp add: comp_def)
  then have "list_all (\<lambda>p. ''a-b'' \<in> set (opLinks p)) (candidatePaths triangleAdjs 4 ''a'' ''d'')"
    by (auto simp: map_eq_Cons_conv)
  then show ?thesis
    using grown_detour by (simp add: detour_def extendItem_def firstHop_def edge_def)
qed

section \<open>An example\<close>

text \<open>Two routers in the backbone area.\<close>

definition ospfNode :: "string \<Rightarrow> string \<Rightarrow> node" where
  "ospfNode name address = zeroNode\<lparr>nodeName := name, nodeKind := KindFRR,
     nodeInterfaces := [\<lparr>ifName = ''eth1'', ifAddress = address, ifVRF = []\<rparr>],
     nodeOSPF := zeroOSPF\<lparr>ospfEnabled := True, ospfNetworks := [\<lparr>onPrefix = IPPrefix (IPv4 0x0A000000) 8, onArea = ''0.0.0.0'', onSource = zeroSource\<rparr>]\<rparr>\<rparr>"

definition ospfNet :: topology where
  "ospfNet = \<lparr>topoName = ''lab'', topoManagementSubnet = [],
     topoNodes = [ospfNode ''a'' ''10.0.0.1/24'', ospfNode ''b'' ''10.0.0.2/24''],
     topoLinks = [exampleLink\<lparr>linkAIntf := ''eth1'', linkBIntf := ''eth1''\<rparr>], topoACLs = [], topoACLBindings = []\<rparr>"

lemma example_addresses: "parsePrefix ''10.0.0.1/24'' = Some (IPPrefix (IPv4 0x0A000001) 24)" "parsePrefix ''10.0.0.2/24'' = Some (IPPrefix (IPv4 0x0A000002) 24)"
  by (simp_all add: parsePrefix_def parseAddr_def parse4_def parseOctet_def plainNumber_def
      isDigit_def digitVal_def decVal_def word4_def prefixFrom_def prefix_eval)

lemma example_names: "IsLoopbackInterface ''eth1'' = False" "NormalizeNetworkInstance [] = ''default''" "NormalizeNetworkInstance ''default'' = ''default''" "NormalizeArea ''0.0.0.0'' = ''0''"
  by code_simp+

abbreviation exampleProcess :: ospf_process where
  "exampleProcess \<equiv> (nodeOSPF (ospfNode ''a'' ''10.0.0.1/24''))\<lparr>ospfNetworkInstance := ''default''\<rparr>"

lemma example_processes: "topoNodes (idxTopology idx) = topoNodes ospfNet \<Longrightarrow> ospfProcesses idx ''default'' = [''a'' \<mapsto> exampleProcess, ''b'' \<mapsto> exampleProcess]"
  by (simp add: ospfProcesses_def ospfNet_def ospfNode_def ospfProcessesForNode_def zeroOSPF_def zeroNode_def example_names Let_def)

lemma example_states: "topoNodes (idxTopology idx) = topoNodes ospfNet \<Longrightarrow> ospfInterfaceStates idx ''default'' [''a'' \<mapsto> exampleProcess, ''b'' \<mapsto> exampleProcess] =
   [(''a'', [(''eth1'', \<lparr>isNode = ''a'', isName = ''eth1'', isInstance = ''default'', isPrefix = IPPrefix (IPv4 0x0A000000) 24, isArea = ''0'', isCost = 1, isPassive = False, isNetworkType = []\<rparr>)]),
    (''b'', [(''eth1'', \<lparr>isNode = ''b'', isName = ''eth1'', isInstance = ''default'', isPrefix = IPPrefix (IPv4 0x0A000000) 24, isArea = ''0'', isCost = 1, isPassive = False, isNetworkType = []\<rparr>)])]"
  by (simp add: ospfInterfaceStates_def ospfNet_def ospfNode_def zeroNode_def zeroOSPF_def interfaceStateStep_def example_addresses
   ospfInterfaceFor_def example_names prefix_eval Let_def statesOf_def)

lemma eth_alias: "firstByAlias (InterfaceAliases KindFRR ''eth1'') [\<lparr>ifName = ''eth1'', ifAddress = a, ifVRF = []\<rparr>] = Some \<lparr>ifName = ''eth1'', ifAddress = a, ifVRF = []\<rparr>"
  by code_simp

lemma example_interfaces: "map_option refConfigName (ResolveInterface (ospfNode ''a'' ''10.0.0.1/24'') ''a-b'' ''eth1'') = Some ''eth1''"
   "map_option refConfigName (ResolveInterface (ospfNode ''b'' ''10.0.0.2/24'') ''a-b'' ''eth1'') = Some ''eth1''"
  by (simp_all add: ResolveInterface_def ospfNode_def zeroNode_def eth_alias example_addresses)

lemma ospfNet_built: "\<exists>idx. BuildTopologyIndex ospfNet = Inr idx"
proof -
  have "indexable ospfNet" by (simp add: indexable_def ospfNet_def ospfNode_def exampleLink_def)
  then show ?thesis using BuildTopologyIndex_spec [of ospfNet] by (cases "BuildTopologyIndex ospfNet") auto
qed

lemma ospfNet_adjacency:
  assumes built: "BuildTopologyIndex ospfNet = Inr idx"
  shows "\<lparr>ajFrom = ''a'', ajTo = ''b'', ajLink = ''a-b'', ajArea = ''0'', ajCost = 1\<rparr>
    \<in> set (ospfAdjacencies idx (ospfInterfaceStates idx ''default'' (ospfProcesses idx ''default'')) anyArea ''a'')"
proof -
  let ?states = "ospfInterfaceStates idx ''default'' (ospfProcesses idx ''default'')"
  let ?l = "exampleLink\<lparr>linkAIntf := ''eth1'', linkBIntf := ''eth1''\<rparr>"
  have spec: "nodesIndexed (topoNodes ospfNet) idx" "linksIndexed (topoLinks ospfNet) idx"
    using BuildTopologyIndex_spec [of ospfNet] built by simp_all
  have topo: "topoNodes (idxTopology idx) = topoNodes ospfNet" using built_topology [OF built] by simp
  have nodes: "idxNodes idx ''a'' = Some (ospfNode ''a'' ''10.0.0.1/24'')" "idxNodes idx ''b'' = Some (ospfNode ''b'' ''10.0.0.2/24'')"
    using spec(1) by (simp_all add: nodesIndexed_def ospfNet_def ospfNode_def)
  have l: "idxLinks idx ''a-b'' = Some ?l" "\<lparr>adjTo = ''b'', adjLink = ?l\<rparr> \<in> set (idxAdj idx ''a'')"
    using spec(2) by (simp_all add: linksIndexed_def ospfNet_def exampleLink_def adjEdges_def)
  obtain ra rb where r: "InterfaceOnLink idx ''a'' ''a-b'' = Some ra" "refConfigName ra = ''eth1''"
      "InterfaceOnLink idx ''b'' ''a-b'' = Some rb" "refConfigName rb = ''eth1''"
    using example_interfaces by (auto simp: InterfaceOnLink_def nodes l exampleLink_def)
  have states: "?states = ospfInterfaceStates idx ''default'' [''a'' \<mapsto> exampleProcess, ''b'' \<mapsto> exampleProcess]"
    using example_processes [OF topo] by simp
  have "AdjacencyCost idx ''a'' ''b'' ?l ?states anyArea = Some (1, ''0'')"
    unfolding states example_states [OF topo]
    by (simp add: AdjacencyCost_def r exampleLink_def statesOf_def anyArea_def NetworkTypesMatchForAdjacency_def NormalizeNetworkType_def
        trimSpace_def toLower_def Let_def)
  then show ?thesis using l(2)
    unfolding ospfAdjacencies_def set_sortSlice set_map_filter
    by (force simp: exampleLink_def)
qed

theorem ospfCandidatePaths_cheapest_witness:
  "\<exists>idx p ps. BuildTopologyIndex ospfNet = Inr idx
     \<and> ospfCandidatePathsBounded idx (ospfInterfaceStates idx ''default'' (ospfProcesses idx ''default'')) anyArea ''a'' ''b'' = p # ps
     \<and> opCost p \<le> 1"
proof -
  obtain idx where built: "BuildTopologyIndex ospfNet = Inr idx" using ospfNet_built ..
  have proper: "list_all (\<lambda>l. linkA l \<noteq> linkB l) (topoLinks ospfNet)" by (simp add: ospfNet_def exampleLink_def)
  define x where "x = firstHop ''a'' \<lparr>ajFrom = ''a'', ajTo = ''b'', ajLink = ''a-b'', ajArea = ''0'', ajCost = 1\<rparr>"
  have "grown (ospfAdjacencies idx (ospfInterfaceStates idx ''default'' (ospfProcesses idx ''default'')) anyArea) ''a'' x"
    unfolding x_def by (rule grown.first) (rule ospfNet_adjacency [OF built])
  moreover have fit: "costsFit (length (topoNodes ospfNet)) (ospfInterfaceStates idx ''default'' (ospfProcesses idx ''default''))"
  proof -
    have topo: "topoNodes (idxTopology idx) = topoNodes ospfNet" using built_topology [OF built] by simp
    show ?thesis unfolding example_processes [OF topo] example_states [OF topo]
      by (simp add: costsFit_def costRoom_def ospfNet_def)
  qed
  moreover have "piLast x = ''b''" "piCost x = 1" by (simp_all add: x_def firstHop_def)
  ultimately show ?thesis
    using ospfCandidatePaths_cheapest [OF built proper refl fit refl, of anyArea "''a''" "''b''"] built
    by metis
qed

end
