(* ===== verification/Simulation.thy ===== *)
theory Simulation
  imports Engine_Selection Engine_Convergence OSPF_Paths
begin

text \<open>
  \<open>Simulate\<close> of \<open>internal/engine/controlplane/engine.go\<close>, the whole control plane: local routes,
  BGP origination and redistribution with their propagation, OSPF, selection, aggregates and the
  final selection; and the invariant of its tables through local routes and BGP propagation: they
  hold only routes that a path of the topology carries.
\<close>

section \<open>The phases\<close>

definition installLocalRoutes :: "engine \<Rightarrow> node \<Rightarrow> rib \<Rightarrow> rib" where
  "installLocalRoutes e n rib =
     fold (installConfiguredRoute e n)
       (filter (\<lambda>r. \<not> (crKind r = RouteSourceAggregate \<or> crKind r = RouteSourceBGP)) (nodeRoutes n))
       (fold (installConfiguredRoute e n) (connectedRoutes e n) rib)"

definition networkStatements :: "node \<Rightarrow> (prefix \<times> configured_route) list" where
  "networkStatements n =
     map (\<lambda>p. (p, prefixSource n p)) (nodePrefixes n)
     @ List.map_filter (\<lambda>r. if crKind r \<noteq> RouteSourceBGP \<or> prefixIsZero (crPrefix r) then None
          else Some (crPrefix r, normalizeConfiguredRoute (nodeName n) r)) (nodeRoutes n)"

definition addAndWalk :: "nat \<Rightarrow> engine \<Rightarrow> node \<Rightarrow> prefix \<Rightarrow> rib_entry \<Rightarrow> rib \<Rightarrow> walk_error + rib" where
  "addAndWalk fuel e n p r rib = walkBGP fuel e r (addRIB (nodeName n) p r rib)"

definition announceRoutes :: "nat \<Rightarrow> engine \<Rightarrow> rib \<Rightarrow> node \<Rightarrow> walk_error + rib" where
  "announceRoutes fuel e rib n =
     (case (if bgpEnabled n
            then foldE (\<lambda>rib (p, source). addAndWalk fuel e n p (networkEntry n p source) rib) rib (networkStatements n)
            else Inr rib) of
        Inl err \<Rightarrow> Inl err
      | Inr rib1 \<Rightarrow> (let (out, rib2) = redistributedRoutes e n rib1 in foldE (\<lambda>rib r. walkBGP fuel e r rib) rib2 out))"

definition announceAggregates :: "nat \<Rightarrow> engine \<Rightarrow> rib \<Rightarrow> node \<Rightarrow> walk_error + rib" where
  "announceAggregates fuel e rib n =
     (case aggregateRoutes n rib of
        Inl err \<Rightarrow> Inl err
      | Inr (out, rib') \<Rightarrow> foldE (\<lambda>rib r. addAndWalk fuel e n (rbPrefix r) r rib) rib' out)"

text \<open>
  \<open>fuel\<close> bounds the depth of the propagation; \<open>orders\<close> and \<open>orders'\<close> are the orders in which the two
  runs of the convergence loop visit the tables.
\<close>

definition Simulate ::
    "nat \<Rightarrow> engine \<Rightarrow> (nat \<Rightarrow> rib_key list \<Rightarrow> rib_key list) \<Rightarrow> (nat \<Rightarrow> rib_key list \<Rightarrow> rib_key list) \<Rightarrow> rib
       \<Rightarrow> converge_error + rib" where
  "Simulate fuel e orders orders' rib =
     (let nodes = topoNodes (idxTopology (engIdx e)) in
      case foldE (announceRoutes fuel e) (fold (installLocalRoutes e) nodes rib) nodes of
        Inl err \<Rightarrow> Inl (WalkError err)
      | Inr rib2 \<Rightarrow>
     (case selectAndConverge e orders (installOSPFRoutes e rib2) of
        Inl err \<Rightarrow> Inl err
      | Inr rib4 \<Rightarrow>
     (case foldE (announceAggregates fuel e) rib4 nodes of
        Inl err \<Rightarrow> Inl (WalkError err)
      | Inr rib5 \<Rightarrow> selectAndConverge e orders' rib5)))"

section \<open>Entries carried by a path\<close>

text \<open>
  What every entry at a node satisfies. The path of a BGP route ends at the node that holds it, and
  the path of an OSPF route starts there.
\<close>

definition routed :: "(node_id \<Rightarrow> adj_edge list) \<Rightarrow> string \<Rightarrow> rib_entry \<Rightarrow> bool" where
  "routed adjacent n r \<longleftrightarrow>
     plainEntry r
     \<and> walkPath adjacent (pvPathNodes (rbProvenance r)) (pvPathLinks (rbProvenance r))
     \<and> (last (pvPathNodes (rbProvenance r)) = n \<or> hd (pvPathNodes (rbProvenance r)) = n)
     \<and> (\<exists>b. rbBaseCond r = Some b \<and> (\<forall>ctx. evalCond ctx b \<longrightarrow> pathUp ctx r))
     \<and> (\<exists>c. rbCondition r = Some c \<and> (\<forall>ctx. evalCond ctx c \<longrightarrow> pathUp ctx r))
     \<and> (\<forall>s. rbSelectedCond r = Some s \<longrightarrow> (\<forall>ctx. evalCond ctx s \<longrightarrow> pathUp ctx r))
     \<and> plainName (nhNode (rbNextHop r))"

lemma grounded_routed:
  "grounded adjacent n r \<Longrightarrow> rbSelectedCond r = None \<Longrightarrow> plainName (nhNode (rbNextHop r)) \<Longrightarrow> routed adjacent n r"
  by (auto simp: grounded_def routed_def)

lemma routed_sameEntry: "sameEntry r r' \<Longrightarrow> routed adjacent n r' = routed adjacent n r"
  using sameShape_plain [of r r'] by (simp add: sameEntry_def sameShape_def routed_def pathUp_def)

lemma routed_plain: "routed adjacent n r \<Longrightarrow> plainEntry r"
  by (simp add: routed_def)

lemma routed_up:
  assumes "routed adjacent n r" "pathUp ctx r"
  shows "\<not> NodeFailed ctx n"
proof -
  have "pvPathNodes (rbProvenance r) \<noteq> []" using assms(1) walkPath_nonempty by (auto simp: routed_def)
  then have "n \<in> set (pvPathNodes (rbProvenance r))" using assms(1) by (auto simp: routed_def)
  then show ?thesis using assms(2) by (simp add: pathUp_def)
qed

definition tablesOK :: "engine \<Rightarrow> rib \<Rightarrow> bool" where
  "tablesOK e rib \<longleftrightarrow> (\<forall>n r. ribHolds rib n r \<longrightarrow> routed (idxAdj (engIdx e)) n r)"

lemma tablesOK_bucket: "tablesOK e rib \<Longrightarrow> r \<in> set (bucket rib k) \<Longrightarrow> routed (idxAdj (engIdx e)) (fst k) r"
  using bucket_holds by (auto simp: tablesOK_def)

lemma tablesOK_plain: "tablesOK e rib \<Longrightarrow> plainRib rib"
  by (auto simp: tablesOK_def plainRib_def routed_def)

lemma tablesOK_addRIB: "tablesOK e rib \<Longrightarrow> routed (idxAdj (engIdx e)) n r \<Longrightarrow> tablesOK e (addRIB n p r rib)"
  using ribHolds_addRIB [of n p r rib] routed_sameEntry [of r] unfolding tablesOK_def by metis

lemma tablesOK_update:
  assumes "tablesOK e rib" "\<forall>r \<in> set routes. routed (idxAdj (engIdx e)) (fst k) r"
  shows "tablesOK e (AList.update k routes rib)"
  unfolding tablesOK_def ribHolds_def
proof (intro allI impI)
  fix n r assume "\<exists>(k', rs) \<in> set (AList.update k routes rib). fst k' = n \<and> r \<in> set rs"
  then obtain k' rs where x: "(k', rs) \<in> set (AList.update k routes rib)" "fst k' = n" "r \<in> set rs" by auto
  have "(k', rs) \<in> insert (k, routes) (set rib)" by (rule subsetD [OF set_update_subset x(1)])
  then show "routed (idxAdj (engIdx e)) n r"
    using x(2,3) assms by (auto simp: tablesOK_def ribHolds_def)
qed

lemma fold_tablesOK:
  assumes "tablesOK e rib" "\<And>x rib. x \<in> set xs \<Longrightarrow> tablesOK e rib \<Longrightarrow> tablesOK e (f x rib)"
  shows "tablesOK e (fold f xs rib)"
  using assms by (induction xs arbitrary: rib) auto

section \<open>Origination\<close>

definition originated :: "string \<Rightarrow> rib_entry \<Rightarrow> bool" where
  "originated n r \<longleftrightarrow> rbProvenance r = originProvenance n \<and> rbSelectedCond r = None \<and> \<not> rbRacing r \<and> plainName (nhNode (rbNextHop r))
     \<and> (\<exists>c. rbBaseCond r = Some c \<and> rbCondition r = Some c \<and> plainCond c \<and> (\<forall>ctx. evalCond ctx c \<longrightarrow> \<not> NodeFailed ctx n))"

lemma originated_grounded: "originated n r \<Longrightarrow> grounded adjacent n r"
  by (auto simp: originated_def grounded_def originProvenance_def plainEntry_def pathUp_def intro: walkPath.origin)

lemma originated_routed: "originated n r \<Longrightarrow> routed adjacent n r"
  using originated_grounded grounded_routed by (auto simp: originated_def)

lemma originated_Normalize [simp]: "originated n (Normalize r) = originated n r"
  by (simp add: originated_def Normalize_def Let_def)

lemma plainName_Nil [simp]: "plainName []"
  by (simp add: plainName_def)

lemma originated_node: "plainName n \<Longrightarrow> plainCond (NodeVar n) \<and> (evalCond ctx (NodeVar n) \<longleftrightarrow> \<not> NodeFailed ctx n)"
  by (simp add: NodeVar_def)

text \<open>Names of the nodes and links of an engine's index.\<close>

definition namesPlain :: "engine \<Rightarrow> bool" where
  "namesPlain e \<longleftrightarrow> plainNet (idxAdj (engIdx e)) \<and> (\<forall>n x. idxNodes (engIdx e) n = Some x \<longrightarrow> plainName (nodeName x))"

lemma nextHop_adjacent:
  assumes "namesPlain e" "List.find P (idxAdj (engIdx e) n) = Some adj"
  shows "plainName (adjTo adj)"
  using assms find_SomeD [OF assms(2)] by (auto simp: namesPlain_def plainNet_def)

lemma configured_hop: "namesPlain e \<Longrightarrow> plainName (nhNode (configuredRouteNextHop e n r))"
  using nextHop_adjacent [of e] by (auto simp: configuredRouteNextHop_def Let_def split: option.split)

lemma policy_hop:
  assumes "namesPlain e" "plainName (nodeName n)" "plainName (nhNode (rbNextHop r))"
  shows "plainName (nhNode (rbNextHop (rdRoute (ApplyRoutePolicy m (routePolicyResolver (engIdx e)) n peer name r))))"
proof -
  have "plainName (nhNode (setNextHop (routePolicyResolver (engIdx e)) n rule h))" if "plainName (nhNode h)" for rule h
    using that assms(2) nextHop_adjacent [OF assms(1)]
    by (auto simp: setNextHop_def routePolicyResolver_def routeNextHopForSet_def split: option.split)
  then show ?thesis using assms(3) by (auto simp: ApplyRoutePolicy_def applyRule_def Let_def split: option.split)
qed

lemma originated_entries:
  assumes "namesPlain e" "plainName (nodeName n)"
  shows "originated (nodeName n) (configuredEntry e n r)" "originated (nodeName n) (networkEntry n p source)"
    "originated (nodeName n) (bgpRouteFromConfiguredRoute n r)"
  using originated_node [OF assms(2)] configured_hop [OF assms(1)]
  by (simp_all add: originated_def configuredEntry_def networkEntry_def bgpRouteFromConfiguredRoute_def Let_def zeroRIBEntry_def Normalize_def)

lemma originated_policy:
  assumes "namesPlain e" "plainName (nodeName n)" "originated (nodeName n) r"
  shows "originated (nodeName n) (rdRoute (ApplyRoutePolicy m (routePolicyResolver (engIdx e)) n peer name r))"
  using policy_hop [OF assms(1,2), of r m peer name] assms(3) ApplyRoutePolicy_sameOrigin [of r m "routePolicyResolver (engIdx e)" n peer name]
  by (simp add: originated_def sameOrigin_def sameRoute_def)

lemma originated_redistributed:
  assumes "namesPlain e" "plainName (nodeName n)" "redistributedEntry e n redist r = Some entry"
  shows "originated (nodeName n) entry"
  using assms(3) originated_entries(3) [OF assms(1,2)] originated_policy [OF assms(1,2) originated_entries(3) [OF assms(1,2)]]
  by (auto simp: redistributedEntry_def Let_def split: if_splits)

lemma tablesOK_local:
  assumes "namesPlain e" "plainName (nodeName n)" "tablesOK e rib"
  shows "tablesOK e (installLocalRoutes e n rib)"
  unfolding installLocalRoutes_def
  by (intro fold_tablesOK assms(3))
     (simp_all add: installConfiguredRoute_def tablesOK_addRIB originated_routed originated_entries assms(1,2))

section \<open>Propagation\<close>

lemma suppression_hop:
  "applyAggregateSuppression n r rib = Inr r' \<Longrightarrow> rbNextHop r' = rbNextHop r"
proof -
  assume sup: "applyAggregateSuppression n r rib = Inr r'"
  have "case foldE (suppressStep n rib) (Normalize r) (nodeRoutes n) of Inl _ \<Rightarrow> True | Inr a \<Rightarrow> rbNextHop a = rbNextHop r"
    by (rule foldE_rule [where I = "\<lambda>_ a. rbNextHop a = rbNextHop r"])
       (auto simp: suppressStep_def split: option.splits sum.splits if_splits)
  then show ?thesis using sup by (auto simp: applyAggregateSuppression_def split: sum.splits)
qed

lemma exchange_hop:
  assumes "plainName (nhNode (rbNextHop r))" "plainName (nodeName a)"
  shows "plainName (nhNode (rbNextHop (rdRoute (behaviorExportRoute beh a b session r))))"
    "plainName (nhNode (rbNextHop (rdRoute (behaviorImportRoute beh b a session r))))"
  using assms by (cases beh; simp add: behaviorExportRoute_def ExportRoute_def ImportRoute_def ImportRouteKeepASLoop_def Let_def)+

lemma next_hop:
  assumes "namesPlain e" "plainName (nhNode (rbNextHop r))" "idxNodes (engIdx e) current = Some curNode"
    and "nextEntry (bgpPropagationContext e) r current curNode adj rib = Inr (Some (peerNode, entry))"
  shows "plainName (nhNode (rbNextHop entry))"
proof -
  obtain imported c where imported: "importedAcross (bgpPropagationContext e) r current curNode (adjTo adj) rib = Inr (Some (peerNode, imported))"
    and entry: "entry = installedEntry r current adj imported c"
    using assms(4) by (auto simp: nextEntry_def Let_def split: sum.splits option.splits prod.splits if_splits)
  have cur: "plainName (nodeName curNode)" using assms(1,3) by (auto simp: namesPlain_def)
  obtain session recv r0 where r0: "applyAggregateSuppression curNode r rib = Inr r0"
    and peer: "idxNodes (engIdx e) (adjTo adj) = Some peerNode"
    and out: "imported = rdRoute (ApplyRoutePolicy (engRegexp e) (routePolicyResolver (engIdx e)) peerNode current (nbImportPolicy recv)
       (rdRoute (behaviorImportRoute (BehaviorFor (engBehaviors e) (nodeKind peerNode)) peerNode curNode recv
         (rdRoute (ApplyRoutePolicy (engRegexp e) (routePolicyResolver (engIdx e)) curNode (adjTo adj) (nbExportPolicy session)
           (rdRoute (behaviorExportRoute (BehaviorFor (engBehaviors e) (nodeKind curNode)) curNode peerNode session r0)))))))"
    using imported unfolding importedAcross_def bgpPropagationContext_def Let_def
    by (auto split: option.splits if_splits sum.splits)
  have "plainName (nodeName peerNode)" using assms(1) peer by (auto simp: namesPlain_def)
  moreover have "plainName (nhNode (rbNextHop r0))" using suppression_hop [OF r0] assms(2) by simp
  ultimately show ?thesis
    using cur unfolding entry out installedEntry_def by (simp add: exchange_hop policy_hop [OF assms(1)])
qed

interpretation sim_walk: walk_tables "bgpPropagationContext e" ribHolds
    "\<lambda>n r. plainEntry r \<and> (namesPlain e \<longrightarrow> routed (idxAdj (engIdx e)) n r)"
    "\<lambda>r. rbSelectedCond r = None \<and> (namesPlain e \<longrightarrow> plainName (nhNode (rbNextHop r)))" for e
proof
  fix n r assume "grounded (pcAdjacencies (bgpPropagationContext e)) n r"
    "rbSelectedCond r = None \<and> (namesPlain e \<longrightarrow> plainName (nhNode (rbNextHop r)))"
  then show "plainEntry r \<and> (namesPlain e \<longrightarrow> routed (idxAdj (engIdx e)) n r)"
    using grounded_routed [of "idxAdj (engIdx e)" n r] by (auto simp: bgpPropagationContext_def grounded_def)
next
  fix r s current curNode adj peerNode entry
  assume r: "rbSelectedCond r = None \<and> (namesPlain e \<longrightarrow> plainName (nhNode (rbNextHop r)))"
    and s: "propagation.plainTables ribHolds s" and g: "grounded (pcAdjacencies (bgpPropagationContext e)) current r"
    and cur: "pcNode (bgpPropagationContext e) current = Some curNode"
    and nxt: "nextEntry (bgpPropagationContext e) r current curNode adj s = Inr (Some (peerNode, entry))"
  have "rbSelectedCond entry = None" using bgp.nextEntry_path(3) [OF s g nxt] r by simp
  moreover have "namesPlain e \<longrightarrow> plainName (nhNode (rbNextHop entry))"
    using next_hop [of e r current curNode adj s peerNode entry] r cur nxt by (simp add: bgpPropagationContext_def)
  ultimately show "rbSelectedCond entry = None \<and> (namesPlain e \<longrightarrow> plainName (nhNode (rbNextHop entry)))" by blast
qed (simp_all add: sameEntry_def sameShape_def)

text \<open>A network the simulation can run on.\<close>

definition runnable :: "engine \<Rightarrow> nat \<Rightarrow> bool" where
  "runnable e fuel \<longleftrightarrow> namesPlain e \<and> nodesIndexed (topoNodes (idxTopology (engIdx e))) (engIdx e)
     \<and> length (topoNodes (idxTopology (engIdx e))) \<le> fuel"

lemma runnable_node:
  assumes "runnable e fuel" "n \<in> set (topoNodes (idxTopology (engIdx e)))"
  shows "plainName (nodeName n)" "nodeName n \<in> dom (idxNodes (engIdx e))"
  using assms by (auto simp: runnable_def namesPlain_def nodesIndexed_def)

lemma runnable_net: "runnable e fuel \<Longrightarrow> namesPlain e" "runnable e fuel \<Longrightarrow> plainNet (idxAdj (engIdx e))"
  by (simp_all add: runnable_def namesPlain_def)

lemma runnable_dom:
  assumes "runnable e fuel"
  shows "finite (dom (idxNodes (engIdx e)))" "card (dom (idxNodes (engIdx e))) \<le> fuel"
proof -
  let ?ns = "topoNodes (idxTopology (engIdx e))"
  have dom: "dom (idxNodes (engIdx e)) \<subseteq> nodeName ` set ?ns"
    using assms by (auto simp: runnable_def nodesIndexed_def)
  then show "finite (dom (idxNodes (engIdx e)))" by (rule finite_subset) simp
  have "card (dom (idxNodes (engIdx e))) \<le> card (nodeName ` set ?ns)" by (rule card_mono [OF _ dom]) simp
  also have "\<dots> \<le> length ?ns" using card_image_le [of "set ?ns" nodeName] card_length [of ?ns] by simp
  finally show "card (dom (idxNodes (engIdx e))) \<le> fuel" using assms by (simp add: runnable_def)
qed

lemma tablesOK_walk:
  assumes "runnable e fuel" "tablesOK e rib" "originated n r" "n \<in> dom (idxNodes (engIdx e))"
  shows "\<exists>rib'. walkBGP fuel e r rib = Inr rib' \<and> tablesOK e rib'"
proof -
  have path: "pvPathNodes (rbProvenance r) = [n]" "\<not> rbRacing r" "rbSelectedCond r = None"
    using assms(3) by (simp_all add: originated_def originProvenance_def)
  have tables: "sim_walk.tables e t \<longleftrightarrow> tablesOK e t" for t
    unfolding tablesOK_def sim_walk.tables_def using runnable_net(1) [OF assms(1)] routed_plain by blast
  have adj: "pcAdjacencies (bgpPropagationContext e) = idxAdj (engIdx e)" by (simp add: bgpPropagationContext_def)
  have "\<exists>rib'. WalkRoute fuel (bgpPropagationContext e) r rib = Inr rib' \<and> sim_walk.tables e rib'"
  proof (rule sim_walk.WalkRoute_returns)
    show "plainNet (pcAdjacencies (bgpPropagationContext e))" using runnable_net(2) [OF assms(1)] by (simp add: adj)
    show "sim_walk.tables e rib" using assms(2) by (simp add: tables)
    show "rbSelectedCond r = None \<and> (namesPlain e \<longrightarrow> plainName (nhNode (rbNextHop r)))"
      using assms(3) by (simp add: originated_def)
    show "grounded (pcAdjacencies (bgpPropagationContext e)) n r" by (rule originated_grounded [OF assms(3)])
    show "finite (dom (idxNodes (engIdx e)))" by (rule runnable_dom [OF assms(1)])
    show "card (dom (idxNodes (engIdx e))) < fuel + length (pvPathNodes (rbProvenance r))"
      using runnable_dom(2) [OF assms(1)] by (simp add: path)
    show "set (pvPathNodes (rbProvenance r)) \<subseteq> dom (idxNodes (engIdx e))" using assms(4) by (simp add: path)
  qed (simp_all add: path bgpPropagationContext_def domI)
  then show ?thesis by (simp add: walkBGP_def tables)
qed

lemma tablesOK_addAndWalk:
  assumes "runnable e fuel" "tablesOK e rib" "originated (nodeName n) r" "n \<in> set (topoNodes (idxTopology (engIdx e)))"
  shows "\<exists>rib'. addAndWalk fuel e n p r rib = Inr rib' \<and> tablesOK e rib'"
  unfolding addAndWalk_def
  by (rule tablesOK_walk [OF assms(1) _ assms(3) runnable_node(2) [OF assms(1,4)]])
     (rule tablesOK_addRIB [OF assms(2) originated_routed [OF assms(3)]])

lemma foldE_tablesOK:
  assumes "tablesOK e rib" "\<And>x rib. x \<in> set xs \<Longrightarrow> tablesOK e rib \<Longrightarrow> \<exists>rib'. f rib x = Inr rib' \<and> tablesOK e rib'"
  shows "\<exists>rib'. foldE f rib xs = Inr rib' \<and> tablesOK e rib'"
  using assms
proof (induction xs arbitrary: rib)
  case (Cons x xs)
  obtain t where "f rib x = Inr t" "tablesOK e t" using Cons.prems(2) [of x rib] Cons.prems(1) by auto
  then show ?case using Cons.IH [of t] Cons.prems(2) by simp
qed simp

lemma tablesOK_announce:
  assumes "runnable e fuel" "tablesOK e rib" "n \<in> set (topoNodes (idxTopology (engIdx e)))"
  shows "\<exists>rib'. announceRoutes fuel e rib n = Inr rib' \<and> tablesOK e rib'"
proof -
  note name = runnable_node [OF assms(1,3)]
  have "\<exists>rib1. (if bgpEnabled n
      then foldE (\<lambda>rib (p, source). addAndWalk fuel e n p (networkEntry n p source) rib) rib (networkStatements n)
      else Inr rib) = Inr rib1 \<and> tablesOK e rib1"
    using assms(2) by (auto intro!: foldE_tablesOK tablesOK_addAndWalk [OF assms(1) _ originated_entries(2) [OF runnable_net(1) [OF assms(1)] name(1)] assms(3)])
  then obtain rib1 where rib1: "(if bgpEnabled n
      then foldE (\<lambda>rib (p, source). addAndWalk fuel e n p (networkEntry n p source) rib) rib (networkStatements n)
      else Inr rib) = Inr rib1" "tablesOK e rib1" by blast
  obtain out rib2 where red: "redistributedRoutes e n rib1 = (out, rib2)" by force
  have out: "originated (nodeName n) r" if "r \<in> set out" for r
    using that red originated_redistributed [OF runnable_net(1) [OF assms(1)] name(1)]
    by (auto simp: redistributedRoutes_def Let_def set_map_filter)
  have "tablesOK e rib2" using red out rib1(2)
    by (auto simp: redistributedRoutes_def Let_def intro!: fold_tablesOK tablesOK_addRIB originated_routed)
  then have "\<exists>rib'. foldE (\<lambda>rib r. walkBGP fuel e r rib) rib2 out = Inr rib' \<and> tablesOK e rib'"
    by (rule foldE_tablesOK) (use out name(2) in \<open>auto intro: tablesOK_walk [OF assms(1)]\<close>)
  then show ?thesis using rib1(1) red by (simp add: announceRoutes_def)
qed

end
