(* ===== verification/Simulation_OSPF.thy ===== *)
theory Simulation_OSPF
  imports Simulation
begin

text \<open>
  The installation of OSPF routes keeps the invariant of the tables: candidate paths, and the paths
  joined across areas, run over links of the topology, and their conditions keep them up.
\<close>

section \<open>OSPF\<close>

lemma walkPath_append:
  assumes "walkPath adjacent ns ls"
  shows "walkPath adjacent ms ks \<Longrightarrow> last ns = hd ms \<Longrightarrow> walkPath adjacent (ns @ tl ms) (ls @ ks)"
proof (induction rule: walkPath.induct)
  case (hop ms ks adj)
  have "ms \<noteq> []" using walkPath_nonempty [OF hop.hyps(1)] .
  then have IH: "walkPath adjacent (ns @ tl ms) (ls @ ks)" and last: "last (ns @ tl ms) = last ms"
    using hop.IH hop.prems walkPath_nonempty [OF assms] by (cases ms; auto)+
  show ?case using walkPath.hop [OF IH, of adj] hop.hyps(2) \<open>ms \<noteq> []\<close> by (simp add: last)
qed (use assms in simp)

lemma walkPath_plain:
  "walkPath adjacent ns ls \<Longrightarrow> plainNet adjacent \<Longrightarrow> plainName (hd ns) \<Longrightarrow> list_all plainName ns \<and> list_all plainName ls"
proof (induction rule: walkPath.induct)
  case (hop ns ls adj)
  then show ?case using walkPath_nonempty [OF hop.hyps(1)] by (auto simp: plainNet_def)
qed simp

text \<open>A path from one node to another, and the condition it carries when it has links.\<close>

definition linkedPath :: "(node_id \<Rightarrow> adj_edge list) \<Rightarrow> string \<Rightarrow> ospf_path \<Rightarrow> bool" where
  "linkedPath adjacent src p \<longleftrightarrow> walkPath adjacent (opNodes p) (opLinks p) \<and> hd (opNodes p) = src
     \<and> (case opCond p of
          None \<Rightarrow> opNodes p = [src] \<and> opLinks p = []
        | Some c \<Rightarrow> plainName src \<longrightarrow> plainCond c \<and> (\<forall>ctx. evalCond ctx c \<longrightarrow>
            (\<forall>n \<in> set (opNodes p). \<not> NodeFailed ctx n) \<and> (\<forall>l \<in> set (opLinks p). \<not> LinkFailed ctx l)))"

lemma grown_walkPath:
  assumes "grown (ospfAdjacencies idx states allowed) src x"
  shows "walkPath (idxAdj idx) (piNodes x) (piLinks x) \<and> hd (piNodes x) = src \<and> piLast x = last (piNodes x)"
  using assms
proof (induction rule: grown.induct)
  case (first adj)
  then obtain e where "e \<in> set (idxAdj idx src)" "ajTo adj = adjTo e" "ajLink adj = linkName (adjLink e)"
    using ospfAdjacencies_edge by blast
  then show ?case using walkPath.hop [OF walkPath.origin, of e "idxAdj idx" src] by (simp add: firstHop_def)
next
  case (extend item adj)
  then obtain e where "e \<in> set (idxAdj idx (piLast item))" "ajTo adj = adjTo e" "ajLink adj = linkName (adjLink e)"
    using ospfAdjacencies_edge by blast
  then show ?case using extend.IH walkPath.hop [of "idxAdj idx" "piNodes item" "piLinks item" e] walkPath_nonempty
    by (auto simp: extendItem_def hd_append)
qed

text \<open>The search records only chains, whatever the costs are.\<close>

lemma searchStep_chains:
  assumes "q \<noteq> []" "\<forall>y \<in> set q. grown adjs src y" "\<forall>d. \<forall>p \<in> set (psOut st d). \<exists>x. grown adjs src x \<and> p = pathOf x"
  shows "(\<forall>y \<in> set (fst (searchStep adjs maxHops q st)). grown adjs src y)
    \<and> (\<forall>d. \<forall>p \<in> set (psOut (snd (searchStep adjs maxHops q st)) d). \<exists>x. grown adjs src x \<and> p = pathOf x)"
proof -
  let ?item = "fst (heapPop pathItemLess q)" and ?rest = "snd (heapPop pathItemLess q)"
  have q: "set q = insert ?item (set ?rest)"
    using arg_cong [OF heapPop_mset(1) [OF assms(1)], of set_mset pathItemLess] by simp
  have "set (fold (heapPush pathItemLess) xs ys) = set xs \<union> set ys" for xs ys
    using arg_cong [OF mset_heapPushes [of pathItemLess xs ys], of set_mset] by simp
  then have "\<forall>y \<in> set (fst (searchStep adjs maxHops q st)). grown adjs src y"
    using assms(2) grown_extensions q by (auto simp: searchStep_def Let_def)
  moreover have "\<forall>d. \<forall>p \<in> set (psOut (recordPath ?item st) d). \<exists>x. grown adjs src x \<and> p = pathOf x"
    using assms(2,3) q by (auto simp: recordPath_eq)
  ultimately show ?thesis by (simp add: searchStep_def Let_def addFrontier_def)
qed

lemma candidates_chains:
  assumes "p \<in> set (candidatePaths adjs maxHops src d)"
  shows "\<exists>x. grown adjs src x \<and> p = pathOf x"
proof -
  let ?P = "\<lambda>q st. (\<forall>y \<in> set q. grown adjs src y) \<and> (\<forall>d. \<forall>p \<in> set (psOut st d). \<exists>x. grown adjs src x \<and> p = pathOf x)"
  let ?q = "fold (heapPush pathItemLess) (map (firstHop src) (adjs src)) []"
  have "set ?q = firstHop src ` set (adjs src)"
    using arg_cong [OF mset_heapPushes [of pathItemLess "map (firstHop src) (adjs src)" "[]"], of set_mset] by simp
  then have start: "?P ?q \<lparr>psOut = (\<lambda>_. []), psFound = (\<lambda>_. 0), psFrontier = (\<lambda>_. [])\<rparr>"
    by (auto intro: grown.first)
  have "?P [] (candidateLoop adjs maxHops ?q \<lparr>psOut = (\<lambda>_. []), psFound = (\<lambda>_. 0), psFrontier = (\<lambda>_. [])\<rparr>)"
    by (rule candidateLoop_invariant [where P = ?P, OF start]) (intro allI impI searchStep_chains; blast)
  then show ?thesis using assms unfolding candidatePaths_def SortPaths_def set_sortSlice by blast
qed

lemma candidate_linkedPath:
  assumes "plainNet (idxAdj idx)" "p \<in> set (ospfCandidatePathsBounded idx states allowed src d)"
  shows "linkedPath (idxAdj idx) src p"
proof -
  obtain x where x: "grown (ospfAdjacencies idx states allowed) src x" "p = pathOf x"
    using candidates_chains assms(2) unfolding ospfCandidatePathsBounded_def by blast
  note walk = grown_walkPath [OF x(1)]
  have "plainName src \<Longrightarrow> list_all plainName (piNodes x) \<and> list_all plainName (piLinks x)"
    using walkPath_plain [OF _ assms(1)] walk by blast
  then show ?thesis using walk pathCond_exact [of x] by (auto simp: linkedPath_def x(2) pathOf_def)
qed

text \<open>The parts joined so far: a path, and conditions that together keep it up.\<close>

definition joinedLinks :: "(node_id \<Rightarrow> adj_edge list) \<Rightarrow> string \<Rightarrow> ospf_path \<Rightarrow> cond list \<Rightarrow> bool" where
  "joinedLinks adjacent src out conds \<longleftrightarrow> walkPath adjacent (opNodes out) (opLinks out) \<and> hd (opNodes out) = src
     \<and> opCond out = None \<and> list_all plainCond conds
     \<and> (if conds = [] then opNodes out = [src] \<and> opLinks out = []
        else \<forall>ctx. (\<forall>c \<in> set conds. evalCond ctx c) \<longrightarrow>
            (\<forall>n \<in> set (opNodes out). \<not> NodeFailed ctx n) \<and> (\<forall>l \<in> set (opLinks out). \<not> LinkFailed ctx l))"

lemma joinedLinks_step:
  assumes "joinedLinks adjacent src out conds" "linkedPath adjacent (last (opNodes out)) p"
    and net: "plainNet adjacent" "plainName src"
  shows "joinedLinks adjacent src \<lparr>opCost = cost, opNodes = opNodes out @ tl (opNodes p), opLinks = opLinks out @ opLinks p,
      opAreas = areas, opCond = None\<rparr> (conds @ (case opCond p of None \<Rightarrow> [] | Some c \<Rightarrow> [c]))"
proof -
  have walk: "walkPath adjacent (opNodes out) (opLinks out)" "walkPath adjacent (opNodes p) (opLinks p)"
    and ends: "last (opNodes out) = hd (opNodes p)" "hd (opNodes out) = src"
    using assms by (simp_all add: joinedLinks_def linkedPath_def)
  have nonempty: "opNodes out \<noteq> []" "opNodes p \<noteq> []" using walk walkPath_nonempty by blast+
  then have nodes: "hd (opNodes out @ tl (opNodes p)) = src" "set (tl (opNodes p)) \<subseteq> set (opNodes p)"
    using ends(2) by (auto simp: hd_append dest: list.set_sel(2))
  note joined = walkPath_append [OF walk ends(1)]
  have "list_all plainName (opNodes out)" using walkPath_plain [OF walk(1) net(1)] ends(2) net(2) by simp
  then have plain: "plainName (last (opNodes out))" using nonempty(1) by (simp add: list_all_iff)
  show ?thesis
  proof (cases "opCond p")
    case None
    then have "opNodes p = [hd (opNodes p)]" "opLinks p = []" using assms(2) by (auto simp: linkedPath_def)
    then have "tl (opNodes p) = []" by (metis list.sel(3))
    then show ?thesis using assms(1) \<open>opLinks p = []\<close> None by (simp add: joinedLinks_def)
  next
    case (Some c)
    then have c: "plainCond c" "\<And>ctx. evalCond ctx c \<Longrightarrow>
        (\<forall>n \<in> set (opNodes p). \<not> NodeFailed ctx n) \<and> (\<forall>l \<in> set (opLinks p). \<not> LinkFailed ctx l)"
      using assms(2) plain by (auto simp: linkedPath_def)
    have first: "set (opNodes out) \<subseteq> set (opNodes p) \<and> opLinks out = []" if "conds = []"
    proof -
      have "opNodes out = [src]" "opLinks out = []" using assms(1) that by (simp_all add: joinedLinks_def)
      then show ?thesis using ends(1) nonempty(2) by simp
    qed
    have "(\<forall>n \<in> set (opNodes out @ tl (opNodes p)). \<not> NodeFailed ctx n) \<and> (\<forall>l \<in> set (opLinks out @ opLinks p). \<not> LinkFailed ctx l)"
      if all: "\<forall>d \<in> set (conds @ [c]). evalCond ctx d" for ctx
    proof -
      have "evalCond ctx c" using all by simp
      note p_up = c(2) [OF this]
      have "(\<forall>n \<in> set (opNodes out). \<not> NodeFailed ctx n) \<and> (\<forall>l \<in> set (opLinks out). \<not> LinkFailed ctx l)"
      proof (cases "conds = []")
        case True
        then show ?thesis using first p_up by auto
      next
        case False
        then show ?thesis using assms(1) all by (simp add: joinedLinks_def)
      qed
      then show ?thesis using p_up nodes(2) by auto
    qed
    then show ?thesis using assms(1) joined nodes(1) c(1) Some by (simp add: joinedLinks_def)
  qed
qed

lemma joinParts_joined:
  assumes net: "plainNet adjacent" "plainName src"
  shows "joinedLinks adjacent src out conds \<Longrightarrow> \<forall>p \<in> set ps. linkedPath adjacent (hd (opNodes p)) p
    \<Longrightarrow> joinParts out conds ps = Some (out', conds') \<Longrightarrow> joinedLinks adjacent src out' conds'"
proof (induction ps arbitrary: out conds)
  case (Cons p ps)
  then have "linkedPath adjacent (last (opNodes out)) p" by (auto split: if_splits)
  from Cons.IH [OF joinedLinks_step [OF Cons.prems(1) this net]] Cons.prems(2,3)
  show ?case by (simp split: if_splits)
qed simp

lemma ConcatPaths_linked:
  assumes net: "plainNet adjacent" "plainName (hd (opNodes p))"
    and "\<forall>p \<in> set (p # ps). linkedPath adjacent (hd (opNodes p)) p" "ConcatPaths (p # ps) = Some q"
  shows "linkedPath adjacent (hd (opNodes p)) q"
proof -
  obtain out conds where parts: "joinParts (p\<lparr>opCond := None\<rparr>) (case opCond p of None \<Rightarrow> [] | Some c \<Rightarrow> [c]) ps = Some (out, conds)"
    and q: "q = (if 0 < length conds then out\<lparr>opCond := Some (And conds)\<rparr> else out)"
    using assms(4) by (auto simp: ConcatPaths_def split: if_splits option.splits prod.splits)
  have "joinedLinks adjacent (hd (opNodes p)) (p\<lparr>opCond := None\<rparr>) (case opCond p of None \<Rightarrow> [] | Some c \<Rightarrow> [c])"
    using assms(3) net(2) by (auto simp: joinedLinks_def linkedPath_def split: option.splits)
  from joinParts_joined [OF net this _ parts] assms(3)
  have out: "joinedLinks adjacent (hd (opNodes p)) out conds" by simp
  then show ?thesis using And_eval [of conds] plain_And [of conds]
    by (cases "conds = []") (auto simp: q joinedLinks_def linkedPath_def list_all_iff)
qed

text \<open>The paths an advertisement is installed over: each leads from the installing node.\<close>

lemma ZeroPath_linked:
  assumes "plainNet (idxAdj idx)" "length (opNodes (ZeroPath src dst (ospfCandidatePathsBounded idx states allowed src))) \<noteq> 0"
  shows "linkedPath (idxAdj idx) src (ZeroPath src dst (ospfCandidatePathsBounded idx states allowed src))"
proof (cases "src = dst \<or> ospfCandidatePathsBounded idx states allowed src dst = []")
  case True
  then show ?thesis using assms(2) by (auto simp: ZeroPath_def linkedPath_def emptyPath_def walkPath.origin)
next
  case False
  then obtain x xs where "ospfCandidatePathsBounded idx states allowed src dst = x # xs" by (cases "ospfCandidatePathsBounded idx states allowed src dst") auto
  then show ?thesis using candidate_linkedPath [OF assms(1), of x states allowed src dst] False by (simp add: ZeroPath_def)
qed

lemma linkedPath_hd: "linkedPath adjacent src p \<Longrightarrow> hd (opNodes p) = src"
  by (simp add: linkedPath_def)

lemma interArea_linked:
  assumes net: "plainNet (idxAdj idx)" "plainName src"
    and "q \<in> set (interAreaVia idx states areas abrs src adv (ospfCandidatePaths idx states src srcArea) srcABR)"
  shows "linkedPath (idxAdj idx) src q"
proof -
  let ?a = "ZeroPath src srcABR (ospfCandidatePaths idx states src srcArea)"
  obtain dstABR where b: "length (opNodes ?a) \<noteq> 0"
      "length (opNodes (ZeroPath srcABR dstABR (ospfCandidatePaths idx states srcABR BackboneArea))) \<noteq> 0"
      "length (opNodes (ZeroPath dstABR (adNode adv) (ospfCandidatePaths idx states dstABR (adArea adv)))) \<noteq> 0"
    and q: "ConcatPaths [?a, ZeroPath srcABR dstABR (ospfCandidatePaths idx states srcABR BackboneArea),
       ZeroPath dstABR (adNode adv) (ospfCandidatePaths idx states dstABR (adArea adv))] = Some q"
    using assms(3) unfolding interAreaVia_def Let_def by (auto simp: set_map_filter split: if_splits)
  note parts = b [unfolded ospfCandidatePaths_def, THEN ZeroPath_linked [OF net(1)], folded ospfCandidatePaths_def]
  have "linkedPath (idxAdj idx) (hd (opNodes ?a)) q"
    by (rule ConcatPaths_linked [OF net(1) _ _ q]) (use parts net(2) in \<open>simp_all add: linkedPath_hd\<close>)
  then show ?thesis using linkedPath_hd [OF parts(1)] by simp
qed

text \<open>Advertisements carry the condition of the route they were redistributed from.\<close>

definition plainSource :: "advertisement \<Rightarrow> bool" where
  "plainSource adv \<longleftrightarrow> (case rbCondition (adSource adv) of None \<Rightarrow> True | Some c \<Rightarrow> plainCond c)"

lemma remote_routed:
  assumes net: "plainNet (idxAdj idx)" "plainName src" and path: "linkedPath (idxAdj idx) src p"
    and "plainSource adv" "tablesOK e rib" "engIdx e = idx"
  shows "tablesOK e (installRemoteOSPFRoute idx src adv routeType p rib)"
proof (cases "length (opNodes p) < 2")
  case False
  obtain c where c: "opCond p = Some c"
  proof (cases "opCond p")
    case None
    then have "opNodes p = [src]" using path by (simp add: linkedPath_def)
    then show ?thesis using False by simp
  qed
  then have up: "plainCond c" "\<And>ctx. evalCond ctx c \<Longrightarrow>
      (\<forall>n \<in> set (opNodes p). \<not> NodeFailed ctx n) \<and> (\<forall>l \<in> set (opLinks p). \<not> LinkFailed ctx l)"
    using path net(2) by (auto simp: linkedPath_def)
  have cond: "plainCond (remoteCond adv p)" "evalCond ctx (remoteCond adv p) \<Longrightarrow> evalCond ctx c" for ctx
    using assms(4) up(1) plain_And [of "[c, _]"] And_eval [of "[c, _]"]
    by (auto simp: remoteCond_def c plainSource_def Let_def split: option.splits)
  have "list_all plainName (opNodes p)" using walkPath_plain [OF _ net(1), of "opNodes p" "opLinks p"] path net(2)
    by (simp add: linkedPath_def)
  then have hop: "plainName (opNodes p ! Suc 0)" using False by (simp add: list_all_length)
  show ?thesis
    unfolding installRemoteOSPFRoute_def Let_def using False
    by (simp, intro tablesOK_addRIB assms(5))
       (use cond up path hop in \<open>auto simp: assms(6) routed_def zeroRIBEntry_def plainEntry_def pathUp_def linkedPath_def Normalize_def Let_def\<close>)
qed (use assms in \<open>simp add: installRemoteOSPFRoute_def\<close>)

lemma local_routed:
  assumes "plainName (nodeName n)" "tablesOK e rib"
  shows "tablesOK e (installLocalOSPFRoute n adv states rib)"
  unfolding installLocalOSPFRoute_def Let_def
  by (intro tablesOK_addRIB assms(2) originated_routed)
     (use originated_node [OF assms(1)] in \<open>simp add: originated_def zeroRIBEntry_def Normalize_def Let_def\<close>)

lemma installAdvertisement_routed:
  assumes net: "plainNet (idxAdj idx)" "plainName (nodeName src)" "engIdx e = idx"
    and "plainSource adv" "tablesOK e rib"
  shows "tablesOK e (installAdvertisement idx states processes areas abrs src adv rib)"
proof -
  let ?install = "\<lambda>routeType path rib. if AdvertisementAllowed src adv path processes
            then installRemoteOSPFRoute idx (nodeName src) adv routeType path rib else rib"
  have install: "tablesOK e (fold (?install routeType) ps rib)"
    if "tablesOK e rib" "\<And>p. p \<in> set ps \<Longrightarrow> linkedPath (idxAdj idx) (nodeName src) p" for ps routeType rib
    using that by (intro fold_tablesOK) (simp_all add: remote_routed [OF net(1,2) _ assms(4) _ net(3)])
  have direct: "linkedPath (idxAdj idx) (nodeName src) p"
    if "p \<in> set (ospfCandidatePathsAnyArea idx states (nodeName src) d) \<or> p \<in> set (ospfCandidatePaths idx states (nodeName src) area d)" for p d area
    using that candidate_linkedPath [OF net(1)] unfolding ospfCandidatePathsAnyArea_def ospfCandidatePaths_def by blast
  have inter: "linkedPath (idxAdj idx) (nodeName src) p" if "p \<in> set (ospfInterAreaPaths idx (nodeName src) adv states areas abrs)" for p
    using that interArea_linked [OF net(1,2)] set_take_subset
    by (auto simp: ospfInterAreaPaths_def SortPaths_def split: if_splits dest!: in_set_takeD)
  show ?thesis unfolding installAdvertisement_def Let_def
    using assms(5) by (auto intro!: install local_routed net(2) intro: direct inter)
qed

lemma redistributed_plain:
  assumes "namesPlain e \<and> plainName (nodeName n)" "tablesOK e rib" "r \<in> set (ospfRedistributedRoutes e rib n process)"
  shows "\<exists>c. rbCondition r = Some c \<and> plainCond c"
proof -
  let ?ok = "\<lambda>r. \<exists>c. rbCondition r = Some c \<and> plainCond c"
  obtain redist raw where raw: "raw \<in> set (ospfRedistributionCandidates e rib n (ospfNetworkInstance process) (orKind redist))"
    and r: "ospfRedistributed e n redist raw = Some r"
    using assms(3) unfolding ospfRedistributedRoutes_def by (auto simp: set_map_filter)
  have local: "?ok (bgpRouteFromConfiguredRoute n x)" for x
    using originated_entries(3) [of e n] assms(1) by (auto simp: originated_def)
  have learned: "?ok x" if "redistributedBGP n y = Some x" "ribHolds rib m y" for x y m
  proof -
    have "routed (idxAdj (engIdx e)) m y" using that(2) assms(2) by (simp add: tablesOK_def)
    then have "\<exists>c. rbCondition y = Some c \<and> plainCond c" "case rbSelectedCond y of None \<Rightarrow> True | Some d \<Rightarrow> plainCond d"
      by (auto simp: routed_def plainEntry_def)
    then show ?thesis using that(1) by (auto simp: redistributedBGP_def Let_def split: if_splits option.splits)
  qed
  have bucket: "\<exists>m. ribHolds rib m y" if "(k, routes) \<in> set rib" "y \<in> set routes" for k routes y
    using that by (auto simp: ribHolds_def)
  have "?ok raw"
    using raw local learned bucket unfolding ospfRedistributionCandidates_def Let_def
    by (fastforce simp: set_map_filter split: if_splits)
  moreover have "rbCondition (rdRoute (ApplyRoutePolicy m q n2 p2 x r0)) = rbCondition r0" for m q n2 p2 x r0
    using ApplyRoutePolicy_sameOrigin [of r0 m q n2 p2 x] by (simp add: sameOrigin_def sameRoute_def)
  ultimately show ?thesis using r
    by (auto simp: ospfRedistributed_def RedistributedExternalRoute_def Let_def split: if_splits)
qed

lemma advertisement_plain:
  assumes "runnable e fuel" "tablesOK e rib" "adv \<in> set (ospfAdvertisements e rib states processes)"
  shows "plainSource adv"
proof -
  have zero: "plainSource adv" if "adSource adv = zeroRIBEntry" using that by (simp add: plainSource_def zeroRIBEntry_def)
  consider "adv \<in> set (interfaceAdvertisements states)"
    | n p where "n \<in> set (topoNodes (idxTopology (engIdx e)))" "adv \<in> set (externalAdvertisements e rib states n p)"
    | n p where "adv \<in> set (defaultAdvertisements states n p)"
    using assms(3) unfolding ospfAdvertisements_def set_sortSlice by (fastforce split: option.splits)
  then show ?thesis
  proof cases
    case 1
    then have "adSource adv = zeroRIBEntry"
      unfolding interfaceAdvertisements_def using set_collectUnseen_subset by (fastforce simp: zeroAdvertisement_def)
    then show ?thesis by (rule zero)
  next
    case 2
    then obtain r where "r \<in> set (ospfRedistributedRoutes e rib n p)" "adSource adv = r"
      by (auto simp: externalAdvertisements_def)
    then show ?thesis using redistributed_plain [OF conjI [OF runnable_net(1) [OF assms(1)] runnable_node(1) [OF assms(1) 2(1)]] assms(2)]
      by (fastforce simp: plainSource_def)
  next
    case 3
    then have "adSource adv = zeroRIBEntry"
      by (auto simp: defaultAdvertisements_def Let_def set_map_filter zeroAdvertisement_def split: if_splits)
    then show ?thesis by (rule zero)
  qed
qed

lemma tablesOK_OSPF:
  assumes "runnable e fuel" "tablesOK e rib"
  shows "tablesOK e (installOSPFRoutes e rib)"
proof -
  have net: "plainNet (idxAdj (engIdx e))" by (rule runnable_net(2) [OF assms(1)])
  have "tablesOK e (installOSPFRoutesVRF e vrf rib)" if ok: "tablesOK e rib" for vrf rib
    unfolding installOSPFRoutesVRF_def Let_def
    using ok by (auto intro!: fold_tablesOK [OF ok] fold_tablesOK
        intro: installAdvertisement_routed [OF net runnable_node(1) [OF assms(1)] refl advertisement_plain [OF assms(1) ok]])
  then show ?thesis unfolding installOSPFRoutes_def by (intro fold_tablesOK assms(2))
qed

end
