(* ===== verification/Simulation_Run.thy ===== *)
theory Simulation_Run
  imports Simulation_OSPF
begin

text \<open>
  Selection, convergence and aggregates keep the invariant of the tables and meet none of the errors
  that would be panics of the code; with the phases before them, a whole run does.
\<close>

section \<open>Selection and convergence\<close>

lemma routed_unselected:
  assumes "routed adjacent n r" "unselected r' = unselected r" "plainEntry r'"
    and "\<And>ctx. selHolds ctx r' \<Longrightarrow> pathUp ctx r"
  shows "routed adjacent n r'"
proof -
  obtain c where r': "r' = r\<lparr>rbSelectedCond := c\<rparr>" using unselected_eq [OF assms(2)] by blast
  have "pathUp ctx r'" if "rbSelectedCond r' = Some s" "evalCond ctx s" for s ctx
    using assms(4) [of ctx] that by (simp add: selHolds_def r' pathUp_def)
  then show ?thesis using assms(1,3) by (auto simp: routed_def r' pathUp_def)
qed

lemma selectLoop_selects:
  "selectLoop b n higher rs = Inr out \<Longrightarrow> list_all condOK higher \<Longrightarrow> list_all condOK rs \<Longrightarrow> r \<in> set out \<Longrightarrow> rbSelectedCond r \<noteq> None"
proof (induction rs arbitrary: higher out)
  case (Cons x xs)
  obtain c where c: "selectedCond b n higher x = Inr (Some c)"
    using selectedCond_eval [of higher x b n] Cons.prems(2,3) by auto
  with Cons.prems(1) obtain out' where out': "selectLoop b n (higher @ [x]) xs = Inr out'" "out = x\<lparr>rbSelectedCond := Some c\<rparr> # out'"
    by (auto split: sum.splits)
  then show ?case using Cons.IH [OF out'(1)] Cons.prems(2-4) by auto
qed simp

lemma selectBucket_routed:
  assumes "\<forall>r \<in> set routes. routed adjacent n r"
  shows "\<exists>out. selectBucket e k routes = Inr out \<and> (\<forall>r \<in> set out. routed adjacent n r \<and> rbSelectedCond r \<noteq> None)"
proof -
  let ?n = "engineNode e (fst k)" let ?b = "BehaviorFor (engBehaviors e) (nodeKind ?n)"
  let ?rs = "behaviorSelectRoutes ?b ?n routes"
  have mset: "set ?rs = set routes"
    using mset_SelectRoutes [of _ ?n routes] unfolding behaviorSelectRoutes_def by (metis set_mset_mset)
  have ok: "list_all condOK ?rs"
    using assms by (auto simp: list_all_iff mset condOK_def routed_def plainEntry_def)
  obtain out where out: "selectLoop ?b ?n [] ?rs = Inr out" "map unselected out = map unselected ?rs"
      "list_all plainEntry out = list_all plainEntry (map unselected ?rs)"
      "\<And>ctx i. i < length ?rs \<Longrightarrow> selHolds ctx (out ! i) \<Longrightarrow> condHolds ctx (?rs ! i)"
    using selectLoop_eval [OF _ ok, of "[]" ?b ?n] by auto
  have "list_all plainEntry (map unselected ?rs)"
    using assms by (auto simp: list_all_iff mset unselected_def routed_def plainEntry_def)
  then have plain: "list_all plainEntry out" using out(3) by simp
  have len: "length out = length ?rs" using arg_cong [OF out(2), of length] by simp
  have "routed adjacent n r" if "r \<in> set out" for r
  proof -
    obtain i where i: "i < length out" "r = out ! i" using \<open>r \<in> set out\<close> by (auto simp: in_set_conv_nth)
    have r: "routed adjacent n (?rs ! i)" using assms i(1) len mset by (metis nth_mem)
    have eq: "unselected r = unselected (?rs ! i)" using arg_cong [OF out(2), of "\<lambda>xs. xs ! i"] i len by simp
    have "pathUp ctx (?rs ! i)" if "selHolds ctx r" for ctx
      using out(4) [of i ctx] that i len r by (auto simp: condHolds_def routed_def split: option.splits)
    then show ?thesis using routed_unselected [OF r eq] plain that by (simp add: list_all_iff)
  qed
  then show ?thesis using out(1) selectLoop_selects [OF out(1) _ ok] by (auto simp: selectBucket_def Let_def)
qed

text \<open>The tables, and whether every entry has been selected.\<close>

definition tablesIn :: "bool \<Rightarrow> engine \<Rightarrow> rib \<Rightarrow> bool" where
  "tablesIn sel e rib \<longleftrightarrow>
     (\<forall>(k, routes) \<in> set rib. \<forall>r \<in> set routes. routed (idxAdj (engIdx e)) (fst k) r \<and> (sel \<longrightarrow> rbSelectedCond r \<noteq> None))"

lemma tablesOK_iff: "tablesOK e rib \<longleftrightarrow> (\<forall>(k, routes) \<in> set rib. \<forall>r \<in> set routes. routed (idxAdj (engIdx e)) (fst k) r)"
  by (fastforce simp: tablesOK_def ribHolds_def)

lemma tablesIn_OK: "tablesIn sel e rib \<Longrightarrow> tablesOK e rib"
  by (fastforce simp: tablesIn_def tablesOK_iff)

lemma tablesIn_bucket:
  assumes "tablesIn sel e rib" "r \<in> set (bucket rib k)"
  shows "routed (idxAdj (engIdx e)) (fst k) r" "sel \<longrightarrow> rbSelectedCond r \<noteq> None"
proof -
  obtain routes where "map_of rib k = Some routes" "r \<in> set routes"
    using assms(2) by (cases "map_of rib k") (auto simp: bucket_def)
  then show "routed (idxAdj (engIdx e)) (fst k) r" "sel \<longrightarrow> rbSelectedCond r \<noteq> None"
    using assms(1) map_of_SomeD by (fastforce simp: tablesIn_def)+
qed

lemma tablesIn_update:
  assumes "tablesIn sel e rib" "\<forall>r \<in> set routes. routed (idxAdj (engIdx e)) (fst k) r \<and> (sel \<longrightarrow> rbSelectedCond r \<noteq> None)"
  shows "tablesIn sel e (AList.update k routes rib)"
  unfolding tablesIn_def
proof
  fix x assume "x \<in> set (AList.update k routes rib)"
  then have "x \<in> insert (k, routes) (set rib)" by (rule subsetD [OF set_update_subset])
  then show "case x of (k, routes) \<Rightarrow> \<forall>r \<in> set routes. routed (idxAdj (engIdx e)) (fst k) r \<and> (sel \<longrightarrow> rbSelectedCond r \<noteq> None)"
    using assms by (auto simp: tablesIn_def)
qed

lemma tablesIn_select:
  assumes "tablesOK e rib"
  shows "\<exists>rib'. engineSelectRoutes e rib = Inr rib' \<and> tablesIn True e rib'"
  unfolding engineSelectRoutes_def tablesIn_def
proof (rule mapE_returns)
  fix x assume x: "x \<in> set rib"
  obtain k routes where kr: "x = (k, routes)" by (cases x) blast
  have "\<forall>r \<in> set routes. routed (idxAdj (engIdx e)) (fst k) r" using assms x kr by (auto simp: tablesOK_iff)
  from selectBucket_routed [OF this, of e k] obtain out where
    "selectBucket e k routes = Inr out" "\<forall>r \<in> set out. routed (idxAdj (engIdx e)) (fst k) r \<and> rbSelectedCond r \<noteq> None" by blast
  then show "\<exists>y. (case x of (k, routes) \<Rightarrow> (case selectBucket e k routes of Inl err \<Rightarrow> Inl err | Inr out \<Rightarrow> Inr (k, out))) = Inr y
      \<and> (case y of (k, routes) \<Rightarrow> \<forall>r \<in> set routes. routed (idxAdj (engIdx e)) (fst k) r \<and> (True \<longrightarrow> rbSelectedCond r \<noteq> None))"
    by (simp add: kr)
qed

lemma parentSelected_plain: "routed adjacent n r \<Longrightarrow> \<exists>c. parentSelected (Normalize r) = Some c \<and> plainCond c"
  by (auto simp: parentSelected_def routed_def plainEntry_def Let_def split: option.split if_splits)

lemma advertisedCond_plain:
  assumes "tablesOK e rib" "routed adjacent n r"
  shows "\<exists>c. advertisedCond rib r = Inr (Some c) \<and> plainCond c \<and> (\<forall>ctx. evalCond ctx c \<longrightarrow> pathUp ctx r)"
proof -
  obtain b where b: "rbBaseCond r = Some b" "plainCond b" "\<And>ctx. evalCond ctx b \<Longrightarrow> pathUp ctx r"
    using assms(2) by (auto simp: routed_def plainEntry_def)
  show ?thesis
  proof (cases "rbSourceKind (Normalize r) = RouteSourceOSPF \<or> length (pvPathNodes (rbProvenance r)) \<le> 1")
    case True
    then show ?thesis using b by (auto simp: advertisedCond_def baseCondition_def)
  next
    case own: False
    show ?thesis
    proof (cases "ParentRoute rib r")
      case None
      then show ?thesis using own by (auto simp: advertisedCond_def)
    next
      case (Some parent)
      then obtain x k where "x \<in> set (bucket rib k)" "parent = Normalize x"
        by (auto simp: ParentRoute_def Let_def dest: find_SomeD split: if_splits)
      then obtain c where c: "parentSelected parent = Some c" "plainCond c"
        using parentSelected_plain [OF tablesOK_bucket [OF assms(1)]] by blast
      have plain: "list_all plainCond [b, c]" using b(2) c(2) by simp
      have "advertisedCond rib r = Inr (Some (And [b, c]))"
        using own Some b(1) c(1) by (simp add: advertisedCond_def baseCondition_def)
      then show ?thesis using plain_And [OF plain] And_eval [OF plain] b(3) by auto
    qed
  qed
qed

lemma routed_setCondition:
  assumes "routed adjacent n r" "plainCond c" "\<And>ctx. evalCond ctx c \<Longrightarrow> pathUp ctx r"
  shows "routed adjacent n (r\<lparr>rbCondition := Some c\<rparr>)"
  using assms by (auto simp: routed_def plainEntry_def pathUp_def)

lemma tablesIn_setCondition:
  assumes "tablesIn sel e rib" "i < length (bucket rib k)"
    and "plainCond c" "\<And>ctx. evalCond ctx c \<Longrightarrow> pathUp ctx (bucket rib k ! i)"
  shows "tablesIn sel e (setCondition k i (Some c) rib)"
proof -
  note r = tablesIn_bucket [OF assms(1) nth_mem [OF assms(2)]]
  have "routed (idxAdj (engIdx e)) (fst k) x \<and> (sel \<longrightarrow> rbSelectedCond x \<noteq> None)"
    if "x \<in> set ((bucket rib k)[i := (bucket rib k ! i)\<lparr>rbCondition := Some c\<rparr>])" for x
    using that set_update_subset_insert [of "bucket rib k" i] tablesIn_bucket [OF assms(1), of x k]
      routed_setCondition [OF r(1) assms(3,4)] r(2) by fastforce
  then show ?thesis unfolding setCondition_def Let_def by (intro tablesIn_update assms(1)) blast
qed

lemma advertiseEntry_OK:
  assumes "tablesIn sel e rib" "i < length (bucket rib k)"
  shows "\<exists>rib' changed'. advertiseEntry k (rib, changed) i = Inr (rib', changed') \<and> tablesIn sel e rib'
    \<and> length (bucket rib' k) = length (bucket rib k)"
proof -
  let ?r = "bucket rib k ! i"
  have r: "routed (idxAdj (engIdx e)) (fst k) ?r" using tablesIn_bucket(1) [OF assms(1)] assms(2) by simp
  obtain c where c: "advertisedCond rib ?r = Inr (Some c)" "plainCond c" "\<And>ctx. evalCond ctx c \<Longrightarrow> pathUp ctx ?r"
    using advertisedCond_plain [OF tablesIn_OK [OF assms(1)] r] by blast
  note new = tablesIn_setCondition [OF assms c(2,3)]
  obtain b where "condChanged (rbCondition ?r) (Some c) = Inr b" by (cases "rbCondition ?r") (auto simp: condChanged_def)
  then show ?thesis using new assms(1) c(1)
    by (cases b) (auto simp: advertiseEntry_def Let_def bucket_setCondition)
qed

lemma advertiseBucket_OK:
  assumes "tablesIn sel e rib"
  shows "\<exists>rib' changed'. advertiseBucket (rib, changed) k = Inr (rib', changed') \<and> tablesIn sel e rib'"
proof -
  let ?n = "length (bucket rib k)"
  have "case foldE (advertiseEntry k) (rib, changed) [0..<?n] of
      Inl err \<Rightarrow> False | Inr st \<Rightarrow> tablesIn sel e (fst st) \<and> length (bucket (fst st) k) = ?n"
  proof (rule foldE_rule [where I = "\<lambda>_ st. tablesIn sel e (fst st) \<and> length (bucket (fst st) k) = ?n"])
    fix ys i zs and st :: "rib \<times> bool"
    assume "[0..<?n] = ys @ i # zs" and st: "tablesIn sel e (fst st) \<and> length (bucket (fst st) k) = ?n"
    then have "i \<in> set [0..<?n]" by simp
    then have i: "i < length (bucket (fst st) k)" using st by simp
    then show "case advertiseEntry k st i of Inl err \<Rightarrow> False
        | Inr st' \<Rightarrow> tablesIn sel e (fst st') \<and> length (bucket (fst st') k) = ?n"
      using advertiseEntry_OK [of sel e "fst st" i k "snd st"] st by (auto split: sum.splits)
  qed (simp add: assms)
  then show ?thesis by (auto simp: advertiseBucket_def split: sum.splits)
qed

lemma tablesIn_apply:
  assumes "tablesIn sel e rib"
  shows "\<exists>rib' changed. ApplyAdvertisementConditions keys rib = Inr (rib', changed) \<and> tablesIn sel e rib'"
proof -
  have "case foldE advertiseBucket (rib, False) keys of Inl err \<Rightarrow> False | Inr st \<Rightarrow> tablesIn sel e (fst st)"
  proof (rule foldE_rule [where I = "\<lambda>_ st. tablesIn sel e (fst st)"])
    fix st :: "rib \<times> bool" and k assume "tablesIn sel e (fst st)"
    then show "case advertiseBucket st k of Inl err \<Rightarrow> False | Inr st' \<Rightarrow> tablesIn sel e (fst st')"
      using advertiseBucket_OK [of sel e "fst st" "snd st" k] by (auto split: sum.splits)
  qed (simp add: assms)
  then show ?thesis by (auto simp: ApplyAdvertisementConditions_def split: sum.splits)
qed

text \<open>The outcome of a phase that may give up on convergence.\<close>

definition converging :: "engine \<Rightarrow> converge_error + rib \<Rightarrow> bool" where
  "converging e out \<longleftrightarrow> (case out of
     Inl (NotConverged m rib) \<Rightarrow> tablesOK e rib | Inl (WalkError err) \<Rightarrow> False | Inr rib \<Rightarrow> tablesIn True e rib)"

lemma converging_loop: "tablesIn True e rib \<Longrightarrow> converging e (convergeLoop e orders m i rib)"
proof (induction i arbitrary: rib)
  case 0
  then show ?case using tablesIn_OK by (simp add: converging_def)
next
  case (Suc i)
  obtain rib' changed where pass: "ApplyAdvertisementConditions (orders i (map fst rib)) rib = Inr (rib', changed)" "tablesIn True e rib'"
    using tablesIn_apply [OF Suc.prems] by blast
  obtain rib'' where "engineSelectRoutes e rib' = Inr rib''" "tablesIn True e rib''"
    using tablesIn_select [OF tablesIn_OK [OF pass(2)]] by blast
  then show ?case using pass Suc.IH [of rib''] by (simp add: converging_def)
qed

lemma converging_selectAndConverge: "tablesOK e rib \<Longrightarrow> converging e (selectAndConverge e orders rib)"
  using tablesIn_select [of e rib] converging_loop
  by (auto simp: selectAndConverge_def ConvergeAdvertisementConditions_def Let_def simp del: convergeLoop.simps)

section \<open>Aggregates\<close>

lemma strengthened_routed:
  assumes "routed adjacent n r" "excludeAggregate notAgg r = out" "plainCond notAgg"
  shows "\<exists>r'. out = Inr r' \<and> routed adjacent n r'"
proof -
  obtain b c where full: "rbBaseCond r = Some b" "rbCondition r = Some c" "plainCond b" "plainCond c"
    using assms(1) by (auto simp: routed_def plainEntry_def)
  have plain: "list_all plainCond [b, notAgg]" "list_all plainCond [c, notAgg]" using full assms(3) by simp_all
  show ?thesis
    using assms(1,2) full plain_And [OF plain(1)] plain_And [OF plain(2)] And_eval [OF plain(1)] And_eval [OF plain(2)]
    by (auto simp: excludeAggregate_def routed_def plainEntry_def pathUp_def)
qed

lemma excludeInBucket_OK:
  assumes "tablesOK e rib" "plainCond notAgg"
  shows "case excludeInBucket n vrf notAgg rib raw of Inl err \<Rightarrow> err = BadPrefixString raw | Inr rib' \<Rightarrow> tablesOK e rib'"
proof (cases "ParsePrefix raw")
  case (Some pfx)
  show ?thesis
  proof (cases "map_of rib (n, vrf, pfx)")
    case bucket: (Some routes)
    have "\<forall>r \<in> set routes. routed (idxAdj (engIdx e)) n r"
      using assms(1) map_of_SomeD [OF bucket] by (fastforce simp: tablesOK_iff)
    then have "\<exists>routes'. mapE (excludeAggregate notAgg) routes = Inr routes' \<and> (\<forall>r \<in> set routes'. routed (idxAdj (engIdx e)) n r)"
      by (intro mapE_returns) (use strengthened_routed [OF _ refl assms(2)] in blast)
    then show ?thesis using tablesOK_update [OF assms(1), of _ "(n, vrf, pfx)"]
      by (auto simp: excludeInBucket_def Some bucket)
  qed (simp add: excludeInBucket_def Some assms(1))
qed (simp add: excludeInBucket_def)

lemma contributors_up:
  assumes "tablesOK e rib" "(x, c) \<in> set (contributors rib n vrf aggregate)" "evalCond ctx c"
  shows "\<not> NodeFailed ctx n"
proof -
  obtain k routes r where r: "(k, routes) \<in> set rib" "fst k = n" "r \<in> set routes" "contributorCond r = Some c"
    using assms(2) by (fastforce simp: contributors_def set_map_filter split: if_splits)
  then have "routed (idxAdj (engIdx e)) n r" using assms(1) by (fastforce simp: tablesOK_iff)
  moreover have "pathUp ctx r" using r(4) assms(3) calculation
    by (auto simp: contributorCond_def Let_def routed_def split: if_splits option.splits)
  ultimately show ?thesis by (rule routed_up)
qed

lemma aggregateStep_OK:
  assumes "tablesOK e (snd st)" "\<forall>r \<in> set (fst st). originated (nodeName n) r"
  shows "case aggregateStep n st raw of
      Inl err \<Rightarrow> \<exists>s. err = BadPrefixString s
    | Inr st' \<Rightarrow> tablesOK e (snd st') \<and> (\<forall>r \<in> set (fst st'). originated (nodeName n) r)"
proof -
  let ?r0 = "normalizeConfiguredRoute (nodeName n) raw"
  define r where "r = (if crAdminDistance ?r0 = AdminDistanceConnected then ?r0\<lparr>crAdminDistance := AdminDistanceAggregate\<rparr> else ?r0)"
  have step: "aggregateStep n st raw =
     (if crKind raw \<noteq> RouteSourceAggregate \<or> prefixIsZero (crPrefix raw) then Inr st
      else case aggregateContributorCondVRF (snd st) (nodeName n) (crNetworkInstance r) (crPrefix r) of
                 None \<Rightarrow> Inr st
               | Some (cond, contributed) \<Rightarrow>
                   (case foldE (excludeInBucket (nodeName n) (NormalizeNetworkInstance (crNetworkInstance r)) (Not cond))
                           (snd st) contributed of
                      Inl err \<Rightarrow> Inl err
                    | Inr rib' \<Rightarrow> Inr (fst st @ [aggregateEntry n r cond contributed], rib')))"
    unfolding aggregateStep_def r_def Let_def by (rule refl)
  show ?thesis
  proof (cases "aggregateContributorCondVRF (snd st) (nodeName n) (crNetworkInstance r) (crPrefix r)")
    case None
    then show ?thesis using assms by (simp add: step)
  next
    case (Some agg)
    obtain cond contributed where agg: "agg = (cond, contributed)" by force
    let ?cs = "contributors (snd st) (nodeName n) (crNetworkInstance r) (crPrefix r)"
    have cond: "cond = And (map snd ?cs)" "?cs \<noteq> []"
      using Some agg by (auto simp: aggregateContributorCondVRF_def Let_def split: if_splits)
    note plains = contributors_plain [OF tablesOK_plain [OF assms(1)], of "nodeName n" "crNetworkInstance r" "crPrefix r"]
    have plain: "plainCond cond" "plainCond (Not cond)" using plain_And [OF plains] plain_Not cond(1) by simp_all
    have up: "\<not> NodeFailed ctx (nodeName n)" if "evalCond ctx cond" for ctx
    proof -
      obtain x c where x: "(x, c) \<in> set ?cs" using cond(2) by (metis list.set_intros(1) neq_Nil_conv surj_pair)
      have "evalCond ctx c" using that x And_eval [OF plains] by (force simp: cond(1) list_all_iff)
      then show ?thesis by (rule contributors_up [OF assms(1) x])
    qed
    have entry: "originated (nodeName n) (aggregateEntry n r cond contributed)"
      using plain up by (simp add: originated_def aggregateEntry_def zeroRIBEntry_def Normalize_def Let_def)
    have "case foldE (excludeInBucket (nodeName n) (NormalizeNetworkInstance (crNetworkInstance r)) (Not cond)) (snd st) contributed of
        Inl err \<Rightarrow> \<exists>s. err = BadPrefixString s | Inr rib' \<Rightarrow> tablesOK e rib'"
    proof (rule foldE_rule [where I = "\<lambda>_. tablesOK e"])
      fix t x assume "tablesOK e t"
      then show "case excludeInBucket (nodeName n) (NormalizeNetworkInstance (crNetworkInstance r)) (Not cond) t x of
          Inl err \<Rightarrow> \<exists>s. err = BadPrefixString s | Inr t' \<Rightarrow> tablesOK e t'"
        using excludeInBucket_OK [of e t "Not cond", where n = "nodeName n" and raw = x
            and vrf = "NormalizeNetworkInstance (crNetworkInstance r)"] plain(2)
        by (auto split: sum.splits)
    qed (rule assms(1))
    then show ?thesis using assms entry by (auto simp: step Some agg split: sum.splits)
  qed
qed

lemma tablesOK_aggregates:
  assumes "runnable e fuel" "tablesOK e rib" "n \<in> set (topoNodes (idxTopology (engIdx e)))"
  shows "case announceAggregates fuel e rib n of Inl err \<Rightarrow> \<exists>s. err = BadPrefixString s | Inr rib' \<Rightarrow> tablesOK e rib'"
proof -
  let ?I = "\<lambda>st. tablesOK e (snd st) \<and> (\<forall>r \<in> set (fst st). originated (nodeName n) r)"
  have "case aggregateRoutes n rib of Inl err \<Rightarrow> \<exists>s. err = BadPrefixString s | Inr st \<Rightarrow> ?I st"
    unfolding aggregateRoutes_def
    by (rule foldE_rule [where I = "\<lambda>_. ?I"]) (use assms(2) aggregateStep_OK in \<open>simp_all\<close>)
  then consider s where "aggregateRoutes n rib = Inl (BadPrefixString s)"
    | out rib' where "aggregateRoutes n rib = Inr (out, rib')" "tablesOK e rib'" "\<forall>r \<in> set out. originated (nodeName n) r"
    by (cases "aggregateRoutes n rib") auto
  then show ?thesis
  proof cases
    case 2
    have "\<exists>rib''. foldE (\<lambda>rib r. addAndWalk fuel e n (rbPrefix r) r rib) rib' out = Inr rib'' \<and> tablesOK e rib''"
      by (rule foldE_tablesOK [OF 2(2)]) (use 2(3) in \<open>auto intro: tablesOK_addAndWalk [OF assms(1) _ _ assms(3)]\<close>)
    then show ?thesis using 2(1) by (auto simp: announceAggregates_def)
  qed (simp add: announceAggregates_def)
qed

section \<open>The run\<close>

lemma tablesIn_True:
  "tablesIn True e rib \<longleftrightarrow> (\<forall>n r. ribHolds rib n r \<longrightarrow> routed (idxAdj (engIdx e)) n r \<and> rbSelectedCond r \<noteq> None)"
  by (fastforce simp: tablesIn_def ribHolds_def)

lemma runnable_built:
  assumes "BuildTopologyIndex topo = Inr (engIdx e)" "list_all (\<lambda>n. plainName (nodeName n)) (topoNodes topo)"
    "list_all (\<lambda>l. plainName (linkName l)) (topoLinks topo)" "length (topoNodes topo) \<le> fuel"
  shows "runnable e fuel"
proof -
  have topo: "idxTopology (engIdx e) = topo" by (rule built_topology [OF assms(1)])
  have spec: "linksIndexed (topoLinks topo) (engIdx e)" "nodesIndexed (topoNodes topo) (engIdx e)"
    using BuildTopologyIndex_spec [of topo] assms(1) by simp_all
  have "plainName (adjTo a) \<and> plainName (linkName (adjLink a))" if "a \<in> set (idxAdj (engIdx e) n)" for a n
  proof -
    have "a \<in> adjEdges n (topoLinks topo)" using that spec(1) by (simp add: linksIndexed_def)
    then obtain l where l: "l \<in> set (topoLinks topo)" "adjLink a = l" "adjTo a \<in> {linkA l, linkB l}"
      by (auto simp: adjEdges_def)
    then have "idxNodes (engIdx e) (adjTo a) \<noteq> None" using spec(1) by (auto simp: linksIndexed_def)
    then show ?thesis using l assms(2,3) spec(2) by (auto simp: nodesIndexed_def list_all_iff)
  qed
  then have "namesPlain e" using assms(2) spec(2) by (auto simp: namesPlain_def plainNet_def nodesIndexed_def list_all_iff)
  then show ?thesis using assms(4) spec(2) by (simp add: runnable_def topo)
qed

lemma Simulate_outcome:
  assumes run: "runnable e fuel"
  shows "case Simulate fuel e orders orders' [] of
      Inl (WalkError err) \<Rightarrow> \<exists>s. err = BadPrefixString s
    | Inl (NotConverged m rib) \<Rightarrow> tablesOK e rib
    | Inr rib \<Rightarrow> tablesIn True e rib"
proof -
  let ?nodes = "topoNodes (idxTopology (engIdx e))"
  have "tablesOK e []" by (simp add: tablesOK_def ribHolds_def)
  then have "tablesOK e (fold (installLocalRoutes e) ?nodes [])"
    by (rule fold_tablesOK) (rule tablesOK_local [OF runnable_net(1) [OF run] runnable_node(1) [OF run]])
  from foldE_tablesOK [OF this, of ?nodes "announceRoutes fuel e"] tablesOK_announce [OF run]
  obtain rib2 where rib2: "foldE (announceRoutes fuel e) (fold (installLocalRoutes e) ?nodes []) ?nodes = Inr rib2" "tablesOK e rib2"
    by blast
  have "converging e (selectAndConverge e orders (installOSPFRoutes e rib2))"
    by (rule converging_selectAndConverge [OF tablesOK_OSPF [OF run rib2(2)]])
  then consider m rib where "selectAndConverge e orders (installOSPFRoutes e rib2) = Inl (NotConverged m rib)" "tablesOK e rib"
    | rib4 where "selectAndConverge e orders (installOSPFRoutes e rib2) = Inr rib4" "tablesOK e rib4"
    by (auto simp: converging_def split: sum.splits converge_error.splits dest: tablesIn_OK)
  then show ?thesis
  proof cases
    case 1
    then show ?thesis by (simp add: Simulate_def Let_def rib2)
  next
    case 2
    have "case foldE (announceAggregates fuel e) rib4 ?nodes of Inl err \<Rightarrow> \<exists>s. err = BadPrefixString s | Inr rib \<Rightarrow> tablesOK e rib"
      by (rule foldE_rule [where I = "\<lambda>_. tablesOK e"]) (use 2(2) tablesOK_aggregates [OF run] in auto)
    then consider s where "foldE (announceAggregates fuel e) rib4 ?nodes = Inl (BadPrefixString s)"
      | rib5 where "foldE (announceAggregates fuel e) rib4 ?nodes = Inr rib5" "tablesOK e rib5"
      by (auto split: sum.splits)
    then show ?thesis
    proof cases
      case agg: 2
      show ?thesis using converging_selectAndConverge [OF agg(2), of orders'] agg(1) rib2 2
        by (auto simp: Simulate_def Let_def converging_def split: sum.splits converge_error.splits)
    qed (simp add: Simulate_def Let_def rib2 2)
  qed
qed

text \<open>
  C3 (the control plane). On a topology whose index is built and whose names do not contain the
  separators of conditions, a run of the engine from empty tables, with any policies, vendors and
  orders of the tables, and a depth of propagation of no more than the number of nodes, either ends,
  or reports that conditions do not converge, or finds that the text of an aggregate's contributor is
  no prefix. It never reads a missing condition or an empty path and never runs deeper. Every entry
  it leaves at a node has a path over links of the topology that starts or ends at the node, and
  whenever its base condition, its condition or its selected condition holds under a combination of
  failures, all nodes and links of the path are up. When the run ends, every entry has been selected.
\<close>

theorem Simulate_routed:
  assumes "BuildTopologyIndex topo = Inr (engIdx e)" "list_all (\<lambda>n. plainName (nodeName n)) (topoNodes topo)"
    and "list_all (\<lambda>l. plainName (linkName l)) (topoLinks topo)" "length (topoNodes topo) \<le> fuel"
  shows "case Simulate fuel e orders orders' [] of
      Inl (WalkError err) \<Rightarrow> \<exists>s. err = BadPrefixString s
    | Inl (NotConverged m rib) \<Rightarrow> \<forall>n r. ribHolds rib n r \<longrightarrow> routed (idxAdj (engIdx e)) n r
    | Inr rib \<Rightarrow> \<forall>n r. ribHolds rib n r \<longrightarrow> routed (idxAdj (engIdx e)) n r \<and> rbSelectedCond r \<noteq> None"
  using Simulate_outcome [OF runnable_built [OF assms], of orders orders']
  by (auto simp: tablesOK_def tablesIn_True split: sum.splits converge_error.splits)

text \<open>Two OSPF routers, driven by the built-in behaviours.\<close>

definition runEngine :: "topology_index \<Rightarrow> engine" where
  "runEngine idx = \<lparr>engBehaviors = builtinBehaviors, engRegexp = (\<lambda>p s. None), engIdx = idx, engMaxFailures = - 1\<rparr>"

theorem Simulate_routed_witness:
  "\<exists>idx. BuildTopologyIndex ospfNet = Inr idx
     \<and> (case Simulate 2 (runEngine idx) (\<lambda>_ ks. ks) (\<lambda>_ ks. rev ks) [] of
          Inl (WalkError err) \<Rightarrow> \<exists>s. err = BadPrefixString s
        | Inl (NotConverged m rib) \<Rightarrow> \<forall>n r. ribHolds rib n r \<longrightarrow> routed (idxAdj idx) n r
        | Inr rib \<Rightarrow> \<forall>n r. ribHolds rib n r \<longrightarrow> routed (idxAdj idx) n r \<and> rbSelectedCond r \<noteq> None)"
proof -
  obtain idx where idx: "BuildTopologyIndex ospfNet = Inr idx" using ospfNet_built by blast
  have e: "engIdx (runEngine idx) = idx" by (simp add: runEngine_def)
  have "list_all (\<lambda>n. plainName (nodeName n)) (topoNodes ospfNet)" "list_all (\<lambda>l. plainName (linkName l)) (topoLinks ospfNet)"
    "length (topoNodes ospfNet) \<le> 2"
    by (simp_all add: ospfNet_def ospfNode_def exampleLink_def plainName_def)
  from Simulate_routed [of ospfNet "runEngine idx", unfolded e, OF idx this] idx show ?thesis by blast
qed

end
