(* ===== verification/Symbolic_FIB.thy ===== *)
theory Symbolic_FIB
  imports FIB
begin

text \<open>
  \<open>internal/engine/dataplane/symbolic.go\<close>, first part: the symbolic lookup in a forwarding table.
  A lookup returns every matching entry together with the condition under which it is the one in use.
  The two maps \<open>groupConds\<close> and \<open>groupIndexes\<close> and the slice \<open>higher\<close> of the code hold one
  condition per group of equivalent entries, in order of first appearance: here one association list.
\<close>

section \<open>Lookup\<close>

record fib_candidate =
  fcEntry :: fib_entry
  fcCond :: cond

definition condOrTrue :: "cond option \<Rightarrow> cond" where
  "condOrTrue c = (case c of None \<Rightarrow> TrueC | Some c \<Rightarrow> c)"

definition expandLinkVars :: "topology_index \<Rightarrow> cond \<Rightarrow> cond" where
  "expandLinkVars idx c = ExpandLinkVars c (idxLinks idx)"

definition linkUpCond :: "topology_index \<Rightarrow> link \<Rightarrow> cond" where
  "linkUpCond idx l = expandLinkVars idx (LinkVar (linkName l))"

definition isFalseCond :: "cond \<Rightarrow> bool" where
  "isFalseCond c \<longleftrightarrow> condKey c = condKey FalseC"

definition fibCandidateGroupKey :: "fib_entry \<Rightarrow> nat \<Rightarrow> string" where
  "fibCandidateGroupKey entry ordinal =
     (if feGroupID entry = [] then ''entry#'' @ natStr ordinal
      else pfxStr (fePrefix entry) @ ''#'' @ natStr (feRank entry) @ ''#'' @ feGroupID entry)"

type_synonym candidate_state = "(string \<times> cond) list \<times> fib_candidate list"

definition candidateStep :: "topology_index \<Rightarrow> fib_entry \<Rightarrow> candidate_state \<Rightarrow> candidate_state" where
  "candidateStep idx entry st =
     (let (higher, out) = st;
          entryCond = expandLinkVars idx (condOrTrue (feCondition entry));
          key = fibCandidateGroupKey entry (length out);
          higherForEntry = map snd (filter (\<lambda>(k, _). k \<noteq> key) higher);
          c = (if higherForEntry = [] then entryCond else And [entryCond, Not (Or higherForEntry)]);
          merged = (case map_of higher key of None \<Rightarrow> entryCond | Some existing \<Rightarrow> Or [existing, entryCond])
      in (AList.update key merged higher, out @ [\<lparr>fcEntry = entry, fcCond = c\<rparr>]))"

definition symbolicLookupFIBEntries :: "topology_index \<Rightarrow> fib_entry list \<Rightarrow> fib_candidate list" where
  "symbolicLookupFIBEntries idx entries = snd (fold (candidateStep idx) entries ([], []))"

definition prefixAndRankLess :: "fib_entry \<Rightarrow> fib_entry \<Rightarrow> bool" where
  "prefixAndRankLess a b =
     (if pfxBits (fePrefix a) = pfxBits (fePrefix b)
      then (if feRank a = feRank b then False else feRank a < feRank b)
      else pfxBits (fePrefix b) < pfxBits (fePrefix a))"

definition sortFIBEntriesByPrefixAndRank :: "fib_entry list \<Rightarrow> fib_entry list" where
  "sortFIBEntriesByPrefixAndRank = sortSlice prefixAndRankLess"

definition matchingFIBEntries :: "fib_entry list \<Rightarrow> ipaddr \<Rightarrow> fib_entry list" where
  "matchingFIBEntries entries ip =
     sortFIBEntriesByPrefixAndRank (filter (\<lambda>x. pfxContains (fePrefix x) ip) entries)"

definition matchingFIBEntriesForPrefixSet :: "fib_entry list \<Rightarrow> prefix_set option \<Rightarrow> fib_entry list" where
  "matchingFIBEntriesForPrefixSet entries dst =
     (case dst of
        None \<Rightarrow> []
      | Some d \<Rightarrow> sortFIBEntriesByPrefixAndRank
          (filter (\<lambda>x. AddressSpaceOverlaps (ExactPrefixSet (PrefixFromNetIP (fePrefix x))) d) entries))"

definition SymbolicLookupFIBVRF :: "topology_index \<Rightarrow> fib \<Rightarrow> string \<Rightarrow> string \<Rightarrow> string \<Rightarrow> fib_candidate list" where
  "SymbolicLookupFIBVRF idx fib n vrf dst =
     (case parseAddr dst of
        None \<Rightarrow> []
      | Some ip \<Rightarrow> symbolicLookupFIBEntries idx
          (matchingFIBEntries (fibBucket fib n (NormalizeNetworkInstance vrf)) ip))"

definition SymbolicLookupFIB :: "topology_index \<Rightarrow> fib \<Rightarrow> string \<Rightarrow> string \<Rightarrow> fib_candidate list" where
  "SymbolicLookupFIB idx fib n dst = SymbolicLookupFIBVRF idx fib n NetworkInstanceDefault dst"

definition SymbolicLookupFIBForPrefixSetVRF ::
    "topology_index \<Rightarrow> fib \<Rightarrow> string \<Rightarrow> string \<Rightarrow> prefix_set option \<Rightarrow> fib_candidate list" where
  "SymbolicLookupFIBForPrefixSetVRF idx fib n vrf dst =
     symbolicLookupFIBEntries idx
       (matchingFIBEntriesForPrefixSet (fibBucket fib n (NormalizeNetworkInstance vrf)) dst)"

definition SymbolicLookupFIBForPrefixSet ::
    "topology_index \<Rightarrow> fib \<Rightarrow> string \<Rightarrow> prefix_set option \<Rightarrow> fib_candidate list" where
  "SymbolicLookupFIBForPrefixSet idx fib n dst =
     SymbolicLookupFIBForPrefixSetVRF idx fib n NetworkInstanceDefault dst"

section \<open>What a candidate's condition says\<close>

text \<open>
  A network context is one whose link map is that of the index, as \<open>FailureContext\<close> builds it. In
  such a context a condition and its expansion agree.
\<close>

definition FailureContext :: "topology_index \<Rightarrow> fail_set \<Rightarrow> fail_context" where
  "FailureContext idx failures = \<lparr>Failures = failures, LinksByName = idxLinks idx\<rparr>"

definition entryAlive :: "topology_index \<Rightarrow> fail_set \<Rightarrow> fib_entry \<Rightarrow> bool" where
  "entryAlive idx failures x = evalCond (FailureContext idx failures) (condOrTrue (feCondition x))"

definition plainFIBEntry :: "fib_entry \<Rightarrow> bool" where
  "plainFIBEntry x \<longleftrightarrow> plainCond (condOrTrue (feCondition x))"

lemma expandLinkVars_denotes:
  "plainFIBEntry x \<Longrightarrow> plainLinks (idxLinks idx)
     \<Longrightarrow> denotes (idxLinks idx) (expandLinkVars idx (condOrTrue (feCondition x))) (\<lambda>F. entryAlive idx F x)"
  unfolding plainFIBEntry_def expandLinkVars_def entryAlive_def FailureContext_def by (rule denotes_ExpandLinkVars)

text \<open>The group of the entry at a position of the sorted matches.\<close>

definition groupAt :: "fib_entry list \<Rightarrow> nat \<Rightarrow> string" where
  "groupAt es i = fibCandidateGroupKey (es ! i) i"

text \<open>The invariant of the loop over the matching entries.\<close>

definition higherOK :: "topology_index \<Rightarrow> fib_entry list \<Rightarrow> (string \<times> cond) list \<Rightarrow> bool" where
  "higherOK idx es higher \<longleftrightarrow> distinct (map fst higher) \<and> fst ` set higher = groupAt es ` {..<length es}
     \<and> (\<forall>(k, c) \<in> set higher. denotes (idxLinks idx) c
          (\<lambda>F. \<exists>j < length es. groupAt es j = k \<and> entryAlive idx F (es ! j)))"

definition candidateOK :: "topology_index \<Rightarrow> fib_entry list \<Rightarrow> nat \<Rightarrow> fib_candidate \<Rightarrow> bool" where
  "candidateOK idx es i c \<longleftrightarrow> fcEntry c = es ! i \<and> denotes (idxLinks idx) (fcCond c)
     (\<lambda>F. entryAlive idx F (es ! i) \<and> (\<forall>j < i. groupAt es j \<noteq> groupAt es i \<longrightarrow> \<not> entryAlive idx F (es ! j)))"

lemma groupAt_snoc: "j < length es \<Longrightarrow> groupAt (es @ [x]) j = groupAt es j"
  by (simp add: groupAt_def nth_append)

lemma higherOK_snoc:
  assumes "higherOK idx es higher"
    and c: "denotes (idxLinks idx) c (\<lambda>F. entryAlive idx F x)"
    and key: "key = groupAt (es @ [x]) (length es)"
    and merged: "merged = (case map_of higher key of None \<Rightarrow> c | Some existing \<Rightarrow> Or [existing, c])"
  shows "higherOK idx (es @ [x]) (AList.update key merged higher)"
proof -
  let ?m = "idxLinks idx"
  let ?in = "\<lambda>k F. \<exists>j < length es. groupAt es j = k \<and> entryAlive idx F (es ! j)"
  have split: "(\<exists>j < length (es @ [x]). groupAt (es @ [x]) j = k \<and> entryAlive idx F ((es @ [x]) ! j))
      \<longleftrightarrow> ?in k F \<or> k = key \<and> entryAlive idx F x" for k F
    unfolding length_append_singleton Ex_less_Suc key
    by (simp add: nth_append groupAt_snoc cong: conj_cong) blast
  have old: "denotes ?m d (?in k)" if "(k, d) \<in> set higher" for k d
    using assms(1) that by (auto simp: higherOK_def)
  have keys: "fst ` set higher = groupAt es ` {..<length es}" using assms(1) by (simp add: higherOK_def)
  have new: "denotes ?m merged (\<lambda>F. ?in key F \<or> entryAlive idx F x)"
  proof (cases "map_of higher key")
    case None
    then have "key \<notin> fst ` set higher" by (simp add: map_of_eq_None_iff)
    then have "entryAlive idx F x \<longleftrightarrow> ?in key F \<or> entryAlive idx F x" for F using keys by auto
    with c show ?thesis unfolding merged None option.case by (rule denotes_cong)
  next
    case (Some existing)
    then have "denotes ?m existing (?in key)" using old map_of_SomeD by fastforce
    then have "denotes ?m (Or [existing, c]) (\<lambda>F. list_ex (\<lambda>P. P F) [?in key, \<lambda>F. entryAlive idx F x])"
      using c by (intro denotes_Or) simp
    then show ?thesis using Some merged by simp
  qed
  have dist: "distinct (map fst (AList.update key merged higher))"
    using assms(1) by (simp add: higherOK_def distinct_update)
  have "denotes ?m d (\<lambda>F. ?in k F \<or> k = key \<and> entryAlive idx F x)"
    if kd: "(k, d) \<in> set (AList.update key merged higher)" for k d
  proof -
    have "map_of (AList.update key merged higher) k = Some d" using dist kd by simp
    then consider "k = key" "d = merged" | "k \<noteq> key" "(k, d) \<in> set higher"
      by (auto simp: update_conv dest: map_of_SomeD split: if_splits)
    then show ?thesis using new old by cases simp_all
  qed
  moreover have "fst ` set (AList.update key merged higher) = groupAt (es @ [x]) ` {..<length (es @ [x])}"
  proof -
    have "fst ` set (AList.update key merged higher) = insert key (fst ` set higher)"
      using dom_update [of key merged higher] by (simp add: dom_map_of_conv_image_fst)
    also have "\<dots> = groupAt (es @ [x]) ` {..<length (es @ [x])}"
      using keys by (auto simp: lessThan_Suc groupAt_snoc key image_iff)
    finally show ?thesis .
  qed
  ultimately show ?thesis using dist unfolding higherOK_def split by blast
qed

lemma candidate_snoc:
  assumes "higherOK idx es higher"
    and c: "denotes (idxLinks idx) c (\<lambda>F. entryAlive idx F x)"
    and key: "key = groupAt (es @ [x]) (length es)"
    and others: "others = map snd (filter (\<lambda>(k, _). k \<noteq> key) higher)"
  shows "candidateOK idx (es @ [x]) (length es)
    \<lparr>fcEntry = x, fcCond = (if others = [] then c else And [c, Not (Or others)])\<rparr>"
proof -
  let ?m = "idxLinks idx" and ?kept = "filter (\<lambda>(k, _). k \<noteq> key) higher"
  let ?in = "\<lambda>k F. \<exists>j < length es. groupAt es j = k \<and> entryAlive idx F (es ! j)"
  have old: "denotes ?m (snd e) (?in (fst e))" if "e \<in> set ?kept" for e
    using assms(1) that by (auto simp: higherOK_def)
  have keys: "fst ` set higher = groupAt es ` {..<length es}" using assms(1) by (simp add: higherOK_def)
  have kept: "(\<exists>e \<in> set ?kept. ?in (fst e) F) \<longleftrightarrow> (\<exists>j < length es. groupAt es j \<noteq> key \<and> entryAlive idx F (es ! j))"
    (is "?l \<longleftrightarrow> ?r") for F
  proof
    assume ?r
    then obtain j where j: "j < length es" "groupAt es j \<noteq> key" "entryAlive idx F (es ! j)" by blast
    then have "groupAt es j \<in> fst ` set higher" using keys by auto
    then show ?l using j by force
  qed auto
  have "denotes ?m (Or others) (\<lambda>F. \<exists>e \<in> set ?kept. ?in (fst e) F)"
    unfolding others using old by (rule denotes_Or_map)
  then have Or: "denotes ?m (Or others) (\<lambda>F. \<exists>j < length es. groupAt es j \<noteq> key \<and> entryAlive idx F (es ! j))"
    by (rule denotes_cong) (rule kept)
  have goal: "denotes ?m (if others = [] then c else And [c, Not (Or others)])
      (\<lambda>F. entryAlive idx F x \<and> \<not> (\<exists>j < length es. groupAt es j \<noteq> key \<and> entryAlive idx F (es ! j)))"
  proof (cases "others = []")
    case True
    then have "\<not> (\<exists>j < length es. groupAt es j \<noteq> key \<and> entryAlive idx F (es ! j))" for F
      using kept [of F] others by simp
    then show ?thesis using c True by simp
  next
    case False
    then show ?thesis using denotes_And2 [OF c denotes_Not [OF Or]] by simp
  qed
  show ?thesis
    unfolding candidateOK_def fib_candidate.simps
    by (intro conjI denotes_cong [OF goal]) (auto simp: nth_append groupAt_snoc key)
qed

lemma candidateOK_snoc: "i < length es \<Longrightarrow> candidateOK idx (es @ [x]) i c = candidateOK idx es i c"
proof -
  assume i: "i < length es"
  then have "(\<forall>j < i. groupAt (es @ [x]) j \<noteq> groupAt (es @ [x]) i \<longrightarrow> \<not> entryAlive idx F ((es @ [x]) ! j))
      = (\<forall>j < i. groupAt es j \<noteq> groupAt es i \<longrightarrow> \<not> entryAlive idx F (es ! j))" for F
    by (simp add: groupAt_snoc nth_append)
  then show ?thesis using i by (simp add: candidateOK_def nth_append)
qed

lemma candidates_fold:
  assumes "plainLinks (idxLinks idx)" "list_all plainFIBEntry es"
  shows "case fold (candidateStep idx) es ([], []) of (higher, out) \<Rightarrow>
    higherOK idx es higher \<and> length out = length es \<and> (\<forall>i < length es. candidateOK idx es i (out ! i))"
  using assms(2)
proof (induction es rule: rev_induct)
  case Nil
  show ?case by (simp add: higherOK_def)
next
  case (snoc x es)
  obtain higher out where st: "fold (candidateStep idx) es ([], []) = (higher, out)" by force
  have IH: "higherOK idx es higher" "length out = length es" "\<forall>i < length es. candidateOK idx es i (out ! i)"
    using snoc by (simp_all add: st)
  let ?c = "expandLinkVars idx (condOrTrue (feCondition x))" and ?key = "fibCandidateGroupKey x (length out)"
  have c: "denotes (idxLinks idx) ?c (\<lambda>F. entryAlive idx F x)"
    using snoc.prems assms(1) by (intro expandLinkVars_denotes) simp_all
  have key: "?key = groupAt (es @ [x]) (length es)" by (simp add: groupAt_def IH(2))
  obtain higher' d where step: "candidateStep idx x (higher, out) = (higher', out @ [d])"
      and OK: "higherOK idx (es @ [x]) higher'" "candidateOK idx (es @ [x]) (length es) d"
    using higherOK_snoc [OF IH(1) c key refl] candidate_snoc [OF IH(1) c key refl]
    unfolding candidateStep_def Let_def split by blast
  have "candidateOK idx (es @ [x]) i ((out @ [d]) ! i)" if "i < length (es @ [x])" for i
    using that IH(2,3) OK(2) by (cases "i = length es") (simp_all add: nth_append candidateOK_snoc)
  then show ?case using OK(1) IH(2) by (simp add: st step)
qed

lemma length_symbolicLookupFIBEntries [simp]: "length (symbolicLookupFIBEntries idx es) = length es"
proof (induction es rule: rev_induct)
  case (snoc x es)
  then show ?case
    by (cases "fold (candidateStep idx) es ([], [])") (simp add: symbolicLookupFIBEntries_def candidateStep_def Let_def)
qed (simp add: symbolicLookupFIBEntries_def)

lemma candidates_exact:
  assumes "plainLinks (idxLinks idx)" "list_all plainFIBEntry es" "i < length es"
  shows "candidateOK idx es i (symbolicLookupFIBEntries idx es ! i)"
  using candidates_fold [OF assms(1,2)] assms(3) by (auto simp: symbolicLookupFIBEntries_def split: prod.splits)

section \<open>Concrete and symbolic lookup\<close>

lemma prefixAndRankLess_weaker: "prefixAndRankLess a b \<Longrightarrow> fibEntryLess a b"
  by (auto simp: prefixAndRankLess_def fibEntryLess_def split: if_splits)

lemma matchingFIBEntries_sorted:
  "fibSorted es \<Longrightarrow> matchingFIBEntries es ip = filter (\<lambda>x. pfxContains (fePrefix x) ip) es"
proof -
  assume "fibSorted es"
  then have "sorted_wrt (\<lambda>a b. \<not> fibEntryLess b a) (filter (\<lambda>x. pfxContains (fePrefix x) ip) es)"
    unfolding fibSorted_def by (rule sorted_wrt_filter)
  then have "sorted_wrt (\<lambda>a b. \<not> prefixAndRankLess b a) (filter (\<lambda>x. pfxContains (fePrefix x) ip) es)"
    by (rule sorted_wrt_mono_rel [rotated]) (blast dest: prefixAndRankLess_weaker)
  then show ?thesis
    unfolding matchingFIBEntries_def sortFIBEntriesByPrefixAndRank_def by (rule sortSlice_sorted)
qed

lemma lookupLoop_find:
  "\<forall>x \<in> set es. feCondition x \<noteq> None \<Longrightarrow> lookupLoop ctx ip es
     = Inr (List.find (\<lambda>x. evalCond ctx (condOrTrue (feCondition x))) (filter (\<lambda>x. pfxContains (fePrefix x) ip) es))"
  by (induction es) (auto simp: condOrTrue_def)

text \<open>Finding the first entry in use among the candidates is finding the first entry that is alive.\<close>

lemma find_candidate:
  assumes "plainLinks (idxLinks idx)" "list_all plainFIBEntry es"
  shows "map_option fcEntry (List.find (\<lambda>c. evalCond (FailureContext idx F) (fcCond c)) (symbolicLookupFIBEntries idx es))
    = List.find (entryAlive idx F) es"
proof -
  let ?cs = "symbolicLookupFIBEntries idx es" and ?P = "\<lambda>c. evalCond (FailureContext idx F) (fcCond c)"
  have eval: "?P (?cs ! i) \<longleftrightarrow> entryAlive idx F (es ! i)
      \<and> (\<forall>j < i. groupAt es j \<noteq> groupAt es i \<longrightarrow> \<not> entryAlive idx F (es ! j))"
    and entry: "fcEntry (?cs ! i) = es ! i" if "i < length es" for i
    using candidates_exact [OF assms that] denotes_eval [of "idxLinks idx" "fcCond (?cs ! i)" _ F]
    unfolding candidateOK_def FailureContext_def by blast+
  show ?thesis
  proof (cases "List.find (entryAlive idx F) es")
    case None
    then have dead: "\<not> entryAlive idx F (es ! i)" if "i < length es" for i
      using that by (simp add: find_None_iff)
    then have "List.find ?P ?cs = None" using eval by (auto simp: find_None_iff in_set_conv_nth)
    then show ?thesis using None by simp
  next
    case (Some x)
    then obtain i where i: "i < length es" "entryAlive idx F (es ! i)" "x = es ! i"
        "\<forall>j < i. \<not> entryAlive idx F (es ! j)" by (auto simp: find_Some_iff)
    then have "\<not> ?P (?cs ! j)" if "j < i" for j using that eval [of j] by simp
    then have "List.find ?P ?cs = Some (?cs ! i)"
      using i eval [of i] by (subst find_Some_iff) (auto intro!: exI [of _ i])
    then show ?thesis using entry i Some by simp
  qed
qed

lemma LookupFIBVRF_find:
  assumes "plainLinks (idxLinks idx)" "fibSorted es" "es = fibBucket fib n (NormalizeNetworkInstance vrf)"
    and "list_all plainFIBEntry es" "\<forall>x \<in> set es. feCondition x \<noteq> None"
  shows "LookupFIBVRF fib n vrf dst (FailureContext idx F)
    = Inr (map_option fcEntry (List.find (\<lambda>c. evalCond (FailureContext idx F) (fcCond c)) (SymbolicLookupFIBVRF idx fib n vrf dst)))"
proof (cases "parseAddr dst")
  case (Some ip)
  have "list_all plainFIBEntry (matchingFIBEntries es ip)"
    using assms(4) by (simp add: matchingFIBEntries_sorted assms(2) list_all_iff)
  then show ?thesis
    using find_candidate [OF assms(1), of "matchingFIBEntries es ip" F] assms(5) lookupLoop_find
    by (simp add: LookupFIBVRF_def SymbolicLookupFIBVRF_def Some flip: assms(3)
        entryAlive_def [abs_def]) (simp add: matchingFIBEntries_sorted assms(2) entryAlive_def [abs_def])
qed (simp add: LookupFIBVRF_def SymbolicLookupFIBVRF_def)

section \<open>Properties\<close>

text \<open>
  C14 (what a candidate's condition says). A symbolic lookup lists the matching entries, longest prefix
  and best rank first, and the condition of each says exactly when the entry is in use: it is usable
  itself, and no entry before it, other than the equivalent ones of its own group, is. The condition
  has this value in the simulation, which has the link map, as well as in the solvers, which do not.
\<close>

theorem SymbolicLookupFIBVRF_exact:
  assumes "plainLinks (idxLinks idx)" "parseAddr dst = Some ip"
    and "es = matchingFIBEntries (fibBucket fib n (NormalizeNetworkInstance vrf)) ip" "list_all plainFIBEntry es"
    and "i < length es" "m = idxLinks idx \<or> m = Map.empty"
  shows "length (SymbolicLookupFIBVRF idx fib n vrf dst) = length es
    \<and> fcEntry (SymbolicLookupFIBVRF idx fib n vrf dst ! i) = es ! i
    \<and> (evalCond \<lparr>Failures = F, LinksByName = m\<rparr> (fcCond (SymbolicLookupFIBVRF idx fib n vrf dst ! i)) \<longleftrightarrow>
         entryAlive idx F (es ! i) \<and> (\<forall>j < i. groupAt es j \<noteq> groupAt es i \<longrightarrow> \<not> entryAlive idx F (es ! j)))"
proof -
  have lookup: "SymbolicLookupFIBVRF idx fib n vrf dst = symbolicLookupFIBEntries idx es"
    by (simp add: SymbolicLookupFIBVRF_def assms(2,3))
  have "m \<subseteq>\<^sub>m idxLinks idx" using assms(6) by auto
  then show ?thesis
    using candidates_exact [OF assms(1,4,5)] by (simp add: lookup candidateOK_def denotes_def)
qed

text \<open>Two routes to one destination, over a link and over a router, in the table of a router.\<close>

definition exampleTwoRoutes :: fib where
  "exampleTwoRoutes =
     [((''a'', NetworkInstanceDefault), [exampleEntry exampleNarrow (LinkVar ''a-b''), exampleEntry exampleWide (NodeVar ''c'')])]"

lemma fibBucket_two: "fibBucket exampleTwoRoutes ''a'' (NormalizeNetworkInstance NetworkInstanceDefault)
    = [exampleEntry exampleNarrow (LinkVar ''a-b''), exampleEntry exampleWide (NodeVar ''c'')]"
proof -
  have "NormalizeNetworkInstance NetworkInstanceDefault = NetworkInstanceDefault" by code_simp
  then show ?thesis by (simp only: fibBucket_def exampleTwoRoutes_def) simp
qed

lemma fibSorted_two: "fibSorted [exampleEntry exampleNarrow (LinkVar ''a-b''), exampleEntry exampleWide (NodeVar ''c'')]"
  by (simp add: fibSorted_def fibEntryLess_def exampleEntry exampleNarrow_def exampleWide_def)

lemma matching_two:
  "matchingFIBEntries [exampleEntry exampleNarrow (LinkVar ''a-b''), exampleEntry exampleWide (NodeVar ''c'')] (IPv4 0x0A010203)
    = [exampleEntry exampleNarrow (LinkVar ''a-b''), exampleEntry exampleWide (NodeVar ''c'')]"
  unfolding matchingFIBEntries_sorted [OF fibSorted_two]
  by (simp add: exampleEntry) (simp add: exampleNarrow_def exampleWide_def prefix_eval)

lemma plain_two:
  "list_all plainFIBEntry [exampleEntry exampleNarrow (LinkVar ''a-b''), exampleEntry exampleWide (NodeVar ''c'')]"
  by (simp add: plainFIBEntry_def exampleEntry condOrTrue_def LinkVar_def NodeVar_def plainName_def)

lemma parseAddr_example: "parseAddr ''10.1.2.3'' = Some (IPv4 0x0A010203)"
  by (simp add: parseAddr_def parse4_def parseOctet_def plainNumber_def isDigit_def digitVal_def decVal_def word4_def)

lemma plainLinks_example: "plainLinks (idxLinks (exampleIndex ka kb))"
  by (simp add: plainLinks_def exampleIndex_def exampleLink_def plainName_def)

lemma twice_append_inject: "s @ u @ s @ w = t @ u @ t @ w \<Longrightarrow> s = t"
proof -
  assume eq: "s @ u @ s @ w = t @ u @ t @ w"
  then have "length s = length t" using arg_cong [OF eq, of length] by simp
  then show ?thesis using eq by simp
qed

theorem SymbolicLookupFIBVRF_exact_witness:
  "\<forall>F. evalCond \<lparr>Failures = F, LinksByName = Map.empty\<rparr>
     (fcCond (SymbolicLookupFIB (exampleIndex KindFRR KindFRR) exampleTwoRoutes ''a'' ''10.1.2.3'' ! 1))
   \<longleftrightarrow> Nodes F ''c'' \<noteq> Some True \<and> (Links F ''a-b'' = Some True \<or> Nodes F ''a'' = Some True \<or> Nodes F ''b'' = Some True)"
  (is "\<forall>F. ?P F")
proof
  fix F
  let ?idx = "exampleIndex KindFRR KindFRR"
  let ?es = "[exampleEntry exampleNarrow (LinkVar ''a-b''), exampleEntry exampleWide (NodeVar ''c'')]"
  have groups: "groupAt ?es 0 \<noteq> groupAt ?es 1"
  proof
    have str: "prefixString exampleNarrow = pfxStr exampleNarrow" "prefixString exampleWide = pfxStr exampleWide"
      by (simp_all add: exampleNarrow_def exampleWide_def prefix_eval prefixString_def)
    assume "groupAt ?es 0 = groupAt ?es 1"
    then have "pfxStr exampleNarrow @ (''#'' @ natStr 0 @ ''#'') @ pfxStr exampleNarrow @ (''#rank-'' @ natStr 0)
        = pfxStr exampleWide @ (''#'' @ natStr 0 @ ''#'') @ pfxStr exampleWide @ (''#rank-'' @ natStr 0)"
      by (simp add: groupAt_def fibCandidateGroupKey_def exampleEntry str)
    then have "pfxStr exampleNarrow = pfxStr exampleWide" by (rule twice_append_inject)
    then show False using examplePrefixes_differ str by simp
  qed
  have "entryAlive ?idx F (?es ! 1) \<longleftrightarrow> Nodes F ''c'' \<noteq> Some True"
    "entryAlive ?idx F (?es ! 0) \<longleftrightarrow> \<not> (Links F ''a-b'' = Some True \<or> Nodes F ''a'' = Some True \<or> Nodes F ''b'' = Some True)"
    by (simp_all add: entryAlive_def exampleEntry condOrTrue_def NodeVar_def LinkVar_def NodeFailed_def LinkFailed_def
        FailureContext_def exampleIndex_def exampleLink_def)
  then show "?P F"
    using groups plain_two SymbolicLookupFIBVRF_exact [OF plainLinks_example parseAddr_example, of ?es exampleTwoRoutes "''a''"
        NetworkInstanceDefault 1 Map.empty KindFRR KindFRR F]
    by (simp add: SymbolicLookupFIB_def fibBucket_two matching_two)
qed

text \<open>
  Concrete and symbolic lookup agree. On a sorted table whose entries all carry a condition, as
  \<open>DeriveFIB\<close> makes it, the lookup under a set of failures answers the entry of the first candidate of
  the symbolic lookup whose condition holds under these failures.
\<close>

lemma LookupFIBVRF_first_candidate:
  assumes "plainLinks (idxLinks idx)" "es = fibBucket fib n (NormalizeNetworkInstance vrf)" "fibSorted es"
    and "list_all plainFIBEntry es" "\<forall>x \<in> set es. feCondition x \<noteq> None"
  shows "LookupFIBVRF fib n vrf dst (FailureContext idx F)
    = Inr (map_option fcEntry
        (List.find (\<lambda>c. evalCond (FailureContext idx F) (fcCond c)) (SymbolicLookupFIBVRF idx fib n vrf dst)))"
  using LookupFIBVRF_find [OF assms(1,3,2,4,5)] .

end
