(* ===== verification/Reachability.thy ===== *)
theory Reachability
  imports Symbolic_FIB ACL
begin

text \<open>
  \<open>internal/engine/dataplane/reachability.go\<close> and the route part of \<open>symbolic.go\<close>: whether a router
  has a route, and whether a packet arrives, under a set of failures, and the conditions under which
  it has a route. The engine is the record \<open>dataplane\<close>; the receiver and its index are never
  \<open>nil\<close>. A \<open>range\<close> over the map of nodes visits them in no fixed order: \<open>dpOrder\<close> is the order of
  the run.
\<close>

section \<open>The data-plane engine\<close>

record dataplane =
  dpIdx :: topology_index
  dpRIB :: rib
  dpFIB :: fib
  dpProfiles :: profile_registry
  dpOrder :: "node list"

definition zeroPath :: path where
  "zeroPath = \<lparr>pathNodes = [], pathLinks = [], pathCost = 0\<rparr>"

definition routePath :: "topology_index \<Rightarrow> rib_entry \<Rightarrow> path" where
  "routePath idx raw =
     (let p = rbProvenance (Normalize raw)
      in \<lparr>pathNodes = rev (pvPathNodes p), pathLinks = rev (pvPathLinks p), pathCost = PathCost idx (pvPathLinks p)\<rparr>)"

definition interfaceOnLink :: "link \<Rightarrow> string \<Rightarrow> string" where
  "interfaceOnLink l n = (if n = linkA l then linkAIntf l else if n = linkB l then linkBIntf l else [])"

section \<open>Routes\<close>

definition routesFor :: "dataplane \<Rightarrow> string \<Rightarrow> string \<Rightarrow> prefix \<Rightarrow> rib_entry list" where
  "routesFor dp from vrf pfx = bucket (dpRIB dp) (from, NormalizeNetworkInstance vrf, pfx)"

definition RouteReachableVRF :: "dataplane \<Rightarrow> string \<Rightarrow> string \<Rightarrow> string \<Rightarrow> fail_set \<Rightarrow> path \<times> bool" where
  "RouteReachableVRF dp from vrf raw failures =
     (case ParsePrefix raw of
        None \<Rightarrow> (zeroPath, False)
      | Some pfx \<Rightarrow>
          (let ctx = FailureContext (dpIdx dp) failures
           in if NodeFailed ctx from then (zeroPath, False)
              else (case List.find (\<lambda>r. case rbSelectedCond (Normalize r) of None \<Rightarrow> False | Some c \<Rightarrow> evalCond ctx c)
                           (routesFor dp from vrf pfx) of
                      None \<Rightarrow> (zeroPath, False)
                    | Some best \<Rightarrow> (routePath (dpIdx dp) (Normalize best), True))))"

definition RouteReachable :: "dataplane \<Rightarrow> string \<Rightarrow> string \<Rightarrow> fail_set \<Rightarrow> path \<times> bool" where
  "RouteReachable dp from raw failures = RouteReachableVRF dp from NetworkInstanceDefault raw failures"

record symbolic_route_path =
  srpPath :: path
  srpCond :: cond

record symbolic_route_result =
  srrReachable :: cond
  srrUnreachable :: cond
  srrPaths :: "symbolic_route_path list"
  srrReason :: string

definition routeFailure :: "string \<Rightarrow> symbolic_route_result" where
  "routeFailure reason = \<lparr>srrReachable = FalseC, srrUnreachable = TrueC, srrPaths = [], srrReason = reason\<rparr>"

definition routeResult :: "symbolic_route_path list \<Rightarrow> string \<Rightarrow> symbolic_route_result" where
  "routeResult paths reason =
     (let reachable = Or (map srpCond paths)
      in \<lparr>srrReachable = reachable, srrUnreachable = Not reachable, srrPaths = paths, srrReason = reason\<rparr>)"

definition symbolicRoutePaths :: "dataplane \<Rightarrow> string \<Rightarrow> rib_entry list \<Rightarrow> symbolic_route_path list" where
  "symbolicRoutePaths dp from routes =
     List.map_filter (\<lambda>raw. let r = Normalize raw
       in case rbSelectedCond r of
            None \<Rightarrow> None
          | Some c \<Rightarrow> Some \<lparr>srpPath = routePath (dpIdx dp) r,
                           srpCond = And [NodeVar from, expandLinkVars (dpIdx dp) c]\<rparr>) routes"

definition SymbolicRouteReachabilityVRF :: "dataplane \<Rightarrow> string \<Rightarrow> string \<Rightarrow> string \<Rightarrow> symbolic_route_result" where
  "SymbolicRouteReachabilityVRF dp from vrf raw =
     (case ParsePrefix raw of
        None \<Rightarrow> routeFailure ''invalid prefix''
      | Some pfx \<Rightarrow>
          if idxNodes (dpIdx dp) from = None then routeFailure ''source node not found''
          else routeResult (symbolicRoutePaths dp from (routesFor dp from vrf pfx)) [])"

definition SymbolicRouteReachability :: "dataplane \<Rightarrow> string \<Rightarrow> string \<Rightarrow> symbolic_route_result" where
  "SymbolicRouteReachability dp from raw = SymbolicRouteReachabilityVRF dp from NetworkInstanceDefault raw"

definition candidateRoutePaths :: "string \<Rightarrow> fib_candidate list \<Rightarrow> symbolic_route_path list" where
  "candidateRoutePaths from candidates =
     map (\<lambda>c. \<lparr>srpPath = fePath (fcEntry c), srpCond = And [NodeVar from, fcCond c]\<rparr>) candidates"

definition SymbolicRouteReachabilityForPrefixSetVRF ::
    "dataplane \<Rightarrow> string \<Rightarrow> string \<Rightarrow> prefix_set option \<Rightarrow> symbolic_route_result" where
  "SymbolicRouteReachabilityForPrefixSetVRF dp from vrf dst =
     (if dst = None then routeFailure ''destination prefix set is empty''
      else if idxNodes (dpIdx dp) from = None then routeFailure ''source node not found''
      else (let paths = candidateRoutePaths from
                  (SymbolicLookupFIBForPrefixSetVRF (dpIdx dp) (dpFIB dp) from vrf dst)
            in routeResult paths (if length paths = 0 then ''no route for prefix set'' else [])))"

definition SymbolicRouteReachabilityForPrefixSet :: "dataplane \<Rightarrow> string \<Rightarrow> prefix_set option \<Rightarrow> symbolic_route_result" where
  "SymbolicRouteReachabilityForPrefixSet dp from dst =
     SymbolicRouteReachabilityForPrefixSetVRF dp from NetworkInstanceDefault dst"

definition RouteReachableForPrefixSetVRF ::
    "dataplane \<Rightarrow> string \<Rightarrow> string \<Rightarrow> prefix_set option \<Rightarrow> fail_set \<Rightarrow> path \<times> bool" where
  "RouteReachableForPrefixSetVRF dp from vrf dst failures =
     (case List.find (\<lambda>p. evalCond (FailureContext (dpIdx dp) failures) (srpCond p))
             (srrPaths (SymbolicRouteReachabilityForPrefixSetVRF dp from vrf dst)) of
        None \<Rightarrow> (zeroPath, False)
      | Some p \<Rightarrow> (srpPath p, True))"

definition RouteReachableForPrefixSet :: "dataplane \<Rightarrow> string \<Rightarrow> prefix_set option \<Rightarrow> fail_set \<Rightarrow> path \<times> bool" where
  "RouteReachableForPrefixSet dp from dst failures = RouteReachableForPrefixSetVRF dp from NetworkInstanceDefault dst failures"

section \<open>Origins\<close>

definition nodePrefixesVRF :: "node \<Rightarrow> string \<Rightarrow> prefix list" where
  "nodePrefixesVRF n vrf =
     (let want = NormalizeNetworkInstance vrf
      in (if want = NetworkInstanceDefault then nodePrefixes n else [])
         @ List.map_filter (\<lambda>i. if NormalizeNetworkInstance (ifVRF i) \<noteq> want then None
              else map_option (\<lambda>pfx. PrefixFromNetIP (pfxMasked pfx)) (parsePrefix (ifAddress i))) (nodeInterfaces n))"

definition originatesVRF :: "dataplane \<Rightarrow> string \<Rightarrow> string \<Rightarrow> ipprefix \<Rightarrow> bool" where
  "originatesVRF dp n vrf pfx =
     (case idxNodes (dpIdx dp) n of
        None \<Rightarrow> False
      | Some v \<Rightarrow> list_ex (\<lambda>raw. raw = pfx) (nodePrefixesVRF v vrf))"

definition originates :: "node \<Rightarrow> string \<Rightarrow> prefix_set \<Rightarrow> bool" where
  "originates v vrf dst \<longleftrightarrow>
     list_ex (\<lambda>raw. \<not> prefixIsZero raw \<and> AddressSpaceOverlaps (ExactPrefixSet raw) dst) (nodePrefixesVRF v vrf)"

definition originatesPrefixSetVRF :: "dataplane \<Rightarrow> string \<Rightarrow> string \<Rightarrow> prefix_set \<Rightarrow> bool" where
  "originatesPrefixSetVRF dp n vrf dst =
     (case idxNodes (dpIdx dp) n of None \<Rightarrow> False | Some v \<Rightarrow> originates v vrf dst)"

definition hasOriginForPrefixSetVRF :: "dataplane \<Rightarrow> string \<Rightarrow> prefix_set \<Rightarrow> bool" where
  "hasOriginForPrefixSetVRF dp vrf dst = list_ex (\<lambda>v. originates v vrf dst) (dpOrder dp)"

definition originNodesForPrefixSetVRF :: "dataplane \<Rightarrow> string \<Rightarrow> prefix_set \<Rightarrow> string list" where
  "originNodesForPrefixSetVRF dp vrf dst = sort (map nodeName (filter (\<lambda>v. originates v vrf dst) (dpOrder dp)))"

text \<open>The first prefix that contains the address, over the nodes in the order of the run.\<close>

definition originForIPVRF :: "dataplane \<Rightarrow> string \<Rightarrow> string \<Rightarrow> (string \<times> prefix) option" where
  "originForIPVRF dp addr vrf =
     (case parseAddr addr of
        None \<Rightarrow> None
      | Some ip \<Rightarrow>
          List.find (\<lambda>(_, p). pfxContains p ip)
            (concat (map (\<lambda>v. map (\<lambda>p. (nodeName v, p)) (nodePrefixesVRF v vrf)) (dpOrder dp))))"

section \<open>Packets\<close>

record packet_state =
  psCurrent :: string
  psVRF :: string
  psTo :: string
  psSpec :: packet_spec
  psDst :: ipprefix
  psIngress :: string
  psCtx :: fail_context
  psVisited :: "string list"
  psFull :: path

type_synonym packet_result = "path \<times> bool \<times> string"

definition dataACLDecision :: "dataplane \<Rightarrow> node \<Rightarrow> packet_message \<Rightarrow> string \<Rightarrow> policy_decision" where
  "dataACLDecision dp n pkt stage =
     EvaluateDataACL (dpProfiles dp) n pkt stage (topoACLs (idxTopology (dpIdx dp))) (topoACLBindings (idxTopology (dpIdx dp)))"

definition packetAt :: "packet_state \<Rightarrow> packet_message" where
  "packetAt st =
     \<lparr>pmNode = psCurrent st,
      pmSpec = (WithNormalizedPorts (psSpec st))
        \<lparr>DstSet := Some (ExactPrefixSet (PrefixFromNetIP (psDst st))), IngressInterface := psIngress st\<rparr>\<rparr>"

definition pathVia :: "path \<Rightarrow> string \<Rightarrow> link \<Rightarrow> path" where
  "pathVia p n l = \<lparr>pathNodes = pathNodes p @ [n], pathLinks = pathLinks p @ [linkName l], pathCost = goInt (pathCost p + linkCost l)\<rparr>"

text \<open>
  \<open>tryPacketCandidate\<close> up to its recursive call: the reason why the candidate fails, or the state
  at the next hop.
\<close>

definition nextPacketState :: "dataplane \<Rightarrow> packet_state \<Rightarrow> node \<Rightarrow> fib_entry \<Rightarrow> string + packet_state" where
  "nextPacketState dp st currentNode rule =
     (if feDiscard rule then Inl ''discard route selected''
      else if effectiveResolutionStatus rule = NextHopResolutionUnresolvedRecursive then Inl ''recursive next-hop unresolved''
      else if effectiveResolutionStatus rule = NextHopResolutionManagementFallback
        then Inl ''next-hop resolved via management interface''
      else if feNextHop rule = [] then Inl ''selected route has no next-hop''
      else if NodeFailed (psCtx st) (feNextHop rule) then Inl ''next-hop node is down''
      else (case LinkBetween (dpIdx dp) (psCurrent st) (feNextHop rule) of
              None \<Rightarrow> Inl ''next-hop is not adjacent''
            | Some l \<Rightarrow>
                if LinkFailed (psCtx st) (linkName l) then Inl ''next-hop link is down''
                else (let pkt = packetAt st;
                          out = pkt\<lparr>pmSpec := (pmSpec pkt)\<lparr>EgressInterface := interfaceOnLink l (psCurrent st)\<rparr>\<rparr>;
                          decision = dataACLDecision dp currentNode out ''egress''
                      in if pdDenied decision then Inl (pdReason decision)
                         else Inr (st\<lparr>psCurrent := feNextHop rule,
                                 psIngress := interfaceOnLink l (feNextHop rule),
                                 psVisited := psCurrent st # psVisited st,
                                 psFull := pathVia (psFull st) (feNextHop rule) l\<rparr>))))"

definition tryPacketCandidate ::
    "(packet_state \<Rightarrow> packet_result option) \<Rightarrow> dataplane \<Rightarrow> packet_state \<Rightarrow> node \<Rightarrow> fib_entry \<Rightarrow> packet_result option" where
  "tryPacketCandidate walk dp st currentNode rule =
     (case nextPacketState dp st currentNode rule of
        Inl reason \<Rightarrow> Some (psFull st, False, reason)
      | Inr next_state \<Rightarrow> walk next_state)"

text \<open>The loop over the candidates: the first success returns, otherwise the first reason counts.\<close>

fun candidateLoop ::
    "(fib_entry \<Rightarrow> packet_result option) \<Rightarrow> fail_context \<Rightarrow> path \<Rightarrow> string \<Rightarrow> fib_candidate list \<Rightarrow> packet_result option" where
  "candidateLoop attempt ctx full firstReason [] =
     Some (full, False, if firstReason = [] then ''no forwarding route'' else firstReason)"
| "candidateLoop attempt ctx full firstReason (c # cs) =
     (if \<not> evalCond ctx (fcCond c) then candidateLoop attempt ctx full firstReason cs
      else (case attempt (fcEntry c) of
              None \<Rightarrow> None
            | Some (nextFull, ok, reason) \<Rightarrow>
                if ok then Some (nextFull, True, [])
                else candidateLoop attempt ctx full (if firstReason = [] then reason else firstReason) cs))"

definition currentNodeOf :: "dataplane \<Rightarrow> packet_state \<Rightarrow> node" where
  "currentNodeOf dp st = (case idxNodes (dpIdx dp) (psCurrent st) of None \<Rightarrow> zeroNode | Some v \<Rightarrow> v)"

fun packetReachableFrom :: "nat \<Rightarrow> dataplane \<Rightarrow> packet_state \<Rightarrow> packet_result option" where
  "packetReachableFrom 0 dp st = None"
| "packetReachableFrom (Suc fuel) dp st =
     (if NodeFailed (psCtx st) (psCurrent st) then Some (psFull st, False, ''current node is down'')
      else if psCurrent st \<in> set (psVisited st) then Some (psFull st, False, ''forwarding loop'')
      else if originatesVRF dp (psCurrent st) (psVRF st) (psDst st) then Some (psFull st, True, [])
      else (let currentNode = currentNodeOf dp st;
                ingress = dataACLDecision dp currentNode (packetAt st) ''ingress''
            in if pdDenied ingress then Some (psFull st, False, pdReason ingress)
               else (let candidates = SymbolicLookupFIBVRF (dpIdx dp) (dpFIB dp) (psCurrent st) (psVRF st) (psTo st)
                     in if candidates = [] then Some (psFull st, False, ''no forwarding route'')
                        else candidateLoop (tryPacketCandidate (packetReachableFrom fuel dp) dp st currentNode)
                               (psCtx st) (psFull st) [] candidates)))"

declare packetReachableFrom.simps [simp del]

definition PacketReachableSpecVRF ::
    "nat \<Rightarrow> dataplane \<Rightarrow> string \<Rightarrow> string \<Rightarrow> string \<Rightarrow> packet_spec \<Rightarrow> fail_set \<Rightarrow> packet_result option" where
  "PacketReachableSpecVRF fuel dp from vrf to spec failures =
     (let ctx = FailureContext (dpIdx dp) failures
      in case originForIPVRF dp to vrf of
           None \<Rightarrow> Some (zeroPath, False, ''destination prefix not advertised'')
         | Some (dstNode, dstPrefix) \<Rightarrow>
             if NodeFailed ctx from then Some (zeroPath, False, ''source node is down'')
             else if NodeFailed ctx dstNode then Some (zeroPath, False, ''destination node is down'')
             else packetReachableFrom fuel dp
                    \<lparr>psCurrent = from, psVRF = NormalizeNetworkInstance vrf, psTo = to, psSpec = spec, psDst = dstPrefix,
                     psIngress = [], psCtx = ctx, psVisited = [],
                     psFull = \<lparr>pathNodes = [from], pathLinks = [], pathCost = 0\<rparr>\<rparr>)"

definition emptySpec :: packet_spec where
  "emptySpec = \<lparr>SrcSet = None, DstSet = None, Protocol = [], SrcPort = None, DstPort = None,
     IngressInterface = [], EgressInterface = []\<rparr>"

definition PacketReachableSpec ::
    "nat \<Rightarrow> dataplane \<Rightarrow> string \<Rightarrow> string \<Rightarrow> packet_spec \<Rightarrow> fail_set \<Rightarrow> packet_result option" where
  "PacketReachableSpec fuel dp from to spec failures =
     PacketReachableSpecVRF fuel dp from NetworkInstanceDefault to spec failures"

definition PacketReachable ::
    "nat \<Rightarrow> dataplane \<Rightarrow> string \<Rightarrow> string \<Rightarrow> string \<Rightarrow> fail_set \<Rightarrow> packet_result option" where
  "PacketReachable fuel dp from to protocol failures =
     PacketReachableSpec fuel dp from to (emptySpec\<lparr>Protocol := protocol\<rparr>) failures"

section \<open>A packet returns within the number of nodes\<close>

text \<open>
  The nodes a walk can visit: the source and the ends of links. Every link the index knows connects
  such nodes.
\<close>

definition linksWithin :: "topology_index \<Rightarrow> string set \<Rightarrow> bool" where
  "linksWithin idx N \<longleftrightarrow> (\<forall>a b. LinkBetween idx a b \<noteq> None \<longrightarrow> a \<in> N \<and> b \<in> N)"

lemma candidateLoop_returns:
  assumes "\<And>rule. attempt rule \<noteq> None"
  shows "candidateLoop attempt ctx full r cs \<noteq> None"
proof (induction cs arbitrary: r)
  case (Cons c cs)
  obtain x ok reason where "attempt (fcEntry c) = Some (x, ok, reason)" using assms [of "fcEntry c"] by auto
  then show ?case using Cons.IH by (cases ok) (simp_all del: not_None_eq)
qed simp

lemma nextPacketState_Inr:
  assumes "nextPacketState dp st n rule = Inr st'"
  obtains l where "LinkBetween (dpIdx dp) (psCurrent st) (feNextHop rule) = Some l"
    "\<not> NodeFailed (psCtx st) (feNextHop rule)" "\<not> LinkFailed (psCtx st) (linkName l)"
    "psCurrent st' = feNextHop rule" "psVisited st' = psCurrent st # psVisited st" "psCtx st' = psCtx st"
    "psFull st' = pathVia (psFull st) (feNextHop rule) l" "psVRF st' = psVRF st" "psDst st' = psDst st" "psTo st' = psTo st"
  using assms by (auto simp: nextPacketState_def Let_def split: if_splits option.splits)

lemma packetReachableFrom_returns:
  assumes "linksWithin (dpIdx dp) N" "finite N"
  shows "card (N - set (psVisited st)) < fuel \<Longrightarrow> packetReachableFrom fuel dp st \<noteq> None"
proof (induction fuel arbitrary: st)
  case (Suc fuel)
  have "tryPacketCandidate (packetReachableFrom fuel dp) dp st n rule \<noteq> None"
    if "psCurrent st \<notin> set (psVisited st)" for n rule
  proof (cases "nextPacketState dp st n rule")
    case (Inr st')
    then obtain l where st': "LinkBetween (dpIdx dp) (psCurrent st) (feNextHop rule) = Some l"
        "psVisited st' = psCurrent st # psVisited st" by (rule nextPacketState_Inr)
    then have "psCurrent st \<in> N" using assms(1) by (auto simp: linksWithin_def)
    then have "N - set (psVisited st') \<subset> N - set (psVisited st)" using that st'(2) by auto
    then have "card (N - set (psVisited st')) < card (N - set (psVisited st))"
      by (rule psubset_card_mono [rotated]) (simp add: assms(2))
    then have "packetReachableFrom fuel dp st' \<noteq> None" using Suc.prems by (intro Suc.IH) simp
    then show ?thesis by (simp add: tryPacketCandidate_def Inr)
  qed (simp add: tryPacketCandidate_def)
  then show ?case
    using candidateLoop_returns by (auto simp: packetReachableFrom.simps Let_def)
qed simp

section \<open>A path that is found is a working path\<close>

text \<open>
  What a walk has established when it stands at a node: a chain of links from the source to it, all of
  them and all nodes on the way up, no node twice, and the cost of the links.
\<close>

definition linkChain :: "topology_index \<Rightarrow> path \<Rightarrow> link list \<Rightarrow> bool" where
  "linkChain idx p ls \<longleftrightarrow> pathLinks p = map linkName ls \<and> length (pathNodes p) = Suc (length ls)
     \<and> (\<forall>i < length ls. LinkBetween idx (pathNodes p ! i) (pathNodes p ! Suc i) = Some (ls ! i))
     \<and> pathCost p = goInt (sum_list (map linkCost ls))"

definition routedPath :: "topology_index \<Rightarrow> fail_context \<Rightarrow> path \<Rightarrow> bool" where
  "routedPath idx ctx p \<longleftrightarrow>
     (\<exists>ls. linkChain idx p ls)
     \<and> (\<forall>n \<in> set (pathNodes p). \<not> NodeFailed ctx n) \<and> (\<forall>l \<in> set (pathLinks p). \<not> LinkFailed ctx l)"

lemma routedPath_single: "\<not> NodeFailed ctx n \<Longrightarrow> routedPath idx ctx \<lparr>pathNodes = [n], pathLinks = [], pathCost = 0\<rparr>"
  by (simp add: routedPath_def linkChain_def)

lemma routedPath_via:
  assumes "routedPath idx ctx p" "pathNodes p \<noteq> []" "LinkBetween idx (last (pathNodes p)) n = Some l"
    and "\<not> NodeFailed ctx n" "\<not> LinkFailed ctx (linkName l)"
  shows "routedPath idx ctx (pathVia p n l)"
proof -
  obtain ls where chain: "linkChain idx p ls" using assms(1) by (auto simp: routedPath_def)
  then have ls: "length (pathNodes p) = Suc (length ls)"
    "\<forall>i < length ls. LinkBetween idx (pathNodes p ! i) (pathNodes p ! Suc i) = Some (ls ! i)" by (simp_all add: linkChain_def)
  have "LinkBetween idx ((pathNodes p @ [n]) ! i) ((pathNodes p @ [n]) ! Suc i) = Some ((ls @ [l]) ! i)"
    if "i < Suc (length ls)" for i
  proof (cases "i = length ls")
    case True
    then show ?thesis using ls(1) assms(2,3) by (simp add: nth_append last_conv_nth)
  next
    case False
    then show ?thesis using ls that by (simp add: nth_append)
  qed
  then have "linkChain idx (pathVia p n l) (ls @ [l])" using chain by (simp add: linkChain_def pathVia_def)
  then have "\<exists>ls. linkChain idx (pathVia p n l) ls" ..
  then show ?thesis using assms(1,4,5) unfolding routedPath_def by (simp add: pathVia_def)
qed

definition walkOK :: "dataplane \<Rightarrow> packet_state \<Rightarrow> bool" where
  "walkOK dp st \<longleftrightarrow> routedPath (dpIdx dp) (psCtx st) (psFull st)
     \<and> pathNodes (psFull st) = rev (psVisited st) @ [psCurrent st] \<and> distinct (psVisited st)"

lemma walkOK_next:
  assumes "walkOK dp st" "psCurrent st \<notin> set (psVisited st)" "nextPacketState dp st n rule = Inr st'"
  shows "walkOK dp st'"
proof -
  obtain l where st': "LinkBetween (dpIdx dp) (psCurrent st) (feNextHop rule) = Some l"
      "\<not> NodeFailed (psCtx st) (feNextHop rule)" "\<not> LinkFailed (psCtx st) (linkName l)"
      "psCurrent st' = feNextHop rule" "psVisited st' = psCurrent st # psVisited st" "psCtx st' = psCtx st"
      "psFull st' = pathVia (psFull st) (feNextHop rule) l" using assms(3) by (rule nextPacketState_Inr)
  have "routedPath (dpIdx dp) (psCtx st) (pathVia (psFull st) (feNextHop rule) l)"
    using assms(1) st' by (intro routedPath_via) (auto simp: walkOK_def)
  then show ?thesis using assms(1,2) st' by (simp add: walkOK_def pathVia_def)
qed

lemma candidateLoop_ok:
  assumes "candidateLoop attempt ctx full r cs = Some (p, True, reason)"
  shows "\<exists>c \<in> set cs. evalCond ctx (fcCond c) \<and> (\<exists>r'. attempt (fcEntry c) = Some (p, True, r'))"
  using assms by (induction attempt ctx full r cs rule: candidateLoop.induct) (auto split: if_splits option.splits prod.splits)

text \<open>The paths a successful walk can end with.\<close>

definition arrives :: "dataplane \<Rightarrow> packet_state \<Rightarrow> path \<Rightarrow> bool" where
  "arrives dp st p \<longleftrightarrow> routedPath (dpIdx dp) (psCtx st) p \<and> pathNodes p \<noteq> [] \<and> hd (pathNodes p) = hd (pathNodes (psFull st))
     \<and> distinct (pathNodes p) \<and> originatesVRF dp (last (pathNodes p)) (psVRF st) (psDst st)"

lemma packetReachableFrom_ok:
  "walkOK dp st \<Longrightarrow> packetReachableFrom fuel dp st = Some (p, True, reason) \<Longrightarrow> arrives dp st p"
proof (induction fuel arbitrary: st p reason)
  case (Suc fuel)
  let ?n = "currentNodeOf dp st"
  have fresh: "psCurrent st \<notin> set (psVisited st)" using Suc.prems(2) by (auto simp: packetReachableFrom.simps split: if_splits)
  show ?case
  proof (cases "originatesVRF dp (psCurrent st) (psVRF st) (psDst st)")
    case True
    then have "p = psFull st"
      using Suc.prems(2) by (auto simp: packetReachableFrom.simps split: if_splits)
    then show ?thesis using True Suc.prems(1) fresh by (simp add: walkOK_def arrives_def)
  next
    case False
    then have "candidateLoop (tryPacketCandidate (packetReachableFrom fuel dp) dp st ?n) (psCtx st) (psFull st) []
        (SymbolicLookupFIBVRF (dpIdx dp) (dpFIB dp) (psCurrent st) (psVRF st) (psTo st)) = Some (p, True, reason)"
      using Suc.prems(2) by (auto simp: packetReachableFrom.simps Let_def split: if_splits)
    then obtain rule r' where "tryPacketCandidate (packetReachableFrom fuel dp) dp st ?n rule = Some (p, True, r')"
      using candidateLoop_ok by blast
    then obtain st' where st': "nextPacketState dp st ?n rule = Inr st'" "packetReachableFrom fuel dp st' = Some (p, True, r')"
      by (auto simp: tryPacketCandidate_def split: sum.splits)
    obtain l where "psCtx st' = psCtx st" "psFull st' = pathVia (psFull st) (feNextHop rule) l"
      "psVRF st' = psVRF st" "psDst st' = psDst st" using st'(1) by (rule nextPacketState_Inr)
    moreover have "arrives dp st' p" using walkOK_next [OF Suc.prems(1) fresh st'(1)] st'(2) by (rule Suc.IH)
    moreover have "pathNodes (psFull st) \<noteq> []" using Suc.prems(1) by (simp add: walkOK_def)
    ultimately show ?thesis by (simp add: arrives_def pathVia_def)
  qed
qed (simp add: packetReachableFrom.simps)

section \<open>The index bounds the walk\<close>

lemma linksWithin_built:
  assumes "BuildTopologyIndex topo = Inr idx"
  shows "linksWithin idx (nodeName ` set (topoNodes topo))"
proof -
  have spec: "indexable topo" "linksIndexed (topoLinks topo) idx"
    using BuildTopologyIndex_spec [of topo] assms by simp_all
  have "a \<in> nodeName ` set (topoNodes topo) \<and> b \<in> nodeName ` set (topoNodes topo)"
    if "LinkBetween idx a b = Some l" for a b l
  proof -
    have "l \<in> set (topoLinks topo)" "linkPair l = NewEndpointPair a b"
      using that spec(2) unfolding linksIndexed_def LinkBetween_def by blast+
    then show ?thesis
      using spec(1) by (auto simp: indexable_def list_all_iff linkPair_def NewEndpointPair_eq)
  qed
  then show ?thesis by (auto simp: linksWithin_def)
qed

lemma originForIPVRF_Some:
  assumes "originForIPVRF dp addr vrf = Some (n, p)"
  shows "\<exists>ip. parseAddr addr = Some ip \<and> pfxContains p ip \<and> (\<exists>v \<in> set (dpOrder dp). nodeName v = n \<and> p \<in> set (nodePrefixesVRF v vrf))"
proof -
  obtain ip where ip: "parseAddr addr = Some ip" using assms by (auto simp: originForIPVRF_def split: option.splits)
  then have "(n, p) \<in> set (concat (map (\<lambda>v. map (\<lambda>p. (nodeName v, p)) (nodePrefixesVRF v vrf)) (dpOrder dp))) \<and> pfxContains p ip"
    using find_SomeD [of "\<lambda>(_, p). pfxContains p ip"] assms by (fastforce simp: originForIPVRF_def)
  then show ?thesis using ip by auto
qed

section \<open>Routes and the conditions for them\<close>

lemma routes_denote:
  assumes "plainLinks (idxLinks idx)" "plainName from" "\<forall>r \<in> set routes. plainEntry r" "dpIdx dp = idx"
  shows "denotes (idxLinks idx) (srrReachable (routeResult (symbolicRoutePaths dp from routes) reason))
    (\<lambda>F. Nodes F from \<noteq> Some True \<and> (\<exists>r \<in> set routes. case rbSelectedCond r of None \<Rightarrow> False
        | Some c \<Rightarrow> evalCond (FailureContext idx F) c))"
proof -
  let ?m = "idxLinks idx"
  define conds where "conds = List.map_filter (\<lambda>r. rbSelectedCond r) routes"
  have paths: "map srpCond (symbolicRoutePaths dp from routes) = map (\<lambda>c. And [NodeVar from, expandLinkVars idx c]) conds"
    unfolding conds_def symbolicRoutePaths_def assms(4)
    by (induction routes) (auto simp: List.map_filter_simps Let_def split: option.splits)
  have set_conds: "set conds = {c. \<exists>r \<in> set routes. rbSelectedCond r = Some c}"
    unfolding conds_def List.map_filter_def by force
  have "denotes ?m (And [NodeVar from, expandLinkVars idx c])
      (\<lambda>F. Nodes F from \<noteq> Some True \<and> evalCond (FailureContext idx F) c)" if "c \<in> set conds" for c
  proof (rule denotes_And2)
    show "denotes ?m (NodeVar from) (\<lambda>F. Nodes F from \<noteq> Some True)" using assms(2) by (rule denotes_NodeVar)
    have "plainCond c" using that assms(3) by (auto simp: set_conds plainEntry_def)
    then show "denotes ?m (expandLinkVars idx c) (\<lambda>F. evalCond (FailureContext idx F) c)"
      unfolding expandLinkVars_def FailureContext_def using assms(1) by (rule denotes_ExpandLinkVars)
  qed
  then have "denotes ?m (Or (map (\<lambda>c. And [NodeVar from, expandLinkVars idx c]) conds))
      (\<lambda>F. \<exists>c \<in> set conds. Nodes F from \<noteq> Some True \<and> evalCond (FailureContext idx F) c)" by (rule denotes_Or_map)
  then show ?thesis
    unfolding routeResult_def Let_def symbolic_route_result.simps paths
    by (rule denotes_cong) (auto simp: set_conds split: option.splits)
qed

lemma RouteReachableVRF_iff:
  "snd (RouteReachableVRF dp from vrf raw F) \<longleftrightarrow>
     (\<exists>pfx. ParsePrefix raw = Some pfx \<and> Nodes F from \<noteq> Some True
        \<and> (\<exists>r \<in> set (routesFor dp from vrf pfx). case rbSelectedCond r of None \<Rightarrow> False
              | Some c \<Rightarrow> evalCond (FailureContext (dpIdx dp) F) c))"
proof -
  have "(\<exists>r \<in> set rs. P r) \<longleftrightarrow> List.find P rs \<noteq> None" for P and rs :: "rib_entry list"
    by (auto simp: find_None_iff)
  then show ?thesis
    by (auto simp: RouteReachableVRF_def Let_def NodeFailed_def FailureContext_def split: option.splits)
qed

text \<open>The tables of a router hold entries with plain names only.\<close>

definition plainRoutes :: "dataplane \<Rightarrow> bool" where
  "plainRoutes dp \<longleftrightarrow> plainLinks (idxLinks (dpIdx dp)) \<and> (\<forall>n \<in> dom (idxNodes (dpIdx dp)). plainName n)
     \<and> (\<forall>(k, rs) \<in> set (dpRIB dp). \<forall>r \<in> set rs. plainEntry r)"

lemma plainRoutes_bucket: "plainRoutes dp \<Longrightarrow> r \<in> set (routesFor dp n vrf pfx) \<Longrightarrow> plainEntry r"
  by (cases "map_of (dpRIB dp) (n, NormalizeNetworkInstance vrf, pfx)")
     (auto simp: plainRoutes_def routesFor_def bucket_def dest!: map_of_SomeD)

lemma route_denotes:
  assumes "plainRoutes dp" "idxNodes (dpIdx dp) from \<noteq> None"
  shows "denotes (idxLinks (dpIdx dp)) (srrReachable (SymbolicRouteReachabilityVRF dp from vrf raw))
      (\<lambda>F. snd (RouteReachableVRF dp from vrf raw F))"
    "denotes (idxLinks (dpIdx dp)) (srrUnreachable (SymbolicRouteReachabilityVRF dp from vrf raw))
      (\<lambda>F. \<not> snd (RouteReachableVRF dp from vrf raw F))"
proof -
  have reach: "denotes (idxLinks (dpIdx dp)) (srrReachable (SymbolicRouteReachabilityVRF dp from vrf raw))
      (\<lambda>F. snd (RouteReachableVRF dp from vrf raw F))"
  proof (cases "ParsePrefix raw")
    case None
    then show ?thesis
      by (simp add: SymbolicRouteReachabilityVRF_def routeFailure_def RouteReachableVRF_def denotes_const)
  next
    case (Some pfx)
    have "plainLinks (idxLinks (dpIdx dp))" "plainName from" using assms by (auto simp: plainRoutes_def)
    then have "denotes (idxLinks (dpIdx dp)) (srrReachable (SymbolicRouteReachabilityVRF dp from vrf raw))
      (\<lambda>F. Nodes F from \<noteq> Some True \<and> (\<exists>r \<in> set (routesFor dp from vrf pfx). case rbSelectedCond r of None \<Rightarrow> False
          | Some c \<Rightarrow> evalCond (FailureContext (dpIdx dp) F) c))"
      using routes_denote [of "dpIdx dp" "from" "routesFor dp from vrf pfx" dp] plainRoutes_bucket [OF assms(1)]
      using assms(2) by (auto simp: SymbolicRouteReachabilityVRF_def Some)
    then show ?thesis by (rule denotes_cong) (simp add: RouteReachableVRF_iff Some)
  qed
  then show "denotes (idxLinks (dpIdx dp)) (srrReachable (SymbolicRouteReachabilityVRF dp from vrf raw))
      (\<lambda>F. snd (RouteReachableVRF dp from vrf raw F))" .
  have "srrUnreachable (SymbolicRouteReachabilityVRF dp from vrf raw) = Not (srrReachable (SymbolicRouteReachabilityVRF dp from vrf raw))"
    by (simp add: SymbolicRouteReachabilityVRF_def routeFailure_def routeResult_def Let_def simplifyNot_def split: option.splits)
  then show "denotes (idxLinks (dpIdx dp)) (srrUnreachable (SymbolicRouteReachabilityVRF dp from vrf raw))
      (\<lambda>F. \<not> snd (RouteReachableVRF dp from vrf raw F))" using denotes_Not [OF reach] by simp
qed

section \<open>Properties\<close>

text \<open>
  C13 (packets return, and a path that is found works). In a network indexed from its topology, the
  trace of a packet needs no more recursion than there are nodes. When it reports success, the path it
  reports leads from the source over links of the index, no node twice, all nodes and links up, with
  the sum of the link costs as a Go \<open>int\<close>, to a node that originates, in the instance of the packet, a prefix that
  contains the destination.
\<close>

theorem PacketReachable_returns_working_path:
  assumes "BuildTopologyIndex topo = Inr (dpIdx dp)" "length (topoNodes topo) < fuel"
  shows "\<exists>p ok reason. PacketReachableSpecVRF fuel dp from vrf to spec F = Some (p, ok, reason)
    \<and> (ok \<longrightarrow> routedPath (dpIdx dp) (FailureContext (dpIdx dp) F) p \<and> pathNodes p \<noteq> [] \<and> hd (pathNodes p) = from
         \<and> distinct (pathNodes p) \<and> (\<exists>ip dst. parseAddr to = Some ip \<and> pfxContains dst ip
              \<and> originatesVRF dp (last (pathNodes p)) (NormalizeNetworkInstance vrf) dst))"
proof (cases "originForIPVRF dp to vrf")
  case None
  then have "PacketReachableSpecVRF fuel dp from vrf to spec F = Some (zeroPath, False, ''destination prefix not advertised'')"
    by (simp add: PacketReachableSpecVRF_def)
  then show ?thesis by blast
next
  case (Some origin)
  obtain dstNode dst where origin: "origin = (dstNode, dst)" by force
  let ?ctx = "FailureContext (dpIdx dp) F" and ?N = "nodeName ` set (topoNodes topo)"
  let ?st = "\<lparr>psCurrent = from, psVRF = NormalizeNetworkInstance vrf, psTo = to, psSpec = spec, psDst = dst,
     psIngress = [], psCtx = ?ctx, psVisited = [], psFull = \<lparr>pathNodes = [from], pathLinks = [], pathCost = 0\<rparr>\<rparr>"
  have ip: "\<exists>ip. parseAddr to = Some ip \<and> pfxContains dst ip"
    using originForIPVRF_Some Some origin by blast
  have "card ?N \<le> length (topoNodes topo)" using card_image_le card_length le_trans by blast
  then have "packetReachableFrom fuel dp ?st \<noteq> None"
    using assms(2) by (intro packetReachableFrom_returns [OF linksWithin_built [OF assms(1)]]) simp_all
  then obtain p ok reason where walk: "packetReachableFrom fuel dp ?st = Some (p, ok, reason)" by auto
  show ?thesis
  proof (cases "NodeFailed ?ctx from \<or> NodeFailed ?ctx dstNode")
    case True
    then obtain reason where "PacketReachableSpecVRF fuel dp from vrf to spec F = Some (zeroPath, False, reason)"
      by (cases "NodeFailed ?ctx from") (auto simp: PacketReachableSpecVRF_def Some origin Let_def)
    then show ?thesis by blast
  next
    case False
    then have "walkOK dp ?st" by (simp add: walkOK_def routedPath_single)
    then have "arrives dp ?st p" if ok using packetReachableFrom_ok [of dp ?st fuel p reason] walk that by simp
    then show ?thesis using False walk ip by (auto simp: PacketReachableSpecVRF_def Some origin Let_def arrives_def)
  qed
qed

text \<open>Two routers and a link; the second one originates a prefix.\<close>

definition exampleTopology :: topology where
  "exampleTopology = \<lparr>topoName = ''lab'', topoManagementSubnet = [],
     topoNodes = [exampleNode ''a'' KindFRR 1 ''b'', (exampleNode ''b'' KindFRR 2 ''a'')\<lparr>nodePrefixes := [exampleNarrow]\<rparr>],
     topoLinks = [exampleLink], topoACLs = [], topoACLBindings = []\<rparr>"

lemma exampleTopology_built: "\<exists>idx. BuildTopologyIndex exampleTopology = Inr idx"
proof -
  have "indexable exampleTopology"
    by (simp add: indexable_def exampleTopology_def exampleNode_def exampleLink_def)
  then show ?thesis using BuildTopologyIndex_spec [of exampleTopology] by (cases "BuildTopologyIndex exampleTopology") auto
qed

theorem PacketReachable_returns_working_path_witness:
  "\<exists>idx p ok reason. BuildTopologyIndex exampleTopology = Inr idx
     \<and> PacketReachable 3 \<lparr>dpIdx = idx, dpRIB = [], dpFIB = exampleTwoRoutes, dpProfiles = builtinProfiles,
           dpOrder = topoNodes exampleTopology\<rparr> ''a'' ''10.1.2.3'' ''tcp'' noFailures = Some (p, ok, reason)
     \<and> distinct (if ok then pathNodes p else [])"
proof -
  obtain idx where idx: "BuildTopologyIndex exampleTopology = Inr idx" using exampleTopology_built ..
  have fuel: "length (topoNodes exampleTopology) < 3" by (simp add: exampleTopology_def)
  let ?dp = "\<lparr>dpIdx = idx, dpRIB = [], dpFIB = exampleTwoRoutes, dpProfiles = builtinProfiles, dpOrder = topoNodes exampleTopology\<rparr>"
  from PacketReachable_returns_working_path [of exampleTopology ?dp 3 "''a''" NetworkInstanceDefault "''10.1.2.3''"
      "emptySpec\<lparr>Protocol := ''tcp''\<rparr>" noFailures] idx fuel
  obtain p ok reason where "PacketReachable 3 ?dp ''a'' ''10.1.2.3'' ''tcp'' noFailures = Some (p, ok, reason)"
      "ok \<longrightarrow> distinct (pathNodes p)"
    unfolding PacketReachable_def PacketReachableSpec_def by auto
  moreover from this(2) have "distinct (if ok then pathNodes p else [])" by simp
  ultimately show ?thesis using idx by blast
qed

text \<open>
  C18 (simulated and symbolic routes agree). For every set of failures, the simulation finds a route
  exactly when the symbolic condition \<open>Reachable\<close> holds and its \<open>Unreachable\<close> does not, whether
  these are evaluated with the link map or without it.
\<close>

theorem RouteReachable_symbolic:
  assumes "plainRoutes dp" "idxNodes (dpIdx dp) from \<noteq> None" "m = idxLinks (dpIdx dp) \<or> m = Map.empty"
  shows "(evalCond \<lparr>Failures = F, LinksByName = m\<rparr> (srrReachable (SymbolicRouteReachabilityVRF dp from vrf raw))
      \<longleftrightarrow> snd (RouteReachableVRF dp from vrf raw F))
    \<and> (evalCond \<lparr>Failures = F, LinksByName = m\<rparr> (srrUnreachable (SymbolicRouteReachabilityVRF dp from vrf raw))
      \<longleftrightarrow> \<not> snd (RouteReachableVRF dp from vrf raw F))"
proof -
  have "m \<subseteq>\<^sub>m idxLinks (dpIdx dp)" using assms(3) by auto
  then show ?thesis
    using route_denotes [OF assms(1,2), of vrf raw] by (simp_all add: denotes_def)
qed

text \<open>A router whose only route to a network needs a link.\<close>

definition exampleDataplane :: dataplane where
  "exampleDataplane = \<lparr>dpIdx = exampleIndex KindFRR KindFRR,
     dpRIB = [((''a'', NetworkInstanceDefault, exampleNarrow), [exampleStatic exampleNarrow (LinkVar ''a-b'')])],
     dpFIB = exampleTwoRoutes, dpProfiles = builtinProfiles,
     dpOrder = [exampleNode ''a'' KindFRR 1 ''b'', exampleNode ''b'' KindFRR 2 ''a'']\<rparr>"

lemma plainRoutes_example: "plainRoutes exampleDataplane"
  by (auto simp: plainRoutes_def exampleDataplane_def plainLinks_example exampleStatic_def plainEntry_def LinkVar_def
      zeroRIBEntry_def plainName_def) (auto simp: exampleIndex_def split: if_splits)

lemma ParsePrefix_narrow: "ParsePrefix ''10.1.0.0/16'' = Some exampleNarrow"
  by (simp add: exampleNarrow_def ParsePrefix_def parsePrefix_def parseAddr_def parse4_def parseOctet_def plainNumber_def
      isDigit_def digitVal_def decVal_def word4_def prefixFrom_def prefix_eval)

theorem RouteReachable_symbolic_witness:
  "evalCond \<lparr>Failures = NewSet [] [''b''], LinksByName = Map.empty\<rparr>
     (srrUnreachable (SymbolicRouteReachability exampleDataplane ''a'' ''10.1.0.0/16''))"
proof -
  have node: "idxNodes (dpIdx exampleDataplane) ''a'' \<noteq> None" by (simp add: exampleDataplane_def exampleIndex_def)
  have vrf: "NormalizeNetworkInstance NetworkInstanceDefault = NetworkInstanceDefault" by code_simp
  have "\<not> snd (RouteReachableVRF exampleDataplane ''a'' NetworkInstanceDefault ''10.1.0.0/16'' (NewSet [] [''b'']))"
    unfolding RouteReachableVRF_iff routesFor_def vrf
    by (simp add: ParsePrefix_narrow bucket_def exampleDataplane_def exampleStatic_def FailureContext_def LinkVar_def
        LinkFailed_def NewSet_lookup exampleIndex_def exampleLink_def)
  then show ?thesis
    using RouteReachable_symbolic [OF plainRoutes_example node disjI2, OF refl] by (simp add: SymbolicRouteReachability_def)
qed

text \<open>
  The origin of a packet's destination depends on the order of a map. \<open>originForIPVRF\<close> stops at the
  first prefix that contains the address, not at the longest: every node that originates such a prefix
  is the answer under some order of the nodes.
\<close>

lemma originForIPVRF_any_owner:
  assumes "parseAddr addr = Some ip" "v \<in> set (dpOrder dp)"
    and "List.find (\<lambda>p. pfxContains p ip) (nodePrefixesVRF v vrf) = Some p"
  shows "\<exists>order. mset order = mset (dpOrder dp) \<and> originForIPVRF (dp\<lparr>dpOrder := order\<rparr>) addr vrf = Some (nodeName v, p)"
proof -
  obtain xs ys where split: "dpOrder dp = xs @ v # ys" using assms(2) by (meson split_list)
  have owned: "List.find (\<lambda>(_, p). pfxContains p ip) (map (\<lambda>p. (nodeName v, p)) ps @ rest) = Some (nodeName v, p)"
    if "List.find (\<lambda>p. pfxContains p ip) ps = Some p" for ps rest
    using that by (induction ps) (auto split: if_splits)
  have "originForIPVRF (dp\<lparr>dpOrder := v # xs @ ys\<rparr>) addr vrf = Some (nodeName v, p)"
    using owned [OF assms(3)] by (simp add: originForIPVRF_def assms(1))
  then show ?thesis by (intro exI [of _ "v # xs @ ys"]) (simp add: split)
qed

end
