(* ===== verification/Symbolic_Forward.thy ===== *)
theory Symbolic_Forward
  imports Reachability Header_Space
begin

text \<open>
  \<open>symbolic_forward.go\<close>, \<open>symbolic_reasons.go\<close> and the packet part of \<open>symbolic.go\<close> in
  \<open>internal/engine/dataplane\<close>: the conditions under which a packet arrives, and the explanations of why
  it does not. The three slices that \<open>symbolicForward\<close> appends to are the record \<open>forward_out\<close>; a call
  returns what it appends. No condition in it is \<open>nil\<close>, since all are built by \<open>failure.And\<close>,
  \<open>Not\<close> and the atoms. \<open>len(e.idx.NodesByName)\<close> is the number of nodes the run visits.
\<close>

section \<open>States and results\<close>

record symbolic_packet_state =
  ssNode :: string
  ssIngress :: string
  ssPacket :: packet_message
  ssCond :: cond
  ssPath :: path

record symbolic_packet_path =
  sppPath :: path
  sppCond :: cond
  sppStates :: "symbolic_packet_state list"

record blocked_path =
  bpPath :: path
  bpCond :: cond
  bpReason :: string
  bpACL :: string
  bpRuleSeq :: int
  bpAction :: string
  bpNode :: string
  bpInterface :: string
  bpStage :: string
  bpDefaultAction :: string
  bpSource :: config_source

datatype reason_kind =
    UnreachableNoRoute
  | UnreachableNoNextHop
  | UnreachableDiscard
  | UnreachableRecursiveNextHopUnresolved
  | UnreachableNextHopNotAdjacent
  | UnreachableNextHopManagementFallback
  | UnreachableNodeFailed
  | UnreachableLinkFailed
  | UnreachableIngressPolicy
  | UnreachableEgressPolicy
  | UnreachableLoop
  | UnreachableDestinationNotAdvertised

record unreachable_reason =
  urKind :: reason_kind
  urNode :: string
  urLink :: string
  urInterface :: string
  urPolicyName :: string
  urACLName :: string
  urRuleSeq :: int
  urAction :: string
  urDefaultAction :: string
  urPolicyRaw :: string
  urPath :: path
  urCond :: cond
  urMessage :: string

record symbolic_result =
  srReachable :: cond
  srUnreachable :: cond
  srPaths :: "symbolic_packet_path list"
  srBlocked :: "blocked_path list"
  srReasons :: "unreachable_reason list"
  srReason :: string

record forward_out =
  foPaths :: "symbolic_packet_path list"
  foBlocked :: "blocked_path list"
  foReasons :: "unreachable_reason list"

definition emptyOut :: forward_out where
  "emptyOut = \<lparr>foPaths = [], foBlocked = [], foReasons = []\<rparr>"

definition outAppend :: "forward_out \<Rightarrow> forward_out \<Rightarrow> forward_out" where
  "outAppend a b = \<lparr>foPaths = foPaths a @ foPaths b, foBlocked = foBlocked a @ foBlocked b, foReasons = foReasons a @ foReasons b\<rparr>"

definition reasonsOut :: "unreachable_reason list \<Rightarrow> forward_out" where
  "reasonsOut rs = emptyOut\<lparr>foReasons := rs\<rparr>"

section \<open>Reasons\<close>

definition reasonFor :: "reason_kind \<Rightarrow> string \<Rightarrow> cond \<Rightarrow> path \<Rightarrow> string \<Rightarrow> unreachable_reason" where
  "reasonFor kind n c p message =
     \<lparr>urKind = kind, urNode = n, urLink = [], urInterface = [], urPolicyName = [], urACLName = [], urRuleSeq = 0,
      urAction = [], urDefaultAction = [], urPolicyRaw = [], urPath = p, urCond = c, urMessage = message\<rparr>"

text \<open>What \<open>addUnreachableReason\<close> appends: nothing when the condition is false.\<close>

definition addUnreachableReason :: "unreachable_reason \<Rightarrow> unreachable_reason list" where
  "addUnreachableReason r = (if isFalseCond (urCond r) then [] else [r])"

definition handleLoop :: "symbolic_packet_state \<Rightarrow> unreachable_reason list" where
  "handleLoop st = addUnreachableReason (reasonFor UnreachableLoop (ssNode st) (ssCond st) (ssPath st) ''forwarding loop'')"

definition policyReason :: "policy_decision \<Rightarrow> string \<Rightarrow> unreachable_reason \<Rightarrow> unreachable_reason" where
  "policyReason d iface r =
     r\<lparr>urInterface := iface, urPolicyName := pdPolicyName d, urACLName := pdACLName d, urRuleSeq := pdRuleSeq d,
       urAction := pdAction d, urDefaultAction := pdDefaultAction d, urPolicyRaw := csRaw (pdSource d)\<rparr>"

definition handleIngressPolicy :: "symbolic_packet_state \<Rightarrow> policy_decision \<Rightarrow> unreachable_reason list" where
  "handleIngressPolicy st d =
     addUnreachableReason (policyReason d (ssIngress st)
       (reasonFor UnreachableIngressPolicy (ssNode st) (And [ssCond st, pdCond d]) (ssPath st) (pdReason d)))"

definition handleNoRoute :: "symbolic_packet_state \<Rightarrow> cond list \<Rightarrow> unreachable_reason list" where
  "handleNoRoute st candidateConds =
     addUnreachableReason (reasonFor UnreachableNoRoute (ssNode st) (And [ssCond st, Not (Or candidateConds)]) (ssPath st)
       ''no forwarding route'')"

definition handleDiscard :: "symbolic_packet_state \<Rightarrow> fib_candidate \<Rightarrow> unreachable_reason list" where
  "handleDiscard st c =
     addUnreachableReason (reasonFor UnreachableDiscard (ssNode st) (And [ssCond st, fcCond c]) (ssPath st) ''discard route selected'')"

definition handleRecursiveNextHop :: "symbolic_packet_state \<Rightarrow> fib_candidate \<Rightarrow> unreachable_reason list" where
  "handleRecursiveNextHop st c =
     addUnreachableReason (reasonFor UnreachableRecursiveNextHopUnresolved (ssNode st) (And [ssCond st, fcCond c]) (ssPath st)
       ''recursive next-hop unresolved'')"

definition handleManagementFallback :: "symbolic_packet_state \<Rightarrow> fib_candidate \<Rightarrow> string \<Rightarrow> unreachable_reason list" where
  "handleManagementFallback st c iface =
     addUnreachableReason ((reasonFor UnreachableNextHopManagementFallback (ssNode st) (And [ssCond st, fcCond c]) (ssPath st)
       ''next-hop resolved via management interface'')\<lparr>urInterface := iface\<rparr>)"

definition handleNoNextHop :: "symbolic_packet_state \<Rightarrow> fib_candidate \<Rightarrow> unreachable_reason list" where
  "handleNoNextHop st c =
     addUnreachableReason (reasonFor UnreachableNoNextHop (ssNode st) (And [ssCond st, fcCond c]) (ssPath st)
       ''selected route has no next-hop'')"

definition handleNodeFailed :: "string \<Rightarrow> cond \<Rightarrow> path \<Rightarrow> string \<Rightarrow> unreachable_reason list" where
  "handleNodeFailed n c p message = addUnreachableReason (reasonFor UnreachableNodeFailed n c p message)"

definition handleNextHopNotAdjacent :: "symbolic_packet_state \<Rightarrow> fib_candidate \<Rightarrow> string \<Rightarrow> unreachable_reason list" where
  "handleNextHopNotAdjacent st c nextHop =
     addUnreachableReason ((reasonFor UnreachableNextHopNotAdjacent (ssNode st) (And [ssCond st, fcCond c, NodeVar nextHop]) (ssPath st)
       ''next-hop is not adjacent'')\<lparr>urLink := ssNode st @ ''-'' @ nextHop\<rparr>)"

definition handleLinkFailed :: "symbolic_packet_state \<Rightarrow> fib_candidate \<Rightarrow> link \<Rightarrow> cond \<Rightarrow> unreachable_reason list" where
  "handleLinkFailed st c l up =
     addUnreachableReason ((reasonFor UnreachableLinkFailed (ssNode st)
       (And [ssCond st, fcCond c, NodeVar (feNextHop (fcEntry c)), Not up]) (ssPath st)
       ''next-hop link is down'')\<lparr>urLink := linkName l\<rparr>)"

definition handleEgressPolicy ::
    "symbolic_packet_state \<Rightarrow> fib_candidate \<Rightarrow> policy_decision \<Rightarrow> path \<Rightarrow> string \<Rightarrow> unreachable_reason list" where
  "handleEgressPolicy st c d p iface =
     addUnreachableReason (policyReason d iface
       (reasonFor UnreachableEgressPolicy (ssNode st) (And [ssCond st, fcCond c, pdCond d]) p (pdReason d)))"

definition blockedPolicyPath :: "path \<Rightarrow> cond \<Rightarrow> policy_decision \<Rightarrow> string \<Rightarrow> string \<Rightarrow> string \<Rightarrow> blocked_path" where
  "blockedPolicyPath p c d n iface stage =
     \<lparr>bpPath = p, bpCond = c, bpReason = pdReason d, bpACL = pdACLName d, bpRuleSeq = pdRuleSeq d, bpAction = pdAction d,
      bpNode = n, bpInterface = iface, bpStage = stage, bpDefaultAction = pdDefaultAction d, bpSource = pdSource d\<rparr>"

section \<open>Forwarding\<close>

text \<open>
  One round of the loop over the candidates, up to the recursive call: what it appends, and the state
  to go on with, if it gets that far. The variable \<open>packet\<close> lives across the rounds; a round only
  overwrites its egress interface, so that it is read here from the state.
\<close>

definition candidateRound ::
    "dataplane \<Rightarrow> symbolic_packet_state \<Rightarrow> node \<Rightarrow> packet_message \<Rightarrow> fib_candidate \<Rightarrow> forward_out \<times> symbolic_packet_state option" where
  "candidateRound dp st currentNode packet c =
     (let entry = fcEntry c; hop = feNextHop entry
      in if feDiscard entry then (reasonsOut (handleDiscard st c), None)
         else if effectiveResolutionStatus entry = NextHopResolutionUnresolvedRecursive
           then (reasonsOut (handleRecursiveNextHop st c), None)
         else if effectiveResolutionStatus entry = NextHopResolutionManagementFallback
           then (reasonsOut (handleManagementFallback st c (feInterface entry)), None)
         else if hop = [] then (reasonsOut (handleNoNextHop st c), None)
         else (let nodeDown = handleNodeFailed hop (And [ssCond st, fcCond c, Not (NodeVar hop)]) (ssPath st) ''next-hop node is down''
               in case LinkBetween (dpIdx dp) (ssNode st) hop of
                    None \<Rightarrow> (reasonsOut (nodeDown @ handleNextHopNotAdjacent st c hop), None)
                  | Some l \<Rightarrow>
                      (let iface = interfaceOnLink l (ssNode st);
                           out_packet = packet\<lparr>pmSpec := (pmSpec packet)\<lparr>EgressInterface := iface\<rparr>\<rparr>;
                           up = linkUpCond (dpIdx dp) l;
                           down = nodeDown @ handleLinkFailed st c l up;
                           nextPath = pathVia (ssPath st) hop l;
                           d = dataACLDecision dp currentNode out_packet ''egress''
                       in if pdDenied d
                          then (\<lparr>foPaths = [],
                                 foBlocked = [blockedPolicyPath nextPath (And [ssCond st, fcCond c, pdCond d]) d (ssNode st) iface ''egress''],
                                 foReasons = down @ handleEgressPolicy st c d nextPath iface\<rparr>, None)
                          else (reasonsOut down,
                                Some \<lparr>ssNode = hop, ssIngress = interfaceOnLink l hop, ssPacket = out_packet,
                                      ssCond = And [ssCond st, fcCond c, Not (pdCond d), up], ssPath = nextPath\<rparr>))))"

text \<open>The call up to the loop: what it appends, and the candidates to loop over, if it gets that far.\<close>

definition forwardEntry ::
    "dataplane \<Rightarrow> string \<Rightarrow> prefix_set \<Rightarrow> nat \<Rightarrow> string list \<Rightarrow> symbolic_packet_state list \<Rightarrow> symbolic_packet_state
     \<Rightarrow> forward_out \<times> (node \<times> packet_message \<times> fib_candidate list) option" where
  "forwardEntry dp vrf dst maxHops visited states st =
     (if isFalseCond (ssCond st) then (emptyOut, None)
      else if ssNode st \<in> set visited then (reasonsOut (handleLoop st), None)
      else if originatesPrefixSetVRF dp (ssNode st) vrf dst
        then (emptyOut\<lparr>foPaths := [\<lparr>sppPath = ssPath st, sppCond = And [ssCond st, NodeVar (ssNode st)], sppStates = states @ [st]\<rparr>]\<rparr>, None)
      else if maxHops < length (pathNodes (ssPath st)) then (emptyOut, None)
      else (case idxNodes (dpIdx dp) (ssNode st) of
              None \<Rightarrow> (emptyOut, None)
            | Some currentNode \<Rightarrow>
                (let packet = (ssPacket st)\<lparr>pmNode := ssNode st, pmSpec := (pmSpec (ssPacket st))\<lparr>IngressInterface := ssIngress st\<rparr>\<rparr>;
                     d = dataACLDecision dp currentNode packet ''ingress''
                 in if pdDenied d
                    then (\<lparr>foPaths = [],
                           foBlocked = [blockedPolicyPath (ssPath st) (And [ssCond st, pdCond d]) d (ssNode st)
                              (IngressInterface (pmSpec packet)) ''ingress''],
                           foReasons = handleIngressPolicy st d\<rparr>, None)
                    else (let candidates = SymbolicLookupFIBForPrefixSetVRF (dpIdx dp) (dpFIB dp) (ssNode st) vrf (Some dst)
                          in (reasonsOut (handleNoRoute st (map fcCond candidates)), Some (currentNode, packet, candidates))))))"

lemma candidateRound_path:
  assumes "candidateRound dp st n packet c = (out, Some st')"
  shows "\<exists>l. LinkBetween (dpIdx dp) (ssNode st) (ssNode st') = Some l \<and> ssPath st' = pathVia (ssPath st) (ssNode st') l"
  using assms by (auto simp: candidateRound_def Let_def split: if_splits option.splits)

lemma forwardEntry_bound:
  "forwardEntry dp vrf dst maxHops visited states st = (out, Some e) \<Longrightarrow> length (pathNodes (ssPath st)) \<le> maxHops"
  by (auto simp: forwardEntry_def Let_def split: if_splits option.splits)

function symbolicForward ::
    "dataplane \<Rightarrow> string \<Rightarrow> prefix_set \<Rightarrow> nat \<Rightarrow> string list \<Rightarrow> symbolic_packet_state list \<Rightarrow> symbolic_packet_state \<Rightarrow> forward_out" where
  "symbolicForward dp vrf dst maxHops visited states st =
     (case forwardEntry dp vrf dst maxHops visited states st of
        (out, None) \<Rightarrow> out
      | (out, Some (currentNode, packet, candidates)) \<Rightarrow>
          foldl (\<lambda>acc c. case candidateRound dp st currentNode packet c of
                     (o1, None) \<Rightarrow> outAppend acc o1
                   | (o1, Some st') \<Rightarrow> outAppend acc (outAppend o1
                        (symbolicForward dp vrf dst maxHops (ssNode st # visited) (states @ [st]) st')))
             out candidates)"
  by pat_completeness auto
termination
proof (relation "measure (\<lambda>(dp, vrf, dst, maxHops, visited, states, st). Suc maxHops - length (pathNodes (ssPath st)))", goal_cases)
  case (2 dp vrf dst maxHops visited states st out y e currentNode rest packet candidates acc c o1 y' st')
  have "forwardEntry dp vrf dst maxHops visited states st = (out, Some e)" using 2(1,2) by simp
  then have "length (pathNodes (ssPath st)) \<le> maxHops" by (rule forwardEntry_bound)
  moreover have "candidateRound dp st currentNode packet c = (o1, Some st')" using 2(6,7) by simp
  then have "length (pathNodes (ssPath st')) = Suc (length (pathNodes (ssPath st)))"
    using candidateRound_path by (fastforce simp: pathVia_def)
  ultimately show ?case by simp
qed simp

declare symbolicForward.simps [simp del]

section \<open>Reachability\<close>

definition maxHopsFor :: "dataplane \<Rightarrow> nat" where
  "maxHopsFor dp =
     (if length (dpOrder dp) = 0 then length (remdups (map (fst \<circ> fst) (dpFIB dp))) + 1 else length (dpOrder dp))"

definition noReach :: "string \<Rightarrow> symbolic_result" where
  "noReach reason = \<lparr>srReachable = FalseC, srUnreachable = TrueC, srPaths = [], srBlocked = [], srReasons = [], srReason = reason\<rparr>"

definition symbolicPacketReachabilityForPrefixSet ::
    "dataplane \<Rightarrow> string \<Rightarrow> string \<Rightarrow> prefix_set \<Rightarrow> packet_spec \<Rightarrow> cond \<Rightarrow> symbolic_result" where
  "symbolicPacketReachabilityForPrefixSet dp from vrf dst spec initialCond =
     (let packet = \<lparr>pmNode = from, pmSpec = (WithNormalizedPorts spec)\<lparr>DstSet := Some dst\<rparr>\<rparr>;
          start = \<lparr>pathNodes = [from], pathLinks = [], pathCost = 0\<rparr>;
          endpoints = handleNodeFailed from (Not (NodeVar from)) start ''source node is down''
            @ concat (map (\<lambda>n. if n = from then [] else handleNodeFailed n (Not (NodeVar n)) start ''destination node is down'')
                        (originNodesForPrefixSetVRF dp vrf dst));
          out = symbolicForward dp vrf dst (maxHopsFor dp) [] []
                  \<lparr>ssNode = from, ssIngress = [], ssPacket = packet, ssCond = initialCond, ssPath = start\<rparr>;
          reachable = Or (map sppCond (foPaths out))
      in \<lparr>srReachable = reachable, srUnreachable = Not reachable, srPaths = foPaths out, srBlocked = foBlocked out,
          srReasons = endpoints @ foReasons out, srReason = []\<rparr>)"

definition SymbolicPacketReachabilitySpecVRF ::
    "dataplane \<Rightarrow> string \<Rightarrow> string \<Rightarrow> string \<Rightarrow> packet_spec \<Rightarrow> symbolic_result" where
  "SymbolicPacketReachabilitySpecVRF dp from vrf to spec =
     (case originForIPVRF dp to vrf of
        None \<Rightarrow> (noReach ''destination prefix not advertised'')
          \<lparr>srReasons := [reasonFor UnreachableDestinationNotAdvertised [] TrueC zeroPath ''destination prefix not advertised'']\<rparr>
      | Some (dstNode, dstPrefix) \<Rightarrow>
          if idxNodes (dpIdx dp) from = None then noReach ''source node not found''
          else symbolicPacketReachabilityForPrefixSet dp from (NormalizeNetworkInstance vrf) (ExactPrefixSet dstPrefix) spec
                 (And [NodeVar from, NodeVar dstNode]))"

definition SymbolicPacketReachabilitySpec :: "dataplane \<Rightarrow> string \<Rightarrow> string \<Rightarrow> packet_spec \<Rightarrow> symbolic_result" where
  "SymbolicPacketReachabilitySpec dp from to spec = SymbolicPacketReachabilitySpecVRF dp from NetworkInstanceDefault to spec"

definition SymbolicPacketReachability :: "dataplane \<Rightarrow> string \<Rightarrow> string \<Rightarrow> string \<Rightarrow> symbolic_result" where
  "SymbolicPacketReachability dp from to protocol = SymbolicPacketReachabilitySpec dp from to (emptySpec\<lparr>Protocol := protocol\<rparr>)"

definition representativePrefixForSet :: "prefix_set \<Rightarrow> prefix option" where
  "representativePrefixForSet s =
     (case s of
        ExactPrefixSet p \<Rightarrow> if prefixIsZero p then None else Some p
      | PrefixRangeSet base _ _ \<Rightarrow> if prefixIsZero base then None else Some base
      | _ \<Rightarrow> None)"

definition SymbolicPacketReachabilityForPrefixSetSpecVRF ::
    "dataplane \<Rightarrow> string \<Rightarrow> string \<Rightarrow> prefix_set option \<Rightarrow> packet_spec \<Rightarrow> symbolic_result" where
  "SymbolicPacketReachabilityForPrefixSetSpecVRF dp from vrf dst spec =
     (case dst of
        None \<Rightarrow> noReach ''destination prefix set is empty''
      | Some d \<Rightarrow>
          if idxNodes (dpIdx dp) from = None then noReach ''source node not found''
          else if representativePrefixForSet d = None then noReach ''destination prefix set is unsupported''
          else if \<not> hasOriginForPrefixSetVRF dp vrf d then noReach ''destination prefix not advertised''
          else symbolicPacketReachabilityForPrefixSet dp from (NormalizeNetworkInstance vrf) d spec (NodeVar from))"

definition SymbolicPacketReachabilityForPrefixSetSpec ::
    "dataplane \<Rightarrow> string \<Rightarrow> prefix_set option \<Rightarrow> packet_spec \<Rightarrow> symbolic_result" where
  "SymbolicPacketReachabilityForPrefixSetSpec dp from dst spec =
     SymbolicPacketReachabilityForPrefixSetSpecVRF dp from NetworkInstanceDefault dst spec"

definition SymbolicPacketReachabilityForPrefixSet :: "dataplane \<Rightarrow> string \<Rightarrow> prefix_set option \<Rightarrow> string \<Rightarrow> symbolic_result" where
  "SymbolicPacketReachabilityForPrefixSet dp from dst protocol =
     SymbolicPacketReachabilityForPrefixSetSpec dp from dst (emptySpec\<lparr>Protocol := protocol\<rparr>)"

definition SymbolicPacketReachabilityForClassVRF ::
    "dataplane \<Rightarrow> string \<Rightarrow> string \<Rightarrow> prefix_universe \<Rightarrow> int \<Rightarrow> string \<Rightarrow> symbolic_result" where
  "SymbolicPacketReachabilityForClassVRF dp from vrf universe classID protocol =
     (case List.find (\<lambda>c. pclID c = classID) (puClasses universe) of
        None \<Rightarrow> noReach ''prefix class not found''
      | Some c \<Rightarrow> SymbolicPacketReachabilityForPrefixSetSpecVRF dp from vrf (Some (pclSpace c)) (emptySpec\<lparr>Protocol := protocol\<rparr>))"

definition SymbolicPacketReachabilityForClass ::
    "dataplane \<Rightarrow> string \<Rightarrow> prefix_universe \<Rightarrow> int \<Rightarrow> string \<Rightarrow> symbolic_result" where
  "SymbolicPacketReachabilityForClass dp from universe classID protocol =
     SymbolicPacketReachabilityForClassVRF dp from NetworkInstanceDefault universe classID protocol"

definition SymbolicPacketReachabilityForPacketClass :: "dataplane \<Rightarrow> string \<Rightarrow> packet_class \<Rightarrow> symbolic_result" where
  "SymbolicPacketReachabilityForPacketClass dp from c =
     (if pkDstSet c = None then noReach ''packet class destination prefix set is empty''
      else SymbolicPacketReachabilityForPrefixSetSpec dp from (pkDstSet c) (packetClassSpec c))"

definition SymbolicRouteReachabilityForClassVRF :: "dataplane \<Rightarrow> string \<Rightarrow> string \<Rightarrow> prefix_universe \<Rightarrow> int \<Rightarrow> symbolic_route_result" where
  "SymbolicRouteReachabilityForClassVRF dp from vrf universe classID =
     (case List.find (\<lambda>c. pclID c = classID) (puClasses universe) of
        None \<Rightarrow> routeFailure ''prefix class not found''
      | Some c \<Rightarrow> SymbolicRouteReachabilityForPrefixSetVRF dp from vrf (Some (pclSpace c)))"

definition SymbolicRouteReachabilityForClass :: "dataplane \<Rightarrow> string \<Rightarrow> prefix_universe \<Rightarrow> int \<Rightarrow> symbolic_route_result" where
  "SymbolicRouteReachabilityForClass dp from universe classID =
     SymbolicRouteReachabilityForClassVRF dp from NetworkInstanceDefault universe classID"

end
