(* ===== verification/Symbolic_Packets.thy ===== *)
theory Symbolic_Packets
  imports Symbolic_Forward
begin

text \<open>
  What the symbolic forwarding of packets promises: its paths and its explanations together cover every
  set of failures, and it agrees with the simulated trace of a packet when no entry of a table and no
  origin lies inside the destination prefix.
\<close>

section \<open>The networks considered\<close>

text \<open>
  The index is built from a topology, the run visits its nodes in some order, names are plain, the
  prefixes of nodes have no zones (as \<open>netip.Prefix\<close> values never do), and the conditions of the
  forwarding tables are over plain names.
\<close>

definition builtFrom :: "topology \<Rightarrow> dataplane \<Rightarrow> bool" where
  "builtFrom topo dp \<longleftrightarrow> BuildTopologyIndex topo = Inr (dpIdx dp) \<and> mset (dpOrder dp) = mset (topoNodes topo)"

definition plainTopology :: "topology \<Rightarrow> bool" where
  "plainTopology topo \<longleftrightarrow> list_all (\<lambda>n. plainName (nodeName n)) (topoNodes topo)
     \<and> list_all (\<lambda>l. plainName (linkName l)) (topoLinks topo)
     \<and> list_all (\<lambda>n. list_all (\<lambda>p. withoutZone (pfxAddr p) = pfxAddr p) (nodePrefixes n)) (topoNodes topo)"

definition plainFIB :: "fib \<Rightarrow> bool" where
  "plainFIB fib \<longleftrightarrow> list_all (\<lambda>(_, es). list_all (\<lambda>x. plainFIBEntry x \<and> plainName (feNextHop x)) es) fib"

definition usableNet :: "topology \<Rightarrow> dataplane \<Rightarrow> bool" where
  "usableNet topo dp \<longleftrightarrow> builtFrom topo dp \<and> plainTopology topo \<and> plainFIB (dpFIB dp)"

lemma usable_nodes:
  assumes "usableNet topo dp"
  shows "idxNodes (dpIdx dp) n = Some v \<longleftrightarrow> v \<in> set (topoNodes topo) \<and> nodeName v = n"
    and "distinct (map nodeName (topoNodes topo))" "set (dpOrder dp) = set (topoNodes topo)"
    and "length (dpOrder dp) = length (topoNodes topo)"
proof -
  have built: "BuildTopologyIndex topo = Inr (dpIdx dp)" "mset (dpOrder dp) = mset (topoNodes topo)"
    using assms by (simp_all add: usableNet_def builtFrom_def)
  then have "nodesIndexed (topoNodes topo) (dpIdx dp)" using BuildTopologyIndex_spec [of topo] by simp
  then show "idxNodes (dpIdx dp) n = Some v \<longleftrightarrow> v \<in> set (topoNodes topo) \<and> nodeName v = n"
    "distinct (map nodeName (topoNodes topo))" by (simp_all add: nodesIndexed_def)
  show "set (dpOrder dp) = set (topoNodes topo)" "length (dpOrder dp) = length (topoNodes topo)"
    using mset_eq_setD mset_eq_length built(2) by blast+
qed

lemma usable_link:
  assumes "usableNet topo dp" "LinkBetween (dpIdx dp) a b = Some l"
  shows "idxLinks (dpIdx dp) (linkName l) = Some l" "{linkA l, linkB l} = {a, b}" "plainName (linkName l)"
    "idxNodes (dpIdx dp) a \<noteq> None" "idxNodes (dpIdx dp) b \<noteq> None" "plainName a" "plainName b"
proof -
  have built: "BuildTopologyIndex topo = Inr (dpIdx dp)" "plainTopology topo"
    using assms(1) by (simp_all add: usableNet_def builtFrom_def)
  then have links: "linksIndexed (topoLinks topo) (dpIdx dp)" "nodesIndexed (topoNodes topo) (dpIdx dp)"
    using BuildTopologyIndex_spec [of topo] by simp_all
  have l: "l \<in> set (topoLinks topo)" "linkPair l = NewEndpointPair a b"
    using assms(2) links(1) unfolding linksIndexed_def LinkBetween_def by blast+
  then show "idxLinks (dpIdx dp) (linkName l) = Some l" using links(1) unfolding linksIndexed_def by blast
  show ends: "{linkA l, linkB l} = {a, b}" using l(2) by (auto simp: linkPair_def NewEndpointPair_eq)
  show "plainName (linkName l)" using built(2) l(1) by (simp add: plainTopology_def list_all_iff)
  have "idxNodes (dpIdx dp) (linkA l) \<noteq> None" "idxNodes (dpIdx dp) (linkB l) \<noteq> None"
    using links(1) l(1) unfolding linksIndexed_def by blast+
  then show nodes: "idxNodes (dpIdx dp) a \<noteq> None" "idxNodes (dpIdx dp) b \<noteq> None" using ends by (auto simp: doubleton_eq_iff)
  have "plainName n" if "idxNodes (dpIdx dp) n \<noteq> None" for n
    using that links(2) built(2) by (auto simp: nodesIndexed_def plainTopology_def list_all_iff)
  then show "plainName a" "plainName b" using nodes by blast+
qed

lemma usable_plainLinks: "usableNet topo dp \<Longrightarrow> plainLinks (idxLinks (dpIdx dp))"
proof -
  assume net: "usableNet topo dp"
  have links: "linksIndexed (topoLinks topo) (dpIdx dp)" "nodesIndexed (topoNodes topo) (dpIdx dp)"
    using net BuildTopologyIndex_spec [of topo] by (simp_all add: usableNet_def builtFrom_def)
  have "plainName n" if "idxNodes (dpIdx dp) n \<noteq> None" for n
    using that links(2) net by (auto simp: nodesIndexed_def usableNet_def plainTopology_def list_all_iff)
  moreover have "idxNodes (dpIdx dp) (linkA l) \<noteq> None" "idxNodes (dpIdx dp) (linkB l) \<noteq> None"
    if "idxLinks (dpIdx dp) k = Some l" for k l using that links(1) unfolding linksIndexed_def by blast+
  ultimately show ?thesis unfolding plainLinks_def by blast
qed

section \<open>Evaluating what a round appends\<close>

abbreviation holds :: "dataplane \<Rightarrow> fail_set \<Rightarrow> cond \<Rightarrow> bool" where
  "holds dp F c \<equiv> evalCond (FailureContext (dpIdx dp) F) c"

lemma holds_node: "holds dp F (NodeVar n) \<longleftrightarrow> \<not> NodeFailed (FailureContext (dpIdx dp) F) n"
  by (simp add: NodeVar_def)

lemma plain_NodeVar [simp]: "plainCond (NodeVar n) = plainName n"
  by (simp add: NodeVar_def)

lemma plain_false: "plainCond c \<Longrightarrow> holds dp F c \<Longrightarrow> \<not> isFalseCond c"
  using condKey_inject [of c FalseC] by (auto simp: isFalseCond_def simp del: condKey.simps)

lemma linkUp_denotes:
  assumes "usableNet topo dp" "LinkBetween (dpIdx dp) a b = Some l"
  shows "denotes (idxLinks (dpIdx dp)) (linkUpCond (dpIdx dp) l)
      (\<lambda>F. evalCond \<lparr>Failures = F, LinksByName = idxLinks (dpIdx dp)\<rparr> (LinkVar (linkName l)))"
proof -
  have "plainCond (LinkVar (linkName l))" using usable_link(3) [OF assms] by (simp add: LinkVar_def)
  then show ?thesis
    unfolding linkUpCond_def expandLinkVars_def using usable_plainLinks [OF assms(1)] by (rule denotes_ExpandLinkVars)
qed

lemma linkUp_holds:
  assumes "usableNet topo dp" "LinkBetween (dpIdx dp) a b = Some l"
  shows "plainCond (linkUpCond (dpIdx dp) l)"
    "holds dp F (linkUpCond (dpIdx dp) l) \<longleftrightarrow> \<not> LinkFailed (FailureContext (dpIdx dp) F) (linkName l)"
  using linkUp_denotes [OF assms] unfolding denotes_def by (auto simp: FailureContext_def LinkVar_def)

lemma linkUp_ends:
  assumes "usableNet topo dp" "LinkBetween (dpIdx dp) a b = Some l" "holds dp F (linkUpCond (dpIdx dp) l)"
  shows "\<not> NodeFailed (FailureContext (dpIdx dp) F) a" "\<not> NodeFailed (FailureContext (dpIdx dp) F) b"
  using usable_link [OF assms(1,2)] linkUp_holds(2) [OF assms(1,2)] assms(3)
  by (auto simp: LinkFailed_def FailureContext_def NodeFailed_def doubleton_eq_iff split: if_split_asm)

text \<open>A decision's condition is true exactly when it denies.\<close>

lemma decision_cond: "pdCond (dataACLDecision dp n pkt stage) = decisionCond (pdDenied (dataACLDecision dp n pkt stage))"
proof -
  have "pdCond (evaluateBindings reg n spec iface stage acls bs) = decisionCond (pdDenied (evaluateBindings reg n spec iface stage acls bs))"
    for reg spec iface acls bs
    by (induction reg n spec iface stage acls bs rule: evaluateBindings.induct)
      (auto simp: noDecision_def decisionCond_def evaluateACL_def Let_def split: option.splits)
  then show ?thesis by (simp add: dataACLDecision_def EvaluateDataACL_def Let_def)
qed

lemma plain_decision [simp]: "plainCond (pdCond (dataACLDecision dp n pkt stage))"
  by (simp add: decision_cond decisionCond_def)

lemma holds_decision [simp]: "holds dp F (pdCond (dataACLDecision dp n pkt stage)) = pdDenied (dataACLDecision dp n pkt stage)"
  by (simp add: decision_cond decisionCond_def)

definition candidatesFor :: "dataplane \<Rightarrow> string \<Rightarrow> string \<Rightarrow> prefix_set \<Rightarrow> fib_candidate list" where
  "candidatesFor dp n vrf dst = SymbolicLookupFIBForPrefixSetVRF (dpIdx dp) (dpFIB dp) n vrf (Some dst)"

lemma candidate_OK:
  assumes "usableNet topo dp" "c \<in> set (candidatesFor dp n vrf dst)"
  shows "\<exists>es i. candidateOK (dpIdx dp) es i c \<and> plainName (feNextHop (fcEntry c))"
proof -
  let ?b = "fibBucket (dpFIB dp) n (NormalizeNetworkInstance vrf)"
  define es where "es = matchingFIBEntriesForPrefixSet ?b (Some dst)"
  have sub: "set es \<subseteq> set ?b" by (auto simp: es_def matchingFIBEntriesForPrefixSet_def sortFIBEntriesByPrefixAndRank_def)
  have plain: "plainFIBEntry x \<and> plainName (feNextHop x)" if x: "x \<in> set ?b" for x
  proof -
    obtain bes where "map_of (dpFIB dp) (n, NormalizeNetworkInstance vrf) = Some bes" "x \<in> set bes"
      using x by (cases "map_of (dpFIB dp) (n, NormalizeNetworkInstance vrf)") (auto simp: fibBucket_def)
    then show ?thesis using assms(1) by (fastforce simp: usableNet_def plainFIB_def list_all_iff dest: map_of_SomeD)
  qed
  then have "list_all plainFIBEntry es" using sub by (auto simp: list_all_iff)
  moreover obtain i where i: "i < length es" "c = symbolicLookupFIBEntries (dpIdx dp) es ! i"
    using assms(2) by (auto simp: candidatesFor_def SymbolicLookupFIBForPrefixSetVRF_def es_def in_set_conv_nth)
  ultimately have ok: "candidateOK (dpIdx dp) es i c"
    using candidates_exact [OF usable_plainLinks [OF assms(1)]] by simp
  moreover have "plainName (feNextHop (fcEntry c))"
    using ok plain sub i(1) nth_mem by (fastforce simp: candidateOK_def)
  ultimately show ?thesis by blast
qed

lemma candidate_plain:
  assumes "usableNet topo dp" "c \<in> set (candidatesFor dp n vrf dst)"
  shows "plainCond (fcCond c)" "plainName (feNextHop (fcEntry c))"
  using candidate_OK [OF assms] by (auto simp: candidateOK_def denotes_def)

section \<open>One call as a union of rounds\<close>

definition roundOut ::
    "dataplane \<Rightarrow> string \<Rightarrow> prefix_set \<Rightarrow> nat \<Rightarrow> string list \<Rightarrow> symbolic_packet_state list \<Rightarrow> symbolic_packet_state
     \<Rightarrow> node \<Rightarrow> packet_message \<Rightarrow> fib_candidate \<Rightarrow> forward_out" where
  "roundOut dp vrf dst maxHops visited states st currentNode packet c =
     (case candidateRound dp st currentNode packet c of
        (o1, None) \<Rightarrow> o1
      | (o1, Some st') \<Rightarrow> outAppend o1 (symbolicForward dp vrf dst maxHops (ssNode st # visited) (states @ [st]) st'))"

lemma foldl_outAppend:
  "set (foPaths (foldl (\<lambda>acc c. outAppend acc (f c)) out cs)) = set (foPaths out) \<union> (\<Union>c \<in> set cs. set (foPaths (f c)))"
  "set (foReasons (foldl (\<lambda>acc c. outAppend acc (f c)) out cs)) = set (foReasons out) \<union> (\<Union>c \<in> set cs. set (foReasons (f c)))"
  by (induction cs arbitrary: out) (auto simp: outAppend_def)

lemma symbolicForward_end:
  "forwardEntry dp vrf dst maxHops visited states st = (out, None)
     \<Longrightarrow> symbolicForward dp vrf dst maxHops visited states st = out"
  by (subst symbolicForward.simps) simp

lemma symbolicForward_loop:
  assumes "forwardEntry dp vrf dst maxHops visited states st = (out, Some (n, packet, cs))"
  shows "set (foPaths (symbolicForward dp vrf dst maxHops visited states st))
      = set (foPaths out) \<union> (\<Union>c \<in> set cs. set (foPaths (roundOut dp vrf dst maxHops visited states st n packet c)))"
    "set (foReasons (symbolicForward dp vrf dst maxHops visited states st))
      = set (foReasons out) \<union> (\<Union>c \<in> set cs. set (foReasons (roundOut dp vrf dst maxHops visited states st n packet c)))"
proof -
  have round: "(case r of (o1, None) \<Rightarrow> outAppend acc o1 | (o1, Some st') \<Rightarrow> outAppend acc (outAppend o1 (f st')))
      = outAppend acc (case r of (o1, None) \<Rightarrow> o1 | (o1, Some st') \<Rightarrow> outAppend o1 (f st'))"
    for acc f and r :: "forward_out \<times> symbolic_packet_state option"
    by (cases r; cases "snd r") simp_all
  have "symbolicForward dp vrf dst maxHops visited states st
      = foldl (\<lambda>acc c. outAppend acc (roundOut dp vrf dst maxHops visited states st n packet c)) out cs"
    unfolding symbolicForward.simps [of dp vrf dst maxHops visited states st] assms prod.case option.case roundOut_def round ..
  then show "set (foPaths (symbolicForward dp vrf dst maxHops visited states st))
      = set (foPaths out) \<union> (\<Union>c \<in> set cs. set (foPaths (roundOut dp vrf dst maxHops visited states st n packet c)))"
    "set (foReasons (symbolicForward dp vrf dst maxHops visited states st))
      = set (foReasons out) \<union> (\<Union>c \<in> set cs. set (foReasons (roundOut dp vrf dst maxHops visited states st n packet c)))"
    by (simp_all add: foldl_outAppend)
qed

text \<open>What the call knows when it gets as far as the loop.\<close>

lemma forwardEntry_loop:
  assumes "forwardEntry dp vrf dst maxHops visited states st = (out, Some (n, packet, cs))"
  shows "ssNode st \<notin> set visited" "\<not> originatesPrefixSetVRF dp (ssNode st) vrf dst" "length (pathNodes (ssPath st)) \<le> maxHops"
    "idxNodes (dpIdx dp) (ssNode st) = Some n" "cs = candidatesFor dp (ssNode st) vrf dst"
    "out = reasonsOut (handleNoRoute st (map fcCond cs))"
    "packet = (ssPacket st)\<lparr>pmNode := ssNode st, pmSpec := (pmSpec (ssPacket st))\<lparr>IngressInterface := ssIngress st\<rparr>\<rparr>"
    "\<not> pdDenied (dataACLDecision dp n packet ''ingress'')" "\<not> isFalseCond (ssCond st)"
  using assms by (auto simp: forwardEntry_def Let_def candidatesFor_def split: if_splits option.splits)

section \<open>Explanations\<close>

text \<open>
  What the output says about a set of failures: a path that works, or a reason that applies.
\<close>

definition explained :: "dataplane \<Rightarrow> fail_set \<Rightarrow> forward_out \<Rightarrow> bool" where
  "explained dp F out \<longleftrightarrow> (\<exists>p \<in> set (foPaths out). holds dp F (sppCond p)) \<or> (\<exists>r \<in> set (foReasons out). holds dp F (urCond r))"

lemma reason_added: "plainCond (urCond r) \<Longrightarrow> holds dp F (urCond r) \<Longrightarrow> r \<in> set (addUnreachableReason r)"
  by (simp add: addUnreachableReason_def plain_false)

lemma explained_reason: "r \<in> set (foReasons out) \<Longrightarrow> holds dp F (urCond r) \<Longrightarrow> explained dp F out"
  by (auto simp: explained_def)

text \<open>A walk that stands at a node of the index which is up, with a condition that holds.\<close>

definition standing :: "dataplane \<Rightarrow> fail_set \<Rightarrow> string list \<Rightarrow> symbolic_packet_state \<Rightarrow> bool" where
  "standing dp F visited st \<longleftrightarrow> plainCond (ssCond st) \<and> holds dp F (ssCond st) \<and> plainName (ssNode st)
     \<and> idxNodes (dpIdx dp) (ssNode st) \<noteq> None \<and> \<not> NodeFailed (FailureContext (dpIdx dp) F) (ssNode st)
     \<and> (\<forall>n \<in> set visited. idxNodes (dpIdx dp) n \<noteq> None) \<and> distinct visited
     \<and> length (pathNodes (ssPath st)) = Suc (length visited)"

lemma standing_short:
  assumes "usableNet topo dp" "standing dp F visited st" "ssNode st \<notin> set visited"
  shows "length (pathNodes (ssPath st)) \<le> length (dpOrder dp)"
proof -
  have indexed: "n \<in> nodeName ` set (topoNodes topo)" if n: "idxNodes (dpIdx dp) n \<noteq> None" for n
  proof -
    obtain v where "idxNodes (dpIdx dp) n = Some v" using n by blast
    then show ?thesis using usable_nodes(1) [OF assms(1), of n v] by auto
  qed
  have "\<forall>n \<in> set (ssNode st # visited). idxNodes (dpIdx dp) n \<noteq> None" using assms(2) by (simp add: standing_def)
  then have "set (ssNode st # visited) \<subseteq> nodeName ` set (topoNodes topo)" using indexed by blast
  then have "card (set (ssNode st # visited)) \<le> card (nodeName ` set (topoNodes topo))" by (rule card_mono [rotated]) simp
  moreover have "card (set (ssNode st # visited)) = Suc (length visited)"
    using assms(2,3) by (simp add: standing_def distinct_card)
  moreover have "card (nodeName ` set (topoNodes topo)) = length (dpOrder dp)"
    using usable_nodes(2,4) [OF assms(1)] by (metis distinct_card length_map set_map)
  ultimately show ?thesis using assms(2) by (simp add: standing_def)
qed

text \<open>The next state of a round, as facts.\<close>

lemma candidateRound_Some:
  assumes "candidateRound dp st n packet c = (o1, Some st')"
  obtains l where "LinkBetween (dpIdx dp) (ssNode st) (ssNode st') = Some l"
    "ssCond st' = And [ssCond st, fcCond c, Not (pdCond (dataACLDecision dp n (ssPacket st') ''egress'')), linkUpCond (dpIdx dp) l]"
    "ssPath st' = pathVia (ssPath st) (ssNode st') l" "ssNode st' = feNextHop (fcEntry c)"
    "ssPacket st' = packet\<lparr>pmSpec := (pmSpec packet)\<lparr>EgressInterface := interfaceOnLink l (ssNode st)\<rparr>\<rparr>"
    "ssIngress st' = interfaceOnLink l (ssNode st')" "\<not> pdDenied (dataACLDecision dp n (ssPacket st') ''egress'')"
    "\<not> feDiscard (fcEntry c)" "effectiveResolutionStatus (fcEntry c) \<noteq> NextHopResolutionUnresolvedRecursive"
    "effectiveResolutionStatus (fcEntry c) \<noteq> NextHopResolutionManagementFallback" "foPaths o1 = []" "ssNode st' \<noteq> []"
proof -
  let ?x = "fcEntry c"
  have live: "\<not> feDiscard ?x" "effectiveResolutionStatus ?x \<noteq> NextHopResolutionUnresolvedRecursive"
      "effectiveResolutionStatus ?x \<noteq> NextHopResolutionManagementFallback" "feNextHop ?x \<noteq> []"
    using assms by (auto simp: candidateRound_def Let_def split: if_splits)
  then obtain l where l: "LinkBetween (dpIdx dp) (ssNode st) (feNextHop ?x) = Some l"
    using assms by (cases "LinkBetween (dpIdx dp) (ssNode st) (feNextHop ?x)") (simp_all add: candidateRound_def Let_def)
  let ?packet = "packet\<lparr>pmSpec := (pmSpec packet)\<lparr>EgressInterface := interfaceOnLink l (ssNode st)\<rparr>\<rparr>"
  have ok: "\<not> pdDenied (dataACLDecision dp n ?packet ''egress'')"
    using assms live l by (auto simp: candidateRound_def Let_def split: if_splits)
  then have "st' = \<lparr>ssNode = feNextHop ?x, ssIngress = interfaceOnLink l (feNextHop ?x), ssPacket = ?packet,
      ssCond = And [ssCond st, fcCond c, Not (pdCond (dataACLDecision dp n ?packet ''egress'')), linkUpCond (dpIdx dp) l],
      ssPath = pathVia (ssPath st) (feNextHop ?x) l\<rparr>" "foPaths o1 = []"
    using assms live l by (auto simp: candidateRound_def Let_def reasonsOut_def emptyOut_def)
  then show thesis using that [of l] live l ok by simp
qed

lemma nextCond_plain:
  assumes "usableNet topo dp" "candidateRound dp st n packet c = (o1, Some st')" "plainCond (ssCond st)" "plainCond (fcCond c)"
  shows "plainCond (ssCond st')"
    "\<And>F l. LinkBetween (dpIdx dp) (ssNode st) (ssNode st') = Some l \<Longrightarrow>
       holds dp F (ssCond st') \<longleftrightarrow> holds dp F (ssCond st) \<and> holds dp F (fcCond c)
         \<and> \<not> LinkFailed (FailureContext (dpIdx dp) F) (linkName l)"
proof -
  obtain l where l: "LinkBetween (dpIdx dp) (ssNode st) (ssNode st') = Some l"
    "ssCond st' = And [ssCond st, fcCond c, Not (pdCond (dataACLDecision dp n (ssPacket st') ''egress'')), linkUpCond (dpIdx dp) l]"
    "\<not> pdDenied (dataACLDecision dp n (ssPacket st') ''egress'')"
    using assms(2) by (rule candidateRound_Some)
  have plain: "list_all plainCond [ssCond st, fcCond c, Not (pdCond (dataACLDecision dp n (ssPacket st') ''egress'')), linkUpCond (dpIdx dp) l]"
    using assms(3,4) linkUp_holds(1) [OF assms(1) l(1)] by (simp add: plain_Not)
  then show "plainCond (ssCond st')" unfolding l(2) by (rule plain_And)
  show "holds dp F (ssCond st') \<longleftrightarrow> holds dp F (ssCond st) \<and> holds dp F (fcCond c)
      \<and> \<not> LinkFailed (FailureContext (dpIdx dp) F) (linkName l')" if "LinkBetween (dpIdx dp) (ssNode st) (ssNode st') = Some l'" for F l'
    using that l(1,3) linkUp_holds(2) [OF assms(1) l(1)] unfolding l(2) And_eval [OF plain] by (simp add: Not_eval)
qed

lemma standing_next:
  assumes "usableNet topo dp" "standing dp F visited st" "ssNode st \<notin> set visited"
    and "candidateRound dp st n packet c = (o1, Some st')" "plainCond (fcCond c)" "holds dp F (ssCond st')"
  shows "standing dp F (ssNode st # visited) st'"
proof -
  obtain l where l: "LinkBetween (dpIdx dp) (ssNode st) (ssNode st') = Some l" "ssPath st' = pathVia (ssPath st) (ssNode st') l"
    using assms(4) by (rule candidateRound_Some)
  have plain: "plainCond (ssCond st)" using assms(2) by (simp add: standing_def)
  have "\<not> LinkFailed (FailureContext (dpIdx dp) F) (linkName l)"
    using nextCond_plain(2) [OF assms(1,4) plain assms(5) l(1)] assms(6) by blast
  then have "\<not> NodeFailed (FailureContext (dpIdx dp) F) (ssNode st')"
    using linkUp_ends(2) [OF assms(1) l(1)] linkUp_holds(2) [OF assms(1) l(1)] by blast
  then show ?thesis
    using assms(2,3,6) nextCond_plain(1) [OF assms(1,4) plain assms(5)] usable_link(5,7) [OF assms(1) l(1)] l(2)
    by (simp add: standing_def pathVia_def)
qed

lemma foReasons_reasonsOut [simp]: "foReasons (reasonsOut rs) = rs" "foPaths (reasonsOut rs) = []"
  by (simp_all add: reasonsOut_def emptyOut_def)

text \<open>What the handlers add, under which condition.\<close>

definition adds :: "unreachable_reason list \<Rightarrow> cond \<Rightarrow> bool" where
  "adds rs c \<longleftrightarrow> (\<exists>r. rs = addUnreachableReason r \<and> urCond r = c)"

lemma reasonFor_cond [simp]: "urCond (reasonFor k n c p m) = c" "urCond (policyReason d i r) = urCond r"
  by (simp_all add: reasonFor_def policyReason_def)

lemma handlers_add:
  "adds (handleLoop st) (ssCond st)"
  "adds (handleIngressPolicy st d) (And [ssCond st, pdCond d])"
  "adds (handleNoRoute st cs) (And [ssCond st, Not (Or cs)])"
  "adds (handleDiscard st c) (And [ssCond st, fcCond c])"
  "adds (handleRecursiveNextHop st c) (And [ssCond st, fcCond c])"
  "adds (handleManagementFallback st c iface) (And [ssCond st, fcCond c])"
  "adds (handleNoNextHop st c) (And [ssCond st, fcCond c])"
  "adds (handleNodeFailed n cnd p m) cnd"
  "adds (handleNextHopNotAdjacent st c hop) (And [ssCond st, fcCond c, NodeVar hop])"
  "adds (handleLinkFailed st c l up) (And [ssCond st, fcCond c, NodeVar (feNextHop (fcEntry c)), Not up])"
  "adds (handleEgressPolicy st c d p iface) (And [ssCond st, fcCond c, pdCond d])"
  unfolding adds_def handleLoop_def handleIngressPolicy_def handleNoRoute_def handleDiscard_def handleRecursiveNextHop_def
    handleManagementFallback_def handleNoNextHop_def handleNodeFailed_def handleNextHopNotAdjacent_def handleLinkFailed_def
    handleEgressPolicy_def
  by (rule exI, rule conjI, rule refl, simp)+

lemma handled:
  assumes "adds rs c" "set rs \<subseteq> set (foReasons out)" "plainCond c" "holds dp F c"
  shows "explained dp F out"
proof -
  obtain r where r: "rs = addUnreachableReason r" "urCond r = c" using assms(1) by (auto simp: adds_def)
  then have "r \<in> set rs" using reason_added [of r dp F] assms(3,4) by simp
  then show ?thesis using explained_reason [of r out dp F] assms(2,4) r(2) by blast
qed

lemma round_explained:
  assumes net: "usableNet topo dp" and st: "plainCond (ssCond st)" "holds dp F (ssCond st)"
    and c: "plainCond (fcCond c)" "holds dp F (fcCond c)" "plainName (feNextHop (fcEntry c))"
    and r: "candidateRound dp st n packet c = (o1, next_state)"
    and stuck: "case next_state of None \<Rightarrow> True | Some st' \<Rightarrow> \<not> holds dp F (ssCond st')"
  shows "explained dp F o1"
proof -
  let ?x = "fcEntry c" and ?hop = "feNextHop (fcEntry c)" and ?idx = "dpIdx dp"
  let ?ctx = "FailureContext ?idx F"
  have base: "plainCond (And [ssCond st, fcCond c])" "holds dp F (And [ssCond st, fcCond c])"
    using st c by (simp_all add: plain_And And_eval)
  show ?thesis
  proof (cases "feDiscard ?x \<or> effectiveResolutionStatus ?x = NextHopResolutionUnresolvedRecursive
      \<or> effectiveResolutionStatus ?x = NextHopResolutionManagementFallback \<or> ?hop = []")
    case True
    then have "foReasons o1 \<in> {handleDiscard st c, handleRecursiveNextHop st c, handleManagementFallback st c (feInterface ?x),
        handleNoNextHop st c}"
      using r by (auto simp: candidateRound_def Let_def split: if_split_asm)
    then have "adds (foReasons o1) (And [ssCond st, fcCond c])" using handlers_add(4-7) by auto
    then show ?thesis using base by (rule handled [OF _ order_refl])
  next
    case False
    have more: "plainCond (And (ssCond st # fcCond c # ds)) \<and> (holds dp F (And (ssCond st # fcCond c # ds)) \<longleftrightarrow> list_all (holds dp F) ds)"
      if "list_all plainCond ds" for ds using that st c by (simp add: plain_And And_eval)
    have down: "adds (handleNodeFailed ?hop (And [ssCond st, fcCond c, Not (NodeVar ?hop)]) (ssPath st) m)
        (And [ssCond st, fcCond c, Not (NodeVar ?hop)])" for m by (rule handlers_add(8))
    have shape: "set (handleNodeFailed ?hop (And [ssCond st, fcCond c, Not (NodeVar ?hop)]) (ssPath st) ''next-hop node is down'')
        \<subseteq> set (foReasons o1)"
      using r False by (auto simp: candidateRound_def Let_def reasonsOut_def split: option.splits if_splits)
    show ?thesis
    proof (cases "NodeFailed ?ctx ?hop")
      case True
      then show ?thesis
        using handled [OF down shape] more [of "[Not (NodeVar ?hop)]"] c(3) by (simp add: plain_Not Not_eval holds_node)
    next
      case up: False
      show ?thesis
      proof (cases "LinkBetween ?idx (ssNode st) ?hop")
        case None
        then have "set (handleNextHopNotAdjacent st c ?hop) \<subseteq> set (foReasons o1)"
          using r False by (auto simp: candidateRound_def Let_def reasonsOut_def)
        then show ?thesis
          using handled [OF handlers_add(9)] more [of "[NodeVar ?hop]"] c(3) up by (simp add: holds_node)
      next
        case (Some l)
        note link = linkUp_holds [OF net Some]
        show ?thesis
        proof (cases "LinkFailed ?ctx (linkName l)")
          case True
          have "set (handleLinkFailed st c l (linkUpCond ?idx l)) \<subseteq> set (foReasons o1)"
            using r False Some by (auto simp: candidateRound_def Let_def reasonsOut_def split: if_splits)
          then show ?thesis
            using handled [OF handlers_add(10)] more [of "[NodeVar ?hop, Not (linkUpCond ?idx l)]"] c(3) up link True
            by (simp add: holds_node plain_Not Not_eval)
        next
          case linkUp: False
          show ?thesis
          proof (cases next_state)
            case None
            let ?i = "interfaceOnLink l (ssNode st)"
            let ?d = "dataACLDecision dp n (packet\<lparr>pmSpec := (pmSpec packet)\<lparr>EgressInterface := ?i\<rparr>\<rparr>) ''egress''"
            have "set (handleEgressPolicy st c ?d (pathVia (ssPath st) ?hop l) ?i) \<subseteq> set (foReasons o1) \<and> pdDenied ?d"
              using r False Some None by (auto simp: candidateRound_def Let_def split: if_splits)
            then show ?thesis using handled [OF handlers_add(11)] more [of "[pdCond ?d]"] by (simp only: list.pred_inject plain_decision holds_decision) blast
          next
            case (Some st')
            then have "ssNode st' = ?hop" using r by (metis candidateRound_Some)
            then have "holds dp F (ssCond st')"
              using nextCond_plain(2) [OF net r [unfolded Some] st(1) c(1)] \<open>LinkBetween ?idx (ssNode st) ?hop = Some l\<close>
                st c linkUp by simp
            then show ?thesis using stuck Some by simp
          qed
        qed
      qed
    qed
  qed
qed

lemma forward_explained:
  assumes net: "usableNet topo dp"
  shows "standing dp F visited st \<Longrightarrow> explained dp F (symbolicForward dp vrf dst (length (dpOrder dp)) visited states st)"
proof (induction "Suc (length (dpOrder dp)) - length (pathNodes (ssPath st))" arbitrary: visited states st rule: less_induct)
  case less
  let ?max = "length (dpOrder dp)"
  have st: "plainCond (ssCond st)" "holds dp F (ssCond st)" "plainName (ssNode st)" "\<not> NodeFailed (FailureContext (dpIdx dp) F) (ssNode st)"
    using less.prems by (simp_all add: standing_def)
  obtain n where n: "idxNodes (dpIdx dp) (ssNode st) = Some n" using less.prems by (auto simp: standing_def)
  have live: "\<not> isFalseCond (ssCond st)" using st by (simp add: plain_false)
  obtain out e where entry: "forwardEntry dp vrf dst ?max visited states st = (out, e)" by force
  show ?case
  proof (cases e)
    case None
    have "explained dp F out"
    proof (cases "ssNode st \<in> set visited")
      case True
      then have "foReasons out = handleLoop st" using entry live by (auto simp: forwardEntry_def)
      then show ?thesis using handled [OF handlers_add(1) [of st], of out dp F] st by simp
    next
      case False
      note short = standing_short [OF net less.prems False]
      show ?thesis
      proof (cases "originatesPrefixSetVRF dp (ssNode st) vrf dst")
        case True
        then have "foPaths out = [\<lparr>sppPath = ssPath st, sppCond = And [ssCond st, NodeVar (ssNode st)], sppStates = states @ [st]\<rparr>]"
          using entry live False by (auto simp: forwardEntry_def)
        then show ?thesis using st by (simp add: explained_def And_eval holds_node)
      next
        case no: False
        then obtain pk d where "foReasons out = handleIngressPolicy st d" "d = dataACLDecision dp n pk ''ingress''" "pdDenied d"
          using entry live False n short None by (auto simp: forwardEntry_def Let_def split: if_splits)
        then show ?thesis using handled [OF handlers_add(2) [of st d], of out dp F] st by (simp add: plain_And And_eval)
      qed
    qed
    then show ?thesis using symbolicForward_end entry None by simp
  next
    case (Some e')
    obtain n' packet cs where e': "e' = (n', packet, cs)" by (cases e') auto
    note entry' = entry [unfolded Some e']
    note facts = forwardEntry_loop [OF entry'] and union = symbolicForward_loop [OF entry']
    have cs: "plainCond (fcCond c)" "plainName (feNextHop (fcEntry c))" if "c \<in> set cs" for c
      using candidate_plain [OF net] that facts(5) by blast+
    show ?thesis
    proof (cases "\<exists>c \<in> set cs. holds dp F (fcCond c)")
      case False
      have "list_all plainCond (map fcCond cs)" using cs by (simp add: list_all_iff)
      then have "plainCond (Not (Or (map fcCond cs)))" "holds dp F (Not (Or (map fcCond cs)))"
        using False by (simp_all add: plain_Not plain_Or Not_eval Or_eval list_ex_iff)
      then show ?thesis
        using handled [OF handlers_add(3) [of st "map fcCond cs"]] st union(2) facts(6)
        by (simp add: plain_And And_eval reasonsOut_def)
    next
      case True
      then obtain c where c: "c \<in> set cs" "holds dp F (fcCond c)" by blast
      obtain o1 ns where r: "candidateRound dp st n' packet c = (o1, ns)" by force
      have "explained dp F (roundOut dp vrf dst ?max visited states st n' packet c)"
      proof (cases "case ns of None \<Rightarrow> True | Some st' \<Rightarrow> \<not> holds dp F (ssCond st')")
        case True
        then have "explained dp F o1" using round_explained [OF net st(1,2) cs(1) [OF c(1)] c(2) cs(2) [OF c(1)] r] by blast
        then show ?thesis by (cases ns) (auto simp: roundOut_def r explained_def outAppend_def)
      next
        case False
        then obtain st' where ns: "ns = Some st'" "holds dp F (ssCond st')" by (cases ns) auto
        have "standing dp F (ssNode st # visited) st'"
          using standing_next [OF net less.prems facts(1) r [unfolded ns(1)] cs(1) [OF c(1)] ns(2)] .
        moreover have "length (pathNodes (ssPath st')) = Suc (length (pathNodes (ssPath st)))"
          using candidateRound_path [OF r [unfolded ns(1)]] by (auto simp: pathVia_def)
        ultimately have "explained dp F (symbolicForward dp vrf dst ?max (ssNode st # visited) (states @ [st]) st')"
          using facts(3) by (intro less.hyps) auto
        then show ?thesis by (auto simp: roundOut_def r ns explained_def outAppend_def)
      qed
      then show ?thesis using c(1) union by (auto simp: explained_def)
    qed
  qed
qed

section \<open>Conditions of paths\<close>

lemma roundOut_path:
  assumes "p \<in> set (foPaths (roundOut dp vrf dst maxHops visited states st n packet c))"
  obtains o1 st' where "candidateRound dp st n packet c = (o1, Some st')"
    "p \<in> set (foPaths (symbolicForward dp vrf dst maxHops (ssNode st # visited) (states @ [st]) st'))"
proof -
  obtain o1 ns where r: "candidateRound dp st n packet c = (o1, ns)" by force
  have none: "foPaths o1 = []" using r by (auto simp: candidateRound_def Let_def split: if_splits option.splits)
  then obtain st' where ns: "ns = Some st'" using assms r by (cases ns) (auto simp: roundOut_def)
  then show thesis using that [of o1 st'] assms none r by (simp add: roundOut_def outAppend_def)
qed

text \<open>A path found from a state works only if the condition of the state holds.\<close>

lemma path_conds:
  assumes net: "usableNet topo dp"
  shows "plainCond (ssCond st) \<Longrightarrow> plainName (ssNode st) \<Longrightarrow> p \<in> set (foPaths (symbolicForward dp vrf dst maxHops visited states st))
    \<Longrightarrow> plainCond (sppCond p) \<and> (holds dp F (sppCond p) \<longrightarrow> holds dp F (ssCond st))"
proof (induction "Suc maxHops - length (pathNodes (ssPath st))" arbitrary: visited states st rule: less_induct)
  case less
  obtain out e where entry: "forwardEntry dp vrf dst maxHops visited states st = (out, e)" by force
  show ?case
  proof (cases e)
    case None
    then have "p \<in> set (foPaths out)" using less.prems(3) symbolicForward_end entry by simp
    then have "sppCond p = And [ssCond st, NodeVar (ssNode st)]"
      using entry None by (auto simp: forwardEntry_def Let_def emptyOut_def split: if_splits option.splits)
    then show ?thesis using less.prems(1,2) by (simp add: And_eval plain_And)
  next
    case (Some e')
    obtain n packet cs where e': "e' = (n, packet, cs)" by (cases e') auto
    note entry' = entry [unfolded Some e']
    note facts = forwardEntry_loop [OF entry']
    obtain c where c: "c \<in> set cs" "p \<in> set (foPaths (roundOut dp vrf dst maxHops visited states st n packet c))"
      using less.prems(3) symbolicForward_loop(1) [OF entry'] facts(6) by auto
    have plain: "plainCond (fcCond c)" using candidate_plain [OF net] c(1) facts(5) by blast
    obtain o1 st' where r': "candidateRound dp st n packet c = (o1, Some st')"
      and p': "p \<in> set (foPaths (symbolicForward dp vrf dst maxHops (ssNode st # visited) (states @ [st]) st'))"
      using c(2) by (rule roundOut_path)
    obtain l where l: "LinkBetween (dpIdx dp) (ssNode st) (ssNode st') = Some l" "ssPath st' = pathVia (ssPath st) (ssNode st') l"
      using r' by (rule candidateRound_Some)
    have "plainCond (sppCond p) \<and> (holds dp F (sppCond p) \<longrightarrow> holds dp F (ssCond st'))"
    proof (rule less.hyps)
      show "Suc maxHops - length (pathNodes (ssPath st')) < Suc maxHops - length (pathNodes (ssPath st))"
        using facts(3) l(2) by (simp add: pathVia_def)
      show "plainCond (ssCond st')" by (rule nextCond_plain(1) [OF net r' less.prems(1) plain])
      show "plainName (ssNode st')" by (rule usable_link(7) [OF net l(1)])
    qed (rule p')
    then show ?thesis using nextCond_plain(2) [OF net r' less.prems(1) plain l(1)] by blast
  qed
qed

lemmas path_conds_plain = path_conds [THEN conjunct1]
lemmas path_needs_state = path_conds [THEN conjunct2, rule_format]

lemma round_path_needs_state:
  assumes net: "usableNet topo dp" and plain: "plainCond (ssCond st)" "plainCond (fcCond c)"
    and p: "p \<in> set (foPaths (roundOut dp vrf dst maxHops visited states st n packet c))"
  shows "holds dp F (sppCond p) \<Longrightarrow> \<exists>o1 st'. candidateRound dp st n packet c = (o1, Some st') \<and> holds dp F (ssCond st')"
proof -
  assume F: "holds dp F (sppCond p)"
  obtain o1 st' where r': "candidateRound dp st n packet c = (o1, Some st')"
    and p': "p \<in> set (foPaths (symbolicForward dp vrf dst maxHops (ssNode st # visited) (states @ [st]) st'))"
    using p by (rule roundOut_path)
  obtain l where l: "LinkBetween (dpIdx dp) (ssNode st) (ssNode st') = Some l" using r' by (rule candidateRound_Some)
  have "holds dp F (ssCond st')"
    using path_needs_state [OF net nextCond_plain(1) [OF net r' plain] usable_link(7) [OF net l] p'] F by blast
  then show ?thesis using r' by blast
qed

section \<open>Conditions of paths need no link map\<close>

text \<open>
  The solvers evaluate a condition without the link map. A condition is closed when this makes no
  difference: the links it mentions have been expanded.
\<close>

definition closedCond :: "dataplane \<Rightarrow> cond \<Rightarrow> bool" where
  "closedCond dp c \<longleftrightarrow> plainCond c \<and> (\<forall>F. evalCond \<lparr>Failures = F, LinksByName = Map.empty\<rparr> c = holds dp F c)"

lemma closed_denotes: "denotes (idxLinks (dpIdx dp)) c P \<Longrightarrow> closedCond dp c"
  by (simp add: closedCond_def denotes_def FailureContext_def)

lemma closed_And: "list_all (closedCond dp) cs \<Longrightarrow> closedCond dp (And cs)"
proof -
  assume cs: "list_all (closedCond dp) cs"
  then have plain: "list_all plainCond cs" by (simp add: closedCond_def list_all_iff)
  have "list_all (evalCond \<lparr>Failures = F, LinksByName = Map.empty\<rparr>) cs = list_all (holds dp F) cs" for F
    using cs by (auto simp: list_all_iff closedCond_def)
  then show ?thesis using plain by (simp add: closedCond_def plain_And And_eval)
qed

lemma closed_Not: "closedCond dp c \<Longrightarrow> closedCond dp (Not c)"
  by (simp add: closedCond_def plain_Not Not_eval)

lemma closed_NodeVar: "plainName n \<Longrightarrow> closedCond dp (NodeVar n)"
  by (rule closed_denotes [OF denotes_NodeVar])

lemma candidate_closed:
  assumes "usableNet topo dp" "c \<in> set (candidatesFor dp n vrf dst)"
  shows "closedCond dp (fcCond c)"
  using candidate_OK [OF assms] closed_denotes by (auto simp: candidateOK_def)

lemma path_conds_closed:
  assumes net: "usableNet topo dp"
  shows "closedCond dp (ssCond st) \<Longrightarrow> plainName (ssNode st) \<Longrightarrow> p \<in> set (foPaths (symbolicForward dp vrf dst maxHops visited states st))
    \<Longrightarrow> closedCond dp (sppCond p)"
proof (induction "Suc maxHops - length (pathNodes (ssPath st))" arbitrary: visited states st rule: less_induct)
  case less
  obtain out e where entry: "forwardEntry dp vrf dst maxHops visited states st = (out, e)" by force
  show ?case
  proof (cases e)
    case None
    then have "p \<in> set (foPaths out)" using less.prems(3) symbolicForward_end entry by simp
    then have "sppCond p = And [ssCond st, NodeVar (ssNode st)]"
      using entry None by (auto simp: forwardEntry_def Let_def emptyOut_def split: if_splits option.splits)
    then show ?thesis using less.prems(1,2) closed_NodeVar by (simp add: closed_And)
  next
    case (Some e')
    obtain n packet cs where e': "e' = (n, packet, cs)" by (cases e') auto
    note entry' = entry [unfolded Some e']
    note facts = forwardEntry_loop [OF entry']
    obtain c where c: "c \<in> set cs" "p \<in> set (foPaths (roundOut dp vrf dst maxHops visited states st n packet c))"
      using less.prems(3) symbolicForward_loop(1) [OF entry'] facts(6) by auto
    have cand: "closedCond dp (fcCond c)" using candidate_closed [OF net] c(1) facts(5) by blast
    obtain o1 st' where r': "candidateRound dp st n packet c = (o1, Some st')"
        "p \<in> set (foPaths (symbolicForward dp vrf dst maxHops (ssNode st # visited) (states @ [st]) st'))"
      using c(2) by (rule roundOut_path)
    obtain l where l: "LinkBetween (dpIdx dp) (ssNode st) (ssNode st') = Some l" "ssPath st' = pathVia (ssPath st) (ssNode st') l"
      "ssCond st' = And [ssCond st, fcCond c, Not (pdCond (dataACLDecision dp n (ssPacket st') ''egress'')), linkUpCond (dpIdx dp) l]"
      using r'(1) by (rule candidateRound_Some)
    have "closedCond dp (Not (pdCond (dataACLDecision dp n (ssPacket st') ''egress'')))"
      unfolding decision_cond decisionCond_def by (rule closed_Not) (simp add: closedCond_def)
    moreover have "closedCond dp (linkUpCond (dpIdx dp) l)"
      using linkUp_denotes [OF net l(1)] by (rule closed_denotes)
    ultimately have "closedCond dp (ssCond st')" using less.prems(1) cand unfolding l(3) by (intro closed_And) simp
    moreover have "Suc maxHops - length (pathNodes (ssPath st')) < Suc maxHops - length (pathNodes (ssPath st))"
      using facts(3) l(2) by (simp add: pathVia_def)
    ultimately show ?thesis using usable_link(7) [OF net l(1)] r'(2) by (intro less.hyps) simp_all
  qed
qed

section \<open>The trace of a packet and the symbolic walk\<close>

text \<open>Packet specifications that access lists cannot tell apart but for the interfaces.\<close>

definition sameHeader :: "packet_spec \<Rightarrow> packet_spec \<Rightarrow> bool" where
  "sameHeader a b \<longleftrightarrow> SrcSet a = SrcSet b \<and> DstSet a = DstSet b \<and> Protocol a = Protocol b
     \<and> SrcPort a = SrcPort b \<and> DstPort a = DstPort b"

lemma evaluateBindings_same:
  assumes "sameHeader a b"
  shows "evaluateBindings reg n a iface stage acls bs = evaluateBindings reg n b iface stage acls bs"
proof -
  have "aclRuleMatches rule a = aclRuleMatches rule b" for rule
  proof -
    have same: "SrcSet (WithNormalizedPorts a) = SrcSet (WithNormalizedPorts b)" "DstSet (WithNormalizedPorts a) = DstSet (WithNormalizedPorts b)"
      "Protocol (WithNormalizedPorts a) = Protocol (WithNormalizedPorts b)" "SrcPort (WithNormalizedPorts a) = SrcPort (WithNormalizedPorts b)"
      "DstPort (WithNormalizedPorts a) = DstPort (WithNormalizedPorts b)"
      using assms by (simp_all add: sameHeader_def WithNormalizedPorts_def)
    show ?thesis unfolding aclRuleMatches_def Let_def same ..
  qed
  then have "evaluateACL reg n x y a = evaluateACL reg n x y b" for x y by (simp add: evaluateACL_def)
  then show ?thesis by (induction bs) (simp_all split: option.splits)
qed

lemma decision_same:
  assumes "sameHeader (pmSpec p) (pmSpec q)" "(if stage = ''egress'' then EgressInterface (pmSpec p) else IngressInterface (pmSpec p))
      = (if stage = ''egress'' then EgressInterface (pmSpec q) else IngressInterface (pmSpec q))"
  shows "dataACLDecision dp n p stage = dataACLDecision dp n q stage"
proof -
  have "sameHeader (NormalizedSpec p) (NormalizedSpec q)" "EgressInterface (NormalizedSpec x) = EgressInterface (pmSpec x)"
    "IngressInterface (NormalizedSpec x) = IngressInterface (pmSpec x)" for x
    using assms(1) by (simp_all add: sameHeader_def NormalizedSpec_def WithNormalizedPorts_def)
  then show ?thesis
    using assms(2) evaluateBindings_same by (simp add: dataACLDecision_def EvaluateDataACL_def Let_def split: if_splits)
qed

definition related ::
    "dataplane \<Rightarrow> fail_set \<Rightarrow> prefix \<Rightarrow> string list \<Rightarrow> symbolic_packet_state \<Rightarrow> packet_state \<Rightarrow> bool" where
  "related dp F dst visited st pst \<longleftrightarrow> psCurrent pst = ssNode st \<and> psVisited pst = visited
     \<and> psCtx pst = FailureContext (dpIdx dp) F \<and> psDst pst = dst \<and> psIngress pst = ssIngress st
     \<and> sameHeader (pmSpec (ssPacket st)) ((WithNormalizedPorts (psSpec pst))\<lparr>DstSet := Some (ExactPrefixSet dst)\<rparr>)"

lemma nextPacketState_same:
  "nextPacketState dp pst n x = Inr pst' \<Longrightarrow> psVRF pst' = psVRF pst \<and> psTo pst' = psTo pst \<and> psSpec pst' = psSpec pst"
  by (auto simp: nextPacketState_def Let_def split: if_splits option.splits)

lemma round_agrees:
  assumes net: "usableNet topo dp" and rel: "related dp F dst visited st pst" and dst: "PrefixFromNetIP dst = dst"
    and plain: "plainCond (ssCond st)" "plainCond (fcCond c)" and live: "holds dp F (ssCond st)" "holds dp F (fcCond c)"
    and packet: "packet = (ssPacket st)\<lparr>pmNode := ssNode st, pmSpec := (pmSpec (ssPacket st))\<lparr>IngressInterface := ssIngress st\<rparr>\<rparr>"
  shows "case nextPacketState dp pst n (fcEntry c) of
      Inl _ \<Rightarrow> (\<forall>o1 st'. candidateRound dp st n packet c = (o1, Some st') \<longrightarrow> \<not> holds dp F (ssCond st'))
    | Inr pst' \<Rightarrow> (\<exists>o1 st'. candidateRound dp st n packet c = (o1, Some st') \<and> holds dp F (ssCond st')
        \<and> related dp F dst (ssNode st # visited) st' pst')"
proof -
  let ?x = "fcEntry c" and ?hop = "feNextHop (fcEntry c)" and ?ctx = "FailureContext (dpIdx dp) F"
  let ?R = "candidateRound dp st n packet c" and ?N = "nextPacketState dp pst n ?x"
  have cur: "psCurrent pst = ssNode st" "psCtx pst = ?ctx" "psDst pst = dst" "psVisited pst = visited"
    using rel by (simp_all add: related_def)
  show ?thesis
  proof (cases "feDiscard ?x \<or> effectiveResolutionStatus ?x = NextHopResolutionUnresolvedRecursive
      \<or> effectiveResolutionStatus ?x = NextHopResolutionManagementFallback \<or> ?hop = [] \<or> LinkBetween (dpIdx dp) (ssNode st) ?hop = None")
    case True
    then have "\<exists>reason. ?N = Inl reason" "snd ?R = None"
      using cur by (auto simp: nextPacketState_def candidateRound_def Let_def)
    then show ?thesis by auto
  next
    case False
    then obtain l where l: "LinkBetween (dpIdx dp) (ssNode st) ?hop = Some l" by auto
    let ?i = "interfaceOnLink l (ssNode st)"
    let ?sym = "packet\<lparr>pmSpec := (pmSpec packet)\<lparr>EgressInterface := ?i\<rparr>\<rparr>"
    let ?con = "(packetAt pst)\<lparr>pmSpec := (pmSpec (packetAt pst))\<lparr>EgressInterface := ?i\<rparr>\<rparr>"
    have "sameHeader (pmSpec ?sym) (pmSpec ?con)"
      using rel dst by (simp add: packet related_def packetAt_def sameHeader_def)
    then have egress: "dataACLDecision dp n ?sym ''egress'' = dataACLDecision dp n ?con ''egress''"
      by (rule decision_same) simp
    show ?thesis
    proof (cases "pdDenied (dataACLDecision dp n ?con ''egress'')")
      case True
      then have "\<exists>reason. ?N = Inl reason" "snd ?R = None"
        using False cur l egress by (auto simp: nextPacketState_def candidateRound_def Let_def)
      then show ?thesis by auto
    next
      case permit: False
      then obtain o1 st' where r: "?R = (o1, Some st')" "ssNode st' = ?hop" "ssIngress st' = interfaceOnLink l ?hop" "ssPacket st' = ?sym"
        using False l egress by (auto simp: candidateRound_def Let_def)
      have st': "holds dp F (ssCond st') \<longleftrightarrow> \<not> LinkFailed ?ctx (linkName l)"
        using nextCond_plain(2) [OF net r(1) plain] l r(2) live by simp
      have up: "\<not> NodeFailed ?ctx ?hop" if "\<not> LinkFailed ?ctx (linkName l)"
        using linkUp_ends(2) [OF net l] linkUp_holds(2) [OF net l] that by blast
      show ?thesis
      proof (cases "LinkFailed ?ctx (linkName l)")
        case True
        then have "\<exists>reason. ?N = Inl reason"
          using False cur l by (auto simp: nextPacketState_def Let_def)
        then show ?thesis using r(1) st' True by auto
      next
        case linkUp: False
        then have N: "?N = Inr (pst\<lparr>psCurrent := ?hop, psIngress := interfaceOnLink l ?hop, psVisited := psCurrent pst # psVisited pst,
            psFull := pathVia (psFull pst) ?hop l\<rparr>)"
          using False cur l permit up by (simp add: nextPacketState_def Let_def)
        have "related dp F dst (ssNode st # visited) st' (pst\<lparr>psCurrent := ?hop, psIngress := interfaceOnLink l ?hop,
            psVisited := psCurrent pst # psVisited pst, psFull := pathVia (psFull pst) ?hop l\<rparr>)"
          using rel r by (simp add: related_def packet sameHeader_def)
        then show ?thesis using N r(1) st' linkUp by auto
      qed
    qed
  qed
qed

lemma candidateLoop_iff:
  assumes "\<And>x. attempt x \<noteq> None"
  shows "(\<exists>q r. candidateLoop attempt ctx full reason cs = Some (q, True, r))
    \<longleftrightarrow> (\<exists>c \<in> set cs. evalCond ctx (fcCond c) \<and> (\<exists>q r. attempt (fcEntry c) = Some (q, True, r)))"
proof (induction cs arbitrary: reason)
  case (Cons c cs)
  obtain q ok r where a: "attempt (fcEntry c) = Some (q, ok, r)" using assms [of "fcEntry c"] by auto
  show ?case using Cons.IH a by (cases ok) auto
qed simp

text \<open>
  A destination prefix is isolated for an address in it when no table entry and no originated prefix
  lies strictly inside it: an entry overlaps the prefix only if it contains the address, and an
  originated prefix overlaps it only if it is the prefix.
\<close>

definition isolated :: "dataplane \<Rightarrow> string \<Rightarrow> prefix \<Rightarrow> string \<Rightarrow> bool" where
  "isolated dp vrf dst to \<longleftrightarrow> PrefixFromNetIP dst = dst
     \<and> (\<exists>ip. parseAddr to = Some ip
          \<and> list_all (\<lambda>(_, es). list_all (\<lambda>x. AddressSpaceOverlaps (ExactPrefixSet (PrefixFromNetIP (fePrefix x))) (ExactPrefixSet dst)
                \<longleftrightarrow> pfxContains (fePrefix x) ip) es) (dpFIB dp))
     \<and> list_all (\<lambda>v. list_all (\<lambda>p. \<not> prefixIsZero p \<and> AddressSpaceOverlaps (ExactPrefixSet p) (ExactPrefixSet dst) \<longleftrightarrow> p = dst)
          (nodePrefixesVRF v vrf)) (dpOrder dp)"

lemma isolated_lookups:
  assumes "usableNet topo dp" "isolated dp vrf dst to"
  shows "candidatesFor dp n vrf (ExactPrefixSet dst) = SymbolicLookupFIBVRF (dpIdx dp) (dpFIB dp) n vrf to"
    "originatesPrefixSetVRF dp n vrf (ExactPrefixSet dst) = originatesVRF dp n vrf dst"
proof -
  let ?b = "fibBucket (dpFIB dp) n (NormalizeNetworkInstance vrf)"
  obtain ip where ip: "parseAddr to = Some ip"
    "list_all (\<lambda>(_, es). list_all (\<lambda>x. AddressSpaceOverlaps (ExactPrefixSet (PrefixFromNetIP (fePrefix x))) (ExactPrefixSet dst)
        \<longleftrightarrow> pfxContains (fePrefix x) ip) es) (dpFIB dp)"
    using assms(2) by (auto simp: isolated_def)
  have "AddressSpaceOverlaps (ExactPrefixSet (PrefixFromNetIP (fePrefix x))) (ExactPrefixSet dst) \<longleftrightarrow> pfxContains (fePrefix x) ip"
    if x: "x \<in> set ?b" for x
  proof -
    obtain es where "((n, NormalizeNetworkInstance vrf), es) \<in> set (dpFIB dp)" "x \<in> set es"
      using x by (cases "map_of (dpFIB dp) (n, NormalizeNetworkInstance vrf)") (auto simp: fibBucket_def dest: map_of_SomeD)
    then show ?thesis using ip(2) by (fastforce simp: list_all_iff)
  qed
  then have "filter (\<lambda>x. AddressSpaceOverlaps (ExactPrefixSet (PrefixFromNetIP (fePrefix x))) (ExactPrefixSet dst)) ?b
      = filter (\<lambda>x. pfxContains (fePrefix x) ip) ?b" by (intro filter_cong) simp_all
  then show "candidatesFor dp n vrf (ExactPrefixSet dst) = SymbolicLookupFIBVRF (dpIdx dp) (dpFIB dp) n vrf to"
    unfolding candidatesFor_def SymbolicLookupFIBForPrefixSetVRF_def SymbolicLookupFIBVRF_def matchingFIBEntriesForPrefixSet_def
      matchingFIBEntries_def ip(1) option.case by (rule arg_cong)
  show "originatesPrefixSetVRF dp n vrf (ExactPrefixSet dst) = originatesVRF dp n vrf dst"
  proof (cases "idxNodes (dpIdx dp) n")
    case (Some v)
    then have "v \<in> set (dpOrder dp)" using usable_nodes(1,3) [OF assms(1)] by simp
    then have "list_all (\<lambda>p. \<not> prefixIsZero p \<and> AddressSpaceOverlaps (ExactPrefixSet p) (ExactPrefixSet dst) \<longleftrightarrow> p = dst)
        (nodePrefixesVRF v vrf)" using assms(2) by (simp add: isolated_def list_all_iff)
    then show ?thesis
      unfolding originatesPrefixSetVRF_def originatesVRF_def originates_def Some option.case
      by (auto simp only: list_ex_iff list_all_iff)
  qed (simp add: originatesPrefixSetVRF_def originatesVRF_def)
qed

lemma attempts_return:
  assumes net: "usableNet topo dp" and n: "nodeName ` set (topoNodes topo) = N"
    and "psCurrent pst \<in> N" "psCurrent pst \<notin> set (psVisited pst)" "card (N - set (psVisited pst)) < Suc fuel"
  shows "tryPacketCandidate (packetReachableFrom fuel dp) dp pst v x \<noteq> None"
proof (cases "nextPacketState dp pst v x")
  case (Inr pst')
  then have "psVisited pst' = psCurrent pst # psVisited pst" by (rule nextPacketState_Inr)
  then have "N - set (psVisited pst') \<subset> N - set (psVisited pst)" using assms(3,4) by auto
  then have "card (N - set (psVisited pst')) < card (N - set (psVisited pst))"
    by (rule psubset_card_mono [rotated]) (simp add: n [symmetric])
  then have "packetReachableFrom fuel dp pst' \<noteq> None"
    using assms(5) linksWithin_built [of topo "dpIdx dp"] net n
    by (intro packetReachableFrom_returns [of dp N]) (auto simp: usableNet_def builtFrom_def)
  then show ?thesis by (simp add: tryPacketCandidate_def Inr)
qed (simp add: tryPacketCandidate_def)

lemma walk_agrees:
  assumes net: "usableNet topo dp" and iso: "isolated dp vrf dst to" and N: "nodeName ` set (topoNodes topo) = N"
  shows "standing dp F visited st \<Longrightarrow> related dp F dst visited st pst \<Longrightarrow> psVRF pst = vrf \<Longrightarrow> psTo pst = to
    \<Longrightarrow> card (N - set visited) < fuel \<Longrightarrow>
    (\<exists>q r. packetReachableFrom fuel dp pst = Some (q, True, r))
      \<longleftrightarrow> (\<exists>p \<in> set (foPaths (symbolicForward dp vrf (ExactPrefixSet dst) (length (dpOrder dp)) visited states st)). holds dp F (sppCond p))"
proof (induction fuel arbitrary: visited states st pst)
  case (Suc fuel)
  let ?dst = "ExactPrefixSet dst" and ?max = "length (dpOrder dp)"
  have st: "plainCond (ssCond st)" "holds dp F (ssCond st)" "plainName (ssNode st)" "\<not> NodeFailed (FailureContext (dpIdx dp) F) (ssNode st)"
    and cur: "psCurrent pst = ssNode st" "psVisited pst = visited" "psCtx pst = FailureContext (dpIdx dp) F" "psDst pst = dst"
    using Suc.prems by (simp_all add: standing_def related_def)
  obtain n where n: "idxNodes (dpIdx dp) (ssNode st) = Some n" using Suc.prems by (auto simp: standing_def)
  then have inN: "ssNode st \<in> N" using usable_nodes(1) [OF net, of "ssNode st" n] N by force
  have live: "\<not> isFalseCond (ssCond st)" using st by (simp add: plain_false)
  have origin: "originatesVRF dp (ssNode st) vrf dst = originatesPrefixSetVRF dp (ssNode st) vrf ?dst"
    and cands: "SymbolicLookupFIBVRF (dpIdx dp) (dpFIB dp) (ssNode st) vrf to = candidatesFor dp (ssNode st) vrf ?dst"
    and dst: "PrefixFromNetIP dst = dst" using isolated_lookups [OF net iso] iso by (simp_all add: isolated_def)
  let ?packet = "(ssPacket st)\<lparr>pmNode := ssNode st, pmSpec := (pmSpec (ssPacket st))\<lparr>IngressInterface := ssIngress st\<rparr>\<rparr>"
  have "sameHeader (pmSpec ?packet) (pmSpec (packetAt pst))"
    using Suc.prems(2) dst by (simp add: related_def packetAt_def sameHeader_def)
  moreover have "IngressInterface (pmSpec ?packet) = IngressInterface (pmSpec (packetAt pst))"
    using Suc.prems(2) by (simp add: related_def packetAt_def)
  ultimately have ingress: "dataACLDecision dp n ?packet ''ingress'' = dataACLDecision dp n (packetAt pst) ''ingress''"
    by (intro decision_same) simp_all
  have node: "currentNodeOf dp pst = n" using n cur by (simp add: currentNodeOf_def)
  let ?sym = "symbolicForward dp vrf ?dst ?max visited states st"
  obtain out e where entry: "forwardEntry dp vrf ?dst ?max visited states st = (out, e)" by force
  consider "ssNode st \<in> set visited" | "ssNode st \<notin> set visited" "originatesPrefixSetVRF dp (ssNode st) vrf ?dst"
    | "ssNode st \<notin> set visited" "\<not> originatesPrefixSetVRF dp (ssNode st) vrf ?dst" "pdDenied (dataACLDecision dp n ?packet ''ingress'')"
    | "ssNode st \<notin> set visited" "\<not> originatesPrefixSetVRF dp (ssNode st) vrf ?dst" "\<not> pdDenied (dataACLDecision dp n ?packet ''ingress'')"
    by blast
  then show ?case
  proof cases
    case 1
    then have "foPaths ?sym = []" using live by (subst symbolicForward_end) (auto simp: forwardEntry_def)
    then show ?thesis using 1 cur st by (simp add: packetReachableFrom.simps)
  next
    case 2
    then have "foPaths ?sym = [\<lparr>sppPath = ssPath st, sppCond = And [ssCond st, NodeVar (ssNode st)], sppStates = states @ [st]\<rparr>]"
      using live by (subst symbolicForward_end) (auto simp: forwardEntry_def)
    then show ?thesis using 2 cur st origin Suc.prems(3) by (simp add: packetReachableFrom.simps And_eval holds_node)
  next
    case 3
    then have "foPaths ?sym = []"
      using live n standing_short [OF net Suc.prems(1)] by (subst symbolicForward_end) (auto simp: forwardEntry_def Let_def emptyOut_def)
    then show ?thesis using 3 cur st origin Suc.prems(3) ingress node by (simp add: packetReachableFrom.simps Let_def)
  next
    case 4
    let ?cs = "candidatesFor dp (ssNode st) vrf ?dst" and ?attempt = "tryPacketCandidate (packetReachableFrom fuel dp) dp pst n"
    have entry: "forwardEntry dp vrf ?dst ?max visited states st = (reasonsOut (handleNoRoute st (map fcCond ?cs)), Some (n, ?packet, ?cs))"
      using live n 4 standing_short [OF net Suc.prems(1)] by (simp add: forwardEntry_def Let_def candidatesFor_def)
    have returns: "?attempt x \<noteq> None" for x
      using attempts_return [OF net N, of pst fuel n x] inN 4(1) cur Suc.prems(5) by simp
    have con: "packetReachableFrom (Suc fuel) dp pst = (if ?cs = [] then Some (psFull pst, False, ''no forwarding route'')
        else candidateLoop ?attempt (psCtx pst) (psFull pst) [] ?cs)"
      using 4 cur st(4) origin cands ingress node Suc.prems(3,4) by (simp add: packetReachableFrom.simps Let_def)
    have "(\<exists>q r. packetReachableFrom (Suc fuel) dp pst = Some (q, True, r))
        \<longleftrightarrow> (\<exists>c \<in> set ?cs. holds dp F (fcCond c) \<and> (\<exists>q r. ?attempt (fcEntry c) = Some (q, True, r)))"
      unfolding con using candidateLoop_iff [of ?attempt "psCtx pst" "psFull pst" "[]" ?cs, OF returns] cur(3) by auto
    also have "\<dots> \<longleftrightarrow> (\<exists>c \<in> set ?cs. \<exists>p \<in> set (foPaths (roundOut dp vrf ?dst ?max visited states st n ?packet c)). holds dp F (sppCond p))"
    proof (rule bex_cong [OF refl])
      fix c assume c: "c \<in> set ?cs"
      have plain: "plainCond (fcCond c)" by (rule candidate_plain(1) [OF net c])
      show "(holds dp F (fcCond c) \<and> (\<exists>q r. ?attempt (fcEntry c) = Some (q, True, r)))
          \<longleftrightarrow> (\<exists>p \<in> set (foPaths (roundOut dp vrf ?dst ?max visited states st n ?packet c)). holds dp F (sppCond p))"
      proof (cases "\<exists>o1 st'. candidateRound dp st n ?packet c = (o1, Some st') \<and> holds dp F (ssCond st')")
        case False
        have "\<not> (holds dp F (fcCond c) \<and> (\<exists>q r. ?attempt (fcEntry c) = Some (q, True, r)))"
        proof
          assume a: "holds dp F (fcCond c) \<and> (\<exists>q r. ?attempt (fcEntry c) = Some (q, True, r))"
          then have "\<exists>reason. nextPacketState dp pst n (fcEntry c) = Inl reason"
            using round_agrees [OF net Suc.prems(2) dst st(1) plain st(2) _ refl, of n] False by (auto split: sum.splits)
          then show False using a by (auto simp: tryPacketCandidate_def)
        qed
        moreover have "\<not> holds dp F (sppCond p)" if "p \<in> set (foPaths (roundOut dp vrf ?dst ?max visited states st n ?packet c))" for p
          using round_path_needs_state [OF net st(1) plain that] False by blast
        ultimately show ?thesis by blast
      next
        case True
        then obtain o1 st' where r: "candidateRound dp st n ?packet c = (o1, Some st')" "holds dp F (ssCond st')" by blast
        obtain l where l: "LinkBetween (dpIdx dp) (ssNode st) (ssNode st') = Some l" "foPaths o1 = []"
          using r(1) by (rule candidateRound_Some)
        have "holds dp F (fcCond c)" using nextCond_plain(2) [OF net r(1) st(1) plain l(1)] r(2) by blast
        then obtain pst' where pst': "nextPacketState dp pst n (fcEntry c) = Inr pst'" "related dp F dst (ssNode st # visited) st' pst'"
          using round_agrees [OF net Suc.prems(2) dst st(1) plain st(2) _ refl, of n] r by (auto split: sum.splits)
        have next_st: "standing dp F (ssNode st # visited) st'"
          by (rule standing_next [OF net Suc.prems(1) 4(1) r(1) plain r(2)])
        have "N - set (ssNode st # visited) \<subset> N - set visited" using inN 4(1) by auto
        then have "card (N - set (ssNode st # visited)) < card (N - set visited)"
          by (rule psubset_card_mono [rotated]) (simp add: N [symmetric])
        then have "(\<exists>q r. packetReachableFrom fuel dp pst' = Some (q, True, r))
            \<longleftrightarrow> (\<exists>p \<in> set (foPaths (symbolicForward dp vrf ?dst ?max (ssNode st # visited) (states @ [st]) st')). holds dp F (sppCond p))"
          using nextPacketState_same [OF pst'(1)] Suc.prems(3-5) by (intro Suc.IH [OF next_st pst'(2)]) simp_all
        then show ?thesis
          using \<open>holds dp F (fcCond c)\<close> l(2) by (simp add: tryPacketCandidate_def pst'(1) roundOut_def r(1) outAppend_def)
      qed
    qed
    also have "\<dots> \<longleftrightarrow> (\<exists>p \<in> set (foPaths ?sym). holds dp F (sppCond p))"
      using symbolicForward_loop(1) [OF entry] by auto
    finally show ?thesis .
  qed
qed simp

section \<open>The calls from outside\<close>

lemma origin_indexed:
  assumes "usableNet topo dp" "originForIPVRF dp to vrf = Some (dstNode, dst)"
  shows "\<exists>v. idxNodes (dpIdx dp) dstNode = Some v \<and> dst \<in> set (nodePrefixesVRF v vrf)" "plainName dstNode"
    "\<exists>ip. pfxContains dst ip"
proof -
  obtain ip v where v: "pfxContains dst ip" "v \<in> set (dpOrder dp)" "nodeName v = dstNode" "dst \<in> set (nodePrefixesVRF v vrf)"
    using originForIPVRF_Some [OF assms(2)] by blast
  then have "idxNodes (dpIdx dp) dstNode = Some v" using usable_nodes [OF assms(1)] by simp
  then show "\<exists>v. idxNodes (dpIdx dp) dstNode = Some v \<and> dst \<in> set (nodePrefixesVRF v vrf)" using v by blast
  show "plainName dstNode"
    using v usable_nodes(3) [OF assms(1)] assms(1) by (auto simp: usableNet_def plainTopology_def list_all_iff)
  show "\<exists>ip. pfxContains dst ip" using v by blast
qed

lemma indexed_plain: "usableNet topo dp \<Longrightarrow> idxNodes (dpIdx dp) n \<noteq> None \<Longrightarrow> plainName n"
  using usable_nodes(1) [of topo dp n] by (fastforce simp: usableNet_def plainTopology_def list_all_iff)

lemma node_reason:
  assumes "plainName n" "NodeFailed (FailureContext (dpIdx dp) F) n"
  shows "\<exists>r \<in> set (handleNodeFailed n (Not (NodeVar n)) p m). holds dp F (urCond r)"
  using assms handled [OF handlers_add(8), of n "Not (NodeVar n)" p m "reasonsOut (handleNodeFailed n (Not (NodeVar n)) p m)" dp F]
  by (auto simp: explained_def plain_Not Not_eval holds_node)

definition startState :: "dataplane \<Rightarrow> string \<Rightarrow> prefix_set \<Rightarrow> packet_spec \<Rightarrow> cond \<Rightarrow> symbolic_packet_state" where
  "startState dp from dst spec c =
     \<lparr>ssNode = from, ssIngress = [], ssPacket = \<lparr>pmNode = from, pmSpec = (WithNormalizedPorts spec)\<lparr>DstSet := Some dst\<rparr>\<rparr>,
      ssCond = c, ssPath = \<lparr>pathNodes = [from], pathLinks = [], pathCost = 0\<rparr>\<rparr>"

lemma overlaps_self:
  assumes "pfxContains p x" "withoutZone (pfxAddr p) = pfxAddr p"
  shows "\<not> prefixIsZero p \<and> AddressSpaceOverlaps (ExactPrefixSet p) (ExactPrefixSet p)"
  using assms by (induction p x rule: pfxContains.induct) (auto simp: prefixIsZero_def pfxIsValid_def prefixOverlaps_def)

lemma nodePrefixes_zoneless:
  assumes "p \<in> set (nodePrefixesVRF v vrf)" "list_all (\<lambda>p. withoutZone (pfxAddr p) = pfxAddr p) (nodePrefixes v)"
  shows "withoutZone (pfxAddr p) = pfxAddr p"
proof -
  have "withoutZone (pfxAddr (PrefixFromNetIP q)) = pfxAddr (PrefixFromNetIP q)" for q
    by (cases q; cases "pfxAddr q") (auto simp: PrefixFromNetIP_def zeroPrefix_def)
  then show ?thesis
    using assms by (auto simp: nodePrefixesVRF_def List.map_filter_def list_all_iff Let_def split: if_splits)
qed

lemma origin_listed:
  assumes "usableNet topo dp" "originForIPVRF dp to vrf = Some (dstNode, dst)"
  shows "dstNode \<in> set (originNodesForPrefixSetVRF dp (NormalizeNetworkInstance vrf) (ExactPrefixSet dst))"
proof -
  obtain ip v where v: "pfxContains dst ip" "v \<in> set (dpOrder dp)" "nodeName v = dstNode" "dst \<in> set (nodePrefixesVRF v vrf)"
    using originForIPVRF_Some [OF assms(2)] by blast
  have "list_all (\<lambda>p. withoutZone (pfxAddr p) = pfxAddr p) (nodePrefixes v)"
    using v(2) usable_nodes(3) [OF assms(1)] assms(1) by (auto simp: usableNet_def plainTopology_def list_all_iff)
  then have zoneless: "withoutZone (pfxAddr dst) = pfxAddr dst" using nodePrefixes_zoneless v(4) by blast
  have "\<not> prefixIsZero dst" "AddressSpaceOverlaps (ExactPrefixSet dst) (ExactPrefixSet dst)"
    using overlaps_self [OF v(1)] zoneless by blast+
  then have "originates v (NormalizeNetworkInstance vrf) (ExactPrefixSet dst)"
    using v(4) by (auto simp: originates_def list_ex_iff nodePrefixesVRF_def NormalizeNetworkInstance_def Let_def)
  then show ?thesis using v by (auto simp: originNodesForPrefixSetVRF_def)
qed

lemma reachable_holds:
  assumes "usableNet topo dp" "idxNodes (dpIdx dp) from \<noteq> None" "plainCond c"
  shows "holds dp F (srReachable (symbolicPacketReachabilityForPrefixSet dp from vrf dst spec c))
    \<longleftrightarrow> (\<exists>p \<in> set (foPaths (symbolicForward dp vrf dst (length (dpOrder dp)) [] [] (startState dp from dst spec c))). holds dp F (sppCond p))"
proof -
  obtain v where "v \<in> set (topoNodes topo)" using assms(2) usable_nodes(1) [OF assms(1), of "from"] by auto
  then have max: "maxHopsFor dp = length (dpOrder dp)" using usable_nodes(4) [OF assms(1)] by (auto simp: maxHopsFor_def)
  let ?paths = "foPaths (symbolicForward dp vrf dst (length (dpOrder dp)) [] [] (startState dp from dst spec c))"
  have "plainCond (sppCond p)" if "p \<in> set ?paths" for p
    using path_conds_plain [OF assms(1) _ _ that] assms(3) indexed_plain [OF assms(1,2)] by (simp add: startState_def)
  then have "list_all plainCond (map sppCond ?paths)" by (simp add: list_all_iff)
  then show ?thesis
    unfolding symbolicPacketReachabilityForPrefixSet_def Let_def max symbolic_result.simps startState_def
    by (simp add: Or_eval list_ex_iff)
qed

lemma start_standing:
  assumes "usableNet topo dp" "idxNodes (dpIdx dp) from \<noteq> None" "plainCond c" "holds dp F c"
    and "\<not> NodeFailed (FailureContext (dpIdx dp) F) from"
  shows "standing dp F [] (startState dp from dst spec c)"
  using assms indexed_plain [OF assms(1,2)] by (simp add: standing_def startState_def)

lemma packet_parity:
  assumes net: "usableNet topo dp" and "from": "idxNodes (dpIdx dp) from \<noteq> None"
    and origin: "originForIPVRF dp to vrf = Some (dstNode, dst)" and iso: "isolated dp (NormalizeNetworkInstance vrf) dst to"
    and fuel: "length (topoNodes topo) < fuel"
  shows "holds dp F (srReachable (SymbolicPacketReachabilitySpecVRF dp from vrf to spec))
    \<longleftrightarrow> (\<exists>p reason. PacketReachableSpecVRF fuel dp from vrf to spec F = Some (p, True, reason))"
proof -
  let ?c = "And [NodeVar from, NodeVar dstNode]" and ?vrf = "NormalizeNetworkInstance vrf" and ?ctx = "FailureContext (dpIdx dp) F"
  let ?st = "startState dp from (ExactPrefixSet dst) spec ?c" and ?N = "nodeName ` set (topoNodes topo)"
  have names: "list_all plainCond [NodeVar from, NodeVar dstNode]"
    using indexed_plain [OF net "from"] origin_indexed(2) [OF net origin] by simp
  then have plain: "plainCond ?c" by (rule plain_And)
  have c: "holds dp F ?c \<longleftrightarrow> \<not> NodeFailed ?ctx from \<and> \<not> NodeFailed ?ctx dstNode"
    using And_eval [OF names] by (simp add: holds_node)
  have sym: "holds dp F (srReachable (SymbolicPacketReachabilitySpecVRF dp from vrf to spec))
      \<longleftrightarrow> (\<exists>p \<in> set (foPaths (symbolicForward dp ?vrf (ExactPrefixSet dst) (length (dpOrder dp)) [] [] ?st)). holds dp F (sppCond p))"
    using reachable_holds [OF net "from" plain] "from" by (auto simp: SymbolicPacketReachabilitySpecVRF_def origin)
  show ?thesis
  proof (cases "holds dp F ?c")
    case False
    then have "\<not> holds dp F (sppCond p)"
      if "p \<in> set (foPaths (symbolicForward dp ?vrf (ExactPrefixSet dst) (length (dpOrder dp)) [] [] ?st))" for p
      using path_needs_state [OF net _ _ that] plain names by (auto simp: startState_def)
    moreover have "\<not> (\<exists>p reason. PacketReachableSpecVRF fuel dp from vrf to spec F = Some (p, True, reason))"
      using False c by (auto simp: PacketReachableSpecVRF_def origin Let_def)
    ultimately show ?thesis using sym by blast
  next
    case True
    let ?pst = "\<lparr>psCurrent = from, psVRF = ?vrf, psTo = to, psSpec = spec, psDst = dst, psIngress = [], psCtx = ?ctx,
      psVisited = [], psFull = \<lparr>pathNodes = [from], pathLinks = [], pathCost = 0\<rparr>\<rparr>"
    have "standing dp F [] ?st" using True c by (intro start_standing [OF net "from" plain]) simp_all
    moreover have "related dp F dst [] ?st ?pst" by (simp add: related_def startState_def sameHeader_def)
    moreover have "card (?N - set []) < fuel"
      using card_image_le [of "set (topoNodes topo)" nodeName] card_length [of "topoNodes topo"] fuel by simp
    ultimately have "(\<exists>q r. packetReachableFrom fuel dp ?pst = Some (q, True, r))
        \<longleftrightarrow> (\<exists>p \<in> set (foPaths (symbolicForward dp ?vrf (ExactPrefixSet dst) (length (dpOrder dp)) [] [] ?st)). holds dp F (sppCond p))"
      by (intro walk_agrees [OF net iso refl]) simp_all
    moreover have "PacketReachableSpecVRF fuel dp from vrf to spec F = packetReachableFrom fuel dp ?pst"
      using True c by (simp add: PacketReachableSpecVRF_def origin Let_def)
    ultimately show ?thesis using sym by simp
  qed
qed

text \<open>
  C4 (simulated and symbolic packets agree inside isolated prefixes). Let the advertised prefix of the
  destination be isolated: no table entry of any router overlaps it without containing the destination,
  and no other originated prefix overlaps it. Then for every set of failures the simulated trace of the
  packet succeeds exactly when the symbolic condition \<open>Reachable\<close> holds. The restriction is needed:
  the last theorem below has a network where an entry inside the prefix makes the two disagree.
\<close>

theorem SymbolicPacketReachability_parity:
  assumes net: "usableNet topo dp" and "from": "idxNodes (dpIdx dp) from \<noteq> None"
    and origin: "originForIPVRF dp to vrf = Some (dstNode, dst)" and iso: "isolated dp (NormalizeNetworkInstance vrf) dst to"
    and fuel: "length (topoNodes topo) < fuel"
  shows "holds dp F (srReachable (SymbolicPacketReachabilitySpecVRF dp from vrf to spec))
    \<longleftrightarrow> (\<exists>p reason. PacketReachableSpecVRF fuel dp from vrf to spec F = Some (p, True, reason))"
  by (rule packet_parity [OF assms])

text \<open>
  C6 (the explanations are complete). When the source is a node of the network, every set of failures
  either lets the packet arrive, by the symbolic condition, or satisfies the condition of some
  reason that the result lists.
\<close>

theorem SymbolicPacketReachability_explains:
  assumes net: "usableNet topo dp" and "from": "idxNodes (dpIdx dp) from \<noteq> None"
    and r: "result = SymbolicPacketReachabilitySpecVRF dp from vrf to spec"
  shows "holds dp F (srReachable result) \<or> (\<exists>r \<in> set (srReasons result). holds dp F (urCond r))"
proof (cases "originForIPVRF dp to vrf")
  case None
  then show ?thesis by (simp add: r SymbolicPacketReachabilitySpecVRF_def)
next
  case (Some origin)
  then obtain dstNode dst where origin: "originForIPVRF dp to vrf = Some (dstNode, dst)" by force
  let ?c = "And [NodeVar from, NodeVar dstNode]" and ?vrf = "NormalizeNetworkInstance vrf" and ?ctx = "FailureContext (dpIdx dp) F"
  let ?st = "startState dp from (ExactPrefixSet dst) spec ?c"
  let ?out = "symbolicForward dp ?vrf (ExactPrefixSet dst) (length (dpOrder dp)) [] [] ?st"
  have names: "list_all plainCond [NodeVar from, NodeVar dstNode]"
    using indexed_plain [OF net "from"] origin_indexed(2) [OF net origin] by simp
  then have plain: "plainCond ?c" by (rule plain_And)
  have result: "result = symbolicPacketReachabilityForPrefixSet dp from ?vrf (ExactPrefixSet dst) spec ?c"
    using "from" by (auto simp: r SymbolicPacketReachabilitySpecVRF_def origin)
  have max: "maxHopsFor dp = length (dpOrder dp)"
    using "from" usable_nodes(1,4) [OF net] by (auto simp: maxHopsFor_def)
  show ?thesis
  proof (cases "NodeFailed ?ctx from \<or> NodeFailed ?ctx dstNode")
    case False
    then have "holds dp F ?c" using And_eval [OF names] by (simp add: holds_node)
    then have "standing dp F [] ?st" using False by (intro start_standing [OF net "from" plain]) simp_all
    then have "explained dp F ?out" by (rule forward_explained [OF net])
    moreover have "set (foReasons ?out) \<subseteq> set (srReasons result)"
      unfolding result symbolicPacketReachabilityForPrefixSet_def Let_def max symbolic_result.simps startState_def set_append by blast
    ultimately show ?thesis
      using reachable_holds [OF net "from" plain] unfolding explained_def result by blast
  next
    case down: True
    have "\<exists>n p m. set (handleNodeFailed n (Not (NodeVar n)) p m) \<subseteq> set (srReasons result) \<and> plainName n \<and> NodeFailed ?ctx n"
    proof (cases "NodeFailed ?ctx from")
      case True
      have "set (handleNodeFailed from (Not (NodeVar from)) \<lparr>pathNodes = [from], pathLinks = [], pathCost = 0\<rparr> ''source node is down'')
          \<subseteq> set (srReasons result)"
        unfolding result symbolicPacketReachabilityForPrefixSet_def Let_def by simp
      then show ?thesis using True names by (simp only: list.pred_inject plain_NodeVar) blast
    next
      case False
      have "dstNode \<in> set (originNodesForPrefixSetVRF dp ?vrf (ExactPrefixSet dst))"
        by (rule origin_listed [OF net origin])
      moreover have "dstNode \<noteq> from" using down False by auto
      ultimately have "set (handleNodeFailed dstNode (Not (NodeVar dstNode)) \<lparr>pathNodes = [from], pathLinks = [], pathCost = 0\<rparr>
          ''destination node is down'') \<subseteq> set (srReasons result)"
        unfolding result symbolicPacketReachabilityForPrefixSet_def Let_def by auto
      then show ?thesis using down False names by (simp only: list.pred_inject plain_NodeVar) blast
    qed
    then show ?thesis using node_reason by blast
  qed
qed

section \<open>Examples\<close>

text \<open>Two routers and a link; the second one originates a prefix.\<close>

definition originNode :: "string \<Rightarrow> prefix \<Rightarrow> node" where
  "originNode n p = zeroNode\<lparr>nodeName := n, nodePrefixes := [p]\<rparr>"

definition exampleNet :: "prefix \<Rightarrow> topology" where
  "exampleNet p = \<lparr>topoName = ''lab'', topoManagementSubnet = [],
     topoNodes = [zeroNode\<lparr>nodeName := ''a''\<rparr>, originNode ''b'' p],
     topoLinks = [exampleLink], topoACLs = [], topoACLBindings = []\<rparr>"

definition netDataplane :: "prefix \<Rightarrow> topology_index \<Rightarrow> fib \<Rightarrow> dataplane" where
  "netDataplane p idx fib = \<lparr>dpIdx = idx, dpRIB = [], dpFIB = fib, dpProfiles = builtinProfiles, dpOrder = topoNodes (exampleNet p)\<rparr>"

lemma exampleNet_built: "\<exists>idx. BuildTopologyIndex (exampleNet p) = Inr idx"
proof -
  have "indexable (exampleNet p)"
    by (simp add: indexable_def exampleNet_def originNode_def exampleLink_def)
  then show ?thesis using BuildTopologyIndex_spec [of "exampleNet p"] by (cases "BuildTopologyIndex (exampleNet p)") auto
qed

lemma exampleNet_usable:
  assumes "BuildTopologyIndex (exampleNet p) = Inr idx" "plainFIB fib" "withoutZone (pfxAddr p) = pfxAddr p"
  shows "usableNet (exampleNet p) (netDataplane p idx fib)"
  using assms by (simp add: usableNet_def builtFrom_def netDataplane_def plainTopology_def exampleNet_def originNode_def
      exampleLink_def plainName_def zeroNode_def)

lemma exampleNet_nodes:
  assumes "BuildTopologyIndex (exampleNet p) = Inr idx"
  shows "idxNodes idx ''a'' = Some (zeroNode\<lparr>nodeName := ''a''\<rparr>)" "idxNodes idx ''b'' = Some (originNode ''b'' p)"
    "LinkBetween idx ''a'' ''b'' = Some exampleLink" "idxLinks idx ''a-b'' = Some exampleLink"
proof -
  have spec: "nodesIndexed (topoNodes (exampleNet p)) idx" "linksIndexed (topoLinks (exampleNet p)) idx"
    using BuildTopologyIndex_spec [of "exampleNet p"] assms by simp_all
  then show "idxNodes idx ''a'' = Some (zeroNode\<lparr>nodeName := ''a''\<rparr>)" "idxNodes idx ''b'' = Some (originNode ''b'' p)"
    "idxLinks idx ''a-b'' = Some exampleLink"
    by (simp_all add: nodesIndexed_def linksIndexed_def exampleNet_def originNode_def exampleLink_def)
  have "linkPair exampleLink = NewEndpointPair ''a'' ''b''" by (simp add: linkPair_def exampleLink_def)
  then show "LinkBetween idx ''a'' ''b'' = Some exampleLink"
    using spec(2) unfolding linksIndexed_def LinkBetween_def by (metis exampleNet_def list.set_intros(1) topology.select_convs(4))
qed

lemma exampleNet_origin:
  assumes "parseAddr to = Some ip" "pfxContains p ip"
  shows "originForIPVRF (netDataplane p idx fib) to NetworkInstanceDefault = Some (''b'', p)"
proof -
  have "nodePrefixesVRF (originNode ''b'' p) NetworkInstanceDefault = [p]" "nodePrefixesVRF (zeroNode\<lparr>nodeName := ''a''\<rparr>) NetworkInstanceDefault = []"
    by (simp_all add: nodePrefixesVRF_def originNode_def zeroNode_def NormalizeNetworkInstance_def List.map_filter_simps)
  moreover have "nodeName (originNode ''b'' p) = ''b''" by (simp add: originNode_def)
  ultimately show ?thesis using assms by (simp add: originForIPVRF_def netDataplane_def exampleNet_def)
qed

lemma exampleEntry_hop: "feNextHop (exampleEntry p c) = ''b''" "feDiscard (exampleEntry p c) = False"
  by (simp_all add: exampleEntry_def fibEntryFor_def exampleStatic_def Normalize_def zeroRIBEntry_def Let_def)

lemma plainFIB_two: "plainFIB exampleTwoRoutes"
  by (simp add: plainFIB_def exampleTwoRoutes_def plainFIBEntry_def exampleEntry exampleEntry_hop condOrTrue_def LinkVar_def plainName_def)

lemma isolated_two: "isolated (netDataplane exampleNarrow idx exampleTwoRoutes) (NormalizeNetworkInstance NetworkInstanceDefault) exampleNarrow ''10.1.2.3''"
proof -
  have contains: "pfxContains exampleNarrow (IPv4 0x0A010203)" "pfxContains exampleWide (IPv4 0x0A010203)"
    and same: "PrefixFromNetIP exampleNarrow = exampleNarrow" "PrefixFromNetIP exampleWide = exampleWide"
    and over: "AddressSpaceOverlaps (ExactPrefixSet exampleNarrow) (ExactPrefixSet exampleNarrow)"
      "AddressSpaceOverlaps (ExactPrefixSet exampleWide) (ExactPrefixSet exampleNarrow)" "\<not> prefixIsZero exampleNarrow"
    by (simp_all add: exampleNarrow_def exampleWide_def prefix_eval prefixOverlaps_def PrefixFromNetIP_def)
  have "nodePrefixesVRF (originNode ''b'' exampleNarrow) (NormalizeNetworkInstance NetworkInstanceDefault) = [exampleNarrow]"
    "nodePrefixesVRF (zeroNode\<lparr>nodeName := ''a''\<rparr>) (NormalizeNetworkInstance NetworkInstanceDefault) = []"
    by (simp_all add: nodePrefixesVRF_def originNode_def zeroNode_def NormalizeNetworkInstance_def List.map_filter_simps)
  then show ?thesis
    using contains same over parseAddr_example
    by (simp add: isolated_def netDataplane_def exampleNet_def exampleTwoRoutes_def exampleEntry del: AddressSpaceOverlaps.simps)
qed

theorem SymbolicPacketReachability_parity_witness:
  "\<exists>idx. BuildTopologyIndex (exampleNet exampleNarrow) = Inr idx \<and>
    (evalCond (FailureContext idx (NewSet [] [''b'']))
       (srReachable (SymbolicPacketReachability (netDataplane exampleNarrow idx exampleTwoRoutes) ''a'' ''10.1.2.3'' ''tcp''))
     \<longleftrightarrow> (\<exists>p reason. PacketReachable 3 (netDataplane exampleNarrow idx exampleTwoRoutes) ''a'' ''10.1.2.3'' ''tcp'' (NewSet [] [''b''])
           = Some (p, True, reason)))"
proof -
  obtain idx where idx: "BuildTopologyIndex (exampleNet exampleNarrow) = Inr idx" using exampleNet_built ..
  let ?dp = "netDataplane exampleNarrow idx exampleTwoRoutes"
  have "usableNet (exampleNet exampleNarrow) ?dp"
    by (rule exampleNet_usable [OF idx plainFIB_two]) (simp add: exampleNarrow_def)
  moreover have "originForIPVRF ?dp ''10.1.2.3'' NetworkInstanceDefault = Some (''b'', exampleNarrow)"
    by (rule exampleNet_origin [OF parseAddr_example]) (simp add: exampleNarrow_def prefix_eval)
  moreover have "idxNodes (dpIdx ?dp) ''a'' \<noteq> None" using exampleNet_nodes(1) [OF idx] by (simp add: netDataplane_def)
  moreover have "length (topoNodes (exampleNet exampleNarrow)) < 3" by (simp add: exampleNet_def)
  ultimately have "evalCond (FailureContext (dpIdx ?dp) (NewSet [] [''b''])) (srReachable (SymbolicPacketReachability ?dp ''a'' ''10.1.2.3'' ''tcp''))
     \<longleftrightarrow> (\<exists>p reason. PacketReachable 3 ?dp ''a'' ''10.1.2.3'' ''tcp'' (NewSet [] [''b'']) = Some (p, True, reason))"
    using SymbolicPacketReachability_parity isolated_two
    unfolding SymbolicPacketReachability_def SymbolicPacketReachabilitySpec_def PacketReachable_def PacketReachableSpec_def by blast
  then have "evalCond (FailureContext idx (NewSet [] [''b''])) (srReachable (SymbolicPacketReachability ?dp ''a'' ''10.1.2.3'' ''tcp''))
     \<longleftrightarrow> (\<exists>p reason. PacketReachable 3 ?dp ''a'' ''10.1.2.3'' ''tcp'' (NewSet [] [''b'']) = Some (p, True, reason))"
    by (simp add: netDataplane_def)
  with idx show ?thesis by blast
qed

theorem SymbolicPacketReachability_explains_witness:
  "\<exists>idx. BuildTopologyIndex (exampleNet exampleNarrow) = Inr idx \<and>
    (let result = SymbolicPacketReachability (netDataplane exampleNarrow idx exampleTwoRoutes) ''a'' ''10.1.2.3'' ''tcp'';
         F = NewSet [] [''b'']
     in evalCond (FailureContext idx F) (srReachable result)
        \<or> (\<exists>r \<in> set (srReasons result). evalCond (FailureContext idx F) (urCond r)))"
proof -
  obtain idx where idx: "BuildTopologyIndex (exampleNet exampleNarrow) = Inr idx" using exampleNet_built ..
  let ?dp = "netDataplane exampleNarrow idx exampleTwoRoutes"
  have "usableNet (exampleNet exampleNarrow) ?dp"
    by (rule exampleNet_usable [OF idx plainFIB_two]) (simp add: exampleNarrow_def)
  moreover have "idxNodes (dpIdx ?dp) ''a'' \<noteq> None" using exampleNet_nodes(1) [OF idx] by (simp add: netDataplane_def)
  ultimately have "evalCond (FailureContext (dpIdx ?dp) (NewSet [] [''b''])) (srReachable (SymbolicPacketReachability ?dp ''a'' ''10.1.2.3'' ''tcp''))
      \<or> (\<exists>r \<in> set (srReasons (SymbolicPacketReachability ?dp ''a'' ''10.1.2.3'' ''tcp'')). evalCond (FailureContext (dpIdx ?dp) (NewSet [] [''b''])) (urCond r))"
    using SymbolicPacketReachability_explains [OF _ _ refl]
    unfolding SymbolicPacketReachability_def SymbolicPacketReachabilitySpec_def by blast
  then show ?thesis using idx unfolding Let_def by (auto simp: netDataplane_def)
qed

section \<open>A more specific entry hides the rest of the prefix\<close>

definition hiddenEntries :: "fib_entry list" where
  "hiddenEntries = [(exampleEntry exampleNarrow TrueC)\<lparr>feDiscard := True\<rparr>, exampleEntry exampleWide (LinkVar ''a-b'')]"

definition hiddenFIB :: fib where
  "hiddenFIB = [((''a'', NetworkInstanceDefault), hiddenEntries)]"

lemma plainFIB_hidden: "plainFIB hiddenFIB"
  by (simp add: plainFIB_def hiddenFIB_def hiddenEntries_def plainFIBEntry_def exampleEntry exampleEntry_hop condOrTrue_def
      LinkVar_def plainName_def)

lemma hidden_groups: "groupAt hiddenEntries 0 \<noteq> groupAt hiddenEntries 1"
proof
  have str: "prefixString exampleNarrow = pfxStr exampleNarrow" "prefixString exampleWide = pfxStr exampleWide"
    by (simp_all add: exampleNarrow_def exampleWide_def prefix_eval prefixString_def)
  assume "groupAt hiddenEntries 0 = groupAt hiddenEntries 1"
  then have "pfxStr exampleNarrow @ (''#'' @ natStr 0 @ ''#'') @ pfxStr exampleNarrow @ (''#rank-'' @ natStr 0)
      = pfxStr exampleWide @ (''#'' @ natStr 0 @ ''#'') @ pfxStr exampleWide @ (''#rank-'' @ natStr 0)"
    by (simp add: groupAt_def fibCandidateGroupKey_def hiddenEntries_def exampleEntry str)
  then have "pfxStr exampleNarrow = pfxStr exampleWide" by (rule twice_append_inject)
  then show False using examplePrefixes_differ str by simp
qed

lemma hidden_bucket: "fibBucket hiddenFIB ''a'' (NormalizeNetworkInstance NetworkInstanceDefault) = hiddenEntries"
  by (simp add: fibBucket_def hiddenFIB_def NormalizeNetworkInstance_def)

lemma hidden_sorted: "fibSorted hiddenEntries"
  by (simp add: fibSorted_def fibEntryLess_def hiddenEntries_def exampleEntry exampleNarrow_def exampleWide_def)

lemma hidden_set_candidates:
  "candidatesFor (netDataplane exampleWide idx hiddenFIB) ''a'' (NormalizeNetworkInstance NetworkInstanceDefault) (ExactPrefixSet exampleWide)
    = symbolicLookupFIBEntries idx hiddenEntries"
proof -
  have norm: "NormalizeNetworkInstance (NormalizeNetworkInstance NetworkInstanceDefault) = NormalizeNetworkInstance NetworkInstanceDefault"
    by (simp add: NormalizeNetworkInstance_def)
  have "AddressSpaceOverlaps (ExactPrefixSet (PrefixFromNetIP p)) (ExactPrefixSet exampleWide)" if "p \<in> {exampleNarrow, exampleWide}" for p
    using that by (auto simp: exampleNarrow_def exampleWide_def prefix_eval prefixOverlaps_def PrefixFromNetIP_def)
  then have all: "filter (\<lambda>x. AddressSpaceOverlaps (ExactPrefixSet (PrefixFromNetIP (fePrefix x))) (ExactPrefixSet exampleWide)) hiddenEntries
      = hiddenEntries" by (simp add: hiddenEntries_def exampleEntry del: AddressSpaceOverlaps.simps)
  have "sorted_wrt (\<lambda>a b. \<not> prefixAndRankLess b a) hiddenEntries"
    by (rule sorted_wrt_mono_rel [OF _ hidden_sorted [unfolded fibSorted_def]]) (blast dest: prefixAndRankLess_weaker)
  then have "sortFIBEntriesByPrefixAndRank hiddenEntries = hiddenEntries"
    unfolding sortFIBEntriesByPrefixAndRank_def by (rule sortSlice_sorted)
  then show ?thesis
    unfolding candidatesFor_def SymbolicLookupFIBForPrefixSetVRF_def matchingFIBEntriesForPrefixSet_def option.case norm
    by (simp add: netDataplane_def hidden_bucket all del: AddressSpaceOverlaps.simps)
qed

lemma parseAddr_hidden: "parseAddr ''10.2.0.1'' = Some (IPv4 0x0A020001)"
  by (simp add: parseAddr_def parse4_def parseOctet_def plainNumber_def isDigit_def digitVal_def decVal_def word4_def)

lemma hidden_unreachable:
  assumes "BuildTopologyIndex (exampleNet exampleWide) = Inr idx"
  shows "\<not> evalCond (FailureContext idx F) (srReachable (SymbolicPacketReachability (netDataplane exampleWide idx hiddenFIB) ''a'' ''10.2.0.1'' ''tcp''))"
proof -
  let ?dp = "netDataplane exampleWide idx hiddenFIB" and ?vrf = "NormalizeNetworkInstance NetworkInstanceDefault"
  let ?c = "And [NodeVar ''a'', NodeVar ''b'']" and ?set = "ExactPrefixSet exampleWide"
  let ?st = "startState ?dp ''a'' ?set (emptySpec\<lparr>Protocol := ''tcp''\<rparr>) ?c" and ?max = "length (dpOrder ?dp)"
  have idx: "dpIdx ?dp = idx" by (simp add: netDataplane_def)
  have net: "usableNet (exampleNet exampleWide) ?dp"
    by (rule exampleNet_usable [OF assms plainFIB_hidden]) (simp add: exampleWide_def)
  have origin: "originForIPVRF ?dp ''10.2.0.1'' NetworkInstanceDefault = Some (''b'', exampleWide)"
    by (rule exampleNet_origin [OF parseAddr_hidden]) (simp add: exampleWide_def prefix_eval)
  have a: "idxNodes (dpIdx ?dp) ''a'' \<noteq> None" using exampleNet_nodes(1) [OF assms] by (simp add: idx)
  have plain: "plainCond ?c" by (rule plain_And) (simp add: plainName_def)
  have "\<not> holds ?dp F (sppCond p)" if p: "p \<in> set (foPaths (symbolicForward ?dp ?vrf ?set ?max [] [] ?st))" for p
  proof
    assume F: "holds ?dp F (sppCond p)"
    obtain out e where entry: "forwardEntry ?dp ?vrf ?set ?max [] [] ?st = (out, e)" by force
    have no: "\<not> originatesPrefixSetVRF ?dp ''a'' ?vrf ?set"
      using exampleNet_nodes(1) [OF assms]
      by (simp add: originatesPrefixSetVRF_def idx originates_def nodePrefixesVRF_def zeroNode_def List.map_filter_simps)
    show False
    proof (cases e)
      case None
      then have "foPaths out = []"
        using entry no by (auto simp: forwardEntry_def startState_def emptyOut_def Let_def split: if_splits option.splits)
      then have "foPaths (symbolicForward ?dp ?vrf ?set ?max [] [] ?st) = []"
        using symbolicForward_end [OF entry [unfolded None]] by simp
      then show False using p by simp
    next
      case (Some e')
      obtain n packet cs where e': "e' = (n, packet, cs)" by (cases e') auto
      note entry' = entry [unfolded Some e'] 
      note facts = forwardEntry_loop [OF entry']
      have cs: "cs = symbolicLookupFIBEntries idx hiddenEntries"
        using facts(5) hidden_set_candidates [of idx] by (simp add: startState_def)
      obtain c where c: "c \<in> set cs" "p \<in> set (foPaths (roundOut ?dp ?vrf ?set ?max [] [] ?st n packet c))"
        using p symbolicForward_loop(1) [OF entry'] facts(6) by auto
      have st: "plainCond (ssCond ?st)" using plain by (simp add: startState_def)
      have pc: "plainCond (fcCond c)" using candidate_plain(1) [OF net] c(1) facts(5) by blast
      obtain o1 st' where r: "candidateRound ?dp ?st n packet c = (o1, Some st')" "holds ?dp F (ssCond st')"
        using round_path_needs_state [OF net st pc c(2) F] by blast
      obtain l where l: "LinkBetween (dpIdx ?dp) (ssNode ?st) (ssNode st') = Some l" "\<not> feDiscard (fcEntry c)"
        using r(1) by (rule candidateRound_Some)
      have live: "holds ?dp F (fcCond c)" using nextCond_plain(2) [OF net r(1) st pc l(1)] r(2) by blast
      obtain i where i: "i < 2" "c = symbolicLookupFIBEntries idx hiddenEntries ! i"
        using c(1) unfolding cs by (auto simp: in_set_conv_nth hiddenEntries_def numeral_2_eq_2)
      have "list_all plainFIBEntry hiddenEntries"
        by (simp add: hiddenEntries_def plainFIBEntry_def exampleEntry condOrTrue_def LinkVar_def plainName_def)
      then have ok: "candidateOK idx hiddenEntries i c"
        using candidates_exact [of idx hiddenEntries i] usable_plainLinks [OF net] i by (simp add: idx hiddenEntries_def)
      then have "fcEntry c = hiddenEntries ! i" by (simp add: candidateOK_def)
      then have "i = 1" using l(2) i(1) by (auto simp: hiddenEntries_def numeral_2_eq_2 less_Suc_eq)
      then have "\<not> entryAlive idx F (hiddenEntries ! 0)"
        using ok live hidden_groups denotes_eval [of "idxLinks idx" "fcCond c" _ F]
        by (auto simp: candidateOK_def FailureContext_def idx)
      then show False by (simp add: entryAlive_def hiddenEntries_def exampleEntry condOrTrue_def)
    qed
  qed
  then have "\<not> holds ?dp F (srReachable (symbolicPacketReachabilityForPrefixSet ?dp ''a'' ?vrf ?set (emptySpec\<lparr>Protocol := ''tcp''\<rparr>) ?c))"
    using reachable_holds [OF net a plain] by blast
  then show ?thesis
    using a by (auto simp: SymbolicPacketReachability_def SymbolicPacketReachabilitySpec_def SymbolicPacketReachabilitySpecVRF_def origin idx)
qed

lemma hidden_address_candidates:
  "SymbolicLookupFIBVRF idx hiddenFIB ''a'' NetworkInstanceDefault ''10.2.0.1''
    = [\<lparr>fcEntry = exampleEntry exampleWide (LinkVar ''a-b''), fcCond = expandLinkVars idx (LinkVar ''a-b'')\<rparr>]"
proof -
  have "pfxContains exampleWide (IPv4 0x0A020001)" "\<not> pfxContains exampleNarrow (IPv4 0x0A020001)"
    by (simp_all add: exampleNarrow_def exampleWide_def prefix_eval)
  then have "matchingFIBEntries hiddenEntries (IPv4 0x0A020001) = [exampleEntry exampleWide (LinkVar ''a-b'')]"
    unfolding matchingFIBEntries_sorted [OF hidden_sorted] by (simp add: hiddenEntries_def exampleEntry)
  then show ?thesis
    by (simp add: SymbolicLookupFIBVRF_def parseAddr_hidden hidden_bucket symbolicLookupFIBEntries_def candidateStep_def
        exampleEntry condOrTrue_def Let_def)
qed

lemma hidden_reached:
  assumes built: "BuildTopologyIndex (exampleNet exampleWide) = Inr idx"
  shows "\<exists>p. PacketReachable 3 (netDataplane exampleWide idx hiddenFIB) ''a'' ''10.2.0.1'' ''tcp'' noFailures = Some (p, True, [])"
proof -
  let ?dp = "netDataplane exampleWide idx hiddenFIB" and ?ctx = "FailureContext idx noFailures"
  have idx: "dpIdx ?dp = idx" "dpFIB ?dp = hiddenFIB" by (simp_all add: netDataplane_def)
  have nodes: "\<not> NodeFailed ?ctx n" for n by (simp add: NodeFailed_def FailureContext_def noFailures_def)
  have links: "\<not> LinkFailed ?ctx n" for n by (simp add: LinkFailed_def FailureContext_def noFailures_def split: option.splits)
  have origin: "originForIPVRF ?dp ''10.2.0.1'' NetworkInstanceDefault = Some (''b'', exampleWide)"
    by (rule exampleNet_origin [OF parseAddr_hidden]) (simp add: exampleWide_def prefix_eval)
  have permit: "\<not> pdDenied (dataACLDecision ?dp n pkt stage)" for n pkt stage
    using built_topology [OF built]
    by (simp add: dataACLDecision_def EvaluateDataACL_def idx exampleNet_def noDecision_def Let_def)
  have org: "originatesVRF ?dp ''b'' NetworkInstanceDefault exampleWide" "\<not> originatesVRF ?dp ''a'' NetworkInstanceDefault exampleWide"
    using exampleNet_nodes [OF built]
    by (simp_all add: originatesVRF_def idx nodePrefixesVRF_def originNode_def zeroNode_def NormalizeNetworkInstance_def List.map_filter_simps)
  have net: "usableNet (exampleNet exampleWide) ?dp"
    by (rule exampleNet_usable [OF built plainFIB_hidden]) (simp add: exampleWide_def)
  have "LinkBetween (dpIdx ?dp) ''a'' ''b'' = Some exampleLink" using exampleNet_nodes(3) [OF built] by (simp add: idx)
  then have "evalCond ?ctx (linkUpCond idx exampleLink)" using linkUp_holds(2) [OF net] links unfolding idx by blast
  then have "evalCond ?ctx (expandLinkVars idx (LinkVar ''a-b''))" by (simp add: linkUpCond_def exampleLink_def)
  moreover have status: "effectiveResolutionStatus (exampleEntry exampleWide c) \<noteq> NextHopResolutionUnresolvedRecursive"
    "effectiveResolutionStatus (exampleEntry exampleWide c) \<noteq> NextHopResolutionManagementFallback" for c
    by (simp_all add: effectiveResolutionStatus_def exampleEntry_def fibEntryFor_def exampleStatic_def nextHopResolution_def Let_def)
  ultimately show ?thesis
    using exampleNet_nodes(3) [OF built] nodes links origin permit org
    by (simp add: PacketReachable_def PacketReachableSpec_def PacketReachableSpecVRF_def packetReachableFrom.simps numeral_3_eq_3
        idx hidden_address_candidates tryPacketCandidate_def nextPacketState_def exampleEntry_hop NormalizeNetworkInstance_def Let_def)
qed

text \<open>
  C36 (a more specific entry hides the rest of the prefix). Router \<open>a\<close> has a route to \<open>10.0.0.0/8\<close>, which
  its neighbour originates, and discards \<open>10.1.0.0/16\<close>. A packet to \<open>10.2.0.1\<close> arrives in the
  simulation when nothing fails, but its symbolic condition \<open>Reachable\<close> is false under every set of
  failures: the symbolic walk looks up the whole destination prefix, and the entry inside it, which the
  address does not match, takes precedence.
\<close>

theorem packet_parity_fails_inside_prefix:
  "\<exists>idx. BuildTopologyIndex (exampleNet exampleWide) = Inr idx
    \<and> (\<exists>p. PacketReachable 3 (netDataplane exampleWide idx hiddenFIB) ''a'' ''10.2.0.1'' ''tcp'' noFailures = Some (p, True, []))
    \<and> (\<forall>F. \<not> evalCond (FailureContext idx F)
          (srReachable (SymbolicPacketReachability (netDataplane exampleWide idx hiddenFIB) ''a'' ''10.2.0.1'' ''tcp'')))"
  using exampleNet_built hidden_reached hidden_unreachable by metis

end
