(* ===== verification/Sim.thy ===== *)
theory Sim
  imports Symbolic_Packets Solver
begin

text \<open>
  \<open>internal/engine/sim/sim.go\<close>: the simulated network as one object, the
  targets a user asks about, and the search for failures that break a target. A graph is never \<open>nil\<close>.
  The registry of device profiles and the order in which a run visits the nodes of a map are
  fields of the graph; a solver backend returns an answer and an error, as in Go.
\<close>

section \<open>The graph\<close>

type_synonym sim_backend = "failure_problem \<Rightarrow> solver_answer \<times> go_error option"

record graph =
  gTopo :: topology
  gIdx :: topology_index
  gRIB :: rib
  gFIB :: fib
  gSolver :: "sim_backend option"
  gMaxFailures :: int
  gProfiles :: profile_registry
  gOrder :: "node list"

definition WithSolverBackend :: "sim_backend \<Rightarrow> graph \<Rightarrow> graph" where
  "WithSolverBackend b g = g\<lparr>gSolver := Some b\<rparr>"

definition WithMaxFailures :: "int \<Rightarrow> graph \<Rightarrow> graph" where
  "WithMaxFailures n g = g\<lparr>gMaxFailures := n\<rparr>"

definition DataplaneEngine :: "graph \<Rightarrow> dataplane" where
  "DataplaneEngine g = \<lparr>dpIdx = gIdx g, dpRIB = gRIB g, dpFIB = gFIB g, dpProfiles = gProfiles g, dpOrder = gOrder g\<rparr>"

definition RIBVRF :: "graph \<Rightarrow> string \<Rightarrow> string \<Rightarrow> prefix \<Rightarrow> rib_entry list" where
  "RIBVRF g n vrf p = bucket (gRIB g) (n, NormalizeNetworkInstance vrf, p)"

definition RIB :: "graph \<Rightarrow> string \<Rightarrow> prefix \<Rightarrow> rib_entry list" where
  "RIB g n p = RIBVRF g n NetworkInstanceDefault p"

definition RIBTableVRF :: "graph \<Rightarrow> string \<Rightarrow> string \<Rightarrow> (prefix \<times> rib_entry list) list" where
  "RIBTableVRF g n vrf =
     List.map_filter (\<lambda>((m, v, p), routes). if m = n \<and> v = NormalizeNetworkInstance vrf then Some (p, routes) else None) (gRIB g)"

definition RIBTable :: "graph \<Rightarrow> string \<Rightarrow> (prefix \<times> rib_entry list) list" where
  "RIBTable g n = RIBTableVRF g n NetworkInstanceDefault"

definition FIBVRF :: "graph \<Rightarrow> string \<Rightarrow> string \<Rightarrow> fib_entry list" where
  "FIBVRF g n vrf = fibBucket (gFIB g) n (NormalizeNetworkInstance vrf)"

definition FIB :: "graph \<Rightarrow> string \<Rightarrow> fib_entry list" where
  "FIB g n = FIBVRF g n NetworkInstanceDefault"

definition FIBTables :: "graph \<Rightarrow> string \<Rightarrow> (string \<times> fib_entry list) list" where
  "FIBTables g n = List.map_filter (\<lambda>((m, v), es). if m = n then Some (v, es) else None) (gFIB g)"

definition graphContext :: "graph \<Rightarrow> fail_set \<Rightarrow> fail_context" where
  "graphContext g failures = FailureContext (dpIdx (DataplaneEngine g)) failures"

text \<open>The fuel that a trace of a packet needs: more than there are nodes.\<close>

definition traceFuel :: "graph \<Rightarrow> nat" where
  "traceFuel g = length (topoNodes (gTopo g)) + 1"

definition FormatPath :: "path \<Rightarrow> string" where
  "FormatPath p = (if length (pathNodes p) = 0 then [] else join '' -> '' (pathNodes p) @ '' cost='' @ itoa (pathCost p))"

section \<open>Targets\<close>

datatype target =
    PrefixTarget string
  | RoutePrefixSetTarget "prefix_set option" string
  | RouteClassTarget prefix_universe int string
  | PacketTarget string string int string
  | PacketPrefixTarget prefix string int string
  | PacketClassTarget prefix_universe int string int string
  | HeaderPacketClassTarget packet_class

record target_result =
  trReachable :: cond
  trUnreachable :: cond
  trReason :: string

definition targetSpec :: "string \<Rightarrow> int \<Rightarrow> packet_spec" where
  "targetSpec protocol port = emptySpec\<lparr>Protocol := protocol, DstPort := ExactPort port\<rparr>"

definition packetSymbolicTargetResult :: "symbolic_result \<Rightarrow> target_result" where
  "packetSymbolicTargetResult r = \<lparr>trReachable = srReachable r, trUnreachable = srUnreachable r, trReason = srReason r\<rparr>"

definition routeSymbolicTargetResult :: "symbolic_route_result \<Rightarrow> target_result" where
  "routeSymbolicTargetResult r = \<lparr>trReachable = srrReachable r, trUnreachable = srrUnreachable r, trReason = srrReason r\<rparr>"

definition classReachability :: "graph \<Rightarrow> string \<Rightarrow> prefix_universe \<Rightarrow> int \<Rightarrow> string \<Rightarrow> int \<Rightarrow> string \<Rightarrow> symbolic_result" where
  "classReachability g from universe classID protocol port vrf =
     (case List.find (\<lambda>c. pclID c = classID) (puClasses universe) of
        None \<Rightarrow> noReach ''prefix class not found''
      | Some c \<Rightarrow> SymbolicPacketReachabilityForPrefixSetSpecVRF (DataplaneEngine g) from vrf (Some (pclSpace c)) (targetSpec protocol port))"

text \<open>\<open>SymbolicResult\<close> and \<open>Reachable\<close> of the seven types of targets.\<close>

fun SymbolicResult :: "target \<Rightarrow> graph \<Rightarrow> string \<Rightarrow> target_result" where
  "SymbolicResult (PrefixTarget p) g from = routeSymbolicTargetResult (SymbolicRouteReachability (DataplaneEngine g) from p)"
| "SymbolicResult (RoutePrefixSetTarget space vrf) g from =
     routeSymbolicTargetResult (SymbolicRouteReachabilityForPrefixSetVRF (DataplaneEngine g) from vrf space)"
| "SymbolicResult (RouteClassTarget universe classID vrf) g from =
     routeSymbolicTargetResult (SymbolicRouteReachabilityForClassVRF (DataplaneEngine g) from vrf universe classID)"
| "SymbolicResult (PacketTarget to protocol port vrf) g from =
     packetSymbolicTargetResult (SymbolicPacketReachabilitySpecVRF (DataplaneEngine g) from vrf to (targetSpec protocol port))"
| "SymbolicResult (PacketPrefixTarget p protocol port vrf) g from =
     packetSymbolicTargetResult (SymbolicPacketReachabilityForPrefixSetSpecVRF (DataplaneEngine g) from vrf
       (Some (ExactPrefixSet p)) (targetSpec protocol port))"
| "SymbolicResult (PacketClassTarget universe classID protocol port vrf) g from =
     packetSymbolicTargetResult (classReachability g from universe classID protocol port vrf)"
| "SymbolicResult (HeaderPacketClassTarget c) g from =
     packetSymbolicTargetResult (SymbolicPacketReachabilityForPacketClass (DataplaneEngine g) from c)"

definition arrived :: "packet_result option \<Rightarrow> bool" where
  "arrived r = (case r of Some (_, ok, _) \<Rightarrow> ok | None \<Rightarrow> False)"

fun TargetReachable :: "target \<Rightarrow> graph \<Rightarrow> string \<Rightarrow> fail_set \<Rightarrow> bool" where
  "TargetReachable (PrefixTarget p) g from failures = snd (RouteReachable (DataplaneEngine g) from p failures)"
| "TargetReachable (RoutePrefixSetTarget space vrf) g from failures =
     snd (RouteReachableForPrefixSetVRF (DataplaneEngine g) from vrf space failures)"
| "TargetReachable (RouteClassTarget universe classID vrf) g from failures =
     evalCond (graphContext g failures) (srrReachable (SymbolicRouteReachabilityForClassVRF (DataplaneEngine g) from vrf universe classID))"
| "TargetReachable (PacketTarget to protocol port vrf) g from failures =
     arrived (PacketReachableSpecVRF (traceFuel g) (DataplaneEngine g) from vrf to (targetSpec protocol port) failures)"
| "TargetReachable (PacketPrefixTarget p protocol port vrf) g from failures =
     (if prefixIsZero p then False
      else arrived (PacketReachableSpecVRF (traceFuel g) (DataplaneEngine g) from vrf (addrStr (pfxAddr p)) (targetSpec protocol port) failures))"
| "TargetReachable (PacketClassTarget universe classID protocol port vrf) g from failures =
     evalCond (graphContext g failures) (srReachable (classReachability g from universe classID protocol port vrf))"
| "TargetReachable (HeaderPacketClassTarget c) g from failures =
     evalCond (graphContext g failures) (srReachable (SymbolicPacketReachabilityForPacketClass (DataplaneEngine g) from c))"

section \<open>The search\<close>

record solver_trace =
  stBackend :: string
  stElements :: int
  stMaxFailures :: int

record search_result =
  frSat :: bool
  frFailures :: "failure_element list"
  frSolver :: solver_trace

definition failureElements :: "graph \<Rightarrow> search_options \<Rightarrow> failure_element list" where
  "failureElements g opts =
     (if \<not> IncludeLinkElements opts \<and> \<not> IncludeNodeElements opts then [] else SearchElements (gTopo g) opts)"

definition symbolicFailureProblem :: "graph \<Rightarrow> string \<Rightarrow> target \<Rightarrow> search_options \<Rightarrow> failure_element list \<Rightarrow> failure_problem" where
  "symbolicFailureProblem g from t opts elements =
     \<lparr>spElements = elements, spMaxFailures = MaxFailures opts, spGoal = BoolExpr (trUnreachable (SymbolicResult t g from))\<rparr>"

definition solveSymbolicFailureProblem :: "graph \<Rightarrow> failure_problem \<Rightarrow> solver_answer \<times> go_error option" where
  "solveSymbolicFailureProblem g p =
     (case gSolver g of
        None \<Rightarrow> (\<lparr>Sat = False, ansFailures = [], ansBackend = []\<rparr>,
                 Some (Errorf ''symbolic failure solver backend is not configured'' []))
      | Some b \<Rightarrow> b p)"

definition FindBreakingFailuresSymbolic ::
    "graph \<Rightarrow> string \<Rightarrow> target \<Rightarrow> search_options \<Rightarrow> search_result \<times> go_error option" where
  "FindBreakingFailuresSymbolic g from t opts =
     (let trace = \<lparr>stBackend = [], stElements = 0, stMaxFailures = MaxFailures opts\<rparr>
      in if MaxFailures opts < 0
         then (\<lparr>frSat = False, frFailures = [], frSolver = trace\<rparr>, Some (Errorf ''max failures must be non-negative'' []))
         else (let elements = failureElements g opts; trace1 = trace\<lparr>stElements := int (length elements)\<rparr>
               in if length elements = 0
                  then (\<lparr>frSat = False, frFailures = [], frSolver = trace1\<rparr>,
                        Some (Errorf ''failure search has no candidate failure elements'' []))
                  else (let (ans, err) = solveSymbolicFailureProblem g (symbolicFailureProblem g from t opts elements);
                            trace2 = (if ansBackend ans \<noteq> [] then trace1\<lparr>stBackend := ansBackend ans\<rparr> else trace1)
                        in (\<lparr>frSat = Sat ans, frFailures = ansFailures ans, frSolver = trace2\<rparr>, err))))"

text \<open>The type assertions of the next two functions succeed for every type of target in the code.\<close>

definition FindBreakingFailuresTargetSymbolic ::
    "graph \<Rightarrow> string \<Rightarrow> target \<Rightarrow> search_options \<Rightarrow> search_result \<times> go_error option" where
  "FindBreakingFailuresTargetSymbolic g from t opts = FindBreakingFailuresSymbolic g from t opts"

definition FindBreakingFailuresWithOptions ::
    "graph \<Rightarrow> string \<Rightarrow> target \<Rightarrow> search_options \<Rightarrow> failure_element list option" where
  "FindBreakingFailuresWithOptions g from t opts =
     (case FindBreakingFailuresSymbolic g from t opts of
        (result, err) \<Rightarrow> if err \<noteq> None \<or> \<not> frSat result then None else Some (frFailures result))"

definition FindBreakingFailures :: "graph \<Rightarrow> string \<Rightarrow> target \<Rightarrow> int \<Rightarrow> string list option" where
  "FindBreakingFailures g from t maxFailures =
     map_option (map (\<lambda>e. if feKind e = FailureLink then feName e else elementString e))
       (FindBreakingFailuresWithOptions g from t
          \<lparr>IncludeLinkElements = True, IncludeNodeElements = False, MaxFailures = maxFailures, SearchDomain = zeroFailureDomain\<rparr>)"

section \<open>Correctness of the search\<close>

text \<open>A backend of the code as a backend of \<open>Solver\<close>: the answer that comes with an error is ignored.\<close>

definition asBackend :: "sim_backend \<Rightarrow> go_error backend" where
  "asBackend b p = (case b p of (ans, None) \<Rightarrow> Inr ans | (_, Some e) \<Rightarrow> Inl e)"

lemma asBackend_Inr: "asBackend b p = Inr ans \<longleftrightarrow> b p = (ans, None)"
  by (auto simp: asBackend_def split: prod.splits option.splits)

lemma closed_Or: "list_all (closedCond dp) cs \<Longrightarrow> closedCond dp (Or cs)"
proof -
  assume cs: "list_all (closedCond dp) cs"
  then have plain: "list_all plainCond cs" by (simp add: closedCond_def list_all_iff)
  have "list_ex (evalCond \<lparr>Failures = F, LinksByName = Map.empty\<rparr>) cs = list_ex (holds dp F) cs" for F
    using cs by (auto simp: list_all_iff list_ex_iff closedCond_def)
  then show ?thesis using plain by (simp add: closedCond_def plain_Or Or_eval)
qed

lemma holds_Not: "closedCond dp c \<Longrightarrow> holds dp F (Not c) \<longleftrightarrow> \<not> holds dp F c"
  by (simp add: closedCond_def Not_eval)

lemma closed_const [simp]: "closedCond dp TrueC" "closedCond dp FalseC"
  by (simp_all add: closedCond_def)

text \<open>
  What the search needs of a target: the condition \<open>Unreachable\<close> means the same without the table
  of the links, and it holds exactly when the target is not reachable.
\<close>

definition exactTarget :: "graph \<Rightarrow> string \<Rightarrow> target \<Rightarrow> bool" where
  "exactTarget g from t \<longleftrightarrow> closedCond (DataplaneEngine g) (trUnreachable (SymbolicResult t g from))
     \<and> (\<forall>F. holds (DataplaneEngine g) F (trUnreachable (SymbolicResult t g from)) \<longleftrightarrow> \<not> TargetReachable t g from F)"

lemma dp_fields [simp]:
  "dpIdx (DataplaneEngine g) = gIdx g" "dpFIB (DataplaneEngine g) = gFIB g" "dpRIB (DataplaneEngine g) = gRIB g"
  by (simp_all add: DataplaneEngine_def)

lemma graphContext_eq: "graphContext g F = FailureContext (gIdx g) F"
  by (simp add: graphContext_def)

lemma reach_closed:
  assumes "usableNet topo dp" "idxNodes (dpIdx dp) from \<noteq> None" "closedCond dp c"
    and r: "r = symbolicPacketReachabilityForPrefixSet dp from vrf dst spec c"
  shows "closedCond dp (srReachable r)" "srUnreachable r = Not (srReachable r)"
proof -
  let ?paths = "foPaths (symbolicForward dp vrf dst (maxHopsFor dp) [] [] (startState dp from dst spec c))"
  have "closedCond dp (sppCond p)" if "p \<in> set ?paths" for p
    using path_conds_closed [OF assms(1) _ _ that] assms(3) indexed_plain [OF assms(1,2)] by (simp add: startState_def)
  then have "closedCond dp (Or (map sppCond ?paths))" by (intro closed_Or) (simp add: list_all_iff)
  then show "closedCond dp (srReachable r)" "srUnreachable r = Not (srReachable r)"
    by (simp_all add: r symbolicPacketReachabilityForPrefixSet_def Let_def startState_def)
qed

text \<open>Results whose two conditions are complements.\<close>

definition complements :: "dataplane \<Rightarrow> cond \<Rightarrow> cond \<Rightarrow> bool" where
  "complements dp r u \<longleftrightarrow> closedCond dp u \<and> (\<forall>F. holds dp F u \<longleftrightarrow> \<not> holds dp F r)"

lemma complements_Not: "closedCond dp r \<Longrightarrow> complements dp r (Not r)"
  by (simp add: complements_def closed_Not holds_Not)

lemma complements_const: "complements dp FalseC TrueC"
  by (simp add: complements_def)

lemma set_reach_complements:
  assumes "usableNet topo dp"
    and r: "r = SymbolicPacketReachabilityForPrefixSetSpecVRF dp from vrf dst spec"
  shows "complements dp (srReachable r) (srUnreachable r)"
proof -
  have "closedCond dp (NodeVar from)" if "idxNodes (dpIdx dp) from \<noteq> None"
    using closed_NodeVar indexed_plain [OF assms(1) that] by blast
  then show ?thesis
    using reach_closed [OF assms(1) _ _ refl, of "from" "NodeVar from"]
    by (auto simp: r SymbolicPacketReachabilityForPrefixSetSpecVRF_def complements_const noReach_def
        intro: complements_Not split: option.splits)
qed

lemma route_set_complements:
  assumes "usableNet topo dp"
    and r: "r = SymbolicRouteReachabilityForPrefixSetVRF dp from vrf dst"
  shows "complements dp (srrReachable r) (srrUnreachable r)"
    "list_all plainCond (map srpCond (srrPaths r))" "holds dp F (srrReachable r) \<longleftrightarrow> (\<exists>p \<in> set (srrPaths r). holds dp F (srpCond p))"
proof -
  define paths where "paths = candidateRoutePaths from (SymbolicLookupFIBForPrefixSetVRF (dpIdx dp) (dpFIB dp) from vrf dst)"
  have closed: "list_all (closedCond dp) (map srpCond paths)" if node: "idxNodes (dpIdx dp) from \<noteq> None"
  proof -
    have "closedCond dp (And [NodeVar from, fcCond c])"
      if "c \<in> set (SymbolicLookupFIBForPrefixSetVRF (dpIdx dp) (dpFIB dp) from vrf dst)" for c
    proof -
      have "dst \<noteq> None" using that
        by (cases dst) (auto simp: SymbolicLookupFIBForPrefixSetVRF_def matchingFIBEntriesForPrefixSet_def symbolicLookupFIBEntries_def)
      then have "closedCond dp (fcCond c)" using that candidate_closed [OF assms(1)] by (auto simp: candidatesFor_def)
      then show ?thesis using closed_NodeVar indexed_plain [OF assms(1) node] by (simp add: closed_And)
    qed
    then show ?thesis by (auto simp: paths_def candidateRoutePaths_def list_all_iff)
  qed
  then have plain: "list_all plainCond (map srpCond paths)" if "idxNodes (dpIdx dp) from \<noteq> None"
    using that by (auto simp: list_all_iff closedCond_def)
  have cases: "r = routeFailure ''destination prefix set is empty'' \<or> r = routeFailure ''source node not found''
      \<or> idxNodes (dpIdx dp) from \<noteq> None \<and> (\<exists>reason. r = routeResult paths reason)"
    by (auto simp: r SymbolicRouteReachabilityForPrefixSetVRF_def paths_def Let_def)
  show "complements dp (srrReachable r) (srrUnreachable r)"
    using cases closed_Or [OF closed] by (auto simp: routeFailure_def routeResult_def complements_const Let_def intro: complements_Not)
  show "list_all plainCond (map srpCond (srrPaths r))"
    using cases plain by (auto simp: routeFailure_def routeResult_def Let_def)
  show "holds dp F (srrReachable r) \<longleftrightarrow> (\<exists>p \<in> set (srrPaths r). holds dp F (srpCond p))"
    using cases plain by (auto simp: routeFailure_def routeResult_def Let_def Or_eval list_ex_iff)
qed

text \<open>
  The hypotheses a target needs. For a prefix, names of the routes that the encoding keeps apart; for
  an address, an advertised and isolated prefix. The conditions of a target given by a set of
  prefixes or by a class are exact as they are; a target given by a prefix of packets compares the
  whole prefix with its first address and is left out.
\<close>

fun supportedTarget :: "graph \<Rightarrow> string \<Rightarrow> target \<Rightarrow> bool" where
  "supportedTarget g from (PrefixTarget p) \<longleftrightarrow> plainRoutes (DataplaneEngine g)"
| "supportedTarget g from (PacketTarget to protocol port vrf) \<longleftrightarrow>
     (case originForIPVRF (DataplaneEngine g) to vrf of
        None \<Rightarrow> False
      | Some (_, dst) \<Rightarrow> isolated (DataplaneEngine g) (NormalizeNetworkInstance vrf) dst to)"
| "supportedTarget g from (PacketPrefixTarget p protocol port vrf) \<longleftrightarrow> False"
| "supportedTarget g from _ \<longleftrightarrow> True"

lemma exact_prefix:
  assumes "plainRoutes (DataplaneEngine g)" "idxNodes (gIdx g) from \<noteq> None"
  shows "exactTarget g from (PrefixTarget p)"
proof -
  have node: "idxNodes (dpIdx (DataplaneEngine g)) from \<noteq> None" using assms(2) by simp
  have d: "denotes (idxLinks (dpIdx (DataplaneEngine g))) (srrUnreachable (SymbolicRouteReachabilityVRF (DataplaneEngine g) from NetworkInstanceDefault p))
      (\<lambda>F. \<not> snd (RouteReachableVRF (DataplaneEngine g) from NetworkInstanceDefault p F))"
    by (rule route_denotes(2) [OF assms(1) node])
  then show ?thesis
    unfolding exactTarget_def using closed_denotes [OF d] denotes_eval [OF d]
    by (simp add: routeSymbolicTargetResult_def SymbolicRouteReachability_def RouteReachable_def FailureContext_def)
qed

lemma exact_packet:
  assumes net: "usableNet (gTopo g) (DataplaneEngine g)" and node: "idxNodes (gIdx g) from \<noteq> None"
    and ok: "supportedTarget g from (PacketTarget to protocol port vrf)"
  shows "exactTarget g from (PacketTarget to protocol port vrf)"
proof -
  let ?dp = "DataplaneEngine g"
  obtain n dst where origin: "originForIPVRF ?dp to vrf = Some (n, dst)" and iso: "isolated ?dp (NormalizeNetworkInstance vrf) dst to"
    using ok by (auto split: option.splits)
  have node': "idxNodes (dpIdx ?dp) from \<noteq> None" using node by simp
  have c: "closedCond ?dp (And [NodeVar from, NodeVar n])"
    using indexed_plain [OF net node'] origin_indexed(2) [OF net origin] by (simp add: closed_And closed_NodeVar)
  define r where "r = SymbolicPacketReachabilitySpecVRF ?dp from vrf to (targetSpec protocol port)"
  have r: "r = symbolicPacketReachabilityForPrefixSet ?dp from (NormalizeNetworkInstance vrf) (ExactPrefixSet dst)
      (targetSpec protocol port) (And [NodeVar from, NodeVar n])"
    using origin node by (auto simp: r_def SymbolicPacketReachabilitySpecVRF_def)
  have closed: "closedCond ?dp (srReachable r)" and comp: "srUnreachable r = Not (srReachable r)"
    using reach_closed [OF net node' c r] by blast+
  have "holds ?dp F (srReachable r) \<longleftrightarrow> TargetReachable (PacketTarget to protocol port vrf) g from F" for F
    using packet_parity [OF net node' origin iso, of "traceFuel g" F "targetSpec protocol port"]
    by (auto simp: r_def traceFuel_def arrived_def split: option.splits)
  then have "holds ?dp F (Not (srReachable r)) \<longleftrightarrow> \<not> TargetReachable (PacketTarget to protocol port vrf) g from F" for F
    unfolding holds_Not [OF closed] by simp
  then show ?thesis
    unfolding exactTarget_def using closed by (simp add: packetSymbolicTargetResult_def r_def [symmetric] comp closed_Not)
qed

lemma exact_targets:
  assumes "usableNet (gTopo g) (DataplaneEngine g)" "idxNodes (gIdx g) from \<noteq> None" "supportedTarget g from t"
  shows "exactTarget g from t"
proof -
  note sets = set_reach_complements [OF assms(1) refl] and routes = route_set_complements [OF assms(1) refl]
  have ctx: "evalCond (graphContext g F) = holds (DataplaneEngine g) F" for F by (simp add: graphContext_eq)
  show ?thesis
  proof (cases t)
    case (RoutePrefixSetTarget space vrf)
    have "snd (RouteReachableForPrefixSetVRF (DataplaneEngine g) from vrf space F)
        = holds (DataplaneEngine g) F (srrReachable (SymbolicRouteReachabilityForPrefixSetVRF (DataplaneEngine g) from vrf space))" for F
      unfolding routes(3) by (auto simp: RouteReachableForPrefixSetVRF_def find_None_iff find_Some_iff split: option.splits)
    then show ?thesis
      using routes(1) by (simp add: RoutePrefixSetTarget exactTarget_def complements_def routeSymbolicTargetResult_def)
  next
    case (RouteClassTarget universe classID vrf)
    let ?r = "SymbolicRouteReachabilityForClassVRF (DataplaneEngine g) from vrf universe classID"
    have "complements (DataplaneEngine g) (srrReachable ?r) (srrUnreachable ?r)"
      using routes(1) by (auto simp: SymbolicRouteReachabilityForClassVRF_def routeFailure_def complements_const split: option.splits)
    then show ?thesis
      by (simp add: RouteClassTarget exactTarget_def complements_def routeSymbolicTargetResult_def ctx)
  next
    case (PacketClassTarget universe classID protocol port vrf)
    let ?r = "classReachability g from universe classID protocol port vrf"
    have "complements (DataplaneEngine g) (srReachable ?r) (srUnreachable ?r)"
      using sets by (auto simp: classReachability_def noReach_def complements_const split: option.splits)
    then show ?thesis
      by (simp add: PacketClassTarget exactTarget_def complements_def packetSymbolicTargetResult_def ctx)
  next
    case (HeaderPacketClassTarget c)
    let ?r = "SymbolicPacketReachabilityForPacketClass (DataplaneEngine g) from c"
    have "complements (DataplaneEngine g) (srReachable ?r) (srUnreachable ?r)"
      using sets by (simp add: SymbolicPacketReachabilityForPacketClass_def SymbolicPacketReachabilityForPrefixSetSpec_def
          noReach_def complements_const)
    then show ?thesis
      by (simp add: HeaderPacketClassTarget exactTarget_def complements_def packetSymbolicTargetResult_def ctx)
  qed (use assms exact_prefix exact_packet in auto)
qed


lemma FindBreakingFailuresSymbolic_answer:
  assumes "gSolver g = Some b" "0 \<le> MaxFailures opts" "failureElements g opts \<noteq> []"
    and "asBackend b (symbolicFailureProblem g from t opts (failureElements g opts)) = Inr ans"
  shows "\<exists>trace. FindBreakingFailuresSymbolic g from t opts
    = (\<lparr>frSat = Sat ans, frFailures = ansFailures ans, frSolver = trace\<rparr>, None)"
  using assms by (simp add: FindBreakingFailuresSymbolic_def Let_def solveSymbolicFailureProblem_def asBackend_Inr)

lemma properElements_failureElements: "properElements (failureElements g opts)"
  using properElements_SearchElements by (simp add: failureElements_def properElements_def)

lemma exact_goal:
  assumes "exactTarget g from t"
  shows "plainCond (trUnreachable (SymbolicResult t g from))"
    "evalCond \<lparr>Failures = F, LinksByName = Map.empty\<rparr> (trUnreachable (SymbolicResult t g from)) \<longleftrightarrow> \<not> TargetReachable t g from F"
  using assms by (simp_all add: exactTarget_def closedCond_def)

text \<open>
  C1 (the search for breaking failures is exact). The target is supported: the route to a prefix, where
  the routes and conditions have plain names; a packet to an address, where the advertised prefix of
  the address is isolated, no table entry and no other originated prefix lying inside it or overlapping
  it; or a set or class of prefixes. A packet target given by a prefix is not, and without isolation the
  claim is false. For such a target, some eligible elements, and a backend that keeps the contract of
  \<open>Solver\<close>, the search returns without an error; it answers \<open>Sat\<close> exactly when some combination of
  at most \<open>MaxFailures\<close> of the eligible elements makes the simulation lose the target, and the
  failures it returns then do so.
\<close>

theorem FindBreakingFailuresSymbolic_exact:
  assumes "usableNet (gTopo g) (DataplaneEngine g)" "idxNodes (gIdx g) from \<noteq> None" "supportedTarget g from t"
    and b: "gSolver g = Some b" "total_backend (asBackend b)"
    and opts: "0 \<le> MaxFailures opts" "failureElements g opts \<noteq> []"
  shows "\<exists>res. FindBreakingFailuresSymbolic g from t opts = (res, None)
    \<and> (frSat res \<longleftrightarrow> (\<exists>es. subseq es (failureElements g opts) \<and> int (length es) \<le> MaxFailures opts
                          \<and> \<not> TargetReachable t g from (SetFromElements es)))
    \<and> (frSat res \<longrightarrow> \<not> TargetReachable t g from (SetFromElements (frFailures res)))"
proof -
  let ?p = "symbolicFailureProblem g from t opts (failureElements g opts)"
  note goal = exact_goal [OF exact_targets [OF assms(1-3)]]
  note p = symbolicFailureProblem_def
  obtain ans where ans: "asBackend b ?p = Inr ans" and sat: "Sat ans \<longleftrightarrow> (\<exists>F. solves ?p F)"
    using total_backend.decides [OF b(2)] by blast
  obtain trace where r: "FindBreakingFailuresSymbolic g from t opts
      = (\<lparr>frSat = Sat ans, frFailures = ansFailures ans, frSolver = trace\<rparr>, None)"
    using FindBreakingFailuresSymbolic_answer [OF b(1) opts ans] ..
  have "\<not> TargetReachable t g from (SetFromElements (ansFailures ans))" if "Sat ans"
  proof -
    have "solves ?p (set (ansFailures ans))"
      using solver_backend.sat_sound [OF total_backend.axioms(1) [OF b(2)] ans that] .
    then show ?thesis
      using solves_elements [OF _ goal(1)] properElements_failureElements goal(2) by (simp add: p)
  qed
  then show ?thesis
    using r sat solves_combinations [OF goal(1) properElements_failureElements p] goal(2) by simp
qed

section \<open>An example\<close>

definition enumeratingBackend :: sim_backend where
  "enumeratingBackend p = (solveLoop p 0, None)"

lemma asBackend_enumerating: "asBackend enumeratingBackend = SolveSymbolic"
  by (rule ext) (simp add: asBackend_def enumeratingBackend_def SolveSymbolic_def)

definition exampleGraph :: "topology_index \<Rightarrow> graph" where
  "exampleGraph idx = \<lparr>gTopo = exampleNet exampleNarrow, gIdx = idx, gRIB = [], gFIB = exampleTwoRoutes,
     gSolver = Some enumeratingBackend, gMaxFailures = -1, gProfiles = builtinProfiles,
     gOrder = topoNodes (exampleNet exampleNarrow)\<rparr>"

definition nodeFailureSearch :: search_options where
  "nodeFailureSearch = \<lparr>IncludeLinkElements = False, IncludeNodeElements = True, MaxFailures = 1, SearchDomain = zeroFailureDomain\<rparr>"

lemma exampleGraph_engine: "DataplaneEngine (exampleGraph idx) = netDataplane exampleNarrow idx exampleTwoRoutes"
  by (simp add: DataplaneEngine_def exampleGraph_def netDataplane_def)

lemma exampleGraph_elements: "failureElements (exampleGraph idx) nodeFailureSearch
    = [\<lparr>feKind = FailureNode, feName = ''a''\<rparr>, \<lparr>feKind = FailureNode, feName = ''b''\<rparr>]"
  by (simp add: failureElements_def nodeFailureSearch_def SearchElements_def Let_def exampleGraph_def exampleNet_def originNode_def
      zeroNode_def sortSlice_def nodeEligible_def stringSet_def DefaultWANFailureDomain_def failureDomainIsZero_def zeroFailureDomain_def)

theorem FindBreakingFailuresSymbolic_exact_witness:
  "\<exists>idx res. BuildTopologyIndex (exampleNet exampleNarrow) = Inr idx
     \<and> FindBreakingFailuresSymbolic (exampleGraph idx) ''a'' (PacketTarget ''10.1.2.3'' ''tcp'' 80 NetworkInstanceDefault) nodeFailureSearch = (res, None)
     \<and> frSat res
     \<and> \<not> TargetReachable (PacketTarget ''10.1.2.3'' ''tcp'' 80 NetworkInstanceDefault) (exampleGraph idx) ''a'' (SetFromElements (frFailures res))"
proof -
  obtain idx where built: "BuildTopologyIndex (exampleNet exampleNarrow) = Inr idx" using exampleNet_built by blast
  let ?g = "exampleGraph idx" and ?t = "PacketTarget ''10.1.2.3'' ''tcp'' 80 NetworkInstanceDefault"
  have g: "gTopo ?g = exampleNet exampleNarrow" "gIdx ?g = idx" "gSolver ?g = Some enumeratingBackend" by (simp_all add: exampleGraph_def)
  have origin: "originForIPVRF (DataplaneEngine ?g) ''10.1.2.3'' NetworkInstanceDefault = Some (''b'', exampleNarrow)"
    unfolding exampleGraph_engine by (rule exampleNet_origin [OF parseAddr_example]) (simp add: exampleNarrow_def prefix_eval)
  have "usableNet (gTopo ?g) (DataplaneEngine ?g)"
    unfolding exampleGraph_engine g by (rule exampleNet_usable [OF built plainFIB_two]) (simp add: exampleNarrow_def)
  moreover have "supportedTarget ?g ''a'' ?t"
    using origin isolated_two by (simp add: exampleGraph_engine)
  moreover have "idxNodes (gIdx ?g) ''a'' \<noteq> None" using exampleNet_nodes [OF built] g by simp
  moreover have "total_backend (asBackend enumeratingBackend)"
    unfolding asBackend_enumerating by (rule enumerate.total_backend_axioms)
  moreover have "0 \<le> MaxFailures nodeFailureSearch" "failureElements ?g nodeFailureSearch \<noteq> []"
    unfolding exampleGraph_elements by (simp_all add: nodeFailureSearch_def)
  ultimately obtain res where res: "FindBreakingFailuresSymbolic ?g ''a'' ?t nodeFailureSearch = (res, None)"
    "frSat res \<longleftrightarrow> (\<exists>es. subseq es (failureElements ?g nodeFailureSearch) \<and> int (length es) \<le> MaxFailures nodeFailureSearch
        \<and> \<not> TargetReachable ?t ?g ''a'' (SetFromElements es))"
    "frSat res \<longrightarrow> \<not> TargetReachable ?t ?g ''a'' (SetFromElements (frFailures res))"
    using FindBreakingFailuresSymbolic_exact [of ?g "''a''" ?t enumeratingBackend nodeFailureSearch] g(3) by blast
  have "\<not> TargetReachable ?t ?g ''a'' (SetFromElements [\<lparr>feKind = FailureNode, feName = ''a''\<rparr>])"
    using origin by (simp add: PacketReachableSpecVRF_def Let_def NodeFailed_def FailureContext_def SetFromElements_lookup arrived_def)
  then have "frSat res" unfolding res(2) exampleGraph_elements
    by (intro exI [of _ "[\<lparr>feKind = FailureNode, feName = ''a''\<rparr>]"]) (simp add: nodeFailureSearch_def)
  then show ?thesis using built res by blast
qed

end
