(* ===== verification/Graph_Build.thy ===== *)
theory Graph_Build
  imports Simulation_Run Sim
begin

text \<open>
  \<open>NewGraph\<close> of \<open>internal/engine/sim/sim.go\<close>: the index of a topology, the run of the control plane
  and the forwarding tables derived from it. What the theories of the data plane and of the failure
  search assume of a network is shown to hold of every graph it builds.
\<close>

section \<open>Building a graph\<close>

text \<open>An option may be \<open>nil\<close>.\<close>

definition applyOptions :: "('a \<Rightarrow> 'a) option list \<Rightarrow> 'a \<Rightarrow> 'a" where
  "applyOptions opts x = fold (\<lambda>opt y. case opt of None \<Rightarrow> y | Some f \<Rightarrow> f y) opts x"

definition engineWithMaxFailures :: "int \<Rightarrow> engine \<Rightarrow> engine" where
  "engineWithMaxFailures n e = e\<lparr>engMaxFailures := n\<rparr>"

definition NewEngine :: "behavior_registry \<Rightarrow> regexp_match \<Rightarrow> topology_index \<Rightarrow> (engine \<Rightarrow> engine) option list \<Rightarrow> engine" where
  "NewEngine behaviors regexp idx opts =
     applyOptions opts \<lparr>engBehaviors = behaviors, engRegexp = regexp, engIdx = idx, engMaxFailures = - 1\<rparr>"

text \<open>
  What is outside the program and what is left open by it: the registries, regular expressions, the
  order of the nodes in maps, the depth of propagation and the orders of the convergence loops.
\<close>

record build_env =
  beBehaviors :: behavior_registry
  beProfiles :: profile_registry
  beRegexp :: regexp_match
  beNodeOrder :: "node list"
  beFuel :: nat
  beOrders :: "nat \<Rightarrow> rib_key list \<Rightarrow> rib_key list"
  beFinalOrders :: "nat \<Rightarrow> rib_key list \<Rightarrow> rib_key list"

datatype build_error = IndexError index_error | EngineError converge_error

definition emptyGraph :: "build_env \<Rightarrow> topology \<Rightarrow> topology_index \<Rightarrow> graph" where
  "emptyGraph env topo idx = \<lparr>gTopo = topo, gIdx = idx, gRIB = [], gFIB = [], gSolver = None, gMaxFailures = - 1,
     gProfiles = beProfiles env, gOrder = beNodeOrder env\<rparr>"

definition graphEngine :: "build_env \<Rightarrow> graph \<Rightarrow> engine" where
  "graphEngine env g = NewEngine (beBehaviors env) (beRegexp env) (gIdx g)
     (if 0 \<le> gMaxFailures g then [Some (engineWithMaxFailures (gMaxFailures g))] else [])"

definition NewGraph :: "build_env \<Rightarrow> (graph \<Rightarrow> graph) option list \<Rightarrow> topology \<Rightarrow> build_error + graph" where
  "NewGraph env opts topo =
     (case BuildTopologyIndex topo of
        Inl err \<Rightarrow> Inl (IndexError err)
      | Inr idx \<Rightarrow>
          (let g = applyOptions opts (emptyGraph env topo idx); e = graphEngine env g
           in case Simulate (beFuel env) e (beOrders env) (beFinalOrders env) (gRIB g) of
                Inl err \<Rightarrow> Inl (EngineError err)
              | Inr rib \<Rightarrow> Inr (g\<lparr>gRIB := rib, gFIB := DeriveFIB e rib (gFIB g)\<rparr>)))"

section \<open>Forwarding entries of a run\<close>

text \<open>An entry whose condition is present, is over plain names and keeps its path up.\<close>

definition fibRouted :: "fib_entry \<Rightarrow> bool" where
  "fibRouted x \<longleftrightarrow> plainName (feNextHop x) \<and> (\<exists>c. feCondition x = Some c \<and> plainCond c
     \<and> (\<forall>ctx. evalCond ctx c \<longrightarrow> (\<forall>n \<in> set (pathNodes (fePath x)). \<not> NodeFailed ctx n)
                                 \<and> (\<forall>l \<in> set (pathLinks (fePath x)). \<not> LinkFailed ctx l)))"

lemma fibRouted_plain: "fibRouted x \<Longrightarrow> plainFIBEntry x \<and> plainName (feNextHop x)"
  by (auto simp: fibRouted_def plainFIBEntry_def condOrTrue_def)

lemma fibRouted_marks [simp]:
  "fibRouted (x\<lparr>feEquivalent := b\<rparr>) = fibRouted x" "fibRouted (x\<lparr>feNextHops := hs\<rparr>) = fibRouted x"
  by (simp_all add: fibRouted_def)

lemma fibRouted_entry:
  assumes "routed adjacent n r" "rbSelectedCond r \<noteq> None"
  shows "fibRouted (fibEntryFor idx vrf g (Normalize r))"
proof -
  obtain c where "rbSelectedCond r = Some c" using assms(2) by blast
  moreover from this have "plainCond c" using assms(1) by (auto simp: routed_def plainEntry_def)
  ultimately show ?thesis using assms(1)
    by (auto simp: fibRouted_def fibEntryFor_def Let_def routed_def pathUp_def)
qed

lemma deriveRoute_routed:
  assumes "routed adjacent m r" "rbSelectedCond r \<noteq> None" "\<forall>x \<in> set (dsEntries st). fibRouted x"
  shows "\<forall>x \<in> set (dsEntries (deriveRoute e b n vrf r st)). fibRouted x"
proof -
  have "\<forall>x \<in> set (map (\<lambda>x. if feGroupID x = i then x\<lparr>feEquivalent := True\<rparr> else x) (dsEntries st)). fibRouted x" for i
    using assms(3) by auto
  then show ?thesis using fibRouted_entry [OF assms(1,2)] assms(3)
    by (cases "routeGroupFor (DecisionProcess b) n (dsGroups st) (Normalize r)") (simp add: deriveRoute_def Let_def)
qed

lemma derivePrefix_routed:
  assumes "\<forall>r \<in> set routes. routed adjacent m r \<and> rbSelectedCond r \<noteq> None" "\<forall>x \<in> set entries. fibRouted x"
  shows "\<forall>x \<in> set (derivePrefix e b n vrf routes entries). fibRouted x"
proof -
  have "\<forall>x \<in> set (dsEntries (fold (deriveRoute e b n vrf) rs st)). fibRouted x"
    if "\<forall>r \<in> set rs. routed adjacent m r \<and> rbSelectedCond r \<noteq> None" "\<forall>x \<in> set (dsEntries st). fibRouted x" for rs st
    using that
  proof (induction rs arbitrary: st)
    case (Cons r rs)
    have "\<forall>x \<in> set (dsEntries (deriveRoute e b n vrf r st)). fibRouted x"
      by (rule deriveRoute_routed [of adjacent m]) (use Cons.prems in simp_all)
    from Cons.IH [OF _ this] Cons.prems(1) show ?case by simp
  qed simp
  note all = this
  show ?thesis unfolding derivePrefix_def by (rule all) (use assms in \<open>simp_all only: set_sortSlice derive_state.select_convs\<close>)
qed

lemma deriveVRF_routed:
  assumes "\<forall>n r. ribHolds rib n r \<longrightarrow> routed adjacent n r \<and> rbSelectedCond r \<noteq> None"
  shows "\<forall>x \<in> set (deriveVRF e rib n vrf). fibRouted x"
proof -
  let ?n = "engineNode e n" let ?b = "BehaviorFor (engBehaviors e) (nodeKind ?n)"
  let ?step = "\<lambda>(k, routes) entries. if fst k = n \<and> fst (snd k) = vrf then derivePrefix e ?b ?n vrf routes entries else entries"
  have "\<forall>x \<in> set (fold ?step rs entries). fibRouted x"
    if "set rs \<subseteq> set rib" "\<forall>x \<in> set entries. fibRouted x" for rs entries
    using that
  proof (induction rs arbitrary: entries)
    case (Cons k_routes rs)
    obtain k routes where kr: "k_routes = (k, routes)" by (cases k_routes) blast
    have "\<forall>r \<in> set routes. routed adjacent (fst k) r \<and> rbSelectedCond r \<noteq> None"
    proof
      fix r assume "r \<in> set routes"
      then have "ribHolds rib (fst k) r" using Cons.prems(1) kr by (auto simp: ribHolds_def)
      then show "routed adjacent (fst k) r \<and> rbSelectedCond r \<noteq> None" using assms by blast
    qed
    then have "\<forall>x \<in> set (?step (k, routes) entries). fibRouted x"
      using derivePrefix_routed Cons.prems(2) by simp
    then show ?case using Cons.IH Cons.prems(1) by (simp add: kr)
  qed simp
  from this [of rib "[]"] have "\<forall>x \<in> set (fold ?step rib []). fibRouted x" by simp
  then show ?thesis by (auto simp: deriveVRF_def populateECMPNextHops_def Let_def)
qed

lemma DeriveFIB_routed:
  assumes "\<forall>n r. ribHolds rib n r \<longrightarrow> routed adjacent n r \<and> rbSelectedCond r \<noteq> None" "(k, es) \<in> set (DeriveFIB e rib [])" "x \<in> set es"
  shows "fibRouted x"
proof -
  have "\<forall>(k, es) \<in> set (fold (\<lambda>(n, vrf). AList.update (n, vrf) (deriveVRF e rib n vrf)) ks fib). \<forall>x \<in> set es. fibRouted x"
    if "\<forall>(k, es) \<in> set fib. \<forall>x \<in> set es. fibRouted x" for ks fib
    using that
  proof (induction ks arbitrary: fib)
    case (Cons k ks)
    obtain n vrf where k: "k = (n, vrf)" by force
    have "\<forall>(k, es) \<in> set (AList.update (n, vrf) (deriveVRF e rib n vrf) fib). \<forall>x \<in> set es. fibRouted x"
      using Cons.prems deriveVRF_routed [OF assms(1)] set_update_subset [of "(n, vrf)" "deriveVRF e rib n vrf" fib] by fast
    then show ?case using Cons.IH by (simp add: k)
  qed simp
  from this [of "[]"] show ?thesis using assms(2,3) unfolding DeriveFIB_def by fastforce
qed

lemma fibBucket_entry: "x \<in> set (fibBucket fib n vrf) \<Longrightarrow> \<exists>es. ((n, vrf), es) \<in> set fib \<and> x \<in> set es"
  by (cases "map_of fib (n, vrf)") (auto simp: fibBucket_def dest: map_of_SomeD)

section \<open>The graphs that are built\<close>

text \<open>The options the package offers.\<close>

definition graphOption :: "(graph \<Rightarrow> graph) option \<Rightarrow> bool" where
  "graphOption opt \<longleftrightarrow> (case opt of None \<Rightarrow> True
     | Some f \<Rightarrow> (\<exists>b. f = WithSolverBackend b) \<or> (\<exists>m. f = WithMaxFailures m))"

lemma applyOptions_graph:
  assumes "list_all graphOption opts"
  shows "gTopo (applyOptions opts g) = gTopo g \<and> gIdx (applyOptions opts g) = gIdx g \<and> gRIB (applyOptions opts g) = gRIB g
    \<and> gFIB (applyOptions opts g) = gFIB g \<and> gOrder (applyOptions opts g) = gOrder g \<and> gProfiles (applyOptions opts g) = gProfiles g"
  using assms unfolding applyOptions_def
  by (induction opts arbitrary: g)
     (auto simp: graphOption_def WithSolverBackend_def WithMaxFailures_def split: option.splits)

lemma graphEngine_idx: "engIdx (graphEngine env g) = gIdx g"
  by (simp add: graphEngine_def NewEngine_def applyOptions_def engineWithMaxFailures_def)

text \<open>
  C2 (the simulated network). For a topology with plain names, options of the package and a depth of
  propagation of no more than the number of nodes, \<open>NewGraph\<close> refuses exactly the topologies that
  cannot be indexed, and otherwise ends in a graph unless conditions do not converge or the prefix of
  an aggregate's contributor has no text. The graph is of the kind on which symbolic and concrete
  forwarding and the failure search are proved to agree; every entry of its forwarding tables has a
  condition, and when that holds all nodes and links of the entry's path are up.
\<close>

theorem NewGraph_usable:
  assumes "plainTopology topo" "mset (beNodeOrder env) = mset (topoNodes topo)" "length (topoNodes topo) \<le> beFuel env"
    and "list_all graphOption opts"
  shows "case NewGraph env opts topo of
      Inl (IndexError err) \<Rightarrow> \<not> indexable topo
    | Inl (EngineError (WalkError err)) \<Rightarrow> \<exists>s. err = BadPrefixString s
    | Inl (EngineError (NotConverged m rib)) \<Rightarrow> \<forall>n r. ribHolds rib n r \<longrightarrow> plainEntry r
    | Inr g \<Rightarrow> gTopo g = topo \<and> indexable topo \<and> usableNet topo (DataplaneEngine g)
        \<and> (\<forall>n vrf. \<forall>x \<in> set (fibBucket (gFIB g) n vrf). \<exists>c. feCondition x = Some c \<and> (\<forall>ctx. evalCond ctx c \<longrightarrow>
            (\<forall>n \<in> set (pathNodes (fePath x)). \<not> NodeFailed ctx n) \<and> (\<forall>l \<in> set (pathLinks (fePath x)). \<not> LinkFailed ctx l)))"
proof (cases "BuildTopologyIndex topo")
  case (Inl err)
  then show ?thesis using BuildTopologyIndex_spec [of topo] by (simp add: NewGraph_def)
next
  case (Inr idx)
  define g where "g = applyOptions opts (emptyGraph env topo idx)"
  have g: "gTopo g = topo" "gIdx g = idx" "gRIB g = []" "gFIB g = []" "gOrder g = beNodeOrder env"
    using applyOptions_graph [OF assms(4), of "emptyGraph env topo idx"] by (simp_all add: g_def emptyGraph_def)
  let ?e = "graphEngine env g"
  have e: "engIdx ?e = idx" by (simp add: graphEngine_idx g)
  have run: "runnable ?e (beFuel env)"
    using runnable_built [of topo ?e] Inr assms(1,3) by (simp add: e plainTopology_def)
  have new: "NewGraph env opts topo = (case Simulate (beFuel env) ?e (beOrders env) (beFinalOrders env) [] of
      Inl err \<Rightarrow> Inl (EngineError err) | Inr rib \<Rightarrow> Inr (g\<lparr>gRIB := rib, gFIB := DeriveFIB ?e rib []\<rparr>))"
    by (simp add: NewGraph_def Inr g Let_def split: sum.split flip: g_def)
  consider s where "Simulate (beFuel env) ?e (beOrders env) (beFinalOrders env) [] = Inl (WalkError (BadPrefixString s))"
    | m rib where "Simulate (beFuel env) ?e (beOrders env) (beFinalOrders env) [] = Inl (NotConverged m rib)" "tablesOK ?e rib"
    | rib where "Simulate (beFuel env) ?e (beOrders env) (beFinalOrders env) [] = Inr rib" "tablesIn True ?e rib"
    using Simulate_outcome [OF run, of "beOrders env" "beFinalOrders env"] by (auto split: sum.splits converge_error.splits)
  then show ?thesis
  proof cases
    case 3
    let ?g = "g\<lparr>gRIB := rib, gFIB := DeriveFIB ?e rib []\<rparr>"
    have rib: "\<forall>n r. ribHolds rib n r \<longrightarrow> routed (idxAdj idx) n r \<and> rbSelectedCond r \<noteq> None"
      using 3(2) by (simp add: tablesIn_True e)
    note fib = DeriveFIB_routed [OF rib]
    have "plainFIB (DeriveFIB ?e rib [])"
      unfolding plainFIB_def list_all_iff using fib fibRouted_plain by fast
    then have "usableNet topo (DataplaneEngine ?g)"
      using Inr assms(1,2) by (simp add: usableNet_def builtFrom_def DataplaneEngine_def g)
    moreover have "fibRouted x" if "x \<in> set (fibBucket (DeriveFIB ?e rib []) n vrf)" for x n vrf
      using fibBucket_entry [OF that] fib by fast
    ultimately show ?thesis using 3(1) BuildTopologyIndex_spec [of topo] Inr
      by (simp add: new g fibRouted_def) blast
  qed (auto simp: new tablesOK_def routed_def)
qed

definition runEnv :: build_env where
  "runEnv = \<lparr>beBehaviors = builtinBehaviors, beProfiles = builtinProfiles, beRegexp = (\<lambda>p s. None),
     beNodeOrder = rev (topoNodes ospfNet), beFuel = 2, beOrders = (\<lambda>_ ks. ks), beFinalOrders = (\<lambda>_ ks. rev ks)\<rparr>"

theorem NewGraph_usable_witness:
  "case NewGraph runEnv [None, Some (WithMaxFailures 1)] ospfNet of
      Inl (IndexError err) \<Rightarrow> \<not> indexable ospfNet
    | Inl (EngineError (WalkError err)) \<Rightarrow> \<exists>s. err = BadPrefixString s
    | Inl (EngineError (NotConverged m rib)) \<Rightarrow> \<forall>n r. ribHolds rib n r \<longrightarrow> plainEntry r
    | Inr g \<Rightarrow> gTopo g = ospfNet \<and> indexable ospfNet \<and> usableNet ospfNet (DataplaneEngine g)
        \<and> (\<forall>n vrf. \<forall>x \<in> set (fibBucket (gFIB g) n vrf). \<exists>c. feCondition x = Some c \<and> (\<forall>ctx. evalCond ctx c \<longrightarrow>
            (\<forall>n \<in> set (pathNodes (fePath x)). \<not> NodeFailed ctx n) \<and> (\<forall>l \<in> set (pathLinks (fePath x)). \<not> LinkFailed ctx l)))"
proof (rule NewGraph_usable)
  show "plainTopology ospfNet"
    by (simp add: plainTopology_def ospfNet_def ospfNode_def exampleLink_def plainName_def zeroNode_def)
  show "mset (beNodeOrder runEnv) = mset (topoNodes ospfNet)" "length (topoNodes ospfNet) \<le> beFuel runEnv"
    by (simp_all add: runEnv_def ospfNet_def)
  show "list_all graphOption [None, Some (WithMaxFailures 1)]" by (auto simp: graphOption_def)
qed

end
