(* ===== verification/Spec2Isabelle.thy ===== *)
theory Spec2Isabelle
  imports Traffic_Failure_Laws Prune Solver Device_Profile Validate ACL Engine_Convergence Racing Graph_Build
begin

text \<open>
  Hoyan Lab: a verification library for the network simulator under \<open>internal/\<close>.

  The program and its parts. A topology of routers, links, access lists and routing configuration is
  checked and indexed; the control plane spreads routes over BGP, OSPF, static and connected sources and
  attaches to every route a condition on failures of links and nodes; the data plane derives forwarding
  tables, traces packets under a given set of failures, and walks them symbolically, gathering the
  condition under which they arrive; a solver then looks for failures that break a target. A separate
  engine spreads traffic over the forwarding tables.

  Vocabulary. \<open>Prelude\<close> holds Go strings, Go integers (\<open>goInt\<close> wraps a sum to 64 bits where the code
  adds without a check), loops that collect under a map of seen keys, and \<open>sort.Slice\<close> with any
  comparison (\<open>sortSlice\<close>, the insertion sort Go uses up to twelve elements; results that depend on more
  than a strict weak order say so). \<open>Netip\<close> is the part of \<open>net/netip\<close> in use, \<open>Float64\<close> the rounding of
  \<open>float64\<close>, with error bounds, \<open>Container_Heap\<close> the package \<open>container/heap\<close>.

  Domain model (\<open>internal/domain/model\<close>, \<open>device\<close>). \<open>Prefix_Set\<close> and \<open>Packet\<close>: prefix sets, ports and
  packet specifications; overlap is existence of a common address. \<open>Prefix_Universe\<close> and \<open>Header_Space\<close>:
  the classes of destinations and of packets a configuration distinguishes. \<open>Topology\<close>,
  \<open>Topology_Index\<close>, \<open>Validate\<close>, \<open>Device_Profile\<close>: configuration data, lookup tables, checks, vendors.
  \<open>ACL\<close>: access lists.

  Failures (\<open>internal/domain/failure\<close>, \<open>symbolic\<close>, \<open>solver\<close>). \<open>Failure_Set\<close>, \<open>Condition\<close>, \<open>Symbolic\<close>: sets of
  failures, conditions with their normal form, keys, simplification and expansion; \<open>Solver\<close>: the
  contract of a backend as a locale, the enumerating backend and the fallback that satisfy it.

  Routing (\<open>internal/domain/routing\<close>). \<open>Route\<close>, \<open>Decision\<close>, \<open>Behavior\<close>, \<open>Route_Policy\<close>: candidates, the
  decision process, export and import per vendor, route maps. \<open>Prune\<close>: pruning by conditions.
  \<open>Propagation\<close>: the recursive walk of a route over the sessions, with an explicit depth; a locale states
  what the tables of a walk promise, and the engine interprets it.

  Control plane (\<open>internal/engine/controlplane\<close>). \<open>Engine\<close> holds the tables and their phases,
  \<open>Engine_Laws\<close>, \<open>Engine_Selection\<close> and \<open>Engine_Convergence\<close> prove propagation, selected conditions and
  the fixpoint of advertisement; \<open>Racing\<close> is the racing analysis; \<open>OSPF\<close> the link-state part, whose
  search \<open>OSPF_Paths\<close> proves; \<open>Simulation\<close>, \<open>Simulation_OSPF\<close> and \<open>Simulation_Run\<close> the whole run.

  Data plane and search (\<open>internal/engine/dataplane\<close>, \<open>sim\<close>). \<open>FIB\<close> and \<open>Symbolic_FIB\<close>: forwarding tables,
  lookup and symbolic lookup; \<open>Reachability\<close>: traces of packets and routes; \<open>Symbolic_Forward\<close> and
  \<open>Symbolic_Packets\<close>: the symbolic walk, its agreement with the trace and its explanations; \<open>Sim\<close> and
  \<open>Graph_Build\<close>: the graph, its targets, the search for breaking failures, and how a graph is built.

  Traffic (\<open>internal/engine/traffic\<close>, \<open>model/tdg.go\<close>). \<open>Traffic\<close>, \<open>Traffic_Classes\<close> and \<open>Traffic_Failure\<close>
  are the definitions; \<open>Traffic_Laws\<close>, \<open>Traffic_Traverse\<close> and \<open>Traffic_Failure_Laws\<close> the proofs.

  What the groups of lemmas show. Data: membership and printing of sets, keys that identify what they
  encode, sorted and exact indices. Conditions: every rewriting keeps their meaning, so evaluation under
  a set of failures can be pushed through the symbolic layers (\<open>denotes\<close>). Control plane: every installed
  entry carries the condition of a path of the topology, selection partitions the failures, convergence
  is a fixpoint. Data plane: a lookup is a longest match, traces end, and the symbolic results agree
  with the traces, up to the restrictions each statement names. Search: exact and minimal. The theorems
  that end in a defect (pruning of alternatives, tied local routes, aggregates over alternatives, entries
  inside a destination prefix, racing that never returns) hold of the code as it is.

  Bounds and fuel. A walk of BGP routes visits a node at most once unless it races, so as much fuel as
  there are nodes is enough, and that is proved, as it is for the depth of a packet trace. The rounds of
  convergence are limited by the code itself, and running out of them is its error. The racing walk may
  not end; its fuel can only be used up. The enumeration of OSPF paths needs no fuel: an item is replaced
  by longer ones, up to as many nodes as there are. Loops over queues with a visited set end by the
  number of nodes not yet visited. Costs of OSPF paths are exact as
  long as the greatest cost times the number of nodes is an \<open>int\<close>, which its theorem assumes.

  Left open. Orders of maps are arguments (the order of nodes of a table, of arriving results), regular
  expressions and an external solver are parameters with their contracts, and panics are errors. Names
  of nodes and links are assumed free of the two characters that condition keys use (\<open>plainName\<close>), as the
  topology builder makes them.

  Not modelled: parsers of configurations and of the intent language, collection from devices and the
  comparison with their tables, the binding of Z3, the command line and printing. They are input and
  output around the parts above.
\<close>

section \<open>Properties across components\<close>

text \<open>
  The search for a failure scenario. Handing the expanded condition of a result to the
  enumerating solver, with the elements \<open>SearchElements\<close> chose, answers exactly whether some
  combination of at most \<open>MaxFailures\<close> of these elements makes the condition true in the network,
  a link being unusable when it or one of its end nodes is down.
\<close>

lemma failure_search_exact:
  assumes "plainCond c" "plainLinks m"
    and p: "p = \<lparr>spElements = SearchElements topo opts, spMaxFailures = MaxFailures opts,
              spGoal = BoolExpr (ExpandLinkVars c m)\<rparr>"
  shows "\<exists>ans. (SolveSymbolic p :: 'err + solver_answer) = Inr ans \<and>
    (Sat ans \<longleftrightarrow> (\<exists>es. subseq es (SearchElements topo opts) \<and> int (length es) \<le> MaxFailures opts
        \<and> evalCond \<lparr>Failures = SetFromElements es, LinksByName = m\<rparr> c))"
proof -
  let ?els = "SearchElements topo opts" and ?c = "ExpandLinkVars c m"
  have plain: "plainCond ?c" using ExpandLinkVars_plain_eval [OF assms(1,2)] by blast
  have eval: "evalSymbolicGoal (BoolExpr ?c) es = evalCond \<lparr>Failures = SetFromElements es, LinksByName = m\<rparr> c"
    if "subseq es ?els" for es
  proof -
    have "properElements es"
      using that properElements_SearchElements by (rule properElements_subseq [rotated])
    moreover have "evalCond \<lparr>Failures = SetFromElements es, LinksByName = Map.empty\<rparr> ?c
        = evalCond \<lparr>Failures = SetFromElements es, LinksByName = m\<rparr> c"
      using ExpandLinkVars_plain_eval [OF assms(1,2), of "\<lparr>Failures = SetFromElements es, LinksByName = m\<rparr>"]
      by (simp add: withLinks_def)
    ultimately show ?thesis using plain by (simp add: evalSymbolicGoal_BoolExpr)
  qed
  have "(\<exists>F. solves p F) \<longleftrightarrow> (\<exists>es. subseq es ?els \<and> int (length es) \<le> MaxFailures opts
        \<and> evalCond \<lparr>Failures = SetFromElements es, LinksByName = m\<rparr> c)"
  proof
    assume "\<exists>F. solves p F"
    then obtain F where F: "solves p F" ..
    then obtain es where "subseq es ?els" "set es = F" "length es = card F"
      using subseq_of_subset [of F ?els] by (auto simp: solves_def p)
    then show "\<exists>es. subseq es ?els \<and> int (length es) \<le> MaxFailures opts
        \<and> evalCond \<lparr>Failures = SetFromElements es, LinksByName = m\<rparr> c"
      using F eval by (auto simp: solves_def p goalUnder_set [symmetric])
  next
    assume "\<exists>es. subseq es ?els \<and> int (length es) \<le> MaxFailures opts
        \<and> evalCond \<lparr>Failures = SetFromElements es, LinksByName = m\<rparr> c"
    then obtain es where es: "subseq es ?els" "int (length es) \<le> MaxFailures opts"
        "evalCond \<lparr>Failures = SetFromElements es, LinksByName = m\<rparr> c" by blast
    then have "solves p (set es)"
      using eval subseq_subset card_length [of es] by (auto simp: solves_def p goalUnder_set [symmetric])
    then show "\<exists>F. solves p F" ..
  qed
  then show ?thesis using enumerate.decides [of p] by auto
qed

end
